(* ===== verification/Prelude.thy ===== *)
theory Prelude
  imports
    Complex_Main
    "HOL-Library.AList"
    "HOL-Library.Multiset"
    "HOL-Library.Product_Lexorder"
begin

text \<open>
  What every component of the development shares.

  \<^item> The result type of fallible code: every \<open>raise\<close> and every failing \<open>assert\<close> of the
    sources is one constructor of \<open>err\<close>, and a fallible function returns \<open>err + 'a\<close>.
  \<^item> Python's containers: a \<open>dict\<close> is an association list in insertion order, updated in place
    or at the end (the library's \<open>AList.update\<close>), a \<open>defaultdict(int)\<close> filled by
    \<open>d[k] += 1\<close> is \<open>tally\<close>, a set that is only iterated or tested is a list without
    duplicates.
  \<^item> Slices with a possibly negative bound, chunking, and the ranked selection
    \<open>sorted(..., key=lambda kv: (-kv[1], kv[0]))[:k]\<close> that three tools of the repository use,
    with the lemma that such a selection is a best one.
\<close>

named_theorems res_simps \<open>simplification rules for the result type\<close>
named_theorems dict_simps \<open>look-up rules for dictionaries and counters\<close>

subsection \<open>Errors as values\<close>

text \<open>
  One constructor for each place where the sources refuse an input. A line number is carried
  where the message of the source carries one.
\<close>

datatype err =
    MalformedRow nat | NonIntegerField nat | NegativeField nat | WrongFieldCount nat
  | TotalDisagrees | NegativeSlots | StableWindowTooSmall | NegativeHitEps
  | TopKNotPositive | NotAMultipleOfTopK | DuplicateLayerKey | LayerKeyMissing
  | BatchedCall int | NoDecodeRows | InvertedRange | EmptyCensus | Unattributed
  | NotPositive | NegativeBudget | BadDecileCount | BadForwardSize
  | OddCodeCount | CodeOutOfRange | NotWholeGroups | ShapeMismatch | UnknownFormat
  | WrongRoleSize | NotTwoDimensional | PayloadSizeMismatch | ShortWrite
  | RecordSizeMismatch | NeedsLayerKeys | LayerTwice int | KeyError | ValueErrorInt | IndexError
  | UsageError | ZeroDivision | ValueErr | AssertionErr | TypeErr | OSErr | OverflowErr | SystemExitErr | StructErr | AttributeErr | CaptureRefusal | RefusedDump | RuntimeErr

type_synonym 'a res = "err + 'a"

fun rbind :: "'a res \<Rightarrow> ('a \<Rightarrow> 'b res) \<Rightarrow> 'b res" where
  "rbind (Inl e) f = Inl e"
| "rbind (Inr x) f = f x"

fun map_res :: "('a \<Rightarrow> 'b res) \<Rightarrow> 'a list \<Rightarrow> 'b list res" where
  "map_res f [] = Inr []"
| "map_res f (x # xs) =
     rbind (f x) (\<lambda>y. rbind (map_res f xs) (\<lambda>ys. Inr (y # ys)))"

definition of_option :: "err \<Rightarrow> 'a option \<Rightarrow> 'a res" where
  "of_option e v = (case v of None \<Rightarrow> Inl e | Some x \<Rightarrow> Inr x)"

definition is_ok :: "'a res \<Rightarrow> bool" where
  "is_ok r = (case r of Inl _ \<Rightarrow> False | Inr _ \<Rightarrow> True)"

fun value_or :: "'a \<Rightarrow> 'a res \<Rightarrow> 'a" where
  "value_or d (Inl e) = d"
| "value_or d (Inr x) = x"

subsection \<open>Dictionaries, counters, slices\<close>

type_synonym ('k, 'v) dict = "('k \<times> 'v) list"

definition dict_get :: "('k, 'v) dict \<Rightarrow> 'k \<Rightarrow> 'v \<Rightarrow> 'v" where
  "dict_get d k v = (case map_of d k of None \<Rightarrow> v | Some x \<Rightarrow> x)"

text \<open>\<open>xs[i]\<close>, counting from the end for a negative index.\<close>

definition py_index :: "'a list \<Rightarrow> int \<Rightarrow> 'a res" where
  "py_index xs i =
     (if 0 \<le> i \<and> i < int (length xs) then Inr (xs ! nat i)
      else if - int (length xs) \<le> i \<and> i < 0 then Inr (xs ! nat (int (length xs) + i))
      else Inl IndexError)"

definition incr :: "int \<Rightarrow> 'k \<Rightarrow> ('k, int) dict \<Rightarrow> ('k, int) dict" where
  "incr c k d = AList.update k (dict_get d k 0 + c) d"

definition tally_onto :: "('k, int) dict \<Rightarrow> 'k list \<Rightarrow> ('k, int) dict" where
  "tally_onto d ks = fold (incr 1) ks d"

abbreviation tally :: "'k list \<Rightarrow> ('k, int) dict" where
  "tally \<equiv> tally_onto []"

text \<open>\<open>d = {}\<close> followed by \<open>d[k] = v\<close> for each pair in turn.\<close>

definition dict_of :: "('k \<times> 'v) list \<Rightarrow> ('k, 'v) dict" where
  "dict_of kvs = fold (\<lambda>(k, v) d. AList.update k v d) kvs []"

text \<open>\<open>d.setdefault(k, []).append(v)\<close> for each pair in turn.\<close>

definition add_to_group :: "'k \<times> 'v \<Rightarrow> ('k, 'v list) dict \<Rightarrow> ('k, 'v list) dict" where
  "add_to_group kv d = AList.update (fst kv) (dict_get d (fst kv) [] @ [snd kv]) d"

definition group_values :: "('k \<times> 'v) list \<Rightarrow> ('k, 'v list) dict" where
  "group_values kvs = fold add_to_group kvs []"

text \<open>\<open>xs[:k]\<close> with Python's reading of a negative bound.\<close>

definition take_py :: "int \<Rightarrow> 'a list \<Rightarrow> 'a list" where
  "take_py k xs = (if 0 \<le> k then take (nat k) xs else take (length xs - nat (- k)) xs)"

text \<open>\<open>[xs[i:i + k] for i in range(0, len(xs), k)]\<close> for positive \<open>k\<close>.\<close>

function chunks :: "nat \<Rightarrow> 'a list \<Rightarrow> 'a list list" where
  "chunks k xs = (if k = 0 \<or> xs = [] then [] else take k xs # chunks k (drop k xs))"
  by pat_completeness auto
termination
  by (relation "measure (\<lambda>(k, xs). length xs)") auto

declare chunks.simps [simp del]

text \<open>\<open>sorted(items, key=lambda kv: (-kv[1], kv[0]))\<close>: count descending, then id ascending.\<close>

definition rank_desc :: "('a::linorder \<times> int) list \<Rightarrow> ('a \<times> int) list" where
  "rank_desc items = sort_key (\<lambda>kv. (- snd kv, fst kv)) items"

subsection \<open>Lemmas on results\<close>

lemma rbind_Inr_iff [res_simps]:
  "rbind m f = Inr y \<longleftrightarrow> (\<exists>x. m = Inr x \<and> f x = Inr y)"
  by (cases m) auto

lemma rbind_assoc: "rbind (rbind x f) g = rbind x (\<lambda>y. rbind (f y) g)"
  by (cases x) simp_all

lemma rbind_Inl_iff [res_simps]:
  "rbind m f = Inl e \<longleftrightarrow> m = Inl e \<or> (\<exists>x. m = Inr x \<and> f x = Inl e)"
  by (cases m) auto

lemma of_option_Inr [simp]: "of_option e v = Inr x \<longleftrightarrow> v = Some x"
  by (auto simp: of_option_def split: option.splits)

lemma of_option_Inl [simp]: "of_option e v = Inl e' \<longleftrightarrow> v = None \<and> e' = e"
  by (auto simp: of_option_def split: option.splits)

lemma of_option_Some [simp]: "of_option e (Some x) = Inr x"
  by (simp add: of_option_def)

lemma of_option_None [simp]: "of_option e None = Inl e"
  by (simp add: of_option_def)

lemma is_ok_simps [simp]: "is_ok (Inr x)" "\<not> is_ok (Inl e)"
  by (simp_all add: is_ok_def)

lemma is_ok_iff: "is_ok r \<longleftrightarrow> (\<exists>x. r = Inr x)"
  by (cases r) auto

lemma map_res_Inr_iff:
  "map_res f xs = Inr ys \<longleftrightarrow> list_all2 (\<lambda>x y. f x = Inr y) xs ys"
proof (induction xs arbitrary: ys)
  case Nil
  then show ?case by auto
next
  case (Cons x xs)
  show ?case
    by (cases ys) (auto simp: res_simps Cons.IH)
qed

lemma map_res_Inr_map: "(\<And>x. x \<in> set xs \<Longrightarrow> f x = Inr (g x)) \<Longrightarrow> map_res f xs = Inr (map g xs)"
  by (induction xs) auto

lemma map_res_append:
  "map_res f (xs @ ys) = rbind (map_res f xs) (\<lambda>us. rbind (map_res f ys) (\<lambda>vs. Inr (us @ vs)))"
proof (induction xs)
  case Nil
  show ?case by (cases "map_res f ys") auto
next
  case (Cons x xs)
  then show ?case
    by (cases "f x"; cases "map_res f xs"; cases "map_res f ys") auto
qed

subsection \<open>Lemmas on dictionaries and counters\<close>

lemma dict_get_update [dict_simps]:
  "dict_get (AList.update k v d) k' w = (if k' = k then v else dict_get d k' w)"
  by (simp add: dict_get_def update_conv')

lemma keys_update [dict_simps]: "fst ` set (AList.update k v d) = insert k (fst ` set d)"
  by (induction d) auto

lemma dict_get_incr [dict_simps]:
  "dict_get (incr c k d) k' 0 = dict_get d k' 0 + (if k' = k then c else 0)"
  by (simp add: incr_def dict_simps)

lemma keys_incr [dict_simps]: "fst ` set (incr c k d) = insert k (fst ` set d)"
  by (simp add: incr_def dict_simps)

lemma distinct_incr [simp]: "distinct (map fst d) \<Longrightarrow> distinct (map fst (incr c k d))"
  by (simp add: incr_def distinct_update)

lemma dict_get_tally_onto:
  "dict_get (tally_onto d ks) k 0 = dict_get d k 0 + int (count_list ks k)"
  unfolding tally_onto_def
  by (induction ks arbitrary: d) (auto simp: dict_simps)

lemma keys_tally_onto: "fst ` set (tally_onto d ks) = fst ` set d \<union> set ks"
  unfolding tally_onto_def
  by (induction ks arbitrary: d) (auto simp: dict_simps)

lemma distinct_tally_onto: "distinct (map fst d) \<Longrightarrow> distinct (map fst (tally_onto d ks))"
  unfolding tally_onto_def
  by (induction ks arbitrary: d) auto

lemma tally_onto_append: "tally_onto d (ks @ ls) = tally_onto (tally_onto d ks) ls"
  by (simp add: tally_onto_def)

lemma dict_get_Nil [simp]: "dict_get [] k v = v"
  by (simp add: dict_get_def)

lemma dict_get_tally [dict_simps]: "dict_get (tally ks) k 0 = int (count_list ks k)"
  by (simp add: dict_get_tally_onto)

lemma keys_tally [dict_simps]: "fst ` set (tally ks) = set ks"
  by (simp add: keys_tally_onto)

lemma distinct_tally [simp]: "distinct (map fst (tally ks))"
  by (rule distinct_tally_onto) simp

lemma dict_get_in: "distinct (map fst d) \<Longrightarrow> (k, v) \<in> set d \<Longrightarrow> dict_get d k w = v"
  by (simp add: dict_get_def)

lemma tally_entry: "(k, c) \<in> set (tally ks) \<longleftrightarrow> k \<in> set ks \<and> c = int (count_list ks k)"
proof
  assume kc: "(k, c) \<in> set (tally ks)"
  then have "k \<in> fst ` set (tally ks)" by force
  moreover have "dict_get (tally ks) k 0 = c"
    by (rule dict_get_in [OF distinct_tally kc])
  ultimately show "k \<in> set ks \<and> c = int (count_list ks k)"
    by (simp add: dict_simps)
next
  assume r: "k \<in> set ks \<and> c = int (count_list ks k)"
  then have "k \<in> fst ` set (tally ks)" by (simp add: dict_simps)
  then obtain v where v: "(k, v) \<in> set (tally ks)" by auto
  then have "dict_get (tally ks) k 0 = v"
    by (rule dict_get_in [OF distinct_tally])
  with r v show "(k, c) \<in> set (tally ks)" by (simp add: dict_simps)
qed

lemma map_of_dict_of: "map_of (dict_of kvs) = map_of (rev kvs)"
proof -
  have "map_of (fold (\<lambda>(k, v) d. AList.update k v d) kvs d) = map_of d ++ map_of (rev kvs)" for d
    by (induction kvs arbitrary: d) (auto simp: update_conv' map_add_def split: option.splits)
  then show ?thesis by (simp add: dict_of_def)
qed

lemma distinct_dict_of: "distinct (map fst (dict_of kvs))"
proof -
  have "distinct (map fst d) \<Longrightarrow>
      distinct (map fst (fold (\<lambda>(k, v) d. AList.update k v d) kvs d))" for d :: "('a, 'b) dict"
    by (induction kvs arbitrary: d) (auto simp: distinct_update)
  then show ?thesis by (simp add: dict_of_def)
qed

lemma update_fresh: "k \<notin> fst ` set d \<Longrightarrow> AList.update k v d = d @ [(k, v)]"
  by (induction d) auto

lemma fold_update_fresh:
  "distinct (map fst (d @ kvs)) \<Longrightarrow> fold (\<lambda>(k, v) d. AList.update k v d) kvs d = d @ kvs"
proof (induction kvs arbitrary: d)
  case Nil
  then show ?case by simp
next
  case (Cons kv kvs)
  obtain k v where kv: "kv = (k, v)" by (cases kv)
  have "AList.update k v d = d @ [(k, v)]"
    using Cons.prems kv by (intro update_fresh) auto
  then show ?case using Cons.IH [of "d @ [(k, v)]"] Cons.prems kv by simp
qed

lemma dict_of_distinct: "distinct (map fst kvs) \<Longrightarrow> dict_of kvs = kvs"
  unfolding dict_of_def by (subst fold_update_fresh) auto

lemma dict_get_group_values:
  "dict_get (group_values kvs) k [] = map snd (filter (\<lambda>kv. fst kv = k) kvs)"
proof -
  have "dict_get (fold add_to_group kvs d) k [] =
      dict_get d k [] @ map snd (filter (\<lambda>kv. fst kv = k) kvs)" for d
    by (induction kvs arbitrary: d) (auto simp: add_to_group_def dict_simps)
  then show ?thesis by (simp add: group_values_def)
qed

lemma keys_group_values: "fst ` set (group_values kvs) = fst ` set kvs"
proof -
  have "fst ` set (fold add_to_group kvs d) = fst ` set d \<union> fst ` set kvs" for d
    by (induction kvs arbitrary: d) (auto simp: add_to_group_def dict_simps)
  then show ?thesis by (simp add: group_values_def)
qed

lemma distinct_group_values: "distinct (map fst (group_values kvs))"
proof -
  have "distinct (map fst d) \<Longrightarrow> distinct (map fst (fold add_to_group kvs d))" for d
    by (induction kvs arbitrary: d) (auto simp: add_to_group_def distinct_update)
  then show ?thesis by (simp add: group_values_def)
qed

subsection \<open>Lemmas on slices and chunks\<close>

lemma take_py_nonneg: "0 \<le> k \<Longrightarrow> take_py k xs = take (nat k) xs"
  by (simp add: take_py_def)

lemma take_py_zero [simp]: "take_py 0 xs = []"
  by (simp add: take_py_def)

lemma chunks_Nil [simp]: "chunks k [] = []"
  by (simp add: chunks.simps)

lemma concat_chunks: "0 < k \<Longrightarrow> concat (chunks k xs) = xs"
proof (induction k xs rule: chunks.induct)
  case (1 k xs)
  then show ?case
    by (cases "xs = []") (simp_all add: chunks.simps [of k xs])
qed

lemma length_chunks: "0 < k \<Longrightarrow> k dvd length xs \<Longrightarrow> length (chunks k xs) = length xs div k"
proof (induction k xs rule: chunks.induct)
  case (1 k xs)
  show ?case
  proof (cases "xs = []")
    case True
    then show ?thesis by (simp add: chunks.simps [of k xs])
  next
    case False
    with "1.prems" have k: "k \<le> length xs" by (simp add: dvd_imp_le)
    with "1.prems" have d: "k dvd length (drop k xs)" by simp
    have "length (chunks k (drop k xs)) = length (drop k xs) div k"
      using "1.IH" "1.prems" False d by simp
    with False "1.prems" k show ?thesis
      by (simp add: chunks.simps [of k xs] le_div_geq)
  qed
qed

lemma length_in_chunks:
  "0 < k \<Longrightarrow> k dvd length xs \<Longrightarrow> c \<in> set (chunks k xs) \<Longrightarrow> length c = k"
proof (induction k xs rule: chunks.induct)
  case (1 k xs)
  show ?case
  proof (cases "xs = []")
    case True
    with "1.prems" show ?thesis by (simp add: chunks.simps [of k xs])
  next
    case False
    with "1.prems" have k: "k \<le> length xs" by (simp add: dvd_imp_le)
    with "1.prems" have d: "k dvd length (drop k xs)" by simp
    from "1.prems" False consider "c = take k xs" | "c \<in> set (chunks k (drop k xs))"
      by (auto simp: chunks.simps [of k xs])
    then show ?thesis
      by cases (use "1.IH" "1.prems" False d k in auto)
  qed
qed

lemma concat_take_chunks: "0 < k \<Longrightarrow> j < length (chunks k xs) \<Longrightarrow> concat (take j (chunks k xs)) = take (k * j) xs"
proof (induction k xs arbitrary: j rule: chunks.induct)
  case (1 k xs)
  show ?case
  proof (cases "xs = []")
    case True
    with "1.prems" show ?thesis by simp
  next
    case False
    then have c: "chunks k xs = take k xs # chunks k (drop k xs)"
      using "1.prems" by (simp add: chunks.simps [of k xs])
    show ?thesis
    proof (cases j)
      case (Suc i)
      with "1.prems" False c have "concat (take i (chunks k (drop k xs))) = take (k * i) (drop k xs)"
        by (intro "1.IH") auto
      then show ?thesis by (simp add: Suc c take_add)
    qed simp
  qed
qed

lemma chunks_single_iff:
  assumes "0 < k" "k dvd length xs" "xs \<noteq> []"
  shows "length (chunks k xs) = 1 \<longleftrightarrow> length xs = k"
  using assms by (auto simp: length_chunks dvd_def)

lemma chunks_exact: "0 < k \<Longrightarrow> length xs = k \<Longrightarrow> chunks k xs = [xs]"
  by (cases "xs = []") (simp_all add: chunks.simps [of k xs])

subsection \<open>Ranked selection is a best selection\<close>

lemma sorted_le_last: "sorted xs \<Longrightarrow> x \<in> set xs \<Longrightarrow> x \<le> last xs"
  by (induction xs) auto

lemma sort_key_eq_Nil [simp]: "sort_key f xs = [] \<longleftrightarrow> xs = []"
  by (metis length_0_conv length_sort)

lemma set_rank_desc [simp]: "set (rank_desc items) = set items"
  by (simp add: rank_desc_def)

lemma length_rank_desc [simp]: "length (rank_desc items) = length items"
  by (simp add: rank_desc_def)

lemma distinct_rank_desc [simp]: "distinct (rank_desc items) = distinct items"
  by (simp add: rank_desc_def)

lemma mset_rank_desc [simp]: "mset (rank_desc items) = mset items"
  by (simp add: rank_desc_def)

lemma distinct_map_fst_rank_desc:
  "distinct (map fst (rank_desc items)) = distinct (map fst items)"
proof -
  have "mset (map fst (rank_desc items)) = mset (map fst items)" by simp
  then show ?thesis by (rule mset_eq_imp_distinct_iff)
qed

lemma sorted_rank_desc: "sorted (map (\<lambda>kv. (- snd kv, fst kv)) (rank_desc items))"
  by (simp add: rank_desc_def)

lemma rank_desc_order:
  assumes "i < j" and "j < length items"
  shows "snd (rank_desc items ! j) \<le> snd (rank_desc items ! i)"
proof -
  let ?f = "\<lambda>kv :: 'a \<times> int. (- snd kv, fst kv)"
  have "map ?f (rank_desc items) ! i \<le> map ?f (rank_desc items) ! j"
    using assms by (intro sorted_nth_mono [OF sorted_rank_desc]) auto
  then show ?thesis using assms by (auto simp: less_eq_prod_def)
qed

lemma rank_desc_take_ge_drop:
  assumes "a \<in> set (take k (rank_desc items))" and "b \<in> set (drop k (rank_desc items))"
  shows "snd b \<le> snd a"
proof -
  from assms(1) obtain i where i: "i < k" "i < length items" "a = rank_desc items ! i"
    by (auto simp: in_set_conv_nth)
  from assms(2) obtain j where j: "j < length items - k" "b = rank_desc items ! (k + j)"
    by (auto simp: in_set_conv_nth)
  show ?thesis using rank_desc_order [of i "k + j" items] i j by simp
qed

text \<open>
  The exchange argument, on sets: if every member of \<open>T\<close> weighs at least as much as every
  candidate left out, and \<open>T\<close> is full or nothing was left out, no set of at most \<open>k\<close>
  members weighs more than \<open>T\<close>.
\<close>

lemma best_of_size:
  fixes w :: "'a \<Rightarrow> int"
  assumes fin: "finite T" "finite U" and nonneg: "\<And>x. 0 \<le> w x"
    and card_U: "card U \<le> k"
    and dom: "\<And>a b. a \<in> T \<Longrightarrow> b \<notin> T \<Longrightarrow> w b \<le> w a"
    and full: "card T = k \<or> (\<forall>b. b \<notin> T \<longrightarrow> w b = 0)"
  shows "sum w U \<le> sum w T"
proof (cases "\<forall>b. b \<notin> T \<longrightarrow> w b = 0")
  case True
  have "sum w U = sum w (U \<inter> T)"
    using fin True by (intro sum.mono_neutral_right) auto
  also have "\<dots> \<le> sum w T"
    using fin nonneg by (intro sum_mono2) auto
  finally show ?thesis .
next
  case False
  with full have card_T: "card T = k" by blast
  show ?thesis
  proof (cases "T = {}")
    case True
    then have "U = {}" using card_U card_T fin by simp
    with True show ?thesis by simp
  next
    case nonempty: False
    define m where "m = Min (w ` T)"
    have m: "\<And>a. a \<in> T \<Longrightarrow> m \<le> w a" "\<And>b. b \<notin> T \<Longrightarrow> w b \<le> m" "0 \<le> m"
      using fin nonempty dom nonneg by (auto simp: m_def Min_ge_iff)
    have "card (U - T) \<le> card (T - U)"
      using card_le_sym_Diff [OF fin(2,1)] card_U card_T by simp
    then have le: "int (card (U - T)) * m \<le> int (card (T - U)) * m"
      using m(3) by (intro mult_right_mono) auto
    have "sum w U = sum w (U \<inter> T) + sum w (U - T)"
      using fin by (metis sum.Int_Diff)
    also have "\<dots> \<le> sum w (U \<inter> T) + int (card (U - T)) * m"
      using m(2) sum_bounded_above [of "U - T" w m] by simp
    also have "\<dots> \<le> sum w (T \<inter> U) + int (card (T - U)) * m"
      using le by (simp add: Int_commute)
    also have "\<dots> \<le> sum w (T \<inter> U) + sum w (T - U)"
      using m(1) sum_bounded_below [of "T - U" m w] by simp
    also have "\<dots> = sum w T"
      using fin by (metis sum.Int_Diff)
    finally show ?thesis .
  qed
qed

lemma rank_desc_best:
  fixes items :: "('a::linorder \<times> int) list"
  assumes dist: "distinct (map fst items)" and pos: "\<And>a c. (a, c) \<in> set items \<Longrightarrow> 0 \<le> c"
    and U: "finite U" "card U \<le> k"
  shows "sum (\<lambda>a. dict_get items a 0) U
       \<le> sum (\<lambda>a. dict_get items a 0) (set (map fst (take k (rank_desc items))))"
proof (rule best_of_size [where k = k])
  let ?T = "set (map fst (take k (rank_desc items)))"
  let ?w = "\<lambda>a. dict_get items a (0::int)"
  have dr: "distinct (map fst (rank_desc items))"
    using dist by (simp add: distinct_map_fst_rank_desc)
  have w: "?w a = c" if "(a, c) \<in> set (rank_desc items)" for a c
    using that dist by (simp add: dict_get_in)
  show "0 \<le> ?w x" for x
    using pos by (auto simp: dict_get_def split: option.splits dest: map_of_SomeD)
  have out: "b \<in> fst ` set (drop k (rank_desc items)) \<or> ?w b = 0" if "b \<notin> ?T" for b
  proof (cases "b \<in> fst ` set items")
    case True
    then have "b \<in> fst ` set (take k (rank_desc items) @ drop k (rank_desc items))"
      by (simp only: append_take_drop_id set_rank_desc)
    then have "b \<in> fst ` set (take k (rank_desc items)) \<or> b \<in> fst ` set (drop k (rank_desc items))"
      by (simp only: set_append image_Un Un_iff)
    with that show ?thesis by simp
  next
    case False
    then have "map_of items b = None" by (simp add: map_of_eq_None_iff)
    then show ?thesis by (simp add: dict_get_def)
  qed
  show "?w b \<le> ?w a" if a: "a \<in> ?T" and b: "b \<notin> ?T" for a b
  proof -
    from a obtain c where c: "(a, c) \<in> set (take k (rank_desc items))" by auto
    then have wa: "?w a = c" by (auto intro!: w dest: in_set_takeD)
    from out [OF b] show ?thesis
    proof
      assume "b \<in> fst ` set (drop k (rank_desc items))"
      then obtain d where d: "(b, d) \<in> set (drop k (rank_desc items))" by auto
      then have "?w b = d" by (auto intro!: w dest: in_set_dropD)
      with rank_desc_take_ge_drop [OF c d] wa show ?thesis by simp
    next
      assume "?w b = 0"
      with c pos wa show ?thesis by (auto dest: in_set_takeD)
    qed
  qed
  show "card ?T = k \<or> (\<forall>b. b \<notin> ?T \<longrightarrow> ?w b = 0)"
  proof (cases "k \<le> length items")
    case True
    have "distinct (map fst (take k (rank_desc items)))"
      using dr by (simp add: take_map [symmetric])
    from distinct_card [OF this] True show ?thesis by simp
  next
    case False
    then show ?thesis using out by auto
  qed
qed (use U in auto)

lemma distinct_count_list: "distinct ks \<longleftrightarrow> (\<forall>k \<in> set ks. count_list ks k = 1)"
  by (auto simp: distinct_count_atmost_1 count_mset)

lemma length_concat_map: "(\<And>y. y \<in> set ys \<Longrightarrow> length (f y) = n) \<Longrightarrow> length (concat (map f ys)) = length ys * n"
  by (induction ys) auto

lemma set_chunk: "0 < k \<Longrightarrow> c \<in> set (chunks k x) \<Longrightarrow> set c \<subseteq> set x"
  using arg_cong [OF concat_chunks [of k x], of set] by auto

lemma chunks_nonempty: "c \<in> set (chunks k x) \<Longrightarrow> c \<noteq> []"
proof (induction k x rule: chunks.induct)
  case (1 k x)
  then show ?case by (auto simp: chunks.simps [of k x] split: if_splits)
qed

lemma concat_map_nested: "concat (map f (concat xs)) = concat (map (\<lambda>x. concat (map f x)) xs)"
  by (induction xs) auto

lemma map_res_Inr_ex: "map_res f xs = Inr ys \<Longrightarrow> x \<in> set xs \<Longrightarrow> \<exists>y. f x = Inr y"
  by (induction xs arbitrary: ys) (auto simp: res_simps)

lemma map_res_Inr_eq_map: "map_res f xs = Inr ys \<Longrightarrow> (\<And>x y. f x = Inr y \<Longrightarrow> y = g x) \<Longrightarrow> ys = map g xs"
  by (induction xs arbitrary: ys) (auto simp: res_simps)

lemma map_res_all_Inl: "xs \<noteq> [] \<Longrightarrow> (\<And>x. x \<in> set xs \<Longrightarrow> f x = Inl e) \<Longrightarrow> map_res f xs = Inl e"
  by (cases xs) auto

lemma chunks_append: "0 < n \<Longrightarrow> n dvd length xs \<Longrightarrow> chunks n (xs @ ys) = chunks n xs @ chunks n ys"
proof (induction n xs rule: chunks.induct)
  case (1 n xs)
  show ?case
  proof (cases "xs = []")
    case False
    with "1.prems" have n: "n \<le> length xs" by (simp add: dvd_imp_le)
    then have "chunks n (drop n xs @ ys) = chunks n (drop n xs) @ chunks n ys"
      using "1.IH" "1.prems" False by simp
    then show ?thesis using False "1.prems" n by (simp add: chunks.simps [of n "xs @ ys"] chunks.simps [of n xs])
  qed simp
qed

lemma nth_concat_uniform:
  "(\<And>x. x \<in> set xs \<Longrightarrow> length (f x) = n) \<Longrightarrow> j < n * length xs \<Longrightarrow>
     concat (map f xs) ! j = f (xs ! (j div n)) ! (j mod n)"
proof (induction xs arbitrary: j)
  case (Cons x xs)
  have l: "length (f x) = n" using Cons.prems(1) by simp
  show ?case
  proof (cases "j < n")
    case False
    then have j: "j div n = Suc ((j - n) div n)" "j mod n = (j - n) mod n"
      using Cons.prems(2) by (cases "n = 0"; simp add: le_div_geq le_mod_geq)+
    have "concat (map f xs) ! (j - n) = f (xs ! ((j - n) div n)) ! ((j - n) mod n)"
      using Cons False by (intro Cons.IH) (auto simp: algebra_simps)
    then show ?thesis using False l by (simp add: nth_append j)
  qed (use l in \<open>simp add: nth_append\<close>)
qed simp

lemma chunks_nth: "0 < n \<Longrightarrow> n dvd length xs \<Longrightarrow> i < length xs div n \<Longrightarrow> chunks n xs ! i = take n (drop (i * n) xs)"
proof (induction n xs arbitrary: i rule: chunks.induct)
  case (1 n xs)
  then have ne: "xs \<noteq> []" by auto
  with "1.prems" have n: "n \<le> length xs" by (simp add: dvd_imp_le)
  show ?case
  proof (cases i)
    case 0
    then show ?thesis using ne "1.prems" by (simp add: chunks.simps [of n xs])
  next
    case (Suc k)
    have "chunks n (drop n xs) ! k = take n (drop (k * n) (drop n xs))"
      using "1.IH" "1.prems" ne n Suc by (auto simp: le_div_geq)
    then show ?thesis using ne "1.prems" Suc by (simp add: chunks.simps [of n xs] add.commute)
  qed
qed

lemma chunks_concat: "0 < n \<Longrightarrow> (\<And>x. x \<in> set xs \<Longrightarrow> length x = n) \<Longrightarrow> chunks n (concat xs) = xs"
  by (induction xs) (simp_all add: chunks_append chunks_exact)

lemma concat_concat: "concat (concat xss) = concat (map concat xss)"
  by (induction xss) auto

lemma map2_concat:
  "(\<And>b. b \<in> set bs \<Longrightarrow> length (A b) = length (B b)) \<Longrightarrow>
    map2 f (concat (map A bs)) (concat (map B bs)) = concat (map (\<lambda>b. map2 f (A b) (B b)) bs)"
  by (induction bs) auto

lemma map_res_zip_map:
  "(\<And>x. x \<in> set xs \<Longrightarrow> F (f x, g x) = Inr (h x)) \<Longrightarrow> map_res F (zip (map f xs) (map g xs)) = Inr (map h xs)"
  by (induction xs) auto

lemma map_res_rows: "(\<And>r x. r \<in> set rows \<Longrightarrow> x \<in> set r \<Longrightarrow> f x = Inr (g x)) \<Longrightarrow>
    map_res (map_res f) rows = Inr (map (map g) rows)"
  by (intro map_res_Inr_map) auto

lemma concat_singletons: "concat (map (\<lambda>b. [f b]) bs) = map f bs"
  by (induction bs) auto

end
