(* ===== verification/Py_Text.thy ===== *)
theory Py_Text
  imports Prelude
begin

text \<open>
  The part of Python's text handling the tools use, on ASCII text: \<open>str.strip\<close>,
  \<open>str.split\<close> with and without a separator, \<open>str.startswith\<close>, \<open>int(str)\<close>,
  \<open>str(int)\<close>, \<open>str.join\<close>, and reading a file line by line in text mode. A string is a
  list of characters; text outside ASCII is not modelled, and neither is CPython's limit on
  the number of digits \<open>int\<close> accepts.

  The lemmas are the round trips the tools' file formats rest on: what \<open>str\<close> prints
  \<open>int\<close> reads, and what \<open>join\<close> puts together \<open>split\<close> takes apart.
\<close>

named_theorems text_simps \<open>round trips of the text primitives\<close>

subsection \<open>Definitions\<close>

text \<open>\<open>str.isspace\<close> on ASCII: tab to carriage return, the four separators, blank.\<close>

definition is_ws :: "char \<Rightarrow> bool" where
  "is_ws c = (let n = (of_char c :: nat) in 9 \<le> n \<and> n \<le> 13 \<or> 28 \<le> n \<and> n \<le> 32)"

abbreviation LF :: char where "LF \<equiv> CHR 0x0A"
abbreviation CR :: char where "CR \<equiv> CHR 0x0D"

definition lstrip :: "string \<Rightarrow> string" where
  "lstrip s = dropWhile is_ws s"

definition rstrip :: "string \<Rightarrow> string" where
  "rstrip s = rev (dropWhile is_ws (rev s))"

definition strip :: "string \<Rightarrow> string" where
  "strip s = rstrip (lstrip s)"

fun startswith :: "string \<Rightarrow> string \<Rightarrow> bool" where
  "startswith s [] = True"
| "startswith [] (p # ps) = False"
| "startswith (c # s) (p # ps) = (c = p \<and> startswith s ps)"

text \<open>\<open>s.lower()\<close> on ASCII text.\<close>

definition lower :: "string \<Rightarrow> string" where
  "lower s = map (\<lambda>c. let n = (of_char c :: nat) in if 65 \<le> n \<and> n \<le> 90 then char_of (n + 32) else c) s"

text \<open>\<open>p in s\<close> on strings.\<close>

fun contains :: "string \<Rightarrow> string \<Rightarrow> bool" where
  "contains [] p = (p = [])"
| "contains (c # s) p = (startswith (c # s) p \<or> contains s p)"

text \<open>\<open>s.find(p)\<close>: the first position of \<open>p\<close> in \<open>s\<close>.\<close>

fun index_of :: "string \<Rightarrow> string \<Rightarrow> nat option" where
  "index_of [] p = (if p = [] then Some 0 else None)"
| "index_of (c # s) p = (if startswith (c # s) p then Some 0 else map_option Suc (index_of s p))"

text \<open>\<open>s.split()\<close>: the maximal runs of characters that are not white space.\<close>

function split_ws :: "string \<Rightarrow> string list" where
  "split_ws s =
     (let t = dropWhile is_ws s in
      if t = [] then []
      else takeWhile (\<lambda>c. \<not> is_ws c) t # split_ws (dropWhile (\<lambda>c. \<not> is_ws c) t))"
  by pat_completeness auto
termination
proof (relation "measure length")
  fix s t :: string
  assume t: "t = dropWhile is_ws s" and ne: "t \<noteq> []"
  then have "\<not> is_ws (hd t)" by (metis hd_dropWhile)
  with ne have "length (dropWhile (\<lambda>c. \<not> is_ws c) t) < length t"
    by (cases t) (auto simp: le_imp_less_Suc length_dropWhile_le)
  also have "\<dots> \<le> length s" by (simp add: t length_dropWhile_le)
  finally show "(dropWhile (\<lambda>c. \<not> is_ws c) t, s) \<in> measure length" by simp
qed simp

declare split_ws.simps [simp del]

text \<open>\<open>s.split(c)\<close> for a one-character separator.\<close>

fun split_on :: "char \<Rightarrow> string \<Rightarrow> string list" where
  "split_on c [] = [[]]"
| "split_on c (x # xs) =
     (if x = c then [] # split_on c xs
      else (case split_on c xs of [] \<Rightarrow> [[x]] | y # ys \<Rightarrow> (x # y) # ys))"

text \<open>\<open>k, v = s.split(c, 1)\<close>, for a string in which \<open>c\<close> occurs.\<close>

definition split_first :: "char \<Rightarrow> string \<Rightarrow> string \<times> string" where
  "split_first c s = (takeWhile (\<lambda>x. x \<noteq> c) s, drop 1 (dropWhile (\<lambda>x. x \<noteq> c) s))"

fun join :: "string \<Rightarrow> string list \<Rightarrow> string" where
  "join sep [] = []"
| "join sep [x] = x"
| "join sep (x # y # zs) = x @ sep @ join sep (y # zs)"

text \<open>A text-mode file read line by line, with universal newlines.\<close>

fun newlines :: "string \<Rightarrow> string" where
  "newlines [] = []"
| "newlines [c] = [if c = CR then LF else c]"
| "newlines (c # d # s) =
     (if c = CR then (if d = LF then LF # newlines s else LF # newlines (d # s))
      else c # newlines (d # s))"

definition file_lines :: "string \<Rightarrow> string list" where
  "file_lines text =
     (let ls = split_on LF (newlines text) in if last ls = [] then butlast ls else ls)"

text \<open>\<open>str.splitlines\<close> on ASCII text whose newlines have been translated.\<close>

definition is_break :: "char \<Rightarrow> bool" where
  "is_break c = (let n = (of_char c :: nat) in 10 \<le> n \<and> n \<le> 13 \<or> 28 \<le> n \<and> n \<le> 30)"

fun break_lines :: "string \<Rightarrow> string list" where
  "break_lines [] = [[]]"
| "break_lines (c # s) =
     (if is_break c then [] # break_lines s
      else (case break_lines s of [] \<Rightarrow> [[c]] | l # ls \<Rightarrow> (c # l) # ls))"

definition splitlines :: "string \<Rightarrow> string list" where
  "splitlines s = (let ls = break_lines s in if last ls = [] then butlast ls else ls)"

definition digit_val :: "char \<Rightarrow> nat option" where
  "digit_val c = (let n = of_char c in if 48 \<le> n \<and> n \<le> 57 then Some (n - 48) else None)"

text \<open>Decimal digits, with single underscores allowed between two digits.\<close>

fun read_digits :: "bool \<Rightarrow> nat \<Rightarrow> string \<Rightarrow> nat option" where
  "read_digits prev acc [] = (if prev then Some acc else None)"
| "read_digits prev acc (c # cs) =
     (if c = CHR ''_'' then (if prev then read_digits False acc cs else None)
      else (case digit_val c of None \<Rightarrow> None | Some d \<Rightarrow> read_digits True (10 * acc + d) cs))"

definition py_int :: "string \<Rightarrow> int option" where
  "py_int s =
     (case strip s of
        [] \<Rightarrow> None
      | c # cs \<Rightarrow>
          if c = CHR ''-'' then map_option (\<lambda>n. - int n) (read_digits False 0 cs)
          else if c = CHR ''+'' then map_option int (read_digits False 0 cs)
          else map_option int (read_digits False 0 (c # cs)))"

fun str_nat :: "nat \<Rightarrow> string" where
  "str_nat n =
     (if n < 10 then [char_of (48 + n)] else str_nat (n div 10) @ [char_of (48 + n mod 10)])"

declare str_nat.simps [simp del]

definition py_str :: "int \<Rightarrow> string" where
  "py_str i = (if i < 0 then CHR ''-'' # str_nat (nat (- i)) else str_nat (nat i))"

text \<open>A token: what \<open>split()\<close> returns, non-empty and free of white space.\<close>

definition is_token :: "string \<Rightarrow> bool" where
  "is_token t = (t \<noteq> [] \<and> list_all (\<lambda>c. \<not> is_ws c) t)"

text \<open>A line that survives a write and a read: no newline characters inside.\<close>

definition one_line :: "string \<Rightarrow> bool" where
  "one_line s = (LF \<notin> set s \<and> CR \<notin> set s)"

subsection \<open>Printing and reading integers\<close>

lemma of_char_digit [simp]: "(d::nat) < 10 \<Longrightarrow> of_char (char_of (48 + d) :: char) = 48 + d"
  by (simp add: of_char_of)

lemma digit_val_digit [simp]: "d < 10 \<Longrightarrow> digit_val (char_of (48 + d)) = Some d"
  by (simp add: digit_val_def)

lemma digit_neq_underscore: "(d::nat) < 10 \<Longrightarrow> (char_of (48 + d) :: char) \<noteq> CHR ''_''"
proof
  assume "(d::nat) < 10" and "(char_of (48 + d) :: char) = CHR ''_''"
  then have "48 + d = (of_char (CHR ''_'') :: nat)" by (metis of_char_digit)
  with \<open>d < 10\<close> show False by simp
qed

lemma read_digits_snoc:
  "read_digits p a s = Some n \<Longrightarrow> d < 10 \<Longrightarrow>
     read_digits p a (s @ [char_of (48 + d)]) = Some (10 * n + d)"
proof (induction s arbitrary: p a)
  case Nil
  then show ?case by (auto simp: digit_neq_underscore split: if_splits)
next
  case (Cons c s)
  then show ?case by (auto split: if_splits option.splits)
qed

lemma read_digits_str_nat [text_simps]: "read_digits p 0 (str_nat n) = Some n"
proof (induction n rule: str_nat.induct)
  case (1 n)
  show ?case
  proof (cases "n < 10")
    case True
    then show ?thesis
      by (simp add: str_nat.simps [of n] digit_neq_underscore)
  next
    case False
    with "1.IH" have "read_digits p 0 (str_nat (n div 10)) = Some (n div 10)" by simp
    from read_digits_snoc [OF this, of "n mod 10"] False show ?thesis
      by (simp add: str_nat.simps [of n])
  qed
qed

definition is_digit :: "char \<Rightarrow> bool" where
  "is_digit c = (48 \<le> (of_char c :: nat) \<and> (of_char c :: nat) \<le> 57)"

lemma str_nat_digits: "c \<in> set (str_nat n) \<Longrightarrow> is_digit c"
proof (induction n rule: str_nat.induct)
  case (1 n)
  show ?case
  proof (cases "n < 10")
    case True
    then have "c = char_of (48 + n)" using "1.prems" by (simp add: str_nat.simps [of n])
    with True show ?thesis by (simp add: is_digit_def)
  next
    case False
    then consider "c \<in> set (str_nat (n div 10))" | "c = char_of (48 + n mod 10)"
      using "1.prems" by (auto simp: str_nat.simps [of n])
    then show ?thesis
    proof cases
      case 1
      with "1.IH" False show ?thesis by blast
    next
      case 2
      then show ?thesis by (simp add: is_digit_def)
    qed
  qed
qed

lemma str_nat_not_Nil [simp]: "str_nat n \<noteq> []"
  by (subst str_nat.simps) simp

lemma is_digit_not_ws: "is_digit c \<Longrightarrow> \<not> is_ws c"
  by (auto simp: is_digit_def is_ws_def Let_def)

lemma py_str_not_Nil [simp]: "py_str i \<noteq> []"
  by (simp add: py_str_def)

lemma py_str_chars: "c \<in> set (py_str i) \<Longrightarrow> is_digit c \<or> c = CHR ''-''"
  by (auto simp: py_str_def dest: str_nat_digits split: if_splits)

lemma py_str_token [text_simps]: "is_token (py_str i)"
proof -
  have "\<not> is_ws c" if "c \<in> set (py_str i)" for c
    using py_str_chars [OF that] by (auto simp: is_digit_not_ws) (simp add: is_ws_def)
  then show ?thesis by (simp add: is_token_def list_all_iff)
qed

lemma py_str_excludes:
  "c \<in> set (py_str i) \<Longrightarrow> c \<noteq> CHR '','' \<and> c \<noteq> CHR ''#'' \<and> c \<noteq> LF \<and> c \<noteq> CR \<and> c \<noteq> CHR ''='' \<and> c \<noteq> CHR ''{''"
  using py_str_chars [of c i] by (auto simp: is_digit_def)

subsection \<open>Stripping and splitting\<close>

lemma lstrip_id: "s = [] \<or> \<not> is_ws (hd s) \<Longrightarrow> lstrip s = s"
  by (cases s) (auto simp: lstrip_def)

lemma rstrip_id: "s = [] \<or> \<not> is_ws (last s) \<Longrightarrow> rstrip s = s"
  by (cases s rule: rev_cases) (auto simp: rstrip_def)

lemma strip_id: "s = [] \<or> \<not> is_ws (hd s) \<and> \<not> is_ws (last s) \<Longrightarrow> strip s = s"
  by (auto simp: strip_def lstrip_id rstrip_id)

lemma strip_token [text_simps]: "is_token t \<Longrightarrow> strip t = t"
  by (rule strip_id) (auto simp: is_token_def list_all_iff)

lemma py_int_py_str [text_simps]: "py_int (py_str i) = Some i"
proof -
  have s: "strip (py_str i) = py_str i" by (simp add: strip_token py_str_token)
  show ?thesis
  proof (cases "i < 0")
    case True
    with s show ?thesis
      by (simp add: py_int_def py_str_def read_digits_str_nat)
  next
    case False
    obtain c cs where c: "str_nat (nat i) = c # cs" by (cases "str_nat (nat i)") auto
    then have "is_digit c" by (intro str_nat_digits [of c "nat i"]) simp
    then have "c \<noteq> CHR ''-''" "c \<noteq> CHR ''+''" by (auto simp: is_digit_def)
    with False s c read_digits_str_nat [of False "nat i"] show ?thesis
      by (simp add: py_int_def py_str_def)
  qed
qed

lemma py_str_inject: "py_str i = py_str j \<longleftrightarrow> i = j"
  by (metis option.inject py_int_py_str)

lemma split_ws_token_append:
  assumes "is_token t" and "s = [] \<or> is_ws (hd s)"
  shows "split_ws (t @ s) = t # split_ws s"
proof -
  from assms(1) have ne: "t \<noteq> []" and nw: "\<forall>c \<in> set t. \<not> is_ws c"
    by (auto simp: is_token_def list_all_iff)
  have d: "dropWhile is_ws (t @ s) = t @ s" using ne nw by (cases t) auto
  have tw: "takeWhile (\<lambda>c. \<not> is_ws c) (t @ s) = t"
    using nw assms(2) by (cases s) (auto simp: takeWhile_append)
  have dw: "dropWhile (\<lambda>c. \<not> is_ws c) (t @ s) = s"
    using nw assms(2) by (cases s) (auto simp: dropWhile_append)
  show ?thesis using ne by (simp add: split_ws.simps [of "t @ s"] d tw dw Let_def)
qed

lemma split_ws_Nil [simp]: "split_ws [] = []"
  by (simp add: split_ws.simps)

lemma split_ws_blank: "is_ws c \<Longrightarrow> split_ws (c # s) = split_ws s"
  by (simp add: split_ws.simps [of "c # s"] split_ws.simps [of s])

lemma split_ws_join [text_simps]:
  "list_all is_token ts \<Longrightarrow> split_ws (join '' '' ts) = ts"
proof (induction ts rule: induct_list012)
  case 1
  then show ?case by simp
next
  case (2 x)
  then show ?case using split_ws_token_append [of x "[]"] by simp
next
  case (3 x y zs)
  have b: "is_ws (CHR '' '')" by (simp add: is_ws_def)
  have "split_ws (x @ '' '' @ join '' '' (y # zs)) = x # split_ws ('' '' @ join '' '' (y # zs))"
    using 3 b by (intro split_ws_token_append) auto
  also have "split_ws ('' '' @ join '' '' (y # zs)) = y # zs"
    using 3 b by (simp add: split_ws_blank)
  finally show ?case by simp
qed

lemma split_on_not_Nil [simp]: "split_on c s \<noteq> []"
  by (induction s) (auto split: list.splits)

lemma split_on_free: "c \<notin> set s \<Longrightarrow> split_on c s = [s]"
  by (induction s) auto

lemma split_on_append: "c \<notin> set s \<Longrightarrow> split_on c (s @ c # t) = s # split_on c t"
  by (induction s) auto

lemma split_on_join [text_simps]:
  "ts \<noteq> [] \<Longrightarrow> list_all (\<lambda>t. c \<notin> set t) ts \<Longrightarrow> split_on c (join [c] ts) = ts"
  by (induction ts rule: induct_list012) (auto simp: split_on_free split_on_append)

lemma join_snoc: "ts \<noteq> [] \<Longrightarrow> join sep (ts @ [t]) = join sep ts @ sep @ t"
  by (induction ts rule: induct_list012) auto

lemma newlines_free: "CR \<notin> set s \<Longrightarrow> newlines s = s"
  by (induction s rule: newlines.induct) auto

lemma set_join: "set (join sep ts) \<subseteq> \<Union> (set ` set ts) \<union> set sep"
  by (induction ts rule: induct_list012) auto

lemma file_lines_join [text_simps]:
  assumes "list_all one_line ls"
  shows "file_lines (join [LF] ls @ [LF]) = (if ls = [] then [[]] else ls)"
proof (cases "ls = []")
  case True
  then show ?thesis by (simp add: file_lines_def)
next
  case False
  have eq: "join [LF] ls @ [LF] = join [LF] (ls @ [[]])"
    using False by (simp add: join_snoc)
  have "CR \<notin> set (join [LF] ls @ [LF])"
    using assms set_join [of "[LF]" ls] by (auto simp: list_all_iff one_line_def)
  then have "newlines (join [LF] ls @ [LF]) = join [LF] (ls @ [[]])"
    by (simp add: newlines_free eq)
  moreover have "split_on LF (join [LF] (ls @ [[]])) = ls @ [[]]"
    using assms by (intro split_on_join) (auto simp: list_all_iff one_line_def)
  ultimately show ?thesis using False by (simp add: file_lines_def)
qed

lemma token_one_line: "is_token t \<Longrightarrow> one_line t"
proof -
  assume t: "is_token t"
  have "is_ws LF" "is_ws CR" by (simp_all add: is_ws_def)
  with t show "one_line t" by (auto simp: is_token_def one_line_def list_all_iff)
qed

lemma join_blank_one_line: "list_all is_token ts \<Longrightarrow> one_line (join '' '' ts)"
  using set_join [of "'' ''" ts] token_one_line
  by (auto simp: one_line_def list_all_iff subset_iff)

lemma hd_join: "ts \<noteq> [] \<Longrightarrow> hd ts \<noteq> [] \<Longrightarrow> hd (join sep ts) = hd (hd ts)"
  by (induction ts rule: induct_list012) auto

lemma last_join: "ts \<noteq> [] \<Longrightarrow> last ts \<noteq> [] \<Longrightarrow> last (join sep ts) = last (last ts)"
proof (cases ts rule: rev_cases)
  case (snoc us u)
  assume "last ts \<noteq> []"
  with snoc show ?thesis by (cases "us = []") (simp_all add: join_snoc)
qed simp

lemma join_eq_Nil: "ts \<noteq> [] \<Longrightarrow> hd ts \<noteq> [] \<Longrightarrow> join sep ts \<noteq> []"
  by (induction ts rule: induct_list012) auto

lemma strip_join [text_simps]:
  assumes "list_all is_token ts"
  shows "strip (join sep ts) = join sep ts"
proof (cases "ts = []")
  case True
  then show ?thesis by (simp add: strip_id)
next
  case False
  then have h: "is_token (hd ts)" and l: "is_token (last ts)"
    using assms by (auto simp: list_all_iff)
  then have "hd ts \<noteq> []" "last ts \<noteq> []" by (auto simp: is_token_def)
  moreover from h l have "\<not> is_ws (hd (hd ts))" "\<not> is_ws (last (last ts))"
    by (auto simp: is_token_def list_all_iff)
  ultimately show ?thesis
    using False by (intro strip_id) (simp add: hd_join last_join)
qed

lemma startswith_single: "startswith s [c] \<longleftrightarrow> s \<noteq> [] \<and> hd s = c"
  by (cases s) auto

lemma startswith_append [simp]: "startswith (p @ s) p"
  by (induction p) auto

end
