(* ===== verification/Py_Float.thy ===== *)
theory Py_Float
  imports Prelude
begin

text \<open>
  Binary floating point as the tools use it: a finite IEEE-754 value is the rational it
  denotes, and every operation of the sources is the exact operation followed by rounding to
  nearest, ties to even (\<open>fl\<close>), in binary64 (Python's \<open>float\<close>), binary32 and binary16
  (numpy's \<open>float32\<close> and \<open>float16\<close>), gradual underflow included. Overflow to infinity and
  NaN are not modelled here: the quantities of the tools are ratios of counters, percentages and
  weights far below the largest finite value of their format. Where a conversion to float16 can overflow, the
  theory that models it adds the infinities.

  The interface the other theories rely on is the locale \<open>rounding\<close>: rounding is
  monotone and keeps zero and one. It is interpreted for the three formats.
\<close>

subsection \<open>Definitions\<close>

text \<open>Number of binary digits of a natural number.\<close>

fun bits :: "nat \<Rightarrow> nat" where
  "bits n = (if n = 0 then 0 else Suc (bits (n div 2)))"

declare bits.simps [simp del]

text \<open>The exponent of the leading binary digit: \<open>2 powi e \<le> \<bar>x\<bar> < 2 powi (e + 1)\<close>.\<close>

definition ilog2 :: "rat \<Rightarrow> int" where
  "ilog2 x =
     (let (a, b) = quotient_of \<bar>x\<bar>;
          e = int (bits (nat a)) - int (bits (nat b))
      in if 2 powi e \<le> \<bar>x\<bar> then e else e - 1)"

definition round_half_even :: "rat \<Rightarrow> int" where
  "round_half_even x =
     (let f = \<lfloor>x\<rfloor>; r = x - of_int f
      in if r < 1 / 2 then f else if 1 / 2 < r then f + 1 else if even f then f else f + 1)"

text \<open>The exponent of the last place of \<open>x\<close> in a format with \<open>p\<close> digits and least exponent \<open>m\<close>.\<close>

definition last_place :: "int \<Rightarrow> int \<Rightarrow> rat \<Rightarrow> int" where
  "last_place p m x = max (ilog2 x - p + 1) m"

definition fl :: "int \<Rightarrow> int \<Rightarrow> rat \<Rightarrow> rat" where
  "fl p m x =
     (if x = 0 then 0
      else let q = last_place p m x in of_int (round_half_even (x / 2 powi q)) * 2 powi q)"

definition f64 :: "rat \<Rightarrow> rat" where "f64 = fl 53 (- 1074)"
definition f32 :: "rat \<Rightarrow> rat" where "f32 = fl 24 (- 149)"
definition f16 :: "rat \<Rightarrow> rat" where "f16 = fl 11 (- 24)"

text \<open>\<open>a / b\<close> on two Python integers, and \<open>a / b if b else 0.0\<close>.\<close>

definition py_div :: "int \<Rightarrow> int \<Rightarrow> rat" where
  "py_div a b = f64 (of_int a / of_int b)"

definition rate :: "nat \<Rightarrow> nat \<Rightarrow> rat" where
  "rate hits acc = (if acc = 0 then 0 else py_div (int hits) (int acc))"

subsection \<open>The leading digit\<close>

lemma bits_bounds: "0 < n \<Longrightarrow> 2 ^ (bits n - 1) \<le> n \<and> n < 2 ^ bits n \<and> 0 < bits n"
proof (induction n rule: bits.induct)
  case (1 n)
  show ?case
  proof (cases "n div 2 = 0")
    case True
    with "1.prems" have "n = 1" by simp
    then show ?thesis by (simp add: bits.simps)
  next
    case False
    with "1.IH" "1.prems" have ih: "2 ^ (bits (n div 2) - 1) \<le> n div 2 \<and> n div 2 < 2 ^ bits (n div 2)
        \<and> 0 < bits (n div 2)" by simp
    then obtain b where b: "bits (n div 2) = Suc b" by (cases "bits (n div 2)") auto
    with ih have "2 * 2 ^ b \<le> n \<and> n < 2 * 2 ^ Suc b" by auto
    with b "1.prems" show ?thesis by (simp add: bits.simps [of n])
  qed
qed

lemma ilog2_bounds:
  assumes "x \<noteq> 0"
  shows "2 powi ilog2 x \<le> \<bar>x\<bar>" and "\<bar>x\<bar> < 2 powi (ilog2 x + 1)"
proof -
  obtain a b where q: "quotient_of \<bar>x\<bar> = (a, b)" by (cases "quotient_of \<bar>x\<bar>")
  have b0: "0 < b" using q by (rule quotient_of_denom_pos)
  have x: "\<bar>x\<bar> = of_int a / of_int b" using q by (rule quotient_of_div)
  with assms b0 have a0: "0 < a"
    by (metis abs_ge_zero abs_eq_0 divide_le_0_iff less_eq_rat_def linorder_not_le of_int_0_less_iff
        of_int_le_0_iff order_antisym)
  define A B where "A = bits (nat a)" and "B = bits (nat b)"
  have A: "2 ^ (A - 1) \<le> nat a \<and> nat a < 2 ^ A \<and> 0 < A" and B: "2 ^ (B - 1) \<le> nat b \<and> nat b < 2 ^ B \<and> 0 < B"
    using bits_bounds [of "nat a"] bits_bounds [of "nat b"] a0 b0 by (auto simp: A_def B_def)
  have conv: "int (2 ^ n) \<le> c \<longleftrightarrow> (2::rat) ^ n \<le> of_int c"
    "c < int (2 ^ n) \<longleftrightarrow> of_int c < (2::rat) ^ n" for n c
    by (metis of_int_le_iff of_int_of_nat_eq of_nat_numeral of_nat_power)
       (metis of_int_less_iff of_int_of_nat_eq of_nat_numeral of_nat_power)
  have A': "(2::rat) ^ (A - 1) \<le> of_int a" "of_int a < (2::rat) ^ A"
    using A a0 by (auto simp flip: conv simp: nat_less_iff le_nat_iff)
  have B': "(2::rat) ^ (B - 1) \<le> of_int b" "of_int b < (2::rat) ^ B"
    using B b0 by (auto simp flip: conv simp: nat_less_iff le_nat_iff)
  let ?e = "int A - int B"
  have pe: "(2::rat) powi (int m - int n) = 2 ^ m / 2 ^ n" for m n
    by (simp add: power_int_diff)
  have up: "\<bar>x\<bar> < 2 powi (?e + 1)"
  proof -
    have "\<bar>x\<bar> < 2 ^ A / 2 ^ (B - 1)"
      unfolding x using A' B' a0 b0 by (intro frac_less) auto
    also have "\<dots> = 2 powi (int A - int (B - 1))" by (simp add: pe)
    also have "int A - int (B - 1) = ?e + 1" using B by (simp add: of_nat_diff)
    finally show ?thesis .
  qed
  have low: "2 powi (?e - 1) \<le> \<bar>x\<bar>"
  proof -
    have "?e - 1 = int (A - 1) - int B" using A by (simp add: of_nat_diff)
    then have "(2::rat) powi (?e - 1) = 2 powi (int (A - 1) - int B)" by (rule arg_cong)
    also have "\<dots> = 2 ^ (A - 1) / 2 ^ B" by (rule pe)
    also have "\<dots> \<le> \<bar>x\<bar>"
      unfolding x using A' B' a0 b0 by (intro frac_le) auto
    finally show ?thesis .
  qed
  have i: "ilog2 x = (if 2 powi ?e \<le> \<bar>x\<bar> then ?e else ?e - 1)"
    by (simp add: ilog2_def q A_def B_def)
  show "2 powi ilog2 x \<le> \<bar>x\<bar>" and "\<bar>x\<bar> < 2 powi (ilog2 x + 1)"
    using up low by (auto simp: i)
qed

lemma powi2_pos [simp]: "(0::rat) < 2 powi e"
  by simp

lemma powi2_le_iff [simp]: "(2::rat) powi a \<le> 2 powi b \<longleftrightarrow> a \<le> b"
proof
  assume "(2::rat) powi a \<le> 2 powi b"
  then show "a \<le> b"
    using power_int_strict_increasing [of b a "2::rat"] by (meson linorder_not_le not_le_imp_less one_less_numeral_iff semiring_norm(76))
next
  assume "a \<le> b"
  then show "(2::rat) powi a \<le> 2 powi b" by (intro power_int_increasing) auto
qed

lemma powi2_less_iff [simp]: "(2::rat) powi a < 2 powi b \<longleftrightarrow> a < b"
  by (metis linorder_not_le powi2_le_iff)

lemma ilog2_mono: "x \<noteq> 0 \<Longrightarrow> \<bar>x\<bar> \<le> \<bar>y\<bar> \<Longrightarrow> ilog2 x \<le> ilog2 y"
proof -
  assume x: "x \<noteq> 0" and le: "\<bar>x\<bar> \<le> \<bar>y\<bar>"
  then have y: "y \<noteq> 0" by auto
  have "2 powi ilog2 x \<le> \<bar>x\<bar>" "\<bar>y\<bar> < 2 powi (ilog2 y + 1)"
    using ilog2_bounds x y by blast+
  with le have "(2::rat) powi ilog2 x < 2 powi (ilog2 y + 1)" by linarith
  then show ?thesis by (subst (asm) powi2_less_iff) simp
qed

lemma ilog2_minus [simp]: "ilog2 (- x) = ilog2 x"
  by (simp add: ilog2_def)

lemma ilog2_less_of_bound: "x \<noteq> 0 \<Longrightarrow> \<bar>x\<bar> < 2 powi e \<Longrightarrow> ilog2 x < e"
  by (metis dual_order.strict_trans2 ilog2_bounds(1) powi2_less_iff)

subsection \<open>Rounding to an integer\<close>

lemma round_half_even_of_int [simp]: "round_half_even (of_int n) = n"
  by (simp add: round_half_even_def)

lemma round_half_even_cases:
  "round_half_even x = \<lfloor>x\<rfloor> \<and> x - of_int \<lfloor>x\<rfloor> \<le> 1 / 2
   \<or> round_half_even x = \<lfloor>x\<rfloor> + 1 \<and> 1 / 2 \<le> x - of_int \<lfloor>x\<rfloor>"
  by (auto simp: round_half_even_def Let_def)

lemma round_half_even_error: "\<bar>of_int (round_half_even x) - x\<bar> \<le> 1 / 2"
  using round_half_even_cases [of x] floor_correct [of x] by auto

lemma round_half_even_mono: "x \<le> y \<Longrightarrow> round_half_even x \<le> round_half_even y"
proof -
  assume le: "x \<le> y"
  then have f: "\<lfloor>x\<rfloor> \<le> \<lfloor>y\<rfloor>" by (rule floor_mono)
  show ?thesis
  proof (cases "\<lfloor>x\<rfloor> = \<lfloor>y\<rfloor>")
    case True
    with le show ?thesis by (auto simp: round_half_even_def Let_def)
  next
    case False
    with f have "\<lfloor>x\<rfloor> + 1 \<le> \<lfloor>y\<rfloor>" by simp
    with round_half_even_cases [of x] round_half_even_cases [of y] show ?thesis by auto
  qed
qed

lemma round_half_even_le: "x \<le> of_int n \<Longrightarrow> round_half_even x \<le> n"
  by (metis round_half_even_mono round_half_even_of_int)

lemma round_half_even_ge: "of_int n \<le> x \<Longrightarrow> n \<le> round_half_even x"
  by (metis round_half_even_mono round_half_even_of_int)

lemma round_half_even_minus: "round_half_even (- x) = - round_half_even x"
proof (cases "x = of_int \<lfloor>x\<rfloor>")
  case True
  then show ?thesis by (metis of_int_minus round_half_even_of_int)
next
  case False
  have fl: "\<lfloor>- x\<rfloor> = - \<lfloor>x\<rfloor> - 1"
  proof (rule floor_unique)
    have "of_int \<lfloor>x\<rfloor> < x" using False floor_correct [of x] by linarith
    then show "- x < of_int (- \<lfloor>x\<rfloor> - 1) + 1" by simp
    show "of_int (- \<lfloor>x\<rfloor> - 1) \<le> - x" using floor_correct [of x] by simp
  qed
  show ?thesis
    unfolding round_half_even_def Let_def fl by auto
qed

subsection \<open>Rounding to a format\<close>

lemma fl_zero [simp]: "fl p m 0 = 0"
  by (simp add: fl_def)

lemma fl_minus: "fl p m (- x) = - fl p m x"
  by (simp add: fl_def last_place_def Let_def round_half_even_minus)

lemma fl_le_multiple:
  assumes "x \<noteq> 0" and "q = last_place p m x" and "x \<le> of_int n * 2 powi q"
  shows "fl p m x \<le> of_int n * 2 powi q"
proof -
  have "x / 2 powi q \<le> of_int n" using assms(3) by (simp add: divide_le_eq)
  then have "round_half_even (x / 2 powi q) \<le> n" by (rule round_half_even_le)
  then show ?thesis using assms(1,2) by (simp add: fl_def Let_def)
qed

lemma fl_ge_multiple:
  assumes "x \<noteq> 0" and "q = last_place p m x" and "of_int n * 2 powi q \<le> x"
  shows "of_int n * 2 powi q \<le> fl p m x"
proof -
  have "of_int n \<le> x / 2 powi q" using assms(3) by (simp add: le_divide_eq)
  then have "n \<le> round_half_even (x / 2 powi q)" by (rule round_half_even_ge)
  then show ?thesis using assms(1,2) by (simp add: fl_def Let_def)
qed

lemma powi2_multiple: "q \<le> e \<Longrightarrow> \<exists>n. (2::rat) powi e = of_int n * 2 powi q"
proof -
  assume "q \<le> e"
  then obtain k where "e = q + int k" using zle_iff_zadd by blast
  then have "(2::rat) powi e = of_int (2 ^ k) * 2 powi q"
    by (simp add: power_int_add)
  then show ?thesis by blast
qed

lemma fl_nonneg: "0 \<le> x \<Longrightarrow> 0 \<le> fl p m x"
proof (cases "x = 0")
  case False
  assume "0 \<le> x"
  then show ?thesis using fl_ge_multiple [OF False refl, of 0 p m] by simp
qed simp

lemma fl_mono_pos:
  assumes "1 \<le> p" and "0 < x" and "x \<le> y"
  shows "fl p m x \<le> fl p m y"
proof -
  let ?qx = "last_place p m x" and ?qy = "last_place p m y"
  have ilog: "ilog2 x \<le> ilog2 y" using assms by (intro ilog2_mono) auto
  then have qle: "?qx \<le> ?qy" by (simp add: last_place_def)
  show ?thesis
  proof (cases "?qx = ?qy")
    case True
    have "x / 2 powi ?qx \<le> y / 2 powi ?qx" using assms by (simp add: divide_right_mono)
    then have "round_half_even (x / 2 powi ?qx) \<le> round_half_even (y / 2 powi ?qx)"
      by (rule round_half_even_mono)
    with True assms show ?thesis by (simp add: fl_def Let_def)
  next
    case False
    with qle have lt: "?qx < ?qy" by simp
    then have qy: "?qy = ilog2 y - p + 1" by (auto simp: last_place_def)
    have below: "max (ilog2 x + 1) ?qx \<le> ilog2 y"
      using lt qy assms(1) by (auto simp: last_place_def)
    obtain n where n: "(2::rat) powi (max (ilog2 x + 1) ?qx) = of_int n * 2 powi ?qx"
      using powi2_multiple [of ?qx "max (ilog2 x + 1) ?qx"] by auto
    have "x < 2 powi (ilog2 x + 1)" using ilog2_bounds(2) [of x] assms by simp
    also have "\<dots> \<le> 2 powi (max (ilog2 x + 1) ?qx)" by simp
    finally have "fl p m x \<le> 2 powi (max (ilog2 x + 1) ?qx)"
      unfolding n using assms by (intro fl_le_multiple) auto
    also have "\<dots> \<le> 2 powi ilog2 y" using below by simp
    also have "\<dots> \<le> fl p m y"
    proof -
      obtain k where k: "(2::rat) powi (ilog2 y) = of_int k * 2 powi ?qy"
        using powi2_multiple [of ?qy "ilog2 y"] qy assms(1) by auto
      have "2 powi ilog2 y \<le> y" using ilog2_bounds(1) [of y] assms by simp
      then show ?thesis unfolding k using assms by (intro fl_ge_multiple) auto
    qed
    finally show ?thesis .
  qed
qed

lemma fl_mono:
  assumes p: "1 \<le> p" and le: "x \<le> y"
  shows "fl p m x \<le> fl p m y"
proof -
  consider "0 < x" | "x \<le> 0" "0 \<le> y" | "y < 0" using le by linarith
  then show ?thesis
  proof cases
    case 1
    then show ?thesis using fl_mono_pos p le by blast
  next
    case 2
    then have "0 \<le> fl p m (- x)" "0 \<le> fl p m y" by (auto intro: fl_nonneg)
    then show ?thesis by (simp add: fl_minus)
  next
    case 3
    then have "fl p m (- y) \<le> fl p m (- x)" using fl_mono_pos [of p "- y" "- x" m] p le by simp
    then show ?thesis by (simp add: fl_minus)
  qed
qed

lemma fl_exact_int:
  assumes "1 \<le> p" and "m \<le> 0" and "\<bar>n\<bar> < 2 ^ nat p"
  shows "fl p m (of_int n) = of_int n"
proof (cases "n = 0")
  case False
  have "\<bar>of_int n\<bar> < (2::rat) ^ nat p"
    using assms(3) by (metis of_int_abs of_int_less_iff of_int_numeral of_int_power)
  also have "\<dots> = 2 powi p" using assms(1) by (simp add: power_int_def)
  finally have "ilog2 (of_int n) < p" using False by (intro ilog2_less_of_bound) auto
  then have q: "last_place p m (of_int n) \<le> 0" using assms by (simp add: last_place_def)
  let ?q = "last_place p m (of_int n)"
  obtain k where k: "(2::rat) powi 0 = of_int k * 2 powi ?q" using powi2_multiple [OF q] by auto
  then have "of_int n = of_int (n * k) * (2::rat) powi ?q" by (simp add: mult.assoc)
  then have nk: "of_int (n * k) * (2::rat) powi ?q = of_int n" by (rule sym)
  have "of_int n / (2::rat) powi ?q = of_int (n * k) * 2 powi ?q / 2 powi ?q"
    by (simp only: nk)
  also have "\<dots> = of_int (n * k)" by simp
  finally have "of_int n / (2::rat) powi ?q = of_int (n * k)" .
  then have r: "round_half_even (of_int n / 2 powi ?q) = n * k"
    by (simp only: round_half_even_of_int)
  have "fl p m (of_int n) = of_int (n * k) * 2 powi ?q"
    unfolding fl_def Let_def r using False by simp
  with nk show ?thesis by simp
qed simp

text \<open>Half a unit in the last place.\<close>

lemma fl_error: "x \<noteq> 0 \<Longrightarrow> \<bar>fl p m x - x\<bar> \<le> 2 powi (last_place p m x) / 2"
proof -
  assume x: "x \<noteq> 0"
  let ?q = "last_place p m x"
  have "\<bar>fl p m x - x\<bar> = \<bar>of_int (round_half_even (x / 2 powi ?q)) - x / 2 powi ?q\<bar> * 2 powi ?q"
  proof -
    have "fl p m x - x = (of_int (round_half_even (x / 2 powi ?q)) - x / 2 powi ?q) * 2 powi ?q"
      using x by (simp add: fl_def Let_def left_diff_distrib)
    then show ?thesis by (simp add: abs_mult)
  qed
  also have "\<dots> \<le> 1 / 2 * 2 powi ?q"
    by (intro mult_right_mono round_half_even_error) simp
  finally show ?thesis by simp
qed

subsection \<open>Evaluating a rounding, relative and absolute error\<close>

lemma ilog2_eqI:
  assumes "2 powi e \<le> \<bar>x\<bar>" "\<bar>x\<bar> < 2 powi (e + 1)"
  shows "ilog2 x = e"
proof -
  have "0 < \<bar>x\<bar>" using powi2_pos assms(1) by (rule less_le_trans)
  then have x: "x \<noteq> 0" by simp
  show ?thesis
    using le_less_trans [OF ilog2_bounds(1) [OF x] assms(2)]
      le_less_trans [OF assms(1) ilog2_bounds(2) [OF x]] by simp
qed

lemma round_half_even_eqI: "\<bar>of_int n - x\<bar> < 1 / 2 \<Longrightarrow> round_half_even x = n"
proof -
  assume "\<bar>of_int n - x\<bar> < 1 / 2"
  moreover have "\<bar>of_int (round_half_even x) - x\<bar> \<le> 1 / 2" by (rule round_half_even_error)
  ultimately have "of_int (round_half_even x) < (of_int n + 1 :: rat)" "of_int n < (of_int (round_half_even x) + 1 :: rat)"
    by linarith+
  then show ?thesis by linarith
qed

text \<open>A value is rounded to \<open>n\<close> units of the last place when it is less than half a unit away.\<close>

lemma fl_eqI:
  assumes "2 powi (q + p - 1) \<le> \<bar>x\<bar>" "\<bar>x\<bar> < 2 powi (q + p)" "m \<le> q"
    and "\<bar>of_int n * 2 powi q - x\<bar> < 2 powi q / 2"
  shows "fl p m x = of_int n * 2 powi q"
proof -
  have "0 < \<bar>x\<bar>" using powi2_pos assms(1) by (rule less_le_trans)
  then have x: "x \<noteq> 0" by simp
  have "ilog2 x = q + p - 1" using assms by (intro ilog2_eqI) auto
  then have lp: "last_place p m x = q" using assms(3) by (simp add: last_place_def)
  have "of_int n * 2 powi q - x = (of_int n - x / 2 powi q) * 2 powi q"
    by (simp add: left_diff_distrib)
  then have "\<bar>of_int n - x / 2 powi q\<bar> * 2 powi q < 1 / 2 * 2 powi q"
    using assms(4) by (simp add: abs_mult)
  then have "\<bar>of_int n - x / 2 powi q\<bar> < 1 / 2"
    by (rule mult_right_less_imp_less) simp
  then have "round_half_even (x / 2 powi q) = n" by (rule round_half_even_eqI)
  then show ?thesis using x lp by (simp add: fl_def)
qed

text \<open>A number with few enough digits is not changed.\<close>

lemma fl_exact:
  assumes "x = of_int n * 2 powi e" "\<bar>n\<bar> < 2 ^ nat p" "m \<le> e" "1 \<le> p"
  shows "fl p m x = x"
proof (cases "n = 0")
  case False
  have x0: "x \<noteq> 0" using assms(1) False by simp
  have "\<bar>of_int n\<bar> < (2::rat) ^ nat p" using assms(2) by (metis of_int_abs of_int_less_iff of_int_numeral of_int_power)
  also have "\<dots> = 2 powi p" using assms(4) by (simp add: power_int_def)
  finally have "\<bar>of_int n\<bar> * 2 powi e < (2::rat) powi p * 2 powi e" by (rule mult_strict_right_mono) simp
  then have "\<bar>x\<bar> < 2 powi (p + e)" by (simp add: assms(1) abs_mult power_int_add)
  then have "ilog2 x < p + e" by (rule ilog2_less_of_bound [OF x0])
  then have q: "last_place p m x \<le> e" using assms(3) by (simp add: last_place_def)
  obtain k where k: "(2::rat) powi e = of_int k * 2 powi last_place p m x" using powi2_multiple [OF q] by auto
  define u where "u = (2::rat) powi last_place p m x"
  have u: "0 < u" by (simp add: u_def)
  have xk: "x = of_int (n * k) * u" by (subst assms(1)) (simp only: k [folded u_def] of_int_mult mult.assoc)
  then have "x / u = of_int (n * k)" using u by simp
  then have "round_half_even (x / u) = n * k" by (simp only: round_half_even_of_int)
  moreover have "fl p m x = of_int (round_half_even (x / u)) * u" using x0 by (simp add: fl_def Let_def u_def)
  ultimately show ?thesis using xk by simp
qed (simp add: assms(1))

text \<open>Relative and absolute error.\<close>

lemma fl_rel_error:
  assumes "2 powi (m + p - 1) \<le> \<bar>x\<bar>"
  shows "\<bar>fl p m x - x\<bar> \<le> \<bar>x\<bar> * 2 powi (- p)"
proof -
  have "0 < \<bar>x\<bar>" using powi2_pos assms(1) by (rule less_le_trans)
  then have x: "x \<noteq> 0" by simp
  have "(2::rat) powi (m + p - 1) < 2 powi (ilog2 x + 1)"
    using assms ilog2_bounds(2) [OF x] by (rule le_less_trans)
  then have "last_place p m x = ilog2 x - p + 1" by (simp add: last_place_def)
  then have "\<bar>fl p m x - x\<bar> \<le> 2 powi (ilog2 x - p + 1) / 2" using fl_error [OF x, of p m] by simp
  also have "\<dots> = 2 powi ilog2 x * 2 powi (- p)"
    by (simp add: power_int_add power_int_diff power_int_minus field_simps)
  also have "\<dots> \<le> \<bar>x\<bar> * 2 powi (- p)"
    by (intro mult_right_mono ilog2_bounds(1) [OF x]) (simp add: less_imp_le)
  finally show ?thesis .
qed

lemma fl_abs_error:
  assumes "\<bar>x\<bar> < 2 powi e" and "m \<le> e - p"
  shows "\<bar>fl p m x - x\<bar> \<le> 2 powi (e - p) / 2"
proof (cases "x = 0")
  case False
  then have "ilog2 x < e" using assms(1) by (rule ilog2_less_of_bound)
  then have "last_place p m x \<le> e - p" using assms(2) by (simp add: last_place_def)
  then have "(2::rat) powi last_place p m x \<le> 2 powi (e - p)" by simp
  then show ?thesis using fl_error [OF False, of p m] by linarith
qed simp

lemma fl_le_D:
  assumes "fl p m x \<le> y" and "2 powi (m + p - 1) \<le> y" and "1 \<le> p"
  shows "x \<le> y * (1 + 2 powi (1 - p))"
proof (cases "2 powi (m + p - 1) \<le> x")
  case True
  then have x0: "0 < x" using powi2_pos less_le_trans by blast
  let ?u = "(2::rat) powi (- p)"
  have u: "0 < ?u" "?u \<le> 1 / 2"
    using powi2_le_iff [of "- p" "- 1"] assms(3) by (simp_all add: power_int_minus del: powi2_le_iff)
  have "\<bar>fl p m x - x\<bar> \<le> x * ?u" using fl_rel_error [of m p x] True x0 by simp
  then have "x * (1 - ?u) \<le> y" using assms(1) by (simp add: algebra_simps)
  then have "x * (1 - ?u) * (1 + 2 * ?u) \<le> y * (1 + 2 * ?u)"
    by (rule mult_right_mono) (use u in simp)
  moreover have "x \<le> x * (1 - ?u) * (1 + 2 * ?u)"
  proof -
    have "?u * ?u \<le> ?u * (1 / 2)" using u by (intro mult_left_mono) auto
    then have "1 \<le> (1 - ?u) * (1 + 2 * ?u)" by (simp add: algebra_simps)
    then show ?thesis using x0 mult_left_mono [of 1 "(1 - ?u) * (1 + 2 * ?u)" x] by (simp add: mult.assoc)
  qed
  moreover have "(2::rat) powi (1 - p) = 2 * ?u" by (simp add: power_int_diff power_int_minus divide_inverse)
  ultimately show ?thesis by simp
next
  case False
  have "y \<le> y * (1 + 2 powi (1 - p))"
    using less_le_trans [OF powi2_pos assms(2)] mult_left_mono [of 1 "1 + 2 powi (1 - p)" y]
    by (simp add: less_imp_le)
  with False assms(2) show ?thesis by linarith
qed

subsection \<open>What the clients use\<close>

locale rounding =
  fixes rnd :: "rat \<Rightarrow> rat"
  assumes rnd_mono: "x \<le> y \<Longrightarrow> rnd x \<le> rnd y"
    and rnd_0: "rnd 0 = 0"
    and rnd_1: "rnd 1 = 1"
begin

lemma rnd_nonneg: "0 \<le> x \<Longrightarrow> 0 \<le> rnd x"
  using rnd_mono [of 0 x] by (simp add: rnd_0)

lemma rnd_unit: "0 \<le> x \<Longrightarrow> x \<le> 1 \<Longrightarrow> 0 \<le> rnd x \<and> rnd x \<le> 1"
  using rnd_mono [of x 1] by (simp add: rnd_nonneg rnd_1)

lemma rnd_ratio_unit: "0 < b \<Longrightarrow> a \<le> b \<Longrightarrow>
    0 \<le> rnd (of_nat a / of_nat b) \<and> rnd (of_nat a / of_nat b) \<le> 1"
  by (rule rnd_unit) (auto simp: divide_le_eq)

lemma rnd_ratio_mono: "a \<le> a' \<Longrightarrow> rnd (of_nat a / of_nat b) \<le> rnd (of_nat a' / of_nat b)"
  by (rule rnd_mono) (simp add: divide_right_mono)

end

lemma fl_one: "1 \<le> p \<Longrightarrow> m \<le> 0 \<Longrightarrow> fl p m 1 = 1"
  using fl_exact_int [of p m 1] by (simp add: self_le_power one_less_power)

interpretation r64: rounding f64
  by unfold_locales (auto simp: f64_def intro: fl_mono fl_one)

interpretation r32: rounding f32
  by unfold_locales (auto simp: f32_def intro: fl_mono fl_one)

interpretation r16: rounding f16
  by unfold_locales (auto simp: f16_def intro: fl_mono fl_one)

lemma rate_unit: "hits \<le> acc \<Longrightarrow> 0 \<le> rate hits acc \<and> rate hits acc \<le> 1"
  using r64.rnd_ratio_unit [of acc hits] by (simp add: rate_def py_div_def)

lemma rate_mono: "h \<le> h' \<Longrightarrow> rate h acc \<le> rate h' acc"
  using r64.rnd_ratio_mono [of h h' acc] by (simp add: rate_def py_div_def)

lemma rate_zero [simp]: "rate 0 acc = 0"
  by (simp add: rate_def py_div_def r64.rnd_0)

lemma rate_full: "0 < acc \<Longrightarrow> rate acc acc = 1"
  by (simp add: rate_def py_div_def r64.rnd_1)

subsection \<open>The error bounds at the two formats the quantiser uses\<close>

lemma f64_le_D: "f64 x \<le> y \<Longrightarrow> 1 / 2 ^ 1022 \<le> y \<Longrightarrow> x \<le> y * (1 + 1 / 2 ^ 52)"
  using fl_le_D [of 53 "- 1074" x y] by (simp add: f64_def power_int_def power_one_over)

lemma f64_rel_error:
  assumes "1 / 2 ^ 1000 \<le> x"
  shows "\<bar>f64 x - x\<bar> \<le> x / 2 ^ 53"
proof -
  have "(2::rat) powi (- 1074 + 53 - 1) \<le> 2 powi (- 1000)" by (simp only: powi2_le_iff)
  also have "\<dots> \<le> x" using assms by (simp add: power_int_def power_one_over)
  finally have n: "2 powi (- 1074 + 53 - 1) \<le> x" .
  then have "0 < x" using powi2_pos less_le_trans by blast
  then show ?thesis
    using fl_rel_error [of "- 1074" 53 x] n by (simp add: f64_def power_int_def power_one_over)
qed

lemma f64_ge_D:
  assumes "y \<le> f64 x" "1 < y"
  shows "y * (1 - 1 / 2 ^ 52) \<le> x"
proof -
  have x: "1 < x" using r64.rnd_mono [of x 1] assms by (force simp: r64.rnd_1)
  have "(1::rat) / 2 ^ 1000 \<le> 1" by simp
  then have "\<bar>f64 x - x\<bar> \<le> x / 2 ^ 53" using x by (intro f64_rel_error) linarith
  then have "f64 x \<le> x + x / 2 ^ 53" by linarith
  also have "\<dots> = x * (1 + 1 / 2 ^ 53)" by (simp add: distrib_left)
  finally have "y \<le> x * (1 + 1 / 2 ^ 53)" using assms by simp
  then have "y * (1 - 1 / 2 ^ 52) \<le> x * (1 + 1 / 2 ^ 53) * (1 - 1 / 2 ^ 52)"
    by (rule mult_right_mono) simp
  also have "\<dots> \<le> x" using x by simp
  finally show ?thesis .
qed

lemma f32_abs_error: "\<bar>x\<bar> < 32 \<Longrightarrow> \<bar>f32 x - x\<bar> \<le> 1 / 2 ^ 20"
  using fl_abs_error [of x 5 "- 149" 24] by (simp add: f32_def power_int_def power_one_over)

lemma f32_zero [simp]: "f32 0 = 0"
  by (simp add: f32_def)

lemma f64_zero [simp]: "f64 0 = 0"
  by (simp add: f64_def)

lemma f16_zero [simp]: "f16 0 = 0"
  by (simp add: f16_def)

lemma f32_of_int: "\<bar>n\<bar> < 2 ^ 24 \<Longrightarrow> f32 (of_int n) = of_int n"
  unfolding f32_def by (rule fl_exact_int) simp_all

lemma f64_rel: "1 / 2 ^ 1000 \<le> \<bar>x\<bar> \<Longrightarrow> \<bar>f64 x - x\<bar> \<le> \<bar>x\<bar> / 2 ^ 53"
  using f64_rel_error [of "\<bar>x\<bar>"] fl_minus [of 53 "- 1074" x] by (cases "0 \<le> x") (auto simp: f64_def)

lemma f32_rel:
  assumes "1 / 2 ^ 126 \<le> \<bar>x\<bar>"
  shows "\<bar>f32 x - x\<bar> \<le> \<bar>x\<bar> / 2 ^ 24"
proof -
  have "(2::rat) powi (- 149 + 24 - 1) \<le> \<bar>x\<bar>" using assms by (simp add: power_int_def power_one_over)
  from fl_rel_error [OF this] show ?thesis by (simp add: f32_def power_int_def power_one_over)
qed

lemma f64_small: "\<bar>x\<bar> < 64 \<Longrightarrow> \<bar>f64 x - x\<bar> \<le> 1 / 2 ^ 48"
  using fl_abs_error [of x 6 "- 1074" 53] by (simp add: f64_def power_int_def power_one_over)

text \<open>Errors add up.\<close>

lemma near_abs: "\<bar>x - y\<bar> \<le> e \<Longrightarrow> \<bar>y\<bar> - e \<le> \<bar>x :: rat\<bar>"
  by linarith

lemma near_low: "\<bar>x - y\<bar> \<le> e \<Longrightarrow> y - e \<le> (x :: rat)"
  by linarith

lemma near_both: "\<bar>x - y\<bar> \<le> d \<Longrightarrow> \<bar>z - y\<bar> \<le> e \<Longrightarrow> \<bar>x - z :: rat\<bar> \<le> d + e"
  by linarith

lemma near_bound: "\<bar>x - y\<bar> \<le> d \<Longrightarrow> \<bar>y\<bar> + d < b \<Longrightarrow> \<bar>x :: rat\<bar> < b"
  by linarith

lemma near_trans: "\<bar>x - y\<bar> \<le> d \<Longrightarrow> \<bar>y - z\<bar> \<le> e \<Longrightarrow> \<bar>x - z :: rat\<bar> \<le> d + e"
  by linarith

end
