(* ===== verification/Hot_Set_Census.thy ===== *)
theory Hot_Set_Census
  imports Py_Text Py_Float
begin

text \<open>
  The census instrument, \<open>tools/hot_set_census.py\<close>: reading and writing routed-expert traces
  (format v1 and the plugin's per-call trace), the census summary and its CSV form, the
  frequency rank and the hot set chosen from it, rounds-to-plateau, the conversion of a call
  trace to format v1, the cross-checks against the plugin's own dump, and the seed text the
  static partition is built from.

  A file is its text; a function that reads a path takes the text, one that writes a path
  returns it. Python integers are \<open>int\<close>, sizes and counters that start at zero and only
  grow are \<open>nat\<close>, counts stored in a dictionary are \<open>int\<close>.
\<close>

type_synonym trace_row = "int \<times> int \<times> int list"
type_synonym call_row = "int \<times> int \<times> int \<times> int list"
type_synonym hot_set = "(int, int list) dict"
type_synonym provenance = "(string, string) dict"

subsection \<open>Reading and writing traces\<close>

text \<open>\<open>[int(x) for x in ...]\<close>; the first field that is not an integer raises.\<close>

fun ints :: "string list \<Rightarrow> int list option" where
  "ints [] = Some []"
| "ints (x # xs) = (case py_int x of None \<Rightarrow> None | Some i \<Rightarrow> map_option ((#) i) (ints xs))"

text \<open>\<open>for lineno, ln in enumerate(f, 1)\<close> with a row appended, skipped or refused.\<close>

fun scan_lines :: "(nat \<Rightarrow> string \<Rightarrow> 'a option res) \<Rightarrow> nat \<Rightarrow> string list \<Rightarrow> 'a list res" where
  "scan_lines f n [] = Inr []"
| "scan_lines f n (l # ls) =
     rbind (f n l) (\<lambda>r. rbind (scan_lines f (Suc n) ls) (\<lambda>rs.
       Inr (case r of None \<Rightarrow> rs | Some x \<Rightarrow> x # rs)))"

text \<open>The \<open>key=value\<close> tokens of one header line, later keys overwriting earlier ones.\<close>

definition add_pairs :: "string \<Rightarrow> provenance \<Rightarrow> provenance" where
  "add_pairs body prov =
     fold (\<lambda>tok d. if CHR ''='' \<in> set tok
                   then (let (k, v) = split_first (CHR ''='') tok in AList.update (strip k) (strip v) d)
                   else d)
          (split_ws body) prov"

fun provenance_lines :: "string list \<Rightarrow> provenance \<Rightarrow> provenance" where
  "provenance_lines [] prov = prov"
| "provenance_lines (l # ls) prov =
     (let ln = strip l in
      if ln = [] then provenance_lines ls prov
      else if \<not> startswith ln ''#'' then prov
      else let body = strip (drop 1 ln) in
        if startswith body ''arcint routing trace'' then provenance_lines ls prov
        else provenance_lines ls (add_pairs body prov))"

definition read_provenance :: "string \<Rightarrow> provenance" where
  "read_provenance text = provenance_lines (file_lines text) []"

definition parse_trace_row :: "bool \<Rightarrow> nat \<Rightarrow> string \<Rightarrow> trace_row option res" where
  "parse_trace_row strict lineno l =
     (let ln = strip l in
      if ln = [] \<or> startswith ln ''#'' then Inr None
      else case split_ws ln of
        a # b # e # es \<Rightarrow>
          (case (py_int a, py_int b, ints (e # es)) of
             (Some tok, Some lay, Some experts) \<Rightarrow>
               if tok < 0 \<or> lay < 0 \<or> list_ex (\<lambda>x. x < 0) experts
               then Inl (NegativeField lineno)
               else Inr (Some (tok, lay, experts))
           | _ \<Rightarrow> Inl (NonIntegerField lineno))
      | _ \<Rightarrow> if strict then Inl (MalformedRow lineno) else Inr None)"

definition parse_trace :: "string \<Rightarrow> bool \<Rightarrow> trace_row list res" where
  "parse_trace text strict = scan_lines (parse_trace_row strict) 1 (file_lines text)"

text \<open>
  The rows \<open>write_router_trace\<close> emits, token-major over the sorted layers, and their text.
\<close>

definition router_rows :: "(int, int list list) dict \<Rightarrow> nat \<Rightarrow> trace_row list" where
  "router_rows by_layer n_tokens =
     concat (map (\<lambda>tok.
       concat (map (\<lambda>lay.
         let ids = dict_get by_layer lay [] in
         if length ids \<le> tok then [] else [(int tok, lay, sort (ids ! tok))])
       (sort (map fst by_layer))))
     [0..<n_tokens])"

definition render_row :: "trace_row \<Rightarrow> string" where
  "render_row r = (case r of (tok, lay, es) \<Rightarrow> join '' '' (map py_str (tok # lay # es)))"

definition render_pair :: "string \<times> string \<Rightarrow> string" where
  "render_pair kv = ''# '' @ fst kv @ ''='' @ snd kv"

definition text_of :: "string list \<Rightarrow> string" where
  "text_of ls = join [LF] ls @ [LF]"

definition write_router_trace ::
  "(int, int list list) dict \<Rightarrow> nat \<Rightarrow> provenance \<Rightarrow> string" where
  "write_router_trace by_layer n_tokens prov =
     text_of (''# arcint routing trace v1'' # map render_pair prov
              @ map render_row (router_rows by_layer n_tokens))"

record trace_shape =
  sh_rows :: nat
  sh_tokens :: nat
  sh_layers :: nat
  sh_accesses :: nat
  sh_token_min :: "int option"
  sh_token_max :: "int option"

definition trace_shape :: "trace_row list \<Rightarrow> trace_shape" where
  "trace_shape rows =
     (let toks = remdups (map fst rows); lays = remdups (map (fst \<circ> snd) rows) in
      \<lparr>sh_rows = length rows, sh_tokens = length toks, sh_layers = length lays,
       sh_accesses = sum_list (map (\<lambda>r. length (snd (snd r))) rows),
       sh_token_min = (if toks = [] then None else Some (hd (sort toks))),
       sh_token_max = (if toks = [] then None else Some (last (sort toks)))\<rparr>)"

subsection \<open>The census summary\<close>

text \<open>Every routed access \<open>(layer, expert)\<close>, in the order the nested loops meet them.\<close>

definition accesses :: "trace_row list \<Rightarrow> (int \<times> int) list" where
  "accesses rows = concat (map (\<lambda>(tok, lay, es). map (Pair lay) es) rows)"

definition sorted_counts :: "(int \<times> int, int) dict \<Rightarrow> (int \<times> int \<times> int) list" where
  "sorted_counts hist = map (\<lambda>k. (fst k, snd k, dict_get hist k 0)) (sort (map fst hist))"

definition canonical_summary :: "trace_row list \<Rightarrow> (int \<times> int \<times> int) list" where
  "canonical_summary rows = sorted_counts (tally (accesses rows))"

definition render_count :: "int \<times> int \<times> int \<Rightarrow> string" where
  "render_count r = (case r of (lay, e, c) \<Rightarrow> join '','' (map py_str [lay, e, c]))"

definition total_line :: "(int \<times> int \<times> int) list \<Rightarrow> string" where
  "total_line s = ''# total,'' @ py_str (sum_list (map (snd \<circ> snd) s))"

definition write_summary :: "trace_row list \<Rightarrow> provenance \<Rightarrow> string" where
  "write_summary rows prov =
     text_of ((if prov = [] then []
               else ''# census summary (derived from a format-v1 routing trace)'' # map render_pair prov)
              @ ''layer,expert,count'' # map render_count (canonical_summary rows)
              @ [total_line (canonical_summary rows)])"

text \<open>
  A CSV with a header line, \<open>#\<close>-lines, and an optional \<open># total,T\<close> trailer checked
  against the summed counts: the shape \<open>read_plugin_csv\<close> and \<open>read_census_summary\<close> share.
\<close>

definition read_total :: "string \<Rightarrow> int option \<Rightarrow> int option" where
  "read_total s tot =
     (if startswith s ''# total,'' then py_int (snd (split_first (CHR '','') s)) else tot)"

fun csv_scan ::
  "(nat \<Rightarrow> string list \<Rightarrow> 'a res) \<Rightarrow> nat \<Rightarrow> string list \<Rightarrow> int option \<Rightarrow> ('a list \<times> int option) res"
where
  "csv_scan f n [] tot = Inr ([], tot)"
| "csv_scan f n (l # ls) tot =
     (let s = strip l in
      if s = [] then csv_scan f (Suc n) ls tot
      else if startswith s ''#'' then csv_scan f (Suc n) ls (read_total s tot)
      else let p = split_on (CHR '','') s in
        if hd p = ''layer'' then csv_scan f (Suc n) ls tot
        else rbind (f n p) (\<lambda>x. rbind (csv_scan f (Suc n) ls tot) (\<lambda>(xs, t). Inr (x # xs, t))))"

definition check_total :: "('a \<Rightarrow> int) \<Rightarrow> 'a list \<times> int option \<Rightarrow> 'a list res" where
  "check_total cnt r =
     (case snd r of
        None \<Rightarrow> Inr (fst r)
      | Some t \<Rightarrow> if t \<noteq> sum_list (map cnt (fst r)) then Inl TotalDisagrees else Inr (fst r))"

definition census_row :: "nat \<Rightarrow> string list \<Rightarrow> (int \<times> int \<times> int) res" where
  "census_row lineno p =
     (case p of
        [a, b, c] \<Rightarrow>
          (case (py_int a, py_int b, py_int c) of
             (Some lay, Some e, Some n) \<Rightarrow>
               if lay < 0 \<or> e < 0 \<or> n < 0 then Inl (NegativeField lineno) else Inr (lay, e, n)
           | _ \<Rightarrow> Inl (NonIntegerField lineno))
      | _ \<Rightarrow> Inl (WrongFieldCount lineno))"

definition read_census_summary :: "string \<Rightarrow> (int \<times> int \<times> int) list res" where
  "read_census_summary text =
     rbind (csv_scan census_row 1 (file_lines text) None) (check_total (snd \<circ> snd))"

definition plugin_row :: "nat \<Rightarrow> string list \<Rightarrow> (int \<times> int \<times> int \<times> int) res" where
  "plugin_row lineno p =
     (case p of
        [a, b, c, d] \<Rightarrow>
          (case (py_int a, py_int b, py_int c, py_int d) of
             (Some lay, Some off, Some e, Some n) \<Rightarrow> Inr (lay, off, e, n)
           | _ \<Rightarrow> Inl ValueErrorInt)
      | _ \<Rightarrow> Inl (WrongFieldCount lineno))"

definition read_plugin_csv :: "string \<Rightarrow> (int \<times> int \<times> int \<times> int) list res" where
  "read_plugin_csv text =
     rbind (csv_scan plugin_row 1 (file_lines text) None) (check_total (snd \<circ> snd \<circ> snd))"

subsection \<open>Frequency rank, hot set, coverage\<close>

definition frequency_rank :: "trace_row list \<Rightarrow> int option \<Rightarrow> (int \<times> int) list" where
  "frequency_rank rows layer =
     rank_desc (tally (concat (map (\<lambda>(tok, lay, es).
       case layer of None \<Rightarrow> es | Some l \<Rightarrow> if lay \<noteq> l then [] else es) rows)))"

definition select_hot_set :: "trace_row list \<Rightarrow> int \<Rightarrow> hot_set res" where
  "select_hot_set rows slots_per_layer =
     (if slots_per_layer < 0 then Inl NegativeSlots
      else Inr (map (\<lambda>lay. (lay, map fst (take_py slots_per_layer (frequency_rank rows (Some lay)))))
                 (sort (remdups (map (fst \<circ> snd) rows)))))"

definition select_hot_set_from_counts ::
  "(int \<times> int \<times> int) list \<Rightarrow> int \<Rightarrow> hot_set res" where
  "select_hot_set_from_counts counts slots_per_layer =
     (if slots_per_layer < 0 then Inl NegativeSlots
      else let by_layer = group_values (map (\<lambda>(lay, e, c). (lay, (e, c))) counts) in
        Inr (map (\<lambda>lay. (lay, map fst (take_py slots_per_layer (rank_desc (dict_get by_layer lay [])))))
               (sort (map fst by_layer))))"

definition coverage_counts :: "(int \<times> int) list \<Rightarrow> hot_set \<Rightarrow> nat \<times> nat" where
  "coverage_counts acs hot =
     fold (\<lambda>(lay, e) (hits, acc). (if e \<in> set (dict_get hot lay []) then hits + 1 else hits, acc + 1))
          acs (0, 0)"

definition hot_coverage :: "trace_row list \<Rightarrow> hot_set \<Rightarrow> rat" where
  "hot_coverage rows hot = (case coverage_counts (accesses rows) hot of (hits, acc) \<Rightarrow> rate hits acc)"

subsection \<open>Rounds to plateau\<close>

text \<open>\<open>while k < n: lengths.append(k); k *= 2\<close>, started at \<open>k = 1\<close>.\<close>

function doublings :: "nat \<Rightarrow> nat \<Rightarrow> nat list" where
  "doublings k n = (if 0 < k \<and> k < n then k # doublings (2 * k) n else [])"
  by pat_completeness auto
termination
  by (relation "measure (\<lambda>(k, n). n - k)") auto

declare doublings.simps [simp del]

definition prefix_lengths :: "nat \<Rightarrow> int option \<Rightarrow> nat list" where
  "prefix_lengths n max_prefixes =
     (let lengths = doublings 1 n @ [n] in
      case max_prefixes of
        None \<Rightarrow> lengths
      | Some m \<Rightarrow> filter (\<lambda>x. 0 < x \<and> x \<le> n) (sort (remdups (take_py m lengths @ [n]))))"

definition token_prefixes :: "int list \<Rightarrow> int option \<Rightarrow> int list list" where
  "token_prefixes tokens max_prefixes =
     (let toks = sort (remdups tokens); n = length toks in
      if n = 0 then [] else map (\<lambda>L. take L toks) (prefix_lengths n max_prefixes))"

record plateau_point =
  pp_tokens :: nat
  pp_hot_size :: nat
  pp_coverage :: rat
  pp_changed :: bool

record plateau_state =
  ps_series :: "plateau_point list"
  ps_prev :: "(hot_set \<times> rat) option"
  ps_stable :: nat
  ps_plateau_at :: "nat option"

text \<open>Two dictionaries are equal when they hold the same items.\<close>

definition dict_eq :: "('k, 'v) dict \<Rightarrow> ('k, 'v) dict \<Rightarrow> bool" where
  "dict_eq d d' = (set d = set d')"

definition plateau_step ::
  "int \<Rightarrow> rat \<Rightarrow> nat \<Rightarrow> hot_set \<Rightarrow> rat \<Rightarrow> plateau_state \<Rightarrow> plateau_state" where
  "plateau_step stable_window hit_eps ntoks hot cov st =
     (let changed = (case ps_prev st of None \<Rightarrow> False | Some (h, c) \<Rightarrow> \<not> dict_eq hot h);
          series = ps_series st @
            [\<lparr>pp_tokens = ntoks, pp_hot_size = sum_list (map (length \<circ> snd) hot),
              pp_coverage = cov, pp_changed = changed\<rparr>];
          stable = (case ps_prev st of
                      None \<Rightarrow> 0
                    | Some (h, c) \<Rightarrow> if \<not> changed \<and> \<bar>f64 (cov - c)\<bar> < hit_eps then ps_stable st + 1 else 0)
      in \<lparr>ps_series = series, ps_prev = Some (hot, cov), ps_stable = stable,
          ps_plateau_at =
            (if stable_window \<le> int stable + 1 \<and> ps_plateau_at st = None \<and> 2 \<le> length series
             then Some (pp_tokens (series ! (length series - 2)))
             else ps_plateau_at st)\<rparr>)"

fun plateau_loop ::
  "trace_row list \<Rightarrow> int \<Rightarrow> int \<Rightarrow> rat \<Rightarrow> int list list \<Rightarrow> plateau_state \<Rightarrow> plateau_state res" where
  "plateau_loop rows slots win eps [] st = Inr st"
| "plateau_loop rows slots win eps (toks # prefixes) st =
     (let sub = filter (\<lambda>r. fst r \<in> set toks) rows in
      rbind (select_hot_set sub slots) (\<lambda>hot.
        plateau_loop rows slots win eps prefixes
          (plateau_step win eps (length toks) hot (hot_coverage sub hot) st)))"

record plateau_report =
  pr_rounds :: "nat option"
  pr_plateau :: bool
  pr_prefix_tokens :: "nat list"
  pr_series :: "plateau_point list"

definition plateau_init :: plateau_state where
  "plateau_init = \<lparr>ps_series = [], ps_prev = None, ps_stable = 0, ps_plateau_at = None\<rparr>"

definition rounds_to_plateau ::
  "trace_row list \<Rightarrow> int \<Rightarrow> int \<Rightarrow> rat \<Rightarrow> int option \<Rightarrow> plateau_report res" where
  "rounds_to_plateau rows slots_per_layer stable_window hit_eps max_prefixes =
     (let prefixes = token_prefixes (map fst rows) max_prefixes in
      if stable_window < 2 then Inl StableWindowTooSmall
      else if hit_eps < 0 then Inl NegativeHitEps
      else rbind (plateau_loop rows slots_per_layer stable_window hit_eps prefixes plateau_init)
        (\<lambda>st. Inr \<lparr>pr_rounds = ps_plateau_at st, pr_plateau = (ps_plateau_at st \<noteq> None),
                    pr_prefix_tokens = map length prefixes, pr_series = ps_series st\<rparr>))"

subsection \<open>The plugin's call trace\<close>

definition parse_call_row :: "bool \<Rightarrow> nat \<Rightarrow> string \<Rightarrow> call_row option res" where
  "parse_call_row strict lineno l =
     (let s = strip l in
      if s = [] \<or> startswith s ''#'' then Inr None
      else case split_ws s of
        a # b # c # e # es \<Rightarrow>
          (case (py_int a, py_int b, py_int c, ints (e # es)) of
             (Some seq, Some lk, Some tk, Some ids) \<Rightarrow>
               if seq < 0 \<or> lk < 0 \<or> tk < 0 \<or> list_ex (\<lambda>x. x < 0) ids
               then Inl (NegativeField lineno)
               else Inr (Some (seq, lk, tk, ids))
           | _ \<Rightarrow> Inl (NonIntegerField lineno))
      | _ \<Rightarrow> if strict then Inl (MalformedRow lineno) else Inr None)"

definition parse_call_trace :: "string \<Rightarrow> bool \<Rightarrow> call_row list res" where
  "parse_call_trace text strict = scan_lines (parse_call_row strict) 1 (file_lines text)"

definition split_topk_chunks :: "int list \<Rightarrow> int \<Rightarrow> int list list res" where
  "split_topk_chunks ids top_k =
     (if top_k \<le> 0 then Inl TopKNotPositive
      else if length ids = 0 \<or> int (length ids) mod top_k \<noteq> 0 then Inl NotAMultipleOfTopK
      else Inr (chunks (nat top_k) ids))"

definition layer_key_index_map :: "int list \<Rightarrow> (int, int) dict option \<Rightarrow> (int, int) dict res" where
  "layer_key_index_map layer_keys explicit =
     (let keys = sort (remdups layer_keys) in
      case explicit of
        None \<Rightarrow> Inr (zip keys (map int [0..<length keys]))
      | Some m \<Rightarrow>
          let idx_to_key = dict_of m; vals = map snd idx_to_key in
          if \<not> distinct vals then Inl DuplicateLayerKey
          else let inv = dict_of (map (\<lambda>(k, v). (v, k)) idx_to_key) in
            if list_ex (\<lambda>k. k \<notin> fst ` set inv) keys then Inl LayerKeyMissing
            else Inr inv)"

record v1_state =
  vs_rows :: "trace_row list"
  vs_tok :: nat
  vs_seen :: "int list"
  vs_skipped_calls :: nat
  vs_skipped_tokens :: nat

definition v1_init :: v1_state where
  "v1_init = \<lparr>vs_rows = [], vs_tok = 0, vs_seen = [], vs_skipped_calls = 0, vs_skipped_tokens = 0\<rparr>"

definition v1_step :: "(int, int) dict \<Rightarrow> bool \<Rightarrow> call_row \<Rightarrow> v1_state \<Rightarrow> v1_state res" where
  "v1_step lk_index skip_batched call st =
     (case call of (seq, lk, top_k, ids) \<Rightarrow>
        rbind (split_topk_chunks ids top_k) (\<lambda>cs.
          if length cs \<noteq> 1 then
            (if \<not> skip_batched then Inl (BatchedCall seq)
             else Inr (st\<lparr>vs_skipped_calls := vs_skipped_calls st + 1,
                          vs_skipped_tokens := vs_skipped_tokens st + length cs\<rparr>))
          else
            let (tok, seen) = (if lk \<in> set (vs_seen st) then (vs_tok st + 1, []) else (vs_tok st, vs_seen st)) in
            rbind (of_option KeyError (map_of lk_index lk)) (\<lambda>li.
              Inr (st\<lparr>vs_tok := tok, vs_seen := List.insert lk seen,
                      vs_rows := vs_rows st @ [(int tok, li, sort (hd cs))]\<rparr>))))"

fun v1_loop :: "(int, int) dict \<Rightarrow> bool \<Rightarrow> call_row list \<Rightarrow> v1_state \<Rightarrow> v1_state res" where
  "v1_loop lk_index skip [] st = Inr st"
| "v1_loop lk_index skip (c # cs) st = rbind (v1_step lk_index skip c st) (v1_loop lk_index skip cs)"

record v1_report =
  vr_tokens :: nat
  vr_layer_keys :: nat
  vr_calls :: nat
  vr_calls_selected :: nat
  vr_from_call_seq :: int
  vr_batched_calls_skipped :: nat
  vr_batched_tokens_skipped :: nat

definition call_trace_to_v1 ::
  "call_row list \<Rightarrow> (int, int) dict option \<Rightarrow> bool \<Rightarrow> int \<Rightarrow> (trace_row list \<times> v1_report) res" where
  "call_trace_to_v1 call_rows layer_key_map skip_batched from_seq =
     (let selected = filter (\<lambda>r. from_seq \<le> fst r) call_rows in
      rbind (layer_key_index_map (map (fst \<circ> snd) selected) layer_key_map) (\<lambda>lk_index.
      rbind (v1_loop lk_index skip_batched (sort_key fst selected) v1_init) (\<lambda>st.
        if selected \<noteq> [] \<and> vs_rows st = [] then Inl NoDecodeRows
        else Inr (sort_key (\<lambda>r. (fst r, fst (snd r))) (vs_rows st),
                  \<lparr>vr_tokens = (if vs_rows st = [] then 0 else vs_tok st + 1),
                   vr_layer_keys = length lk_index, vr_calls = length call_rows,
                   vr_calls_selected = length selected, vr_from_call_seq = from_seq,
                   vr_batched_calls_skipped = vs_skipped_calls st,
                   vr_batched_tokens_skipped = vs_skipped_tokens st\<rparr>))))"

subsection \<open>The aggregate census of a call trace\<close>

definition in_range :: "int \<Rightarrow> int option \<Rightarrow> int \<Rightarrow> bool" where
  "in_range from_seq to_seq seq = (from_seq \<le> seq \<and> (case to_seq of None \<Rightarrow> True | Some t \<Rightarrow> seq < t))"

definition check_range :: "int \<Rightarrow> int option \<Rightarrow> unit res" where
  "check_range from_seq to_seq =
     (case to_seq of Some t \<Rightarrow> if t < from_seq then Inl InvertedRange else Inr () | None \<Rightarrow> Inr ())"

record census_state =
  cs_hist :: "(int \<times> int, int) dict"
  cs_selected :: nat
  cs_batched :: nat
  cs_decode :: nat
  cs_tokens :: nat
  cs_accesses :: nat

definition census_init :: census_state where
  "census_init = \<lparr>cs_hist = [], cs_selected = 0, cs_batched = 0, cs_decode = 0, cs_tokens = 0,
                  cs_accesses = 0\<rparr>"

definition census_step :: "(int, int) dict \<Rightarrow> call_row \<Rightarrow> census_state \<Rightarrow> census_state res" where
  "census_step lk_index call st =
     (case call of (seq, lk, top_k, ids) \<Rightarrow>
        rbind (split_topk_chunks ids top_k) (\<lambda>cs.
        rbind (of_option KeyError (map_of lk_index lk)) (\<lambda>li.
          Inr \<lparr>cs_hist = tally_onto (cs_hist st) (map (Pair li) ids),
               cs_selected = cs_selected st + 1,
               cs_batched = (if 1 < length cs then cs_batched st + 1 else cs_batched st),
               cs_decode = (if 1 < length cs then cs_decode st else cs_decode st + 1),
               cs_tokens = cs_tokens st + length cs,
               cs_accesses = cs_accesses st + length ids\<rparr>)))"

fun census_loop :: "(int, int) dict \<Rightarrow> call_row list \<Rightarrow> census_state \<Rightarrow> census_state res" where
  "census_loop lk_index [] st = Inr st"
| "census_loop lk_index (c # cs) st = rbind (census_step lk_index c st) (census_loop lk_index cs)"

record census_meta =
  cm_calls :: nat
  cm_calls_selected :: nat
  cm_batched_calls :: nat
  cm_decode_calls :: nat
  cm_tokens_observed :: nat
  cm_accesses :: nat
  cm_from_call_seq :: int
  cm_to_call_seq :: "int option"
  cm_layers :: nat

definition census_from_call_trace ::
  "call_row list \<Rightarrow> (int, int) dict option \<Rightarrow> int \<Rightarrow> int option
     \<Rightarrow> ((int \<times> int \<times> int) list \<times> census_meta) res" where
  "census_from_call_trace call_rows layer_key_map from_seq to_seq =
     rbind (check_range from_seq to_seq) (\<lambda>_.
       let selected_rows = filter (\<lambda>r. in_range from_seq to_seq (fst r)) call_rows in
       if selected_rows = [] then Inl EmptyCensus
       else
         rbind (layer_key_index_map (map (fst \<circ> snd) selected_rows) layer_key_map) (\<lambda>lk_index.
         rbind (census_loop lk_index selected_rows census_init) (\<lambda>st.
           Inr (sorted_counts (cs_hist st),
                \<lparr>cm_calls = length call_rows, cm_calls_selected = cs_selected st,
                 cm_batched_calls = cs_batched st, cm_decode_calls = cs_decode st,
                 cm_tokens_observed = cs_tokens st, cm_accesses = cs_accesses st,
                 cm_from_call_seq = from_seq, cm_to_call_seq = to_seq,
                 cm_layers = length lk_index\<rparr>))))"

subsection \<open>Cross-checks against the plugin's dump\<close>

definition plugin_counts :: "(int \<times> int \<times> int \<times> int) list \<Rightarrow> (int \<times> int, int) dict" where
  "plugin_counts rows = fold (\<lambda>(lay, off, e, c). incr c (off, e)) rows []"

definition mismatches ::
  "(int \<times> int, int) dict \<Rightarrow> (int \<times> int, int) dict \<Rightarrow> ((int \<times> int) \<times> int \<times> int) list" where
  "mismatches plugin trace =
     map (\<lambda>k. (k, dict_get plugin k 0, dict_get trace k 0))
       (filter (\<lambda>k. dict_get plugin k 0 \<noteq> dict_get trace k 0)
         (sort (remdups (map fst plugin @ map fst trace))))"

definition join_plugin_to_trace ::
  "trace_row list \<Rightarrow> (int \<times> int \<times> int \<times> int) list \<Rightarrow> (int, int) dict
     \<Rightarrow> (int \<times> int, int) dict \<times> (int \<times> int, int) dict \<times> ((int \<times> int) \<times> int \<times> int) list" where
  "join_plugin_to_trace rows plugin_rows layer_key_by_index =
     (let plugin = plugin_counts plugin_rows;
          trace = tally (concat (map (\<lambda>(tok, lay, es).
            case map_of layer_key_by_index lay of None \<Rightarrow> [] | Some off \<Rightarrow> map (Pair off) es) rows))
      in (plugin, trace, mismatches plugin trace))"

definition join_plugin_to_call_trace ::
  "call_row list \<Rightarrow> (int \<times> int \<times> int \<times> int) list \<Rightarrow> int \<Rightarrow> int option
     \<Rightarrow> ((int \<times> int, int) dict \<times> (int \<times> int, int) dict \<times> ((int \<times> int) \<times> int \<times> int) list) res" where
  "join_plugin_to_call_trace call_rows plugin_rows from_seq to_seq =
     rbind (check_range from_seq to_seq) (\<lambda>_.
       let plugin = plugin_counts plugin_rows;
           trace = tally (concat (map (\<lambda>(seq, lk, tk, ids).
             if in_range from_seq to_seq seq then map (Pair lk) ids else []) call_rows))
       in Inr (plugin, trace, mismatches plugin trace))"

subsection \<open>Provenance and the seed\<close>

text \<open>\<open>prov.get(k)\<close> read as a truth value: absent and empty are both false.\<close>

definition get_nonempty :: "provenance \<Rightarrow> string \<Rightarrow> string option" where
  "get_nonempty prov k = (case map_of prov k of None \<Rightarrow> None | Some v \<Rightarrow> if v = [] then None else Some v)"

definition require_attribution :: "provenance \<Rightarrow> string res" where
  "require_attribution prov =
     (let artifact = (case get_nonempty prov ''artifact_sha256'' of
                        Some v \<Rightarrow> Some v | None \<Rightarrow> get_nonempty prov ''artifact'') in
      case artifact of
        None \<Rightarrow> Inl Unattributed
      | Some a \<Rightarrow> if get_nonempty prov ''card'' = None then Inl Unattributed else Inr a)"

definition read_provenance_file :: "string \<Rightarrow> provenance" where
  "read_provenance_file text =
     fold (\<lambda>l prov.
       let body = strip (dropWhile (\<lambda>c. c = CHR ''#'') (strip l)) in
       if startswith body ''arcint routing trace'' then prov else add_pairs body prov)
     (file_lines text) []"

text \<open>\<open>json.dumps\<close> of a map from decimal strings to integers.\<close>

definition json_int_map :: "(int, int) dict \<Rightarrow> string" where
  "json_int_map m =
     ''{'' @ join '', '' (map (\<lambda>(k, v). [CHR 0x22] @ py_str k @ [CHR 0x22] @ '': '' @ py_str v) m) @ ''}''"

definition seed_line :: "int \<Rightarrow> int list \<Rightarrow> string" where
  "seed_line key es = join '' '' (map py_str (key # es))"

definition seed_text :: "hot_set \<Rightarrow> (int, int) dict \<Rightarrow> string res" where
  "seed_text hot layer_key_by_index =
     (if layer_key_by_index \<noteq> [] \<and> \<not> distinct (map snd layer_key_by_index) then Inl DuplicateLayerKey
      else
        rbind (map_res (\<lambda>lay.
            rbind (if layer_key_by_index = [] then Inr lay
                   else of_option LayerKeyMissing (map_of layer_key_by_index lay))
              (\<lambda>key. Inr (seed_line key (dict_get hot lay []))))
          (sort (map fst hot)))
        (\<lambda>ls. Inr (text_of
          (''# hot-set seed v2 (frequency rank, id tie-break)''
           # (''# space='' @ (if layer_key_by_index = [] then ''layer'' else ''layer_key''))
           # (if layer_key_by_index = [] then []
              else [''# layer_key_by_index='' @ json_int_map (sort_key fst layer_key_by_index)])
           @ ls))))"

end
