(* ===== verification/Census_Formats.thy ===== *)
theory Census_Formats
  imports Hot_Set_Census
begin

text \<open>
  The file formats of the census instrument, read back: what the writers print, the readers
  return. A reader is a loop over the lines of a file that skips some lines and turns others
  into rows; the locale \<open>row_format\<close> states what such a loop promises about a line of either
  kind, and the round trips follow from it for every file made of skipped lines and rendered
  rows.
\<close>

locale row_format =
  fixes scan :: "nat \<Rightarrow> string list \<Rightarrow> 'r res"
    and cons :: "'a \<Rightarrow> 'r \<Rightarrow> 'r"
    and render :: "'a \<Rightarrow> string"
    and ok :: "'a \<Rightarrow> bool"
    and skipped :: "string \<Rightarrow> bool"
  assumes scan_skip: "skipped l \<Longrightarrow> scan n (l # ls) = scan (Suc n) ls"
    and scan_row: "ok x \<Longrightarrow> scan n (render x # ls) = rbind (scan (Suc n) ls) (\<lambda>r. Inr (cons x r))"
begin

lemma scan_skips: "list_all skipped hs \<Longrightarrow> scan n (hs @ ls) = scan (n + length hs) ls"
  by (induction hs arbitrary: n) (auto simp: scan_skip)

lemma scan_rows:
  "list_all ok xs \<Longrightarrow>
     scan n (map render xs @ ls) = rbind (scan (n + length xs) ls) (\<lambda>r. Inr (foldr cons xs r))"
proof (induction xs arbitrary: n)
  case Nil
  show ?case by (cases "scan n ls") auto
next
  case (Cons x xs)
  then show ?case
    by (cases "scan (Suc (n + length xs)) ls") (auto simp: scan_row)
qed

lemma scan_file:
  assumes "list_all skipped hs" and "list_all ok xs"
    and "\<And>n. scan n ls = Inr r"
  shows "scan n (hs @ map render xs @ ls) = Inr (foldr cons xs r)"
  using assms by (simp add: scan_skips scan_rows)

end

subsection \<open>Comment lines\<close>

definition is_comment :: "string \<Rightarrow> bool" where
  "is_comment l = startswith l ''#''"

lemma strip_comment: "is_comment l \<Longrightarrow> strip l \<noteq> [] \<and> startswith (strip l) ''#''"
proof -
  assume c: "is_comment l"
  then obtain s where l: "l = CHR ''#'' # s" by (cases l) (auto simp: is_comment_def)
  have nw: "\<not> is_ws (CHR ''#'')" by (simp add: is_ws_def)
  then have "lstrip l = l" by (simp add: l lstrip_def)
  moreover have "rstrip (CHR ''#'' # s) = CHR ''#'' # rstrip s"
    using nw by (auto simp: rstrip_def dropWhile_append3 dropWhile_append)
  ultimately show ?thesis by (simp add: strip_def l)
qed

lemma render_pair_comment: "is_comment (render_pair kv)"
  by (simp add: is_comment_def render_pair_def)

lemma render_pair_one_line:
  "one_line (fst kv) \<Longrightarrow> one_line (snd kv) \<Longrightarrow> one_line (render_pair kv)"
  by (auto simp: one_line_def render_pair_def)

subsection \<open>Trace rows\<close>

lemma ints_py_str [text_simps]: "ints (map py_str xs) = Some xs"
  by (induction xs) (simp_all add: text_simps)

lemma tokens_py_str [text_simps]: "list_all is_token (map py_str xs)"
  by (simp add: list_all_iff text_simps)

lemma join_py_str_plain:
  assumes "xs \<noteq> []"
  shows "join sep (map py_str xs) \<noteq> []"
    and "\<not> startswith (join sep (map py_str xs)) ''#''"
proof -
  obtain x ys where xs: "xs = x # ys" using assms by (cases xs) auto
  show ne: "join sep (map py_str xs) \<noteq> []" by (rule join_eq_Nil) (auto simp: xs)
  have "hd (join sep (map py_str xs)) = hd (py_str x)"
    using hd_join [of "map py_str xs" sep] by (simp add: xs)
  moreover have "hd (py_str x) \<noteq> CHR ''#''" using py_str_excludes [of "hd (py_str x)" x] by simp
  ultimately show "\<not> startswith (join sep (map py_str xs)) ''#''"
    by (simp add: startswith_single)
qed

definition good_row :: "trace_row \<Rightarrow> bool" where
  "good_row r = (case r of (tok, lay, es) \<Rightarrow>
     0 \<le> tok \<and> 0 \<le> lay \<and> es \<noteq> [] \<and> list_all (\<lambda>e. 0 \<le> e) es)"

text \<open>A row whose layer satisfies \<open>Q\<close>; what the converter produces for any index map.\<close>

definition row_over :: "(int \<Rightarrow> bool) \<Rightarrow> trace_row \<Rightarrow> bool" where
  "row_over Q r = (case r of (tok, lay, es) \<Rightarrow> 0 \<le> tok \<and> Q lay \<and> es \<noteq> [] \<and> list_all (\<lambda>e. 0 \<le> e) es)"

lemma good_row_over: "good_row r \<longleftrightarrow> row_over (\<lambda>_. True) r \<and> 0 \<le> fst (snd r)"
  by (auto simp: good_row_def row_over_def split: prod.splits)

lemma parse_rendered_row:
  assumes "row_over (\<lambda>_. True) r"
  shows "parse_trace_row strict n (render_row r) = (if fst (snd r) < 0 then Inl (NegativeField n) else Inr (Some r))"
proof -
  obtain tok lay e es where r: "r = (tok, lay, e # es)" and nn: "0 \<le> tok" "0 \<le> e"
    and es: "list_all (\<lambda>e. 0 \<le> e) es"
    using assms by (cases r; cases "snd (snd r)") (auto simp: row_over_def)
  let ?xs = "tok # lay # e # es"
  have line: "render_row r = join '' '' (map py_str ?xs)" by (simp add: render_row_def r)
  have s: "strip (render_row r) = render_row r"
    unfolding line by (simp add: text_simps del: list.map)
  have sp: "split_ws (render_row r) = map py_str ?xs"
    unfolding line by (rule split_ws_join) (rule tokens_py_str)
  have plain: "render_row r \<noteq> []" "\<not> startswith (render_row r) ''#''"
    unfolding line by (rule join_py_str_plain, simp)+
  have "\<not> list_ex (\<lambda>x. x < 0) (e # es)" using nn es by (auto simp: list_ex_iff list_all_iff)
  then show ?thesis
    using s sp plain nn ints_py_str [of "e # es"]
    by (simp add: parse_trace_row_def r text_simps del: ints.simps)
qed

lemma parse_trace_row_render: "good_row r \<Longrightarrow> parse_trace_row strict n (render_row r) = Inr (Some r)"
  by (simp add: good_row_over parse_rendered_row)

lemma scan_negative_row:
  assumes "list_all (row_over (\<lambda>_. True)) rows" "\<exists>r \<in> set rows. fst (snd r) < 0"
  shows "\<exists>k. scan_lines (parse_trace_row strict) n (map render_row rows) = Inl (NegativeField k)"
  using assms
proof (induction rows arbitrary: n)
  case (Cons r rows)
  show ?case
  proof (cases "fst (snd r) < 0")
    case False
    with Cons obtain k where "scan_lines (parse_trace_row strict) (Suc n) (map render_row rows) = Inl (NegativeField k)"
      by force
    with False Cons.prems(1) show ?thesis by (simp add: parse_rendered_row)
  qed (use Cons.prems(1) in \<open>simp add: parse_rendered_row\<close>)
qed simp

lemma parse_trace_row_comment: "is_comment l \<Longrightarrow> parse_trace_row strict n l = Inr None"
  using strip_comment by (simp add: parse_trace_row_def)

interpretation v1: row_format
  "scan_lines (parse_trace_row strict)" "(#)" render_row good_row is_comment
  for strict
proof
  show "is_comment l \<Longrightarrow> scan_lines (parse_trace_row strict) n (l # ls)
      = scan_lines (parse_trace_row strict) (Suc n) ls" for l n ls
    by (cases "scan_lines (parse_trace_row strict) (Suc n) ls") (simp_all add: parse_trace_row_comment)
  show "good_row x \<Longrightarrow> scan_lines (parse_trace_row strict) n (render_row x # ls)
      = rbind (scan_lines (parse_trace_row strict) (Suc n) ls) (\<lambda>r. Inr (x # r))" for x n ls
    by (simp add: parse_trace_row_render)
qed

lemma foldr_Cons_Nil: "foldr (#) xs [] = xs"
  by (induction xs) auto

lemma render_row_one_line: "one_line (render_row r)"
proof -
  obtain tok lay es where "r = (tok, lay, es)" by (cases r)
  then show ?thesis
    using join_blank_one_line [OF tokens_py_str, of "tok # lay # es"]
    by (simp add: render_row_def del: list.map)
qed

text \<open>Any v1 file: a header of comment lines, then rendered rows.\<close>

lemma parse_trace_text:
  assumes hs: "list_all is_comment hs" "list_all one_line hs" "hs \<noteq> []"
  shows "list_all good_row rows \<Longrightarrow> parse_trace (text_of (hs @ map render_row rows)) strict = Inr rows"
    and "list_all (row_over (\<lambda>_. True)) rows \<Longrightarrow> \<exists>r \<in> set rows. fst (snd r) < 0 \<Longrightarrow>
      \<exists>k. parse_trace (text_of (hs @ map render_row rows)) strict = Inl (NegativeField k)"
proof -
  have "list_all one_line (hs @ map render_row rows)"
    using hs(2) by (auto simp: list_all_iff render_row_one_line)
  then have l: "file_lines (text_of (hs @ map render_row rows)) = hs @ map render_row rows"
    using hs(3) by (simp add: text_of_def file_lines_join)
  show "parse_trace (text_of (hs @ map render_row rows)) strict = Inr rows" if "list_all good_row rows"
    using v1.scan_file [OF hs(1) that, of strict "[]" "[]" 1] by (simp add: parse_trace_def l foldr_Cons_Nil)
  show "\<exists>k. parse_trace (text_of (hs @ map render_row rows)) strict = Inl (NegativeField k)"
    if "list_all (row_over (\<lambda>_. True)) rows" "\<exists>r \<in> set rows. fst (snd r) < 0"
    using scan_negative_row [OF that] by (simp add: parse_trace_def l v1.scan_skips [OF hs(1)])
qed

subsection \<open>Rows of a census summary\<close>

definition good_count :: "int \<times> int \<times> int \<Rightarrow> bool" where
  "good_count r = (case r of (lay, e, c) \<Rightarrow> 0 \<le> lay \<and> 0 \<le> e \<and> 0 \<le> c)"

lemma py_str_no_comma: "CHR '','' \<notin> set (py_str i)"
  using py_str_excludes by blast

lemma render_count_facts:
  shows "strip (render_count r) = render_count r"
    and "split_on (CHR '','') (render_count r) = map py_str [fst r, fst (snd r), snd (snd r)]"
    and "render_count r \<noteq> []" and "\<not> startswith (render_count r) ''#''"
    and "one_line (render_count r)"
proof -
  have line: "render_count r = join '','' (map py_str [fst r, fst (snd r), snd (snd r)])"
    by (cases r) (simp add: render_count_def)
  show "strip (render_count r) = render_count r"
    unfolding line by (rule strip_join) (rule tokens_py_str)
  show "split_on (CHR '','') (render_count r) = map py_str [fst r, fst (snd r), snd (snd r)]"
    unfolding line by (rule split_on_join) (auto simp: py_str_no_comma)
  show "render_count r \<noteq> []" "\<not> startswith (render_count r) ''#''"
    unfolding line by (rule join_py_str_plain, simp)+
  show "one_line (render_count r)"
    using py_str_excludes by (auto simp: line one_line_def)
qed

lemma py_str_neq_layer: "py_str i \<noteq> ''layer''"
proof
  assume "py_str i = ''layer''"
  then have "py_int ''layer'' = Some i" by (metis py_int_py_str)
  then show False
    by (simp add: py_int_def strip_def lstrip_def rstrip_def is_ws_def digit_val_def)
qed

lemma csv_scan_count:
  assumes "good_count r"
  shows "csv_scan census_row n (render_count r # ls) tot
       = rbind (csv_scan census_row (Suc n) ls tot) (\<lambda>(xs, t). Inr (r # xs, t))"
  using assms
  by (cases r)
     (simp add: render_count_facts py_str_neq_layer census_row_def good_count_def text_simps)

interpretation counts: row_format
  "\<lambda>n ls. csv_scan census_row n ls tot" "\<lambda>x (xs, t). (x # xs, t)" render_count good_count
  "\<lambda>l. strip l = []"
  for tot
proof
  show "strip l = [] \<Longrightarrow> csv_scan census_row n (l # ls) tot = csv_scan census_row (Suc n) ls tot"
    for l n ls by simp
  show "good_count x \<Longrightarrow> csv_scan census_row n (render_count x # ls) tot
      = rbind (csv_scan census_row (Suc n) ls tot) (\<lambda>r. Inr (case r of (xs, t) \<Rightarrow> (x # xs, t)))"
    for x n ls by (subst csv_scan_count) (simp_all only: case_prod_unfold)
qed

lemma csv_scan_comments:
  "list_all is_comment hs \<Longrightarrow> \<exists>tot'. csv_scan f n (hs @ ls) tot = csv_scan f (n + length hs) ls tot'"
proof (induction hs arbitrary: n tot)
  case Nil
  then show ?case by auto
next
  case (Cons h hs)
  then have "strip h \<noteq> []" "startswith (strip h) ''#''" using strip_comment by auto
  moreover obtain tot' where "csv_scan f (Suc n) (hs @ ls) (read_total (strip h) tot)
      = csv_scan f (Suc n + length hs) ls tot'"
    using Cons by fastforce
  ultimately show ?case by (auto simp: Let_def)
qed

lemma csv_scan_header: "csv_scan f n (''layer,expert,count'' # ls) tot = csv_scan f (Suc n) ls tot"
  by (simp add: strip_def lstrip_def rstrip_def is_ws_def Let_def)

lemma strip_total_line: "strip (total_line s) = total_line s"
proof (rule strip_id)
  have "last (total_line s) = last (py_str (sum_list (map (snd \<circ> snd) s)))"
    by (simp add: total_line_def)
  moreover have "\<not> is_ws (last (py_str i))" for i
    using py_str_token [of i] by (simp add: is_token_def list_all_iff)
  moreover have "hd (total_line s) = CHR ''#''" by (simp add: total_line_def)
  ultimately show "total_line s = [] \<or> \<not> is_ws (hd (total_line s)) \<and> \<not> is_ws (last (total_line s))"
    by (simp add: is_ws_def)
qed

lemma csv_scan_total:
  "csv_scan f n [total_line s] tot = Inr ([], Some (sum_list (map (snd \<circ> snd) s)))"
proof -
  let ?v = "py_str (sum_list (map (snd \<circ> snd) s))"
  have "split_first (CHR '','') (total_line s) = (''# total'', ?v)"
    by (simp add: total_line_def split_first_def)
  moreover have "startswith (total_line s) ''# total,''" "total_line s \<noteq> []"
    by (simp_all add: total_line_def)
  moreover have "startswith (total_line s) ''#''" by (simp add: total_line_def)
  ultimately show ?thesis
    by (simp add: strip_total_line read_total_def text_simps Let_def)
qed

declare csv_scan.simps(2) [simp del]

lemma foldr_pair_Cons: "foldr (\<lambda>x (xs, t). (x # xs, t)) xs ([], t) = (xs, t)"
  by (induction xs) auto

text \<open>Any summary file: comment lines, the header, rendered counts, their total.\<close>

lemma read_census_summary_text:
  assumes "list_all is_comment hs" "list_all one_line hs" "list_all good_count s"
  shows "read_census_summary (text_of (hs @ ''layer,expert,count'' # map render_count s @ [total_line s]))
       = Inr s"
proof -
  let ?ls = "hs @ ''layer,expert,count'' # map render_count s @ [total_line s]"
  have "one_line (total_line s)"
    using py_str_excludes by (auto simp: total_line_def one_line_def)
  moreover have "one_line ''layer,expert,count''" by (simp add: one_line_def)
  ultimately have "list_all one_line ?ls"
    using assms(2) by (auto simp: list_all_iff render_count_facts)
  then have lines: "file_lines (text_of ?ls) = ?ls" by (simp add: text_of_def file_lines_join)
  obtain tot where "csv_scan census_row 1 ?ls None
      = csv_scan census_row (1 + length hs) (''layer,expert,count'' # map render_count s @ [total_line s]) tot"
    using csv_scan_comments [OF assms(1)] by blast
  also have "\<dots> = csv_scan census_row (2 + length hs) (map render_count s @ [total_line s]) tot"
    by (subst csv_scan_header) simp
  also have "\<dots> = Inr (foldr (\<lambda>x (xs, t). (x # xs, t)) s ([], Some (sum_list (map (snd \<circ> snd) s))))"
    using counts.scan_file [where hs = "[]" and xs = s and ls = "[total_line s]", OF _ assms(3) csv_scan_total]
    by simp
  finally show ?thesis
    by (simp add: read_census_summary_def lines foldr_pair_Cons check_total_def)
qed

end
