(* ===== verification/Census_Facts.thy ===== *)
theory Census_Facts
  imports Census_Formats
begin

text \<open>
  What the census instrument computes: the summary counts every access once and only the
  accesses of the trace; the hot set is a best one for its budget; the corpus-census path and
  the trace path pick the same hot set; a call trace split into tokens has the census of the
  call trace it came from.
\<close>

subsection \<open>The summary\<close>

lemma sorted_counts_keys:
  "map (\<lambda>r. (fst r, fst (snd r))) (sorted_counts hist) = sort (map fst hist)"
  by (simp add: sorted_counts_def comp_def)

lemma set_sorted_counts_tally:
  "(lay, e, c) \<in> set (sorted_counts (tally acs)) \<longleftrightarrow> (lay, e) \<in> set acs \<and> c = int (count_list acs (lay, e))"
proof -
  have "(lay, e, c) \<in> set (sorted_counts (tally acs))
      \<longleftrightarrow> (lay, e) \<in> fst ` set (tally acs) \<and> c = dict_get (tally acs) (lay, e) 0"
    by (force simp: sorted_counts_def)
  then show ?thesis by (simp add: dict_simps)
qed

lemma sum_count_list: "(\<Sum>k \<in> set xs. count_list xs k) = length xs"
  by (rule sum_count_set [OF subset_refl]) simp

lemma sum_sorted_counts_tally: "sum_list (map (snd \<circ> snd) (sorted_counts (tally acs))) = int (length acs)"
proof -
  have "sum_list (map (snd \<circ> snd) (sorted_counts (tally acs)))
      = sum_list (map (\<lambda>k. dict_get (tally acs) k 0) (sort (map fst (tally acs))))"
    by (simp add: sorted_counts_def comp_def)
  also have "\<dots> = (\<Sum>k \<in> set acs. int (count_list acs k))"
    by (subst sum_list_distinct_conv_sum_set) (simp_all add: dict_simps)
  also have "\<dots> = int (length acs)"
    by (simp add: sum_count_list flip: of_nat_sum)
  finally show ?thesis .
qed

lemma sorted_counts_cong:
  assumes "mset acs = mset acs'"
  shows "sorted_counts (tally acs) = sorted_counts (tally acs')"
proof -
  have s: "set acs = set acs'" using assms by (rule mset_eq_setD)
  have c: "count_list acs k = count_list acs' k" for k
    using assms by (simp flip: count_mset)
  have "set (map fst (tally acs)) = set (map fst (tally acs'))" using s by (simp add: dict_simps)
  then have "sort (map fst (tally acs)) = sort (map fst (tally acs'))"
    by (intro sorted_distinct_set_unique) auto
  then show ?thesis by (simp add: sorted_counts_def dict_simps c)
qed

subsection \<open>The ranked selection per layer\<close>

lemma accesses_of_layer:
  "concat (map (\<lambda>(tok, lay, es). if lay \<noteq> l then [] else es) rows)
     = map snd (filter (\<lambda>a. fst a = l) (accesses rows))"
  by (induction rows) (auto simp: accesses_def filter_empty_conv comp_def)

lemma count_list_map_Pair: "count_list (map snd (filter (\<lambda>a. fst a = l) acs)) e = count_list acs (l, e)"
  by (induction acs) auto

lemma frequency_rank_layer:
  "frequency_rank rows (Some l) = rank_desc (tally (map snd (filter (\<lambda>a. fst a = l) (accesses rows))))"
  by (simp add: frequency_rank_def accesses_of_layer)

lemma layer_in_rows: "a \<in> set (accesses rows) \<Longrightarrow> fst a \<in> (fst \<circ> snd) ` set rows"
  by (force simp: accesses_def)

lemma dict_get_map_Pair:
  "dict_get (map (\<lambda>k. (k, f k)) ks) k d = (if k \<in> set ks then f k else d)"
  by (auto simp: dict_get_def map_of_map_restrict)

lemma select_hot_set_layer:
  assumes "select_hot_set rows slots = Inr hot"
  shows "set (dict_get hot l [])
       = set (map fst (take (nat slots) (rank_desc (tally (map snd (filter (\<lambda>a. fst a = l) (accesses rows)))))))"
proof -
  have s: "0 \<le> slots" and hot: "hot = map (\<lambda>lay. (lay, map fst (take_py slots (frequency_rank rows (Some lay)))))
      (sort (remdups (map (fst \<circ> snd) rows)))"
    using assms by (auto simp: select_hot_set_def split: if_splits)
  show ?thesis
  proof (cases "l \<in> (fst \<circ> snd) ` set rows")
    case True
    with s show ?thesis
      by (simp add: hot dict_get_map_Pair frequency_rank_layer take_py_nonneg)
  next
    case False
    then have "filter (\<lambda>a. fst a = l) (accesses rows) = []"
      using layer_in_rows by (fastforce simp: filter_empty_conv)
    with False show ?thesis
      by (simp add: hot dict_get_map_Pair rank_desc_def tally_onto_def)
  qed
qed

subsection \<open>Coverage\<close>

definition resident :: "hot_set \<Rightarrow> int \<times> int \<Rightarrow> bool" where
  "resident hot a = (snd a \<in> set (dict_get hot (fst a) []))"

lemma coverage_counts_eq:
  "coverage_counts acs hot = (length (filter (resident hot) acs), length acs)"
proof -
  have "fold (\<lambda>(lay, e) (hits, acc). (if e \<in> set (dict_get hot lay []) then hits + 1 else hits, acc + 1)) acs (h, n)
      = (h + length (filter (resident hot) acs), n + length acs)" for h n :: nat
    by (induction acs arbitrary: h n) (auto simp: resident_def)
  from this [of 0 0] show ?thesis by (simp add: coverage_counts_def)
qed

lemma hot_coverage_eq:
  "hot_coverage rows hot = rate (length (filter (resident hot) (accesses rows))) (length (accesses rows))"
  by (simp add: hot_coverage_def coverage_counts_eq)

text \<open>The hits of one layer, as a sum of counts over the layer's residents.\<close>

lemma hits_of_layer:
  fixes acs :: "(int \<times> int) list"
  assumes "finite R"
  shows "int (length (filter (\<lambda>e. e \<in> R) es)) = (\<Sum>e \<in> R. int (count_list es e))"
proof (induction es)
  case Nil
  then show ?case by simp
next
  case (Cons x es)
  have "(\<Sum>e \<in> R. int (count_list (x # es) e))
      = (\<Sum>e \<in> R. int (count_list es e) + (if e = x then 1 else 0))"
    by (rule sum.cong) auto
  also have "\<dots> = (\<Sum>e \<in> R. int (count_list es e)) + (if x \<in> R then 1 else 0)"
    using assms by (simp add: sum.distrib)
  finally show ?case using Cons.IH by simp
qed

lemma hits_of_residents:
  assumes fin: "\<And>l. finite (Q l)"
  shows "int (length (filter (\<lambda>a. snd a \<in> Q (fst a)) acs))
      = (\<Sum>l \<in> fst ` set acs. \<Sum>e \<in> Q l. int (count_list acs (l, e)))"
proof -
  have layer: "length (filter (\<lambda>e. e \<in> Q l) (map snd (filter (\<lambda>a. fst a = l) acs)))
      = length (filter (\<lambda>a. fst a = l \<and> snd a \<in> Q l) acs)" for l
    by (simp add: filter_map comp_def conj_commute)
  have "length (filter (\<lambda>a. snd a \<in> Q (fst a)) acs)
      = (\<Sum>l \<in> L. length (filter (\<lambda>a. fst a = l \<and> snd a \<in> Q l) acs))"
    if "finite L" "fst ` set acs \<subseteq> L" for L
    using that(2)
  proof (induction acs)
    case Nil
    then show ?case by simp
  next
    case (Cons a acs)
    let ?f = "\<lambda>acs l. length (filter (\<lambda>a. fst a = l \<and> snd a \<in> Q l) acs)"
    have "(\<Sum>l \<in> L. ?f (a # acs) l)
        = (\<Sum>l \<in> L. ?f acs l + (if l = fst a then (if snd a \<in> Q (fst a) then 1 else 0) else 0))"
      by (rule sum.cong) auto
    also have "\<dots> = (\<Sum>l \<in> L. ?f acs l) + (if snd a \<in> Q (fst a) then 1 else 0)"
      using that(1) Cons.prems by (simp add: sum.distrib)
    finally show ?case using Cons by simp
  qed
  from this [of "fst ` set acs"]
  have split: "length (filter (\<lambda>a. snd a \<in> Q (fst a)) acs)
      = (\<Sum>l \<in> fst ` set acs. length (filter (\<lambda>a. fst a = l \<and> snd a \<in> Q l) acs))" by simp
  have one: "int (length (filter (\<lambda>a. fst a = l \<and> snd a \<in> Q l) acs))
      = (\<Sum>e \<in> Q l. int (count_list acs (l, e)))" for l
    using hits_of_layer [OF fin [of l], of "map snd (filter (\<lambda>a. fst a = l) acs)"]
    by (simp only: layer count_list_map_Pair)
  show ?thesis by (simp only: split of_nat_sum one)
qed

subsection \<open>What a frequency selection promises\<close>

text \<open>
  The interface between a census and the policies built on it. \<open>census\<close> gives the accesses an
  input holds and \<open>residents\<close> the experts a policy keeps per layer under a budget; the policy
  promises that these are the first \<open>k\<close> of the layer's frequency rank. Every such policy keeps
  to the budget, keeps only routed experts, and covers at least as many accesses as any other
  choice with the same budget.
\<close>

locale frequency_selection =
  fixes census :: "'t \<Rightarrow> (int \<times> int) list"
    and residents :: "'t \<Rightarrow> nat \<Rightarrow> int \<Rightarrow> int set"
  assumes residents_rank: "residents t k l
      = set (map fst (take k (rank_desc (tally (map snd (filter (\<lambda>a. fst a = l) (census t)))))))"
begin

lemma residents_finite [simp]: "finite (residents t k l)"
  by (simp add: residents_rank)

lemma residents_card: "card (residents t k l) \<le> k"
proof -
  have "card (residents t k l)
      \<le> length (map fst (take k (rank_desc (tally (map snd (filter (\<lambda>a. fst a = l) (census t)))))))"
    unfolding residents_rank by (rule card_length)
  then show ?thesis by simp
qed

lemma residents_routed: "e \<in> residents t k l \<Longrightarrow> (l, e) \<in> set (census t)"
proof -
  assume "e \<in> residents t k l"
  then have "e \<in> fst ` set (tally (map snd (filter (\<lambda>a. fst a = l) (census t))))"
    unfolding residents_rank by (force dest: in_set_takeD)
  then show ?thesis by (auto simp: dict_simps)
qed

lemma residents_layer_best:
  assumes "finite R" and "card R \<le> k"
  shows "(\<Sum>e \<in> R. int (count_list (census t) (l, e)))
       \<le> (\<Sum>e \<in> residents t k l. int (count_list (census t) (l, e)))"
proof -
  let ?es = "map snd (filter (\<lambda>a. fst a = l) (census t))"
  have "(\<Sum>e \<in> R. dict_get (tally ?es) e 0)
      \<le> (\<Sum>e \<in> set (map fst (take k (rank_desc (tally ?es)))). dict_get (tally ?es) e 0)"
    by (rule rank_desc_best) (use assms in \<open>auto simp: tally_entry\<close>)
  then show ?thesis by (simp add: dict_simps count_list_map_Pair residents_rank)
qed

lemma residents_best:
  assumes other: "\<And>l. finite (R l) \<and> card (R l) \<le> k"
  shows "length (filter (\<lambda>a. snd a \<in> R (fst a)) (census t))
       \<le> length (filter (\<lambda>a. snd a \<in> residents t k (fst a)) (census t))"
proof -
  have "int (length (filter (\<lambda>a. snd a \<in> R (fst a)) (census t)))
      \<le> int (length (filter (\<lambda>a. snd a \<in> residents t k (fst a)) (census t)))"
    using other by (simp only: hits_of_residents residents_finite) (intro sum_mono residents_layer_best, auto)
  then show ?thesis by simp
qed

end

interpretation hot: frequency_selection accesses
  "\<lambda>rows k l. set (dict_get (value_or [] (select_hot_set rows (int k))) l [])"
proof
  fix rows :: "trace_row list" and k l
  have "select_hot_set rows (int k) = Inr (value_or [] (select_hot_set rows (int k)))"
    by (simp add: select_hot_set_def)
  then show "set (dict_get (value_or [] (select_hot_set rows (int k))) l [])
      = set (map fst (take k (rank_desc (tally (map snd (filter (\<lambda>a. fst a = l) (accesses rows)))))))"
    by (simp only: select_hot_set_layer nat_int)
qed

lemma select_hot_set_value:
  "select_hot_set rows slots = Inr hot \<Longrightarrow> value_or [] (select_hot_set rows (int (nat slots))) = hot"
  by (auto simp: select_hot_set_def split: if_splits)

lemma hot_coverage_best:
  assumes hot: "select_hot_set rows slots = Inr hot"
    and other: "\<And>l. card (set (dict_get other l [])) \<le> nat slots"
  shows "hot_coverage rows other \<le> hot_coverage rows hot"
proof -
  have "length (filter (resident other) (accesses rows)) \<le> length (filter (resident hot) (accesses rows))"
    using hot.residents_best [of "\<lambda>l. set (dict_get other l [])" "nat slots" rows] other
    by (simp only: select_hot_set_value [OF hot] resident_def [abs_def] List.finite_set)
  then show ?thesis unfolding hot_coverage_eq by (rule rate_mono)
qed

subsection \<open>The corpus-census path selects the same hot set\<close>

lemma rank_desc_cong:
  assumes "mset xs = mset ys" and "distinct (map fst xs)"
  shows "rank_desc xs = rank_desc ys"
proof -
  have "inj_on (\<lambda>kv. (- snd kv, fst kv)) (set xs)"
    by (auto simp: inj_on_def prod_eq_iff)
  then show ?thesis
    unfolding rank_desc_def
    by (rule sort_key_inj_key_eq [rotated]) (use assms in auto)
qed

lemma regroup [simp]: "map (\<lambda>(lay, e, c). (lay, (e, c))) xs = xs"
  by (induction xs) auto

lemma summary_of_layer:
  "mset (map snd (filter (\<lambda>kv. fst kv = l) (sorted_counts (tally acs))))
     = mset (tally (map snd (filter (\<lambda>a. fst a = l) acs)))" (is "mset ?xs = mset ?ys")
proof (rule set_eq_iff_mset_eq_distinct [THEN iffD1])
  have "distinct (map (\<lambda>r. (fst r, fst (snd r))) (sorted_counts (tally acs)))"
    by (simp add: sorted_counts_keys)
  then have "distinct (sorted_counts (tally acs))" by (simp add: distinct_map)
  then show "distinct ?xs"
    by (auto simp: distinct_map inj_on_def prod_eq_iff)
  show "distinct ?ys"
    using distinct_tally [of "map snd (filter (\<lambda>a. fst a = l) acs)"] by (simp only: distinct_map)
  show "set ?xs = set ?ys"
  proof -
    have "(e, c) \<in> set ?xs \<longleftrightarrow> (l, e, c) \<in> set (sorted_counts (tally acs))" for e c
      by force
    moreover have "(e, c) \<in> set ?ys \<longleftrightarrow> (l, e) \<in> set acs \<and> c = int (count_list acs (l, e))" for e c
      by (force simp: tally_entry count_list_map_Pair)
    ultimately show ?thesis by (auto simp: set_sorted_counts_tally)
  qed
qed

lemma select_hot_set_from_counts_summary:
  "select_hot_set_from_counts (canonical_summary rows) slots
     = rbind (select_hot_set rows slots) (\<lambda>hot. Inr (filter (\<lambda>kv. fst kv \<in> fst ` set (accesses rows)) hot))"
proof (cases "slots < 0")
  case True
  then show ?thesis by (simp add: select_hot_set_from_counts_def select_hot_set_def)
next
  case False
  let ?acs = "accesses rows"
  let ?pairs = "canonical_summary rows"
  have keys: "fst ` set ?pairs = fst ` set ?acs"
  proof -
    have "fst ` set ?pairs = fst ` set (map (\<lambda>r. (fst r, fst (snd r))) ?pairs)"
      by (simp add: image_image)
    also have "\<dots> = fst ` set ?acs"
      by (simp only: canonical_summary_def sorted_counts_keys) (simp add: dict_simps)
    finally show ?thesis .
  qed
  have sk: "sort (map fst (group_values ?pairs))
      = filter (\<lambda>l. l \<in> fst ` set ?acs) (sort (remdups (map (fst \<circ> snd) rows)))"
  proof (rule sorted_distinct_set_unique)
    show "set (sort (map fst (group_values ?pairs)))
        = set (filter (\<lambda>l. l \<in> fst ` set ?acs) (sort (remdups (map (fst \<circ> snd) rows))))"
      using layer_in_rows by (fastforce simp: keys_group_values keys)
  qed (simp_all add: distinct_group_values sorted_filter [where f = id, simplified])
  have rank: "rank_desc (dict_get (group_values ?pairs) l []) = frequency_rank rows (Some l)" for l
  proof -
    have m: "mset (dict_get (group_values ?pairs) l []) = mset (tally (map snd (filter (\<lambda>a. fst a = l) ?acs)))"
      using summary_of_layer by (simp add: dict_get_group_values canonical_summary_def)
    have "distinct (map fst (dict_get (group_values ?pairs) l []))"
      using mset_eq_imp_distinct_iff [of "map fst (dict_get (group_values ?pairs) l [])"
          "map fst (tally (map snd (filter (\<lambda>a. fst a = l) ?acs)))"] m by simp
    from rank_desc_cong [OF m this] show ?thesis by (simp add: frequency_rank_layer)
  qed
  show ?thesis
    using False
    by (simp add: select_hot_set_from_counts_def select_hot_set_def Let_def sk rank filter_map comp_def)
qed

end
