(* ===== verification/Census_Calls.thy ===== *)
theory Census_Calls
  imports Census_Facts
begin

text \<open>
  The call trace: splitting a call into tokens, the map from layer keys to decoder layers, the
  reconstruction of tokens, and the agreement of the reconstructed trace with the aggregate
  census of the calls it was made from.
\<close>

subsection \<open>Splitting a call\<close>

lemma split_topk_chunks_Inr_iff:
  "split_topk_chunks ids k = Inr cs \<longleftrightarrow>
     0 < k \<and> ids \<noteq> [] \<and> nat k dvd length ids \<and> cs = chunks (nat k) ids"
proof -
  have "int (length ids) mod k = 0 \<longleftrightarrow> nat k dvd length ids" if "0 < k"
    using that by (metis dvd_eq_mod_eq_0 int_dvd_int_iff int_nat_eq less_le_not_le)
  then show ?thesis by (auto simp: split_topk_chunks_def not_le)
qed

lemma split_topk_chunks_facts:
  assumes "split_topk_chunks ids k = Inr cs"
  shows "concat cs = ids" and "length cs = length ids div nat k"
    and "\<And>c. c \<in> set cs \<Longrightarrow> length c = nat k" and "cs \<noteq> []"
  using assms length_in_chunks [of "nat k" ids]
  by (auto simp: split_topk_chunks_Inr_iff concat_chunks length_chunks)
     (metis concat.simps(1) concat_chunks zero_less_nat_eq)

lemma one_chunk:
  assumes "split_topk_chunks ids k = Inr cs" and "length cs = 1"
  shows "hd cs = ids"
proof -
  obtain c where "cs = [c]" using assms(2) by (cases cs) auto
  then show ?thesis using split_topk_chunks_facts(1) [OF assms(1)] by simp
qed

subsection \<open>Layer keys\<close>

lemma map_of_injective:
  assumes "distinct (map fst d)" "distinct (map snd d)" "map_of d a = Some x" "map_of d b = Some x"
  shows "a = b"
proof -
  have "(a, x) \<in> set d" "(b, x) \<in> set d" using assms(3,4) by (auto dest: map_of_SomeD)
  moreover have "inj_on snd (set d)" using assms(2) by (simp add: distinct_map)
  ultimately have "(a, x) = (b, x)" by (intro inj_onD [of snd "set d"]) simp_all
  then show ?thesis by simp
qed

lemma layer_key_index_map_facts:
  assumes "layer_key_index_map keys m = Inr ix"
  shows "distinct (map fst ix)" and "distinct (map snd ix)" and "set keys \<subseteq> fst ` set ix"
proof -
  let ?ks = "sort (remdups keys)"
  have "distinct (map fst ix) \<and> distinct (map snd ix) \<and> set keys \<subseteq> fst ` set ix"
  proof (cases m)
    case None
    then have ix: "ix = zip ?ks (map int [0..<length ?ks])"
      using assms by (simp add: layer_key_index_map_def)
    have "map fst ix = ?ks" "map snd ix = map int [0..<length ?ks]"
      by (simp_all add: ix)
    moreover from this have "fst ` set ix = set keys" by (metis list.set_map set_remdups set_sort)
    ultimately show ?thesis by (simp add: distinct_map)
  next
    case (Some e)
    let ?inv = "map (\<lambda>(k, v). (v, k)) (dict_of e)"
    have d: "distinct (map snd (dict_of e))" and i: "ix = dict_of ?inv"
      and cov: "set ?ks \<subseteq> fst ` set ix"
      using assms Some by (auto simp: layer_key_index_map_def Let_def list_ex_iff split: if_splits)
    have fs: "map fst ?inv = map snd (dict_of e)" "map snd ?inv = map fst (dict_of e)"
      by (simp_all add: comp_def case_prod_unfold)
    have "distinct (map fst ?inv)" unfolding fs using d .
    then have "ix = ?inv" unfolding i by (rule dict_of_distinct)
    moreover have "set keys \<subseteq> fst ` set ix" using cov by simp
    ultimately show ?thesis using fs d distinct_dict_of [of e] by (simp only: simp_thms)
  qed
  then show "distinct (map fst ix)" and "distinct (map snd ix)" and "set keys \<subseteq> fst ` set ix"
    by blast+
qed

lemma layer_key_index_map_lookup:
  "layer_key_index_map keys m = Inr ix \<Longrightarrow> k \<in> set keys \<Longrightarrow> \<exists>i. map_of ix k = Some i"
  using layer_key_index_map_facts(3) [of keys m ix] map_of_eq_None_iff [of ix k] by auto

subsection \<open>The accesses of a list of calls\<close>

definition call_accesses :: "(int, int) dict \<Rightarrow> call_row list \<Rightarrow> (int \<times> int) list" where
  "call_accesses ix calls =
     concat (map (\<lambda>(seq, lk, k, ids). map (Pair (the (map_of ix lk))) ids) calls)"

lemma mset_call_accesses_cong:
  "mset calls = mset calls' \<Longrightarrow> mset (call_accesses ix calls) = mset (call_accesses ix calls')"
  unfolding call_accesses_def mset_concat by (simp add: multiset.map_comp flip: sum_mset_sum_list)

lemma census_step_ok:
  assumes "split_topk_chunks ids k = Inr cs" "map_of ix lk = Some li"
  shows "\<exists>st'. census_step ix (seq, lk, k, ids) st = Inr st'
    \<and> cs_hist st' = tally_onto (cs_hist st) (map (Pair li) ids)"
  using assms by (simp add: census_step_def)

lemma census_loop_ok:
  assumes "\<And>seq lk k ids. (seq, lk, k, ids) \<in> set calls \<Longrightarrow>
      (\<exists>cs. split_topk_chunks ids k = Inr cs) \<and> (\<exists>li. map_of ix lk = Some li)"
  shows "\<exists>st'. census_loop ix calls st = Inr st' \<and> cs_hist st' = tally_onto (cs_hist st) (call_accesses ix calls)"
  using assms
proof (induction calls arbitrary: st)
  case Nil
  then show ?case by (simp add: call_accesses_def tally_onto_def)
next
  case (Cons c calls)
  obtain seq lk k ids where c: "c = (seq, lk, k, ids)" by (cases c)
  obtain cs li where ok: "split_topk_chunks ids k = Inr cs" "map_of ix lk = Some li"
    using Cons.prems [of seq lk k ids] c by auto
  from census_step_ok [OF ok, of seq st] obtain st1 where
    st1: "census_step ix c st = Inr st1" "cs_hist st1 = tally_onto (cs_hist st) (map (Pair li) ids)"
    using c by auto
  obtain st' where "census_loop ix calls st1 = Inr st'"
    "cs_hist st' = tally_onto (cs_hist st1) (call_accesses ix calls)"
    using Cons.IH [of st1] Cons.prems by (meson list.set_intros(2))
  with st1 ok show ?case by (simp add: c call_accesses_def tally_onto_append)
qed

subsection \<open>Reconstructing tokens\<close>

definition row_key :: "trace_row \<Rightarrow> int \<times> int" where
  "row_key r = (fst r, fst (snd r))"

text \<open>
  One step of the converter: a call of several tokens is skipped and counted (or refused), a
  call of one token appends a row.
\<close>

lemma v1_step_cases:
  assumes "v1_step ix skip (seq, lk, k, ids) st = Inr st'"
  obtains (skipped) cs where "skip" "split_topk_chunks ids k = Inr cs" "length cs \<noteq> 1"
      "st' = st\<lparr>vs_skipped_calls := vs_skipped_calls st + 1,
                vs_skipped_tokens := vs_skipped_tokens st + length cs\<rparr>"
    | (row) li tok seen where "split_topk_chunks ids k = Inr [ids]" "map_of ix lk = Some li"
      "(tok, seen) = (if lk \<in> set (vs_seen st) then (vs_tok st + 1, []) else (vs_tok st, vs_seen st))"
      "st' = st\<lparr>vs_tok := tok, vs_seen := List.insert lk seen,
                vs_rows := vs_rows st @ [(int tok, li, sort ids)]\<rparr>"
proof -
  obtain cs where cs: "split_topk_chunks ids k = Inr cs"
    using assms by (auto simp: v1_step_def res_simps)
  show thesis
  proof (cases "length cs = 1")
    case False
    with assms cs show ?thesis by (intro skipped) (auto simp: v1_step_def split: if_splits)
  next
    case True
    then have single: "cs = [ids]" using one_chunk [OF cs True] by (cases cs) auto
    obtain li where li: "map_of ix lk = Some li"
      using assms cs single by (auto simp: v1_step_def res_simps Let_def split: if_splits)
    show ?thesis
      using assms cs single li
      by (cases "lk \<in> set (vs_seen st)") (auto intro!: row simp: v1_step_def)
  qed
qed

lemma v1_loop_split:
  "v1_loop ix skip calls st = Inr st' \<Longrightarrow> (seq, lk, k, ids) \<in> set calls \<Longrightarrow>
     \<exists>cs. split_topk_chunks ids k = Inr cs"
proof (induction calls arbitrary: st)
  case Nil
  then show ?case by simp
next
  case (Cons c calls)
  then obtain st1 where st1: "v1_step ix skip c st = Inr st1" "v1_loop ix skip calls st1 = Inr st'"
    by (auto simp: res_simps)
  from Cons.prems(2) consider "c = (seq, lk, k, ids)" | "(seq, lk, k, ids) \<in> set calls" by auto
  then show ?case
  proof cases
    case 1
    with st1(1) show ?thesis by (auto simp: v1_step_def res_simps)
  next
    case 2
    with Cons.IH [OF st1(2)] show ?thesis by blast
  qed
qed

lemma accesses_append: "accesses (xs @ ys) = accesses xs @ accesses ys"
  by (simp add: accesses_def)

lemma v1_loop_accesses:
  "v1_loop ix False calls st = Inr st' \<Longrightarrow>
     mset (accesses (vs_rows st')) = mset (accesses (vs_rows st)) + mset (call_accesses ix calls)"
proof (induction calls arbitrary: st)
  case Nil
  then show ?case by (simp add: call_accesses_def)
next
  case (Cons c calls)
  obtain seq lk k ids where c: "c = (seq, lk, k, ids)" by (cases c)
  obtain st1 where st1: "v1_step ix False c st = Inr st1" "v1_loop ix False calls st1 = Inr st'"
    using Cons.prems by (auto simp: res_simps)
  from st1(1) have "mset (accesses (vs_rows st1)) = mset (accesses (vs_rows st)) + mset (call_accesses ix [c])"
    unfolding c by (rule v1_step_cases) (auto simp: accesses_append accesses_def call_accesses_def)
  with Cons.IH [OF st1(2)] show ?case by (simp add: call_accesses_def)
qed

text \<open>Every selected call is a row or a counted skip.\<close>

lemma v1_loop_counts:
  "v1_loop ix skip calls st = Inr st' \<Longrightarrow>
     length (vs_rows st') + vs_skipped_calls st' = length (vs_rows st) + vs_skipped_calls st + length calls"
proof (induction calls arbitrary: st)
  case Nil
  then show ?case by simp
next
  case (Cons c calls)
  obtain seq lk k ids where c: "c = (seq, lk, k, ids)" by (cases c)
  obtain st1 where st1: "v1_step ix skip c st = Inr st1" "v1_loop ix skip calls st1 = Inr st'"
    using Cons.prems by (auto simp: res_simps)
  from st1(1) have "length (vs_rows st1) + vs_skipped_calls st1
      = length (vs_rows st) + vs_skipped_calls st + 1"
    unfolding c by (rule v1_step_cases) auto
  with Cons.IH [OF st1(2)] show ?case by simp
qed

text \<open>The invariant of the token labels: within a token no layer repeats.\<close>

definition v1_inv :: "(int, int) dict \<Rightarrow> v1_state \<Rightarrow> bool" where
  "v1_inv ix st =
     (distinct (map row_key (vs_rows st))
      \<and> list_all (\<lambda>r. fst r \<le> int (vs_tok st)) (vs_rows st)
      \<and> list_all (\<lambda>r. fst r = int (vs_tok st) \<longrightarrow>
            list_ex (\<lambda>lk. map_of ix lk = Some (fst (snd r))) (vs_seen st)) (vs_rows st))"

lemma v1_inv_init: "v1_inv ix v1_init"
  by (simp add: v1_inv_def v1_init_def)

lemma v1_step_inv:
  assumes d: "distinct (map fst ix)" "distinct (map snd ix)"
    and inv: "v1_inv ix st" and step: "v1_step ix skip (seq, lk, k, ids) st = Inr st'"
  shows "v1_inv ix st'"
  using step
proof (cases rule: v1_step_cases)
  case (skipped cs)
  with inv show ?thesis by (simp add: v1_inv_def)
next
  case (row li tok seen)
  have le: "fst r \<le> int (vs_tok st)" if "r \<in> set (vs_rows st)" for r
    using inv that by (simp add: v1_inv_def list_all_iff)
  have fresh: "(int tok, li) \<notin> row_key ` set (vs_rows st)"
  proof
    assume "(int tok, li) \<in> row_key ` set (vs_rows st)"
    then obtain r where r: "r \<in> set (vs_rows st)" "fst r = int tok" "fst (snd r) = li"
      by (auto simp: row_key_def)
    then have tok: "tok = vs_tok st" and notin: "lk \<notin> set (vs_seen st)"
      using le [OF r(1)] row(3) by (auto split: if_splits)
    with inv r obtain lk' where "lk' \<in> set (vs_seen st)" "map_of ix lk' = Some li"
      by (auto simp: v1_inv_def list_all_iff list_ex_iff)
    with map_of_injective [OF d this(2) row(2)] notin show False by simp
  qed
  have "list_ex (\<lambda>lk. map_of ix lk = Some (fst (snd r))) (List.insert lk seen)"
    if r: "r \<in> set (vs_rows st)" "fst r = int tok" for r
  proof -
    have "seen = vs_seen st" "tok = vs_tok st"
      using le [OF r(1)] r(2) row(3) by (auto split: if_splits)
    with inv r show ?thesis by (auto simp: v1_inv_def list_all_iff list_ex_iff)
  qed
  moreover have "fst r \<le> int tok" if "r \<in> set (vs_rows st)" for r
    using le [OF that] row(3) by (auto split: if_splits)
  ultimately show ?thesis
    using inv row fresh by (auto simp: v1_inv_def row_key_def list_all_iff list_ex_iff)
qed

lemma v1_loop_inv:
  assumes "distinct (map fst ix)" "distinct (map snd ix)"
  shows "v1_inv ix st \<Longrightarrow> v1_loop ix skip calls st = Inr st' \<Longrightarrow> v1_inv ix st'"
proof (induction calls arbitrary: st)
  case Nil
  then show ?case by simp
next
  case (Cons c calls)
  obtain seq lk k ids where c: "c = (seq, lk, k, ids)" by (cases c)
  obtain st1 where "v1_step ix skip c st = Inr st1" "v1_loop ix skip calls st1 = Inr st'"
    using Cons.prems(2) by (auto simp: res_simps)
  then show ?case using Cons.IH v1_step_inv [OF assms Cons.prems(1)] c by blast
qed

subsection \<open>The converter as a whole\<close>

text \<open>What a successful conversion is made of.\<close>

lemma call_trace_to_v1_elim:
  assumes "call_trace_to_v1 calls m skip from = Inr (rows, rep)"
  obtains ix st where
    "layer_key_index_map (map (fst \<circ> snd) (filter (\<lambda>r. from \<le> fst r) calls)) m = Inr ix"
    "v1_loop ix skip (sort_key fst (filter (\<lambda>r. from \<le> fst r) calls)) v1_init = Inr st"
    "rows = sort_key row_key (vs_rows st)"
    "vr_calls_selected rep = length (filter (\<lambda>r. from \<le> fst r) calls)"
    "vr_batched_calls_skipped rep = vs_skipped_calls st"
    "filter (\<lambda>r. from \<le> fst r) calls \<noteq> [] \<Longrightarrow> rows \<noteq> []"
proof -
  let ?sel = "filter (\<lambda>r. from \<le> fst r) calls"
  obtain ix st where
    ix: "layer_key_index_map (map (fst \<circ> snd) ?sel) m = Inr ix" and
    st: "v1_loop ix skip (sort_key fst ?sel) v1_init = Inr st" and
    fin: "(if ?sel \<noteq> [] \<and> vs_rows st = [] then Inl NoDecodeRows
        else Inr (sort_key (\<lambda>r. (fst r, fst (snd r))) (vs_rows st),
                  \<lparr>vr_tokens = (if vs_rows st = [] then 0 else vs_tok st + 1),
                   vr_layer_keys = length ix, vr_calls = length calls,
                   vr_calls_selected = length ?sel, vr_from_call_seq = from,
                   vr_batched_calls_skipped = vs_skipped_calls st,
                   vr_batched_tokens_skipped = vs_skipped_tokens st\<rparr>)) = Inr (rows, rep)"
    using assms unfolding call_trace_to_v1_def Let_def rbind_Inr_iff by blast
  from fin show thesis
    by (intro that [OF ix st]) (auto simp: row_key_def [abs_def] split: if_splits)
qed

lemma call_trace_to_v1_sorted:
  assumes "call_trace_to_v1 calls m skip from = Inr (rows, rep)"
  shows "sorted_wrt (<) (map row_key rows)"
  using assms
proof (rule call_trace_to_v1_elim)
  fix ix st
  assume ix: "layer_key_index_map (map (fst \<circ> snd) (filter (\<lambda>r. from \<le> fst r) calls)) m = Inr ix"
    and st: "v1_loop ix skip (sort_key fst (filter (\<lambda>r. from \<le> fst r) calls)) v1_init = Inr st"
    and rows: "rows = sort_key row_key (vs_rows st)"
  have "v1_inv ix st"
    using v1_loop_inv [OF layer_key_index_map_facts(1,2) [OF ix] v1_inv_init st] .
  then have "distinct (map row_key (vs_rows st))" by (simp add: v1_inv_def)
  moreover have "mset (map row_key rows) = mset (map row_key (vs_rows st))" by (simp add: rows)
  ultimately have "distinct (map row_key rows)" by (metis mset_eq_imp_distinct_iff)
  then show ?thesis by (simp add: rows strict_sorted_iff)
qed

lemma call_trace_to_v1_counts:
  assumes "call_trace_to_v1 calls m skip from = Inr (rows, rep)"
  shows "length rows + vr_batched_calls_skipped rep = vr_calls_selected rep"
  using assms
  by (rule call_trace_to_v1_elim) (use v1_loop_counts in \<open>fastforce simp: v1_init_def\<close>)

lemma call_trace_to_v1_census:
  assumes v1: "call_trace_to_v1 calls m False from = Inr (rows, rep)"
    and ne: "\<exists>c \<in> set calls. from \<le> fst c"
  shows "\<exists>meta. census_from_call_trace calls m from None = Inr (canonical_summary rows, meta)"
  using v1
proof (rule call_trace_to_v1_elim)
  fix ix st
  let ?sel = "filter (\<lambda>r. from \<le> fst r) calls"
  assume ix: "layer_key_index_map (map (fst \<circ> snd) ?sel) m = Inr ix"
    and st: "v1_loop ix False (sort_key fst ?sel) v1_init = Inr st"
    and rows: "rows = sort_key row_key (vs_rows st)"
  have ok: "(\<exists>cs. split_topk_chunks ids k = Inr cs) \<and> (\<exists>li. map_of ix lk = Some li)"
    if "(seq, lk, k, ids) \<in> set ?sel" for seq lk k ids
    using v1_loop_split [OF st, of seq lk k ids] layer_key_index_map_lookup [OF ix, of lk] that
    by (auto simp: image_iff)
  obtain st' where st': "census_loop ix ?sel census_init = Inr st'"
    "cs_hist st' = tally_onto (cs_hist census_init) (call_accesses ix ?sel)"
    using census_loop_ok [of ?sel ix census_init] ok by blast
  have "mset (accesses rows) = mset (accesses (vs_rows st))"
    unfolding rows accesses_def mset_concat
    by (simp add: multiset.map_comp flip: sum_mset_sum_list)
  also have "\<dots> = mset (call_accesses ix (sort_key fst ?sel))"
    using v1_loop_accesses [OF st] by (simp add: v1_init_def accesses_def)
  also have "\<dots> = mset (call_accesses ix ?sel)"
    by (rule mset_call_accesses_cong) simp
  finally have "canonical_summary rows = sorted_counts (cs_hist st')"
    unfolding canonical_summary_def st'(2) census_init_def census_state.select_convs
    by (rule sorted_counts_cong)
  moreover have "?sel \<noteq> []" using ne by (auto simp: filter_empty_conv)
  moreover have "filter (\<lambda>r. in_range from None (fst r)) calls = ?sel"
    by (simp add: in_range_def)
  ultimately show ?thesis
    using ix st'(1) by (simp add: census_from_call_trace_def check_range_def)
qed

subsection \<open>The join\<close>

lemma mismatches_iff:
  "(k, p, t) \<in> set (mismatches plugin trace) \<longleftrightarrow>
     p = dict_get plugin k 0 \<and> t = dict_get trace k 0 \<and> p \<noteq> t"
proof -
  have "k \<in> fst ` set plugin \<union> fst ` set trace" if "dict_get plugin k 0 \<noteq> dict_get trace k (0::int)"
  proof (rule ccontr)
    assume "k \<notin> fst ` set plugin \<union> fst ` set trace"
    then have "map_of plugin k = None" "map_of trace k = None" by (auto simp: map_of_eq_None_iff)
    with that show False by (simp add: dict_get_def)
  qed
  then show ?thesis by (auto simp: mismatches_def)
qed

lemma dict_get_plugin_counts:
  "dict_get (plugin_counts rows) (off, e) 0
     = sum_list (map (\<lambda>(lay, o', e', c). if o' = off \<and> e' = e then c else 0) rows)"
proof -
  have "dict_get (fold (\<lambda>(lay, off, e, c). incr c (off, e)) rows d) (off, e) 0
      = dict_get d (off, e) 0
        + sum_list (map (\<lambda>(lay, o', e', c). if o' = off \<and> e' = e then c else 0) rows)" for d
    by (induction rows arbitrary: d) (auto simp: dict_simps)
  then show ?thesis by (simp add: plugin_counts_def)
qed

end
