(* ===== verification/Census_Commands.thy ===== *)
theory Census_Commands
  imports Census_Formats Census_Calls
begin

text \<open>
  The subcommands of \<open>hot_set_census.py\<close> that turn files into files. A path argument is the
  text of the file, an output is the text written; a JSON layer-key map is the list of its
  items, its keys strings as JSON has them. What a subcommand prints for a human reader is left
  out. The lemmas compose the components: what one subcommand writes is what the next one reads.
\<close>

subsection \<open>The subcommands\<close>

definition read_layer_keys :: "(string \<times> int) list option \<Rightarrow> (int, int) dict option res" where
  "read_layer_keys raw =
     (case raw of
        None \<Rightarrow> Inr None
      | Some items \<Rightarrow>
          rbind (map_res (\<lambda>(k, v). rbind (of_option ValueErrorInt (py_int k)) (\<lambda>i. Inr (i, v))) items)
            (\<lambda>kvs. Inr (Some (dict_of kvs))))"

definition cmd_summary :: "string \<Rightarrow> string res" where
  "cmd_summary trace =
     rbind (parse_trace trace True) (\<lambda>rows. Inr (write_summary rows (read_provenance trace)))"

definition cmd_select ::
  "string option \<Rightarrow> string option \<Rightarrow> int \<Rightarrow> (string \<times> int) list option \<Rightarrow> string res" where
  "cmd_select census trace slots_per_layer layer_keys_json =
     (if (census = None) = (trace = None) then Inl UsageError
      else rbind (read_layer_keys layer_keys_json) (\<lambda>layer_keys.
        rbind (case census of
                 Some c \<Rightarrow> rbind (read_census_summary c) (\<lambda>s. select_hot_set_from_counts s slots_per_layer)
               | None \<Rightarrow> (case trace of
                   Some t \<Rightarrow> rbind (parse_trace t True) (\<lambda>rows. select_hot_set rows slots_per_layer)
                 | None \<Rightarrow> Inl UsageError))
          (\<lambda>hot. seed_text hot (case layer_keys of None \<Rightarrow> [] | Some m \<Rightarrow> m))))"

definition meta_items :: "census_meta \<Rightarrow> provenance" where
  "meta_items m =
     [(''calls'', py_str (int (cm_calls m))), (''calls_selected'', py_str (int (cm_calls_selected m))),
      (''batched_calls'', py_str (int (cm_batched_calls m))),
      (''decode_calls'', py_str (int (cm_decode_calls m))),
      (''tokens_observed'', py_str (int (cm_tokens_observed m))),
      (''accesses'', py_str (int (cm_accesses m))), (''from_call_seq'', py_str (cm_from_call_seq m)),
      (''to_call_seq'', case cm_to_call_seq m of None \<Rightarrow> ''None'' | Some t \<Rightarrow> py_str t),
      (''layers'', py_str (int (cm_layers m)))]"

definition census_text :: "provenance \<Rightarrow> census_meta \<Rightarrow> (int \<times> int \<times> int) list \<Rightarrow> string" where
  "census_text prov meta summary =
     text_of ((''# census summary (patch 0044 call trace; batched calls counted)''
               # map render_pair prov @ map render_pair (meta_items meta))
              @ ''layer,expert,count'' # map render_count summary @ [total_line summary])"

definition cmd_census_from_call_trace ::
  "string \<Rightarrow> string \<Rightarrow> (string \<times> int) list option \<Rightarrow> int \<Rightarrow> int option \<Rightarrow> string res" where
  "cmd_census_from_call_trace call_trace provenance layer_keys_json from_seq to_seq =
     rbind (parse_call_trace call_trace True) (\<lambda>call_rows.
     rbind (read_layer_keys layer_keys_json) (\<lambda>layer_keys.
     let prov = read_provenance_file provenance in
     rbind (require_attribution prov) (\<lambda>_.
     rbind (census_from_call_trace call_rows layer_keys from_seq to_seq) (\<lambda>(summary, meta).
       Inr (census_text prov meta summary)))))"

definition v1_provenance :: "provenance \<Rightarrow> v1_report \<Rightarrow> provenance" where
  "v1_provenance prov rep =
     dict_of (prov @
       [(''source'', ''plugin-0044-call-trace''), (''calls'', py_str (int (vr_calls rep))),
        (''calls_selected'', py_str (int (vr_calls_selected rep))),
        (''from_call_seq'', py_str (vr_from_call_seq rep)),
        (''batched_calls_skipped'', py_str (int (vr_batched_calls_skipped rep))),
        (''batched_tokens_skipped'', py_str (int (vr_batched_tokens_skipped rep))),
        (''tokens'', py_str (int (vr_tokens rep))), (''layers'', py_str (int (vr_layer_keys rep))),
        (''token_labels'', ''reconstructed'')])"

definition v1_text :: "provenance \<Rightarrow> trace_row list \<Rightarrow> string" where
  "v1_text prov rows =
     text_of ((''# arcint routing trace v1'' # map render_pair prov) @ map render_row rows)"

definition cmd_from_call_trace ::
  "string \<Rightarrow> string \<Rightarrow> (string \<times> int) list option \<Rightarrow> bool \<Rightarrow> int \<Rightarrow> string res" where
  "cmd_from_call_trace call_trace provenance layer_keys_json skip_batched from_seq =
     rbind (parse_call_trace call_trace True) (\<lambda>call_rows.
     rbind (read_layer_keys layer_keys_json) (\<lambda>layer_keys.
     let prov = read_provenance_file provenance in
     rbind (require_attribution prov) (\<lambda>_.
     rbind (call_trace_to_v1 call_rows layer_keys skip_batched from_seq) (\<lambda>(rows, rep).
       Inr (v1_text (v1_provenance prov rep) rows)))))"

definition cmd_plugin_csv :: "string \<Rightarrow> (nat \<times> int) res" where
  "cmd_plugin_csv csv =
     rbind (read_plugin_csv csv) (\<lambda>rows. Inr (length rows, sum_list (map (snd \<circ> snd \<circ> snd) rows)))"

definition cmd_join_plugin_call_trace ::
  "string \<Rightarrow> string \<Rightarrow> int \<Rightarrow> int option \<Rightarrow> (nat \<times> nat \<times> ((int \<times> int) \<times> int \<times> int) list) res" where
  "cmd_join_plugin_call_trace call_trace csv from_seq to_seq =
     rbind (parse_call_trace call_trace True) (\<lambda>call_rows.
     rbind (read_plugin_csv csv) (\<lambda>plugin_rows.
     rbind (join_plugin_to_call_trace call_rows plugin_rows from_seq to_seq) (\<lambda>(plugin, trace, ms).
       Inr (length plugin, length trace, ms))))"

subsection \<open>What a provenance file can hold\<close>

definition plain_pair :: "string \<times> string \<Rightarrow> bool" where
  "plain_pair kv = (one_line (fst kv) \<and> one_line (snd kv))"

lemma set_strip: "set (strip s) \<subseteq> set s"
  by (auto simp: strip_def lstrip_def rstrip_def dest!: set_dropWhileD)

lemma split_ws_tokens: "t \<in> set (split_ws s) \<Longrightarrow> is_token t"
proof (induction s rule: split_ws.induct)
  case (1 s)
  let ?t = "dropWhile is_ws s"
  show ?case
  proof (cases "?t = []")
    case True
    with "1.prems" show ?thesis by (simp add: split_ws.simps [of s])
  next
    case False
    then have "\<not> is_ws (hd ?t)" by (rule hd_dropWhile)
    with False have "takeWhile (\<lambda>c. \<not> is_ws c) ?t \<noteq> []" by (cases ?t) auto
    then have "is_token (takeWhile (\<lambda>c. \<not> is_ws c) ?t)"
      by (auto simp: is_token_def list_all_iff dest: set_takeWhileD)
    moreover have "split_ws s = takeWhile (\<lambda>c. \<not> is_ws c) ?t # split_ws (dropWhile (\<lambda>c. \<not> is_ws c) ?t)"
      using False by (simp add: split_ws.simps [of s] Let_def)
    ultimately show ?thesis using "1.prems" "1.IH" [OF refl False] by (simp only: set_simps) blast
  qed
qed

lemma one_line_subset: "one_line t \<Longrightarrow> set s \<subseteq> set t \<Longrightarrow> one_line s"
  by (auto simp: one_line_def)

lemma set_split_first: "set (fst (split_first c s)) \<subseteq> set s" "set (snd (split_first c s)) \<subseteq> set s"
  by (auto simp: split_first_def dest: set_takeWhileD set_dropWhileD in_set_dropD)

lemma set_update_subset: "set (AList.update k v d) \<subseteq> insert (k, v) (set d)"
  by (induction d) auto

lemma add_pairs_plain:
  assumes "list_all plain_pair prov"
  shows "list_all plain_pair (add_pairs body prov)"
proof -
  have step: "list_all plain_pair (AList.update (strip (fst (split_first c t))) (strip (snd (split_first c t))) d)"
    if "is_token t" "list_all plain_pair d" for t c d
  proof -
    have "plain_pair (strip (fst (split_first c t)), strip (snd (split_first c t)))"
      using token_one_line [OF that(1)] set_strip set_split_first
      by (fastforce simp: plain_pair_def intro: one_line_subset)
    with that(2) set_update_subset show ?thesis by (fastforce simp: list_all_iff)
  qed
  have "list_all plain_pair (fold (\<lambda>tok d. if CHR ''='' \<in> set tok
      then (let (k, v) = split_first (CHR ''='') tok in AList.update (strip k) (strip v) d) else d) ts d)"
    if "\<And>t. t \<in> set ts \<Longrightarrow> is_token t" "list_all plain_pair d" for ts d
    using that by (induction ts arbitrary: d) (auto simp: case_prod_unfold Let_def step)
  then show ?thesis unfolding add_pairs_def using split_ws_tokens assms by blast
qed

lemma read_provenance_file_plain: "list_all plain_pair (read_provenance_file text)"
proof -
  have "list_all plain_pair (fold (\<lambda>l prov.
       let body = strip (dropWhile (\<lambda>c. c = CHR ''#'') (strip l)) in
       if startswith body ''arcint routing trace'' then prov else add_pairs body prov) ls d)"
    if "list_all plain_pair d" for ls d
    using that by (induction ls arbitrary: d) (auto simp: Let_def add_pairs_plain)
  then show ?thesis by (simp add: read_provenance_file_def)
qed

lemma read_provenance_plain: "list_all plain_pair (read_provenance text)"
proof -
  have "list_all plain_pair (provenance_lines ls d)" if "list_all plain_pair d" for ls d
    using that by (induction ls arbitrary: d) (auto simp: Let_def add_pairs_plain)
  then show ?thesis by (simp add: read_provenance_def)
qed

lemma plain_pair_lines:
  "list_all plain_pair prov \<Longrightarrow> list_all one_line (map render_pair prov)"
  by (auto simp: list_all_iff plain_pair_def render_pair_one_line)

lemma comment_pair_lines: "list_all is_comment (map render_pair prov)"
  by (simp add: list_all_iff render_pair_comment)

lemma one_line_py_str [simp]: "one_line (py_str i)"
  using py_str_excludes [of _ i] by (auto simp: one_line_def)

lemma one_line_chars: "one_line []" "one_line (c # s) \<longleftrightarrow> c \<noteq> LF \<and> c \<noteq> CR \<and> one_line s"
  by (auto simp: one_line_def)

lemma dict_of_all:
  "list_all P kvs \<Longrightarrow> list_all P (dict_of kvs)"
proof -
  have "list_all P d \<Longrightarrow> list_all P kvs \<Longrightarrow> list_all P (fold (\<lambda>(k, v) d. AList.update k v d) kvs d)" for d
  proof (induction kvs arbitrary: d)
    case Nil
    then show ?case by simp
  next
    case (Cons kv kvs)
    obtain k v where kv: "kv = (k, v)" by (cases kv)
    have "list_all P (AList.update k v d)"
      using Cons.prems kv set_update_subset [of k v d] by (auto simp: list_all_iff)
    with Cons kv show ?case by simp
  qed
  then show "list_all P kvs \<Longrightarrow> list_all P (dict_of kvs)" by (simp add: dict_of_def)
qed

lemma v1_provenance_plain:
  assumes "list_all plain_pair prov"
  shows "list_all plain_pair (v1_provenance prov rep)"
  unfolding v1_provenance_def
  by (rule dict_of_all) (use assms in \<open>simp add: plain_pair_def one_line_chars\<close>)

lemma meta_items_plain: "list_all plain_pair (meta_items meta)"
  by (simp add: meta_items_def plain_pair_def one_line_chars split: option.split)

subsection \<open>What is written is read back\<close>

lemma census_text_read:
  assumes "list_all plain_pair prov" "list_all good_count s"
  shows "read_census_summary (census_text prov meta s) = Inr s"
  unfolding census_text_def
  by (rule read_census_summary_text)
     (use assms in \<open>simp_all add: comment_pair_lines plain_pair_lines meta_items_plain is_comment_def one_line_chars\<close>)

lemma v1_text_parse:
  assumes "list_all plain_pair prov"
  shows "list_all good_row rows \<Longrightarrow> parse_trace (v1_text prov rows) strict = Inr rows"
    and "list_all (row_over (\<lambda>_. True)) rows \<Longrightarrow> \<exists>r \<in> set rows. fst (snd r) < 0 \<Longrightarrow>
      \<exists>k. parse_trace (v1_text prov rows) strict = Inl (NegativeField k)"
  unfolding v1_text_def
  by (rule parse_trace_text;
      use assms in \<open>simp_all add: comment_pair_lines plain_pair_lines is_comment_def one_line_chars\<close>)+

lemma write_summary_read:
  assumes "list_all plain_pair prov" "list_all good_count (canonical_summary rows)"
  shows "read_census_summary (write_summary rows prov) = Inr (canonical_summary rows)"
  unfolding write_summary_def
  by (rule read_census_summary_text)
     (use assms in \<open>simp_all add: comment_pair_lines plain_pair_lines is_comment_def one_line_chars\<close>)

lemma scan_lines_all:
  assumes "\<And>n l x. f n l = Inr (Some x) \<Longrightarrow> P x"
  shows "scan_lines f n ls = Inr xs \<Longrightarrow> list_all P xs"
proof (induction ls arbitrary: n xs)
  case Nil
  then show ?case by simp
next
  case (Cons l ls)
  then obtain r rs where "f n l = Inr r" "scan_lines f (Suc n) ls = Inr rs"
    "xs = (case r of None \<Rightarrow> rs | Some x \<Rightarrow> x # rs)"
    by (auto simp: res_simps)
  with Cons.IH assms show ?case by (auto split: option.splits)
qed

definition good_call :: "call_row \<Rightarrow> bool" where
  "good_call c = (case c of (seq, lk, k, ids) \<Rightarrow>
     0 \<le> seq \<and> 0 \<le> lk \<and> 0 \<le> k \<and> ids \<noteq> [] \<and> list_all (\<lambda>e. 0 \<le> e) ids)"

lemma ints_not_Nil: "ints (x # xs) = Some ys \<Longrightarrow> ys \<noteq> []"
  by (auto split: option.splits)

lemma parse_trace_good: "parse_trace text strict = Inr rows \<Longrightarrow> list_all good_row rows"
  unfolding parse_trace_def
  by (rule scan_lines_all)
     (auto simp: parse_trace_row_def good_row_def Let_def list_all_iff list_ex_iff not_less
       simp del: ints.simps dest!: ints_not_Nil split: if_splits list.splits option.splits prod.splits)

lemma parse_call_trace_good: "parse_call_trace text strict = Inr calls \<Longrightarrow> list_all good_call calls"
  unfolding parse_call_trace_def
  by (rule scan_lines_all)
     (auto simp: parse_call_row_def good_call_def Let_def list_all_iff list_ex_iff not_less
       simp del: ints.simps dest!: ints_not_Nil split: if_splits list.splits option.splits prod.splits)

lemma canonical_summary_good: "list_all good_row rows \<Longrightarrow> list_all good_count (canonical_summary rows)"
  by (fastforce simp: list_all_iff good_count_def good_row_def canonical_summary_def
      set_sorted_counts_tally accesses_def)

text \<open>Decoder indices of an explicit map, as the JSON file spells them.\<close>

definition nonneg_indices :: "(string \<times> int) list option \<Rightarrow> bool" where
  "nonneg_indices raw = (case raw of None \<Rightarrow> True
     | Some items \<Rightarrow> list_all (\<lambda>(k, v). case py_int k of None \<Rightarrow> True | Some i \<Rightarrow> 0 \<le> i) items)"

lemma layer_key_index_map_nonneg:
  assumes "layer_key_index_map keys m = Inr ix" and "\<And>e. m = Some e \<Longrightarrow> list_all (\<lambda>kv. 0 \<le> fst kv) e"
  shows "list_all (\<lambda>kv. 0 \<le> snd kv) ix"
proof (cases m)
  case None
  then show ?thesis
    using assms(1) by (auto simp: layer_key_index_map_def list_all_iff dest!: set_zip_rightD)
next
  case (Some e)
  then have "list_all (\<lambda>kv. 0 \<le> fst kv) (dict_of e)" using assms(2) by (auto intro: dict_of_all)
  then have "list_all (\<lambda>kv. 0 \<le> snd kv) (map (\<lambda>(k, v). (v, k)) (dict_of e))"
    by (auto simp: list_all_iff)
  then show ?thesis
    using assms(1) Some by (auto simp: layer_key_index_map_def Let_def dict_of_all split: if_splits)
qed

lemma read_layer_keys_nonneg:
  assumes "read_layer_keys raw = Inr (Some m)" and "nonneg_indices raw"
  shows "list_all (\<lambda>kv. 0 \<le> fst kv) m"
proof -
  obtain items kvs where items: "raw = Some items" and m: "m = dict_of kvs" and
    kvs: "map_res (\<lambda>(k, v). rbind (of_option ValueErrorInt (py_int k)) (\<lambda>i. Inr (i, v))) items = Inr kvs"
    using assms(1) by (auto simp: read_layer_keys_def res_simps split: option.splits)
  from kvs have "list_all2 (\<lambda>kv iv. py_int (fst kv) = Some (fst iv)) items kvs"
    unfolding map_res_Inr_iff by (rule list_all2_mono) (auto simp: res_simps)
  moreover have "list_all (\<lambda>(k, v). case py_int k of None \<Rightarrow> True | Some i \<Rightarrow> 0 \<le> i) items"
    using assms(2) items by (simp add: nonneg_indices_def)
  ultimately have "list_all (\<lambda>kv. 0 \<le> fst kv) kvs"
    by (induction rule: list_all2_induct) auto
  then show ?thesis unfolding m by (rule dict_of_all)
qed

lemma v1_loop_rows:
  assumes ix: "list_all (\<lambda>kv. Q (snd kv)) ix"
  shows "list_all good_call calls \<Longrightarrow> list_all (row_over Q) (vs_rows st) \<Longrightarrow>
    v1_loop ix skip calls st = Inr st' \<Longrightarrow> list_all (row_over Q) (vs_rows st')"
proof (induction calls arbitrary: st)
  case Nil
  then show ?case by simp
next
  case (Cons c calls)
  obtain seq lk k ids where c: "c = (seq, lk, k, ids)" by (cases c)
  obtain st1 where st1: "v1_step ix skip c st = Inr st1" "v1_loop ix skip calls st1 = Inr st'"
    using Cons.prems by (auto simp: res_simps)
  have ids: "ids \<noteq> []" "list_all (\<lambda>e. 0 \<le> e) (sort ids)"
    using Cons.prems(1) by (auto simp: c good_call_def list_all_iff)
  have li: "Q li" if "map_of ix lk = Some li" for li
    using ix map_of_SomeD [OF that] by (auto simp: list_all_iff)
  from st1(1) have "list_all (row_over Q) (vs_rows st1)"
    unfolding c
  proof (cases rule: v1_step_cases)
    case (row li tok seen)
    then show ?thesis using Cons.prems(2) ids li
      by (simp add: row_over_def [of Q "(_, _)"])
  qed (use Cons.prems(2) in simp)
  with Cons.IH [OF _ _ st1(2)] Cons.prems(1) show ?case by simp
qed

lemma census_loop_hist:
  "census_loop ix calls st = Inr st' \<Longrightarrow> cs_hist st' = tally_onto (cs_hist st) (call_accesses ix calls)"
proof (induction calls arbitrary: st)
  case Nil
  then show ?case by (simp add: call_accesses_def tally_onto_def)
next
  case (Cons c calls)
  then obtain st1 where st1: "census_step ix c st = Inr st1" "census_loop ix calls st1 = Inr st'"
    by (auto simp: res_simps)
  then have "cs_hist st1 = tally_onto (cs_hist st) (call_accesses ix [c])"
    by (auto simp: census_step_def call_accesses_def res_simps split: prod.splits)
  with Cons.IH [OF st1(2)] show ?case
    by (simp add: tally_onto_append [symmetric]) (simp add: call_accesses_def)
qed

lemma census_loop_counts:
  "census_loop ix calls st = Inr st' \<Longrightarrow>
     cs_selected st' = cs_selected st + length calls
     \<and> cs_batched st' + cs_decode st' = cs_batched st + cs_decode st + length calls
     \<and> cs_accesses st' = cs_accesses st + sum_list (map (\<lambda>c. length (snd (snd (snd c)))) calls)"
proof (induction calls arbitrary: st)
  case Nil
  then show ?case by simp
next
  case (Cons c calls)
  then obtain st1 where st1: "census_step ix c st = Inr st1" "census_loop ix calls st1 = Inr st'"
    by (auto simp: res_simps)
  then have "cs_selected st1 = cs_selected st + 1"
    "cs_batched st1 + cs_decode st1 = cs_batched st + cs_decode st + 1"
    "cs_accesses st1 = cs_accesses st + length (snd (snd (snd c)))"
    by (auto simp: census_step_def res_simps split: prod.splits)
  with Cons.IH [OF st1(2)] show ?case by simp
qed

subsection \<open>What a successful subcommand is made of\<close>

lemma cmd_from_call_trace_elim:
  assumes "cmd_from_call_trace ct pf lk skip from = Inr out"
  obtains calls m rows rep where
    "parse_call_trace ct True = Inr calls" "read_layer_keys lk = Inr m"
    "call_trace_to_v1 calls m skip from = Inr (rows, rep)"
    "out = v1_text (v1_provenance (read_provenance_file pf) rep) rows"
  using assms by (auto simp: cmd_from_call_trace_def res_simps Let_def)

lemma cmd_census_from_call_trace_elim:
  assumes "cmd_census_from_call_trace ct pf lk from to = Inr out"
  obtains calls m s meta where
    "parse_call_trace ct True = Inr calls" "read_layer_keys lk = Inr m"
    "census_from_call_trace calls m from to = Inr (s, meta)"
    "out = census_text (read_provenance_file pf) meta s"
  using assms by (auto simp: cmd_census_from_call_trace_def res_simps Let_def)

lemma index_map_nonneg:
  assumes "layer_key_index_map keys m = Inr ix" "read_layer_keys lk = Inr m" "nonneg_indices lk"
  shows "list_all (\<lambda>kv. 0 \<le> snd kv) ix"
  using assms by (intro layer_key_index_map_nonneg [OF assms(1)]) (auto intro: read_layer_keys_nonneg)

lemma call_trace_to_v1_rows:
  assumes "call_trace_to_v1 calls m skip from = Inr (rows, rep)" and calls: "list_all good_call calls"
    and ix: "\<And>keys ix. layer_key_index_map keys m = Inr ix \<Longrightarrow> list_all (\<lambda>kv. Q (snd kv)) ix"
  shows "list_all (row_over Q) rows"
  using assms(1)
proof (rule call_trace_to_v1_elim)
  fix ix st
  assume m: "layer_key_index_map (map (fst \<circ> snd) (filter (\<lambda>r. from \<le> fst r) calls)) m = Inr ix"
    and st: "v1_loop ix skip (sort_key fst (filter (\<lambda>r. from \<le> fst r) calls)) v1_init = Inr st"
    and rows: "rows = sort_key row_key (vs_rows st)"
  have "list_all (row_over Q) (vs_rows st)"
    by (rule v1_loop_rows [OF ix [OF m] _ _ st])
       (use calls in \<open>simp_all add: list_all_iff v1_init_def\<close>)
  then show ?thesis by (simp add: rows list_all_iff)
qed

lemma call_trace_to_v1_good:
  assumes "call_trace_to_v1 calls m skip from = Inr (rows, rep)" and "list_all good_call calls"
    and lk: "read_layer_keys lk = Inr m" "nonneg_indices lk"
  shows "list_all good_row rows"
proof -
  have "list_all (row_over (\<lambda>l. 0 \<le> l)) rows"
    by (rule call_trace_to_v1_rows [OF assms(1,2)]) (rule index_map_nonneg [OF _ lk])
  then show ?thesis by (simp add: list_all_iff good_row_def row_over_def)
qed

lemma call_accesses_good:
  assumes "list_all good_call calls" "list_all (\<lambda>kv. 0 \<le> snd kv) ix"
    and "\<And>c. c \<in> set calls \<Longrightarrow> map_of ix (fst (snd c)) \<noteq> None" and "(l, e) \<in> set (call_accesses ix calls)"
  shows "0 \<le> l \<and> 0 \<le> e"
proof -
  obtain seq lk k ids where c: "(seq, lk, k, ids) \<in> set calls" "l = the (map_of ix lk)" "e \<in> set ids"
    using assms(4) by (auto simp: call_accesses_def)
  then obtain li where li: "map_of ix lk = Some li" using assms(3) [OF c(1)] by auto
  then have "0 \<le> li" using assms(2) map_of_SomeD [OF li] by (auto simp: list_all_iff)
  with c li assms(1) show ?thesis by (auto simp: list_all_iff good_call_def)
qed

lemma census_from_call_trace_good:
  assumes c: "census_from_call_trace calls m from to = Inr (s, meta)" and calls: "list_all good_call calls"
    and lk: "read_layer_keys lk = Inr m" "nonneg_indices lk"
  shows "list_all good_count s"
proof -
  let ?sel = "filter (\<lambda>r. in_range from to (fst r)) calls"
  obtain ix st where ix: "layer_key_index_map (map (fst \<circ> snd) ?sel) m = Inr ix"
    and st: "census_loop ix ?sel census_init = Inr st" and s: "s = sorted_counts (cs_hist st)"
    using c by (auto simp: census_from_call_trace_def res_simps Let_def split: if_splits)
  have hist: "cs_hist st = tally (call_accesses ix ?sel)"
    using census_loop_hist [OF st] by (simp add: census_init_def)
  have "0 \<le> l \<and> 0 \<le> e" if "(l, e) \<in> set (call_accesses ix ?sel)" for l e
  proof (rule call_accesses_good [OF _ index_map_nonneg [OF ix lk] _ that])
    show "list_all good_call ?sel" using calls by (simp add: list_all_iff)
    show "map_of ix (fst (snd c)) \<noteq> None" if "c \<in> set ?sel" for c
      using layer_key_index_map_lookup [OF ix, of "fst (snd c)"] that by auto
  qed
  then show ?thesis
    by (auto simp: list_all_iff s hist good_count_def set_sorted_counts_tally)
qed

text \<open>The layers of a hot set are the layers of the accesses when every row routes an expert.\<close>

lemma accesses_layers: "list_all good_row rows \<Longrightarrow> fst ` set (accesses rows) = (fst \<circ> snd) ` set rows"
proof
  assume g: "list_all good_row rows"
  show "(fst \<circ> snd) ` set rows \<subseteq> fst ` set (accesses rows)"
  proof
    fix l
    assume "l \<in> (fst \<circ> snd) ` set rows"
    then obtain tok es where r: "(tok, l, es) \<in> set rows" by auto
    then obtain e where "e \<in> set es" using g by (cases es) (auto simp: list_all_iff good_row_def)
    with r show "l \<in> fst ` set (accesses rows)" by (force simp: accesses_def)
  qed
qed (use layer_in_rows in blast)

lemma select_from_summary:
  assumes "list_all good_row rows"
  shows "select_hot_set_from_counts (canonical_summary rows) slots = select_hot_set rows slots"
proof (cases "select_hot_set rows slots")
  case (Inl e)
  then show ?thesis by (simp add: select_hot_set_from_counts_summary)
next
  case (Inr hot)
  then have "fst ` set hot = (fst \<circ> snd) ` set rows"
    by (force simp: select_hot_set_def split: if_splits)
  then have "filter (\<lambda>kv. fst kv \<in> fst ` set (accesses rows)) hot = hot"
    using accesses_layers [OF assms] by (intro filter_True) blast
  then show ?thesis by (simp add: select_hot_set_from_counts_summary Inr)
qed

end
