(* ===== verification/Census_Plateau.thy ===== *)
theory Census_Plateau
  imports Census_Facts
begin

text \<open>
  Rounds to plateau: the prefixes the instrument measures and the reference reading of its
  report. For the default window of two the state machine of \<open>rounds_to_plateau\<close> returns the
  first prefix whose hot set and coverage the next prefix keeps; for a wider window it returns
  the last but one prefix of the run, not its first.
\<close>

subsection \<open>The prefixes\<close>

lemma doublings_bounds: "x \<in> set (doublings k n) \<Longrightarrow> k \<le> x \<and> x < n"
proof (induction k n rule: doublings.induct)
  case (1 k n)
  show ?case
  proof (cases "0 < k \<and> k < n")
    case True
    with "1.prems" have "x = k \<or> x \<in> set (doublings (2 * k) n)"
      by (simp add: doublings.simps [of k n])
    with True "1.IH" [OF True] show ?thesis by auto
  next
    case False
    with "1.prems" show ?thesis by (simp add: doublings.simps [of k n])
  qed
qed

lemma doublings_increasing: "sorted_wrt (<) (doublings k n)"
proof (induction k n rule: doublings.induct)
  case (1 k n)
  show ?case
  proof (cases "0 < k \<and> k < n")
    case True
    then have "k < x" if "x \<in> set (doublings (2 * k) n)" for x
      using doublings_bounds [OF that] by simp
    with True "1.IH" [OF True] show ?thesis by (simp add: doublings.simps [of k n])
  next
    case False
    then have "doublings k n = []" by (subst doublings.simps) auto
    then show ?thesis by simp
  qed
qed

lemma take_py_sublist: "set (take_py m xs) \<subseteq> set xs"
  by (auto simp: take_py_def dest: in_set_takeD)

text \<open>
  The prefix lengths grow strictly, stay within the trace and end with the whole trace,
  whatever bound is put on their number.
\<close>

lemma prefix_lengths_facts:
  assumes "0 < n"
  shows "sorted_wrt (<) (prefix_lengths n m)" and "prefix_lengths n m \<noteq> []"
    and "last (prefix_lengths n m) = n" and "list_all (\<lambda>x. 0 < x \<and> x \<le> n) (prefix_lengths n m)"
proof -
  let ?all = "doublings 1 n @ [n]"
  have all: "sorted_wrt (<) ?all" "list_all (\<lambda>x. 0 < x \<and> x \<le> n) ?all"
    using doublings_bounds [of _ 1 n] assms
    by (auto simp: sorted_wrt_append doublings_increasing list_all_iff intro: less_imp_le Suc_le_lessD)
  have "sorted_wrt (<) (prefix_lengths n m) \<and> prefix_lengths n m \<noteq> [] \<and> last (prefix_lengths n m) = n
      \<and> list_all (\<lambda>x. 0 < x \<and> x \<le> n) (prefix_lengths n m)"
  proof (cases m)
    case None
    with all show ?thesis by (simp add: prefix_lengths_def)
  next
    case (Some b)
    let ?k = "sort (remdups (take_py b ?all @ [n]))"
    have "set ?k \<subseteq> set ?all" using take_py_sublist [of b ?all] by auto
    then have in_range: "x \<in> set ?k \<Longrightarrow> 0 < x \<and> x \<le> n" for x
      using all(2) by (auto simp: list_all_iff)
    then have k: "prefix_lengths n m = ?k"
      by (simp add: Some prefix_lengths_def filter_id_conv)
    have ne: "?k \<noteq> []" by simp
    have "n \<in> set ?k" by simp
    then have "n \<le> last ?k" by (intro sorted_le_last) simp_all
    moreover have "last ?k \<le> n" using in_range last_in_set [OF ne] by blast
    ultimately have last: "last ?k = n" by simp
    have "sorted_wrt (<) ?k" by (simp add: strict_sorted_iff)
    with last ne in_range show ?thesis unfolding k by (simp add: list_all_iff)
  qed
  then show "sorted_wrt (<) (prefix_lengths n m)" and "prefix_lengths n m \<noteq> []"
    and "last (prefix_lengths n m) = n" and "list_all (\<lambda>x. 0 < x \<and> x \<le> n) (prefix_lengths n m)"
    by blast+
qed

lemma token_prefixes_lengths:
  "map length (token_prefixes tokens m)
     = (if tokens = [] then [] else prefix_lengths (card (set tokens)) m)"
proof (cases "tokens = []")
  case True
  then show ?thesis by (simp add: token_prefixes_def)
next
  case False
  then have n: "0 < card (set tokens)" by (simp add: card_gt_0_iff)
  have len: "length (sort (remdups tokens)) = card (set tokens)"
    by (simp add: length_remdups_card_conv)
  have "map length (token_prefixes tokens m)
      = map (\<lambda>L. min (card (set tokens)) L) (prefix_lengths (card (set tokens)) m)"
    using False n len by (simp add: token_prefixes_def Let_def comp_def length_remdups_card_conv min.commute)
  also have "\<dots> = prefix_lengths (card (set tokens)) m"
    using prefix_lengths_facts(4) [OF n, of m] by (intro map_idI) (simp add: list_all_iff)
  finally show ?thesis using False by simp
qed

subsection \<open>The reference report\<close>

text \<open>The hot set and coverage of one prefix.\<close>

definition prefix_census :: "trace_row list \<Rightarrow> nat \<Rightarrow> int list \<Rightarrow> nat \<times> hot_set \<times> rat" where
  "prefix_census rows slots toks =
     (let sub = filter (\<lambda>r. fst r \<in> set toks) rows;
          hot = value_or [] (select_hot_set sub (int slots))
      in (length toks, hot, hot_coverage sub hot))"

definition steady :: "rat \<Rightarrow> nat \<times> hot_set \<times> rat \<Rightarrow> nat \<times> hot_set \<times> rat \<Rightarrow> bool" where
  "steady eps p q = (dict_eq (fst (snd q)) (fst (snd p)) \<and> \<bar>f64 (snd (snd q) - snd (snd p))\<bar> < eps)"

fun first_steady :: "rat \<Rightarrow> (nat \<times> hot_set \<times> rat) list \<Rightarrow> nat option" where
  "first_steady eps (p # q # ps) = (if steady eps p q then Some (fst p) else first_steady eps (q # ps))"
| "first_steady eps ps = None"

text \<open>The loop, with the census of each prefix computed beforehand.\<close>

fun plateau_run :: "int \<Rightarrow> rat \<Rightarrow> (nat \<times> hot_set \<times> rat) list \<Rightarrow> plateau_state \<Rightarrow> plateau_state" where
  "plateau_run win eps [] st = st"
| "plateau_run win eps ((n, hot, cov) # ps) st = plateau_run win eps ps (plateau_step win eps n hot cov st)"

lemma plateau_loop_run:
  "plateau_loop rows (int slots) win eps prefixes st
     = Inr (plateau_run win eps (map (prefix_census rows slots) prefixes) st)"
  by (induction prefixes arbitrary: st)
     (simp_all add: prefix_census_def Let_def select_hot_set_def)

lemma plateau_run_series:
  "length (ps_series (plateau_run win eps ps st)) = length (ps_series st) + length ps"
  "map pp_tokens (ps_series (plateau_run win eps ps st)) = map pp_tokens (ps_series st) @ map fst ps"
  by (induction ps arbitrary: st) (auto simp: plateau_step_def Let_def)

lemma plateau_found_stays:
  "ps_plateau_at st = Some t \<Longrightarrow> ps_plateau_at (plateau_run win eps ps st) = Some t"
  by (induction ps arbitrary: st) (auto simp: plateau_step_def Let_def)

text \<open>The state before the next prefix, when the last prefix seen was \<open>p\<close>.\<close>

definition looking :: "nat \<times> hot_set \<times> rat \<Rightarrow> plateau_state \<Rightarrow> bool" where
  "looking p st = (ps_plateau_at st = None \<and> ps_prev st = Some (snd p) \<and> ps_stable st = 0
     \<and> ps_series st \<noteq> [] \<and> pp_tokens (last (ps_series st)) = fst p)"

lemma plateau_step_looking:
  assumes "looking p st"
  shows "if steady eps p (n, hot, cov)
         then ps_plateau_at (plateau_step 2 eps n hot cov st) = Some (fst p)
         else looking (n, hot, cov) (plateau_step 2 eps n hot cov st)"
proof -
  obtain m h c where p: "p = (m, h, c)" by (cases p)
  have ne: "ps_series st \<noteq> []" using assms by (simp add: looking_def)
  then have "(ps_series st @ [x]) ! (length (ps_series st @ [x]) - 2) = last (ps_series st)" for x
    by (cases "ps_series st" rule: rev_cases) (simp_all add: nth_append)
  with assms ne show ?thesis
    by (auto simp: looking_def plateau_step_def Let_def steady_def p Suc_le_eq nth_append last_conv_nth)
qed

lemma plateau_run_looking:
  "looking p st \<Longrightarrow> ps_plateau_at (plateau_run 2 eps ps st) = first_steady eps (p # ps)"
proof (induction ps arbitrary: p st)
  case Nil
  then show ?case by (simp add: looking_def)
next
  case (Cons q ps)
  obtain n hot cov where q: "q = (n, hot, cov)" by (cases q)
  show ?case
    using plateau_step_looking [OF Cons.prems, of eps n hot cov] Cons.IH plateau_found_stays
    by (auto simp: q split: if_splits)
qed

lemma plateau_run_first:
  "ps_plateau_at (plateau_run 2 eps ps plateau_init) = first_steady eps ps"
proof (cases ps)
  case Nil
  then show ?thesis by (simp add: plateau_init_def)
next
  case (Cons p qs)
  obtain n hot cov where p: "p = (n, hot, cov)" by (cases p)
  have "looking p (plateau_step 2 eps n hot cov plateau_init)"
    by (simp add: looking_def plateau_step_def plateau_init_def p)
  from plateau_run_looking [OF this] show ?thesis by (simp add: Cons p)
qed

lemma rounds_to_plateau_first:
  assumes "rounds_to_plateau rows (int slots) 2 eps m = Inr rep"
  shows "pr_rounds rep = first_steady eps (map (prefix_census rows slots) (token_prefixes (map fst rows) m))"
    and "map pp_tokens (pr_series rep) = pr_prefix_tokens rep"
    and "pr_prefix_tokens rep = map length (token_prefixes (map fst rows) m)"
proof -
  have "map (fst \<circ> prefix_census rows slots) ps = map length ps" for ps
    by (simp add: prefix_census_def Let_def)
  with assms show "pr_rounds rep = first_steady eps (map (prefix_census rows slots) (token_prefixes (map fst rows) m))"
    and "map pp_tokens (pr_series rep) = pr_prefix_tokens rep"
    and "pr_prefix_tokens rep = map length (token_prefixes (map fst rows) m)"
    by (auto simp: rounds_to_plateau_def Let_def plateau_loop_run plateau_run_first plateau_run_series
        split: if_splits) (simp_all add: plateau_init_def)
qed

end
