(* ===== verification/Census_Properties.thy ===== *)
theory Census_Properties
  imports Census_Commands Census_Plateau
begin

text \<open>
  The properties of the census instrument, over the lemmas of the other census theories.
\<close>

subsection \<open>The subcommands compose\<close>

text \<open>
  C1. The two routes from a decode-only call trace to a hot-set seed agree. One route converts
  the call trace to format v1 (refusing batched calls) and selects from that trace; the other
  writes the aggregate census of the same calls and selects from the census file. Whenever both
  files are written and no \<open>--layer-keys\<close> map names a negative decoder index, \<open>select\<close> gives the
  same seed text, or the same refusal, from either.
\<close>

theorem census_routes_agree:
  assumes v1: "cmd_from_call_trace ct pf lk False from = Inr trace_file"
    and census: "cmd_census_from_call_trace ct pf lk from None = Inr census_file"
    and idx: "nonneg_indices lk"
  shows "cmd_select None (Some trace_file) slots lks = cmd_select (Some census_file) None slots lks"
proof -
  obtain calls m rows rep where
    calls: "parse_call_trace ct True = Inr calls" and m: "read_layer_keys lk = Inr m" and
    rows: "call_trace_to_v1 calls m False from = Inr (rows, rep)" and
    trace_file: "trace_file = v1_text (v1_provenance (read_provenance_file pf) rep) rows"
    using v1 by (rule cmd_from_call_trace_elim)
  obtain s meta where s: "census_from_call_trace calls m from None = Inr (s, meta)"
    and census_file: "census_file = census_text (read_provenance_file pf) meta s"
    using census by (rule cmd_census_from_call_trace_elim) (use calls m in auto)
  have good: "list_all good_call calls" by (rule parse_call_trace_good [OF calls])
  have good_rows: "list_all good_row rows" by (rule call_trace_to_v1_good [OF rows good m idx])
  have good_s: "list_all good_count s" by (rule census_from_call_trace_good [OF s good m idx])
  have "\<exists>c \<in> set calls. from \<le> fst c"
    using s by (auto simp: census_from_call_trace_def check_range_def in_range_def Let_def filter_empty_conv
        split: if_splits)
  from call_trace_to_v1_census [OF rows this] have sum: "s = canonical_summary rows" using s by auto
  have "parse_trace trace_file True = Inr rows"
    unfolding trace_file by (intro v1_text_parse v1_provenance_plain read_provenance_file_plain good_rows)
  moreover have "read_census_summary census_file = Inr s"
    unfolding census_file by (intro census_text_read read_provenance_file_plain good_s)
  ultimately show ?thesis by (simp add: cmd_select_def sum select_from_summary [OF good_rows])
qed

definition demo_calls :: string where
  "demo_calls = ''0 7 2 3 1'' @ [LF] @ ''1 9 2 3 4'' @ [LF]"

definition demo_prov :: string where
  "demo_prov = ''artifact=a card=b'' @ [LF]"

definition demo_trace :: string where
  "demo_trace = value_or [] (cmd_from_call_trace demo_calls demo_prov None False 0)"

definition demo_census :: string where
  "demo_census = value_or [] (cmd_census_from_call_trace demo_calls demo_prov None 0 None)"

lemma demo_trace_ok: "cmd_from_call_trace demo_calls demo_prov None False 0 = Inr demo_trace"
  by code_simp

lemma demo_census_ok: "cmd_census_from_call_trace demo_calls demo_prov None 0 None = Inr demo_census"
  by code_simp

theorem census_routes_agree_witness:
  "cmd_select None (Some demo_trace) 1 None = cmd_select (Some demo_census) None 1 None"
  by (rule census_routes_agree [OF demo_trace_ok demo_census_ok]) (simp add: nonneg_indices_def)

text \<open>
  C3. \<open>from-call-trace\<close> writes a format-v1 file whose rows are in strictly ascending (token, layer)
  order, no layer twice within a token, however the header was supplied; a selected call is a row or is
  counted as skipped. \<open>parse_trace\<close> reads the file back as exactly these rows unless one of
  them has a negative layer, which only an explicit \<open>--layer-keys\<close> map with a negative index can
  give; then it refuses the file as having a negative field.
\<close>

theorem from_call_trace_readable:
  assumes "cmd_from_call_trace ct pf lk skip from = Inr out"
  shows "\<exists>calls m rows rep. parse_call_trace ct True = Inr calls \<and> read_layer_keys lk = Inr m
    \<and> call_trace_to_v1 calls m skip from = Inr (rows, rep)
    \<and> sorted_wrt (<) (map row_key rows)
    \<and> length rows + vr_batched_calls_skipped rep = length (filter (\<lambda>c. from \<le> fst c) calls)
    \<and> (if \<exists>r \<in> set rows. fst (snd r) < 0 then \<not> nonneg_indices lk \<and> (\<exists>n. parse_trace out True = Inl (NegativeField n))
       else parse_trace out True = Inr rows)"
  using assms
proof (rule cmd_from_call_trace_elim)
  fix calls m rows rep
  assume calls: "parse_call_trace ct True = Inr calls" and m: "read_layer_keys lk = Inr m"
    and rows: "call_trace_to_v1 calls m skip from = Inr (rows, rep)"
    and out: "out = v1_text (v1_provenance (read_provenance_file pf) rep) rows"
  note good = parse_call_trace_good [OF calls]
  have any: "list_all (row_over (\<lambda>_. True)) rows"
    by (rule call_trace_to_v1_rows [OF rows good]) (simp add: list_all_iff)
  have "list_all plain_pair (v1_provenance (read_provenance_file pf) rep)"
    by (intro v1_provenance_plain read_provenance_file_plain)
  note parse = v1_text_parse [OF this, of rows True, folded out]
  have "if \<exists>r \<in> set rows. fst (snd r) < 0 then \<not> nonneg_indices lk \<and> (\<exists>n. parse_trace out True = Inl (NegativeField n))
     else parse_trace out True = Inr rows"
  proof (cases "\<exists>r \<in> set rows. fst (snd r) < 0")
    case True
    with call_trace_to_v1_good [OF rows good m] have "\<not> nonneg_indices lk"
      by (force simp: list_all_iff good_row_over)
    with True parse(2) [OF any True] show ?thesis by simp
  next
    case False
    with any have "list_all good_row rows" by (auto simp: list_all_iff good_row_over)
    with False parse(1) show ?thesis by auto
  qed
  moreover have "vr_calls_selected rep = length (filter (\<lambda>c. from \<le> fst c) calls)"
    using rows by (rule call_trace_to_v1_elim)
  ultimately show ?thesis
    using calls m rows call_trace_to_v1_sorted [OF rows] call_trace_to_v1_counts [OF rows] by auto
qed

theorem from_call_trace_readable_witness:
  "\<exists>calls m rows rep. parse_call_trace demo_calls True = Inr calls \<and> read_layer_keys None = Inr m
    \<and> call_trace_to_v1 calls m False 0 = Inr (rows, rep)
    \<and> parse_trace demo_trace True = Inr rows \<and> sorted_wrt (<) (map row_key rows)
    \<and> length rows + vr_batched_calls_skipped rep = length (filter (\<lambda>c. 0 \<le> fst c) calls)"
  using from_call_trace_readable [OF demo_trace_ok] by (auto simp: nonneg_indices_def split: if_splits)

text \<open>
  The census file \<open>census-from-call-trace\<close> writes is read back as exactly the census it
  was written from: no header line, whatever the provenance file held, is taken for a row, and
  the total trailer agrees with the counts.
\<close>

theorem census_file_roundtrip:
  assumes "cmd_census_from_call_trace ct pf lk from to = Inr out" and "nonneg_indices lk"
  shows "\<exists>calls m s meta. parse_call_trace ct True = Inr calls \<and> read_layer_keys lk = Inr m
    \<and> census_from_call_trace calls m from to = Inr (s, meta) \<and> read_census_summary out = Inr s"
  using assms(1)
proof (rule cmd_census_from_call_trace_elim)
  fix calls m s meta
  assume calls: "parse_call_trace ct True = Inr calls" and m: "read_layer_keys lk = Inr m"
    and s: "census_from_call_trace calls m from to = Inr (s, meta)"
    and out: "out = census_text (read_provenance_file pf) meta s"
  have "list_all good_count s"
    by (rule census_from_call_trace_good [OF s parse_call_trace_good [OF calls] m assms(2)])
  then have "read_census_summary out = Inr s"
    unfolding out by (intro census_text_read read_provenance_file_plain)
  with calls m s show ?thesis by blast
qed

theorem census_file_roundtrip_witness:
  "\<exists>calls m s meta. parse_call_trace demo_calls True = Inr calls \<and> read_layer_keys None = Inr m
    \<and> census_from_call_trace calls m 0 None = Inr (s, meta) \<and> read_census_summary demo_census = Inr s"
  by (rule census_file_roundtrip [OF demo_census_ok]) (simp add: nonneg_indices_def)

text \<open>
  \<open>summary\<close> on a trace file writes a census file that is read back as the canonical
  summary of the trace, for every trace the parser accepts and every header it carries.
\<close>

theorem summary_file_roundtrip:
  assumes "cmd_summary trace = Inr out"
  shows "\<exists>rows. parse_trace trace True = Inr rows \<and> read_census_summary out = Inr (canonical_summary rows)"
proof -
  obtain rows where rows: "parse_trace trace True = Inr rows"
    and out: "out = write_summary rows (read_provenance trace)"
    using assms by (auto simp: cmd_summary_def res_simps)
  have "list_all good_count (canonical_summary rows)"
    by (rule canonical_summary_good [OF parse_trace_good [OF rows]])
  then have "read_census_summary out = Inr (canonical_summary rows)"
    unfolding out by (intro write_summary_read read_provenance_plain)
  with rows show ?thesis by blast
qed

theorem summary_file_roundtrip_witness:
  "\<exists>rows. parse_trace ''0 3 1'' True = Inr rows
     \<and> read_census_summary (''layer,expert,count'' @ [LF] @ ''3,1,1'' @ [LF] @ ''# total,1'' @ [LF])
       = Inr (canonical_summary rows)"
  by (rule summary_file_roundtrip) code_simp

subsection \<open>Traces and summaries\<close>

text \<open>
  What \<open>write_router_trace\<close> writes, \<open>parse_trace\<close> reads back: the routed ids of every
  token and layer, sorted, token by token.
\<close>

theorem router_trace_roundtrip:
  assumes "list_all plain_pair prov"
    and "list_all (\<lambda>(lay, idss). 0 \<le> lay \<and> list_all (\<lambda>ids. ids \<noteq> [] \<and> list_all (\<lambda>e. 0 \<le> e) ids) idss) by_layer"
  shows "parse_trace (write_router_trace by_layer n prov) strict = Inr (router_rows by_layer n)"
proof -
  have "good_row r" if r: "r \<in> set (router_rows by_layer n)" for r
  proof -
    from r obtain tok lay where lay: "lay \<in> fst ` set by_layer"
      and tok: "tok < length (dict_get by_layer lay [])"
      and row: "r = (int tok, lay, sort (dict_get by_layer lay [] ! tok))"
      by (auto simp: router_rows_def Let_def not_le split: if_splits)
    from lay obtain idss where "map_of by_layer lay = Some idss"
      by (metis map_of_eq_None_iff not_None_eq)
    then have idss: "dict_get by_layer lay [] = idss" "(lay, idss) \<in> set by_layer"
      by (auto simp: dict_get_def dest: map_of_SomeD)
    moreover have "idss ! tok \<in> set idss" using tok idss(1) by simp
    ultimately show ?thesis using assms(2) row by (auto simp: list_all_iff good_row_def)
  qed
  then have "list_all good_row (router_rows by_layer n)" by (simp add: list_all_iff)
  then have "parse_trace (v1_text prov (router_rows by_layer n)) strict = Inr (router_rows by_layer n)"
    by (rule v1_text_parse [OF assms(1)])
  then show ?thesis by (simp add: v1_text_def write_router_trace_def)
qed

theorem router_trace_roundtrip_witness:
  "parse_trace (write_router_trace [(4, [[2, 1], [5, 0]]), (1, [[3, 3]])] 2 [(''card'', ''b60'')]) True
     = Inr (router_rows [(4, [[2, 1], [5, 0]]), (1, [[3, 3]])] 2)"
  by (rule router_trace_roundtrip) (simp_all add: plain_pair_def one_line_chars)

text \<open>
  The canonical summary is exact: its (layer, expert) keys are the distinct routed pairs in
  ascending order, each with its number of occurrences, and the counts add up to the number of
  routed accesses.
\<close>

theorem canonical_summary_exact:
  shows "map (\<lambda>r. (fst r, fst (snd r))) (canonical_summary rows) = sorted_list_of_set (set (accesses rows))
    \<and> list_all (\<lambda>r. snd (snd r) = int (count_list (accesses rows) (fst r, fst (snd r)))) (canonical_summary rows)
    \<and> sum_list (map (snd \<circ> snd) (canonical_summary rows)) = int (sh_accesses (trace_shape rows))"
proof (intro conjI)
  show "map (\<lambda>r. (fst r, fst (snd r))) (canonical_summary rows) = sorted_list_of_set (set (accesses rows))"
    by (simp add: canonical_summary_def sorted_counts_keys sorted_list_of_set_sort_remdups [symmetric])
       (metis distinct_tally keys_tally set_map sorted_list_of_set_sort_remdups distinct_remdups_id)
  show "list_all (\<lambda>r. snd (snd r) = int (count_list (accesses rows) (fst r, fst (snd r)))) (canonical_summary rows)"
    by (auto simp: list_all_iff canonical_summary_def set_sorted_counts_tally)
  have "length (accesses rows) = sh_accesses (trace_shape rows)"
    by (simp add: accesses_def trace_shape_def Let_def length_concat comp_def case_prod_unfold)
  then show "sum_list (map (snd \<circ> snd) (canonical_summary rows)) = int (sh_accesses (trace_shape rows))"
    by (simp only: canonical_summary_def sum_sorted_counts_tally)
qed

subsection \<open>Hot sets\<close>

text \<open>
  C2. The frequency-ranked hot set is a best one: no assignment of at most as many experts to
  each layer covers a larger share of the trace's accesses, in the double-precision rate the
  instrument reports; and the hot set itself keeps to the budget and only holds experts the
  trace routed.
\<close>

theorem hot_set_best:
  assumes hot: "select_hot_set rows slots = Inr hot"
    and other: "\<And>l. card (set (dict_get other l [])) \<le> nat slots"
  shows "hot_coverage rows other \<le> hot_coverage rows hot
    \<and> (\<forall>l. card (set (dict_get hot l [])) \<le> nat slots
          \<and> Pair l ` set (dict_get hot l []) \<subseteq> set (accesses rows))"
  using hot_coverage_best [OF hot other]
    hot.residents_card [of rows "nat slots", unfolded select_hot_set_value [OF hot]]
    hot.residents_routed [of _ rows "nat slots", unfolded select_hot_set_value [OF hot]]
  by blast

definition demo_rows :: "trace_row list" where
  "demo_rows = [(0, 3, [1, 2]), (1, 3, [2, 5])]"

theorem hot_set_best_witness:
  "hot_coverage demo_rows [(3, [5])] \<le> hot_coverage demo_rows [(3, [2])]
    \<and> (\<forall>l. card (set (dict_get [(3, [2::int])] l [])) \<le> nat 1
          \<and> Pair l ` set (dict_get [(3, [2])] l []) \<subseteq> set (accesses demo_rows))"
proof (rule hot_set_best [of demo_rows 1])
  show "select_hot_set demo_rows 1 = Inr [(3, [2])]" by code_simp
  show "card (set (dict_get [(3, [5::int])] l [])) \<le> nat 1" for l :: int
    by (simp add: dict_get_def)
qed

subsection \<open>Calls\<close>

text \<open>
  Splitting a call never truncates: it returns consecutive chunks of exactly \<open>top_k\<close> ids
  whose concatenation is the call, and it refuses in exactly the other cases, a non-positive
  \<open>top_k\<close> before a length that is not a positive multiple of it.
\<close>

theorem split_topk_chunks_spec:
  "case split_topk_chunks ids k of
     Inr cs \<Rightarrow> concat cs = ids \<and> (\<forall>c. c \<in> set cs \<longrightarrow> length c = nat k) \<and> cs \<noteq> []
       \<and> int (length cs) * k = int (length ids) \<and> 0 < k
   | Inl e \<Rightarrow> e = (if k \<le> 0 then TopKNotPositive else NotAMultipleOfTopK)
       \<and> (k \<le> 0 \<or> ids = [] \<or> \<not> k dvd int (length ids))"
proof (cases "split_topk_chunks ids k")
  case (Inl e)
  then show ?thesis by (auto simp: split_topk_chunks_def dvd_eq_mod_eq_0 split: if_splits)
next
  case (Inr cs)
  then have k: "0 < k" "nat k dvd length ids" by (simp_all add: split_topk_chunks_Inr_iff)
  then have "int (length ids div nat k) * int (nat k) = int (length ids)"
    by (metis dvd_div_mult_self of_nat_mult)
  with k Inr split_topk_chunks_facts [OF Inr] show ?thesis by auto
qed

theorem split_topk_chunks_spec_witness:
  "concat [[4, 1], [2, 4::int]] = [4, 1, 2, 4] \<and> split_topk_chunks [4, 1, 2, 4] 2 = Inr [[4, 1], [2, 4]]"
proof -
  have "split_topk_chunks [4, 1, 2, 4] 2 = Inr [[4, 1], [2, 4]]" by code_simp
  with split_topk_chunks_spec [where ids = "[4, 1, 2, 4]" and k = 2] show ?thesis by simp
qed

text \<open>
  C4. The aggregate census of a range of calls counts every routed id of every call in the
  range: the counts add up to the ids of the selected calls, and the report's calls, decode
  calls and batched calls add up too.
\<close>

theorem census_counts_every_id:
  assumes "census_from_call_trace calls m from to = Inr (s, meta)"
  shows "sum_list (map (snd \<circ> snd) s) = int (cm_accesses meta)
    \<and> cm_accesses meta = sum_list (map (\<lambda>c. if in_range from to (fst c) then length (snd (snd (snd c))) else 0) calls)
    \<and> cm_calls_selected meta = cm_batched_calls meta + cm_decode_calls meta
    \<and> cm_calls_selected meta = length (filter (\<lambda>c. in_range from to (fst c)) calls)"
proof -
  let ?sel = "filter (\<lambda>c. in_range from to (fst c)) calls"
  obtain ix st where st: "census_loop ix ?sel census_init = Inr st" and s: "s = sorted_counts (cs_hist st)"
    and meta: "cm_accesses meta = cs_accesses st" "cm_calls_selected meta = cs_selected st"
      "cm_batched_calls meta = cs_batched st" "cm_decode_calls meta = cs_decode st"
    using assms by (auto simp: census_from_call_trace_def res_simps Let_def split: if_splits)
  have acc: "sum_list (map (\<lambda>c. length (snd (snd (snd c)))) ?sel) = length (call_accesses ix ?sel)"
    by (simp add: call_accesses_def length_concat comp_def case_prod_unfold)
  have "sum_list (map (\<lambda>c. if in_range from to (fst c) then length (snd (snd (snd c))) else 0) calls)
      = sum_list (map (\<lambda>c. length (snd (snd (snd c)))) ?sel)"
    by (simp add: sum_list_map_filter')
  with acc census_loop_counts [OF st] census_loop_hist [OF st] show ?thesis
    by (simp add: s meta census_init_def sum_sorted_counts_tally)
qed

theorem census_counts_every_id_witness:
  "\<exists>s meta. census_from_call_trace [(0, 7, 2, [3, 1]), (5, 7, 2, [1, 1, 2, 3])] None 0 None = Inr (s, meta)
    \<and> sum_list (map (snd \<circ> snd) s) = int (cm_accesses meta) \<and> cm_accesses meta = 6"
proof -
  let ?calls = "[(0, 7, 2, [3, 1]), (5, 7, 2, [1, 1, 2, 3])] :: call_row list"
  have "is_ok (census_from_call_trace ?calls None 0 None)" by code_simp
  then obtain s meta where c: "census_from_call_trace ?calls None 0 None = Inr (s, meta)"
    by (auto simp: is_ok_iff)
  from census_counts_every_id [OF c] c show ?thesis by (auto simp: in_range_def)
qed

text \<open>
  The cross-check against the plugin's dump reports a key exactly when the two counts
  differ: an empty report says that, for every (layer key, expert), the plugin's counts summed
  over its rows equal the number of times the selected calls routed that expert.
\<close>

theorem join_call_trace_exact:
  assumes "join_plugin_to_call_trace calls plugin_rows from to = Inr (plugin, trace, ms)"
  shows "(k, p, t) \<in> set ms \<longleftrightarrow>
      p = sum_list (map (\<lambda>(lay, off, e, c). if off = fst k \<and> e = snd k then c else 0) plugin_rows)
      \<and> t = int (count_list (concat (map (\<lambda>(seq, lk, tk, ids).
            if in_range from to seq then map (Pair lk) ids else []) calls)) k)
      \<and> p \<noteq> t"
proof -
  obtain off e where k: "k = (off, e)" by (cases k)
  have "plugin = plugin_counts plugin_rows" "ms = mismatches plugin trace"
    "trace = tally (concat (map (\<lambda>(seq, lk, tk, ids). if in_range from to seq then map (Pair lk) ids else []) calls))"
    using assms by (auto simp: join_plugin_to_call_trace_def res_simps Let_def)
  then show ?thesis by (simp add: mismatches_iff dict_simps dict_get_plugin_counts k)
qed

theorem join_call_trace_exact_witness:
  "\<exists>plugin trace ms. join_plugin_to_call_trace [(0, 7, 2, [3, 1])] [(0, 7, 3, 1), (0, 7, 1, 2)] 0 None
       = Inr (plugin, trace, ms) \<and> ((7, 1), 2, 1) \<in> set ms"
proof -
  let ?j = "join_plugin_to_call_trace [(0, 7, 2, [3, 1])] [(0, 7, 3, 1), (0, 7, 1, 2)] 0 None"
  have "is_ok ?j" by code_simp
  then obtain plugin trace ms where j: "?j = Inr (plugin, trace, ms)" by (auto simp: is_ok_iff)
  from join_call_trace_exact [OF j, of "(7, 1)" 2 1] j show ?thesis by (auto simp: in_range_def)
qed

subsection \<open>Rounds to plateau\<close>

text \<open>
  With the default window of two, the round reported is the token count of the first
  measured prefix whose hot set and coverage the next measured prefix keeps, and there is none
  when no prefix does. The measured prefixes grow strictly and the last one is the whole trace.
\<close>

theorem rounds_to_plateau_window_two:
  assumes "rounds_to_plateau rows (int slots) 2 eps m = Inr rep"
  shows "pr_rounds rep = first_steady eps (map (prefix_census rows slots) (token_prefixes (map fst rows) m))
    \<and> pr_plateau rep = (pr_rounds rep \<noteq> None)
    \<and> map pp_tokens (pr_series rep) = pr_prefix_tokens rep
    \<and> sorted_wrt (<) (pr_prefix_tokens rep)
    \<and> (rows = [] \<or> last (pr_prefix_tokens rep) = sh_tokens (trace_shape rows))"
proof -
  have "pr_prefix_tokens rep = (if rows = [] then [] else prefix_lengths (card (fst ` set rows)) m)"
    using rounds_to_plateau_first(3) [OF assms] by (simp add: token_prefixes_lengths)
  moreover have "rows \<noteq> [] \<Longrightarrow> 0 < card (fst ` set rows)" by (simp add: card_gt_0_iff)
  moreover have "sh_tokens (trace_shape rows) = card (fst ` set rows)"
    by (simp add: trace_shape_def Let_def length_remdups_card_conv)
  moreover have "pr_plateau rep = (pr_rounds rep \<noteq> None)"
    using assms by (auto simp: rounds_to_plateau_def Let_def res_simps split: if_splits)
  ultimately show ?thesis
    using rounds_to_plateau_first(1,2) [OF assms] prefix_lengths_facts(1,3) by auto
qed

definition steady_rows :: "trace_row list" where
  "steady_rows = [(0, 0, [5]), (1, 0, [5]), (2, 0, [5])]"

theorem rounds_to_plateau_window_two_witness:
  "\<exists>rep. rounds_to_plateau steady_rows (int 1) 2 (1 / 1000) None = Inr rep \<and> pr_rounds rep
     = first_steady (1 / 1000) (map (prefix_census steady_rows 1) (token_prefixes (map fst steady_rows) None))"
proof -
  have "is_ok (rounds_to_plateau steady_rows (int 1) 2 (1 / 1000) None)" by code_simp
  then obtain rep where "rounds_to_plateau steady_rows (int 1) 2 (1 / 1000) None = Inr rep"
    unfolding is_ok_iff ..
  with rounds_to_plateau_window_two [OF this] show ?thesis by blast
qed

text \<open>
  With a window of three the round reported is not the first prefix of the stable run. On a
  trace that routes the same expert for every token, the hot set and the coverage never change,
  so the run starts at the first prefix (one token); the instrument reports two tokens.
\<close>

theorem wider_window_reports_late:
  "map_option pr_rounds (case rounds_to_plateau steady_rows 1 3 (1 / 1000) None of Inl e \<Rightarrow> None | Inr r \<Rightarrow> Some r)
     = Some (Some 2)
   \<and> first_steady (1 / 1000) (map (prefix_census steady_rows 1) (token_prefixes (map fst steady_rows) None)) = Some 1"
  by (intro conjI) code_simp+

end
