(* ===== verification/Lru_Replay.thy ===== *)
theory Lru_Replay
  imports Census_Facts
begin

text \<open>
  The offline residency replay, \<open>tools/expert_lru_replay.py\<close>: the trace loader, the slot
  budgets, the global and the per-layer LRU replay, cross-token reuse, the report and the
  pinned check.

  An \<open>OrderedDict\<close> used as an LRU table is the list of its keys, least recently used first:
  \<open>move_to_end\<close> moves a key to the end, \<open>popitem(last=False)\<close> drops the head. The locale
  \<open>lru_cache\<close> states what one access to such a table does; the LRU comparands of the other
  tools are interpretations of it, so that the closed form of the hits (an access hits iff its
  key is among the \<open>cap\<close> most recently used ones) is proved once.
\<close>

subsection \<open>The program\<close>

definition GIB :: int where "GIB = 2 ^ 30"
definition SLICE_BYTES :: int where "SLICE_BYTES = 2457600"
definition N_LAYERS :: int where "N_LAYERS = 48"
definition N_EXPERTS :: int where "N_EXPERTS = 512"

definition load_trace_row :: "nat \<Rightarrow> string \<Rightarrow> trace_row option res" where
  "load_trace_row lineno l =
     (let ln = strip l in
      if ln = [] \<or> startswith ln ''#'' then Inr None
      else case split_ws ln of
        a # b # e # es \<Rightarrow>
          (case (py_int a, py_int b, ints (e # es)) of
             (Some tok, Some lay, Some experts) \<Rightarrow> Inr (Some (tok, lay, experts))
           | _ \<Rightarrow> Inl ValueErrorInt)
      | _ \<Rightarrow> Inr None)"

definition load_trace :: "string \<Rightarrow> trace_row list res" where
  "load_trace text = scan_lines load_trace_row 1 (file_lines text)"

text \<open>
  The budget is a float on the command line; its product with a power of two is exact, and the
  quotient is floored.
\<close>

definition global_slots_for_gib :: "rat \<Rightarrow> int \<Rightarrow> int" where
  "global_slots_for_gib gib slice_bytes = \<lfloor>gib * of_int GIB / of_int slice_bytes\<rfloor>"

definition slots_per_layer_for_gib :: "rat \<Rightarrow> int \<Rightarrow> int \<Rightarrow> int" where
  "slots_per_layer_for_gib gib slice_bytes n_layers
     = \<lfloor>gib * of_int GIB / of_int slice_bytes\<rfloor> div n_layers"

text \<open>One access: \<open>if k in lru: hit, move_to_end; else insert, and pop when over capacity\<close>.\<close>

definition lru_touch :: "int \<Rightarrow> 'k \<Rightarrow> 'k list \<Rightarrow> bool \<times> 'k list" where
  "lru_touch cap k lru =
     (if k \<in> set lru then (True, remove1 k lru @ [k])
      else let lru' = lru @ [k] in
        (False, if cap < int (length lru') then tl lru' else lru'))"

fun run_cache :: "('k \<Rightarrow> 'c \<Rightarrow> bool \<times> 'c) \<Rightarrow> 'k list \<Rightarrow> 'c \<times> nat \<times> nat \<Rightarrow> 'c \<times> nat \<times> nat" where
  "run_cache touch [] st = st"
| "run_cache touch (k # ks) (c, hits, acc) =
     (let (hit, c') = touch k c in
      run_cache touch ks (c', if hit then hits + 1 else hits, acc + 1))"

definition replay_global :: "trace_row list \<Rightarrow> int \<Rightarrow> rat" where
  "replay_global rows cap_slices =
     (case run_cache (lru_touch cap_slices) (accesses rows) ([], 0, 0) of (lru, hits, acc) \<Rightarrow> rate hits acc)"

fun run_layers ::
  "(int \<Rightarrow> int list \<Rightarrow> bool \<times> int list) \<Rightarrow> (int \<times> int list) list
     \<Rightarrow> (int, int list) dict \<times> nat \<times> nat \<Rightarrow> (int, int list) dict \<times> nat \<times> nat" where
  "run_layers touch [] st = st"
| "run_layers touch ((lay, experts) # rows) (caches, hits, acc) =
     (let (c, hits', acc') = run_cache touch experts (dict_get caches lay [], hits, acc) in
      run_layers touch rows (AList.update lay c caches, hits', acc'))"

definition replay_per_layer :: "trace_row list \<Rightarrow> int \<Rightarrow> rat" where
  "replay_per_layer rows slots_per_layer =
     (case run_layers (lru_touch slots_per_layer) (map snd rows) ([], 0, 0) of
        (caches, hits, acc) \<Rightarrow> rate hits acc)"

text \<open>
  Cross-token reuse. \<open>by_tok.setdefault(tok, {})[lay] = set(experts)\<close>: the last row of a
  (token, layer) wins.
\<close>

definition experts_by_token :: "trace_row list \<Rightarrow> (int, (int, int list) dict) dict" where
  "experts_by_token rows =
     fold (\<lambda>(tok, lay, experts) d.
       AList.update tok (AList.update lay (remdups experts) (dict_get d tok [])) d) rows []"

definition reuse_counts :: "(int, int list) dict \<Rightarrow> (int, int list) dict \<Rightarrow> nat \<times> nat" where
  "reuse_counts prev cur =
     (sum_list (map (\<lambda>(lay, es). length (filter (\<lambda>e. e \<in> set (dict_get prev lay [])) es)) cur),
      sum_list (map (length \<circ> snd) cur))"

definition cross_token_reuse :: "trace_row list \<Rightarrow> rat" where
  "cross_token_reuse rows =
     (let by_tok = experts_by_token rows;
          toks = sort (map fst by_tok);
          pairs = map (\<lambda>(p, c). reuse_counts (dict_get by_tok p []) (dict_get by_tok c []))
                      (zip toks (tl toks))
      in rate (sum_list (map fst pairs)) (sum_list (map snd pairs)))"

definition percent :: "rat \<Rightarrow> rat" where
  "percent x = f64 (x * 100)"

record replay_report =
  rr_rows :: nat
  rr_tokens :: nat
  rr_layers :: nat
  rr_accesses :: nat
  rr_distinct :: nat
  rr_reuse_pct :: rat
  rr_table :: "(rat \<times> int \<times> rat \<times> rat) list"

text \<open>The numbers \<open>report\<close> prints.\<close>

definition report :: "trace_row list \<Rightarrow> rat list \<Rightarrow> replay_report" where
  "report rows gibs =
     \<lparr>rr_rows = length rows, rr_tokens = length (remdups (map fst rows)),
      rr_layers = length (remdups (map (fst \<circ> snd) rows)),
      rr_accesses = sum_list (map (\<lambda>r. length (snd (snd r))) rows),
      rr_distinct = length (remdups (accesses rows)),
      rr_reuse_pct = percent (cross_token_reuse rows),
      rr_table = map (\<lambda>gib. let spl = slots_per_layer_for_gib gib SLICE_BYTES N_LAYERS in
        (gib, spl, percent (replay_per_layer rows spl),
         percent (replay_global rows (global_slots_for_gib gib SLICE_BYTES)))) gibs\<rparr>"

definition EXPECTED_FULL :: "(rat \<times> rat \<times> rat) list" where
  "EXPECTED_FULL =
     [(16, f64 (881 / 10), f64 (938 / 10)), (24, f64 (944 / 10), f64 (938 / 10)),
      (32, f64 (968 / 10), f64 (950 / 10)), (40, f64 (979 / 10), f64 (977 / 10))]"

definition EXPECTED_REUSE_PCT :: rat where
  "EXPECTED_REUSE_PCT = f64 (363 / 10)"

text \<open>
  \<open>check_full\<close>, as its exit code. The digest of the file and the pinned digest are
  arguments: the tool compares them before it reads a row.
\<close>

definition check_full :: "string \<Rightarrow> string \<Rightarrow> string \<Rightarrow> rat \<Rightarrow> int res" where
  "check_full digest pinned_digest text tol =
     (if digest \<noteq> pinned_digest then Inr 2
      else rbind (load_trace text) (\<lambda>rows.
        let reuse = percent (cross_token_reuse rows);
            far = (\<lambda>x y. tol < \<bar>f64 (x - y)\<bar>);
            reuse_fails = (f64 (2 / 10) < \<bar>f64 (reuse - EXPECTED_REUSE_PCT)\<bar>);
            row_fails = (\<lambda>(gib, exp_pl, exp_gl).
              far (percent (replay_per_layer rows (slots_per_layer_for_gib gib SLICE_BYTES N_LAYERS))) exp_pl
              \<or> far (percent (replay_global rows (global_slots_for_gib gib SLICE_BYTES))) exp_gl)
        in Inr (if reuse_fails \<or> list_ex row_fails EXPECTED_FULL then 1 else 0)))"

subsection \<open>Most recently used keys\<close>

text \<open>\<open>remdups\<close> keeps the last occurrence of each key: it lists the keys by last access.\<close>

definition lastn :: "nat \<Rightarrow> 'a list \<Rightarrow> 'a list" where
  "lastn n xs = drop (length xs - n) xs"

lemma length_lastn [simp]: "length (lastn n xs) = min n (length xs)"
  by (simp add: lastn_def)

lemma set_lastn_subset: "set (lastn n xs) \<subseteq> set xs"
  by (simp add: lastn_def set_drop_subset)

lemma lastn_mono: "m \<le> n \<Longrightarrow> set (lastn m xs) \<subseteq> set (lastn n xs)"
  by (simp add: lastn_def set_drop_subset_set_drop)

lemma distinct_lastn: "distinct xs \<Longrightarrow> distinct (lastn n xs)"
  by (simp add: lastn_def)

lemma lastn_all: "length xs \<le> n \<Longrightarrow> lastn n xs = xs"
  by (simp add: lastn_def)

lemma lastn_append_drop: "\<exists>ys. xs = ys @ lastn n xs"
  unfolding lastn_def by (metis append_take_drop_id)

lemma remdups_snoc: "remdups (ks @ [k]) = removeAll k (remdups ks) @ [k]"
  by (induction ks) auto

lemma lastn_snoc: "0 < n \<Longrightarrow> lastn n (xs @ [x]) = lastn (n - Suc 0) xs @ [x]"
  by (simp add: lastn_def)

lemma lastn_removeAll_in:
  assumes "distinct xs" "x \<in> set (lastn n xs)"
  shows "lastn (n - Suc 0) (removeAll x xs) = remove1 x (lastn n xs)"
proof -
  obtain ys where xs: "xs = ys @ lastn n xs" using lastn_append_drop by blast
  define zs where "zs = lastn n xs"
  have xs: "xs = ys @ zs" and z: "x \<in> set zs" "x \<notin> set ys" "distinct zs"
    using xs assms by (auto simp: zs_def, metis assms(1) distinct_append disjoint_iff)
       (metis assms(1) distinct_append)
  have len: "length zs = n \<or> ys = []"
    using xs zs_def by (metis append_self_conv2 lastn_all length_lastn linorder_linear min.absorb1)
  have "removeAll x xs = ys @ remove1 x zs"
    using z by (simp add: xs removeAll_id distinct_remove1_removeAll)
  moreover have "length (remove1 x zs) = length zs - 1" using z by (simp add: length_remove1)
  moreover have "length zs \<le> n" by (simp add: zs_def)
  ultimately show ?thesis using len z unfolding zs_def [symmetric] by (auto simp: lastn_def)
qed

lemma lastn_removeAll_notin:
  assumes "distinct xs" "x \<notin> set (lastn n xs)"
  shows "lastn (n - Suc 0) (removeAll x xs) = lastn (n - Suc 0) (lastn n xs)"
proof -
  obtain ys where xs: "xs = ys @ lastn n xs" using lastn_append_drop by blast
  define zs where "zs = lastn n xs"
  have xs: "xs = ys @ zs" using xs by (simp add: zs_def)
  have "x \<notin> set zs" using assms(2) by (simp add: zs_def)
  then have "removeAll x xs = removeAll x ys @ zs" by (simp add: xs)
  moreover have "length zs = n \<or> ys = []"
    using xs zs_def by (metis append_self_conv2 lastn_all length_lastn linorder_linear min.absorb1)
  ultimately show ?thesis unfolding zs_def [symmetric] by (auto simp: lastn_def)
qed

subsection \<open>What an LRU table promises\<close>

fun stack_hits :: "nat \<Rightarrow> 'k list \<Rightarrow> 'k list \<Rightarrow> nat" where
  "stack_hits cap ps [] = 0"
| "stack_hits cap ps (k # ks) =
     (if k \<in> set (lastn cap (remdups ps)) then 1 else 0) + stack_hits cap (ps @ [k]) ks"

fun layered_hits :: "nat \<Rightarrow> (int \<Rightarrow> int list) \<Rightarrow> (int \<times> int) list \<Rightarrow> nat" where
  "layered_hits cap hist [] = 0"
| "layered_hits cap hist ((l, e) # acs) =
     (if e \<in> set (lastn cap (remdups (hist l))) then 1 else 0)
     + layered_hits cap (hist(l := hist l @ [e])) acs"

locale lru_cache =
  fixes touch :: "'k \<Rightarrow> 'k list \<Rightarrow> bool \<times> 'k list" and cap :: nat
  assumes touch_hit: "k \<in> set c \<Longrightarrow> touch k c = (True, remove1 k c @ [k])"
    and touch_miss: "k \<notin> set c \<Longrightarrow> distinct c \<Longrightarrow> length c \<le> cap \<Longrightarrow>
        touch k c = (False, lastn cap (c @ [k]))"
begin

lemma touch_recent:
  "touch k (lastn cap (remdups ps))
     = (k \<in> set (lastn cap (remdups ps)), lastn cap (remdups (ps @ [k])))"
proof (cases "k \<in> set (lastn cap (remdups ps))")
  case True
  then have "0 < cap" by (cases cap) (auto simp: lastn_def)
  with True show ?thesis
    by (simp add: touch_hit remdups_snoc lastn_snoc lastn_removeAll_in)
next
  case False
  have "lastn cap (lastn cap (remdups ps) @ [k]) = lastn cap (remdups (ps @ [k]))"
  proof (cases "cap = 0")
    case True
    then show ?thesis by (simp add: lastn_def)
  next
    case cap: False
    then show ?thesis
      using False by (simp add: remdups_snoc lastn_snoc lastn_removeAll_notin)
  qed
  with False show ?thesis by (simp add: touch_miss distinct_lastn)
qed

lemma run_recent:
  "run_cache touch ks (lastn cap (remdups ps), h, a)
     = (lastn cap (remdups (ps @ ks)), h + stack_hits cap ps ks, a + length ks)"
proof (induction ks arbitrary: ps h a)
  case Nil
  then show ?case by simp
next
  case (Cons k ks)
  show ?case using Cons.IH [of "ps @ [k]"] by (simp add: touch_recent)
qed

lemma run_empty:
  "run_cache touch ks ([], h, a) = (lastn cap (remdups ks), h + stack_hits cap [] ks, a + length ks)"
  using run_recent [of ks "[]"] by (simp add: lastn_def)

end

interpretation replay: lru_cache "lru_touch cap" "nat cap" for cap :: int
proof
  fix k :: 'k and c :: "'k list"
  show "k \<in> set c \<Longrightarrow> lru_touch cap k c = (True, remove1 k c @ [k])"
    by (simp add: lru_touch_def)
  assume c: "k \<notin> set c" "distinct c" "length c \<le> nat cap"
  show "lru_touch cap k c = (False, lastn (nat cap) (c @ [k]))"
  proof (cases "cap < int (length c + 1)")
    case True
    with c have "nat cap = length c" by linarith
    with True c show ?thesis by (cases c) (simp_all add: lru_touch_def lastn_def)
  next
    case False
    with c show ?thesis by (simp add: lru_touch_def lastn_def)
  qed
qed

subsection \<open>The closed form of the hits\<close>

lemma stack_hits_mono: "m \<le> n \<Longrightarrow> stack_hits m ps ks \<le> stack_hits n ps ks"
proof (induction ks arbitrary: ps)
  case Nil
  then show ?case by simp
next
  case (Cons k ks)
  have "k \<in> set (lastn m (remdups ps)) \<Longrightarrow> k \<in> set (lastn n (remdups ps))"
    using lastn_mono [OF Cons.prems, of "remdups ps"] by blast
  then show ?case using Cons.IH [OF Cons.prems, of "ps @ [k]"] by (auto intro: add_mono)
qed

text \<open>Every first access misses, and with enough room only first accesses do.\<close>

lemma card_new_Cons:
  "card (insert k (set ks) - P) = (if k \<in> P then 0 else 1) + card (set ks - insert k P)"
proof (cases "k \<in> P")
  case True
  then show ?thesis by (simp add: insert_absorb insert_Diff_if)
next
  case False
  then have "insert k (set ks) - P = insert k (set ks - insert k P)" by auto
  then show ?thesis using False by simp
qed

lemma stack_hits_le: "stack_hits cap ps ks + card (set ks - set ps) \<le> length ks"
proof (induction ks arbitrary: ps)
  case Nil
  then show ?case by simp
next
  case (Cons k ks)
  have "k \<in> set (lastn cap (remdups ps)) \<Longrightarrow> k \<in> set ps"
    using set_lastn_subset [of cap "remdups ps"] by auto
  with Cons.IH [of "ps @ [k]"] show ?case by (simp add: card_new_Cons)
qed

lemma stack_hits_roomy:
  "card (set ps \<union> set ks) \<le> cap \<Longrightarrow> stack_hits cap ps ks + card (set ks - set ps) = length ks"
proof (induction ks arbitrary: ps)
  case Nil
  then show ?case by simp
next
  case (Cons k ks)
  have "length (remdups ps) = card (set ps)" by (simp add: length_remdups_card_conv)
  also have "\<dots> \<le> card (set ps \<union> set (k # ks))" by (intro card_mono) auto
  finally have "lastn cap (remdups ps) = remdups ps" using Cons.prems by (simp add: lastn_all)
  then have "k \<in> set (lastn cap (remdups ps)) \<longleftrightarrow> k \<in> set ps" by simp
  moreover have "set (ps @ [k]) \<union> set ks = set ps \<union> set (k # ks)" by auto
  with Cons.prems have "card (set (ps @ [k]) \<union> set ks) \<le> cap" by metis
  ultimately show ?case using Cons.IH [of "ps @ [k]"] by (simp add: card_new_Cons)
qed

lemma layered_hits_mono: "m \<le> n \<Longrightarrow> layered_hits m hist acs \<le> layered_hits n hist acs"
proof (induction acs arbitrary: hist)
  case Nil
  then show ?case by simp
next
  case (Cons a acs)
  obtain l e where a: "a = (l, e)" by (cases a)
  have "e \<in> set (lastn m (remdups (hist l))) \<Longrightarrow> e \<in> set (lastn n (remdups (hist l)))"
    using lastn_mono [OF Cons.prems, of "remdups (hist l)"] by blast
  then show ?case using Cons.IH [OF Cons.prems] by (auto simp: a intro: le_SucI)
qed

text \<open>The layers do not influence each other.\<close>

definition of_layer :: "int \<Rightarrow> (int \<times> int) list \<Rightarrow> int list" where
  "of_layer l acs = map snd (filter (\<lambda>a. fst a = l) acs)"

lemma layered_hits_split:
  assumes "finite L"
  shows "fst ` set acs \<subseteq> L \<Longrightarrow>
    layered_hits cap hist acs = (\<Sum>l \<in> L. stack_hits cap (hist l) (of_layer l acs))"
proof (induction acs arbitrary: hist)
  case Nil
  then show ?case by (simp add: of_layer_def)
next
  case (Cons a acs)
  obtain l e where a: "a = (l, e)" by (cases a)
  let ?hist = "hist(l := hist l @ [e])"
  let ?hit = "if e \<in> set (lastn cap (remdups (hist l))) then 1 else (0::nat)"
  have l: "l \<in> L" using Cons.prems a by simp
  have "stack_hits cap (hist l') (of_layer l' (a # acs))
      = (if l' = l then ?hit else 0) + stack_hits cap (?hist l') (of_layer l' acs)" for l'
    by (simp add: of_layer_def a)
  then have "(\<Sum>l' \<in> L. stack_hits cap (hist l') (of_layer l' (a # acs)))
      = ?hit + (\<Sum>l' \<in> L. stack_hits cap (?hist l') (of_layer l' acs))"
    using assms l by (simp add: sum.distrib)
  then show ?case using Cons.IH [of ?hist] Cons.prems by (simp add: a fun_upd_def)
qed

definition row_accesses :: "(int \<times> int list) list \<Rightarrow> (int \<times> int) list" where
  "row_accesses rows = concat (map (\<lambda>(lay, es). map (Pair lay) es) rows)"

lemma row_accesses_simps [simp]:
  "row_accesses [] = []" "row_accesses ((l, es) # rows) = map (Pair l) es @ row_accesses rows"
  by (simp_all add: row_accesses_def)

lemma row_accesses_rows: "row_accesses (map snd rows) = accesses rows"
  by (induction rows) (auto simp: accesses_def)

lemma layered_hits_row:
  "layered_hits cap hist (map (Pair l) es @ acs)
     = stack_hits cap (hist l) es + layered_hits cap (hist(l := hist l @ es)) acs"
  by (induction es arbitrary: hist) auto

locale layered_lru = lru_cache touch cap for touch :: "int \<Rightarrow> int list \<Rightarrow> bool \<times> int list" and cap
begin

lemma run_layers_recent:
  assumes "\<And>l. dict_get caches l [] = lastn cap (remdups (hist l))"
  shows "\<exists>caches'. run_layers touch rows (caches, h, a)
      = (caches', h + layered_hits cap hist (row_accesses rows), a + length (row_accesses rows))
    \<and> (\<forall>l. dict_get caches' l [] = lastn cap (remdups (hist l @ of_layer l (row_accesses rows))))"
  using assms
proof (induction rows arbitrary: caches hist h a)
  case Nil
  then show ?case by (simp add: of_layer_def)
next
  case (Cons r rows)
  obtain l es where r: "r = (l, es)" by (cases r)
  let ?hist = "hist(l := hist l @ es)"
  let ?c = "lastn cap (remdups (hist l @ es))"
  have "\<And>l'. dict_get (AList.update l ?c caches) l' [] = lastn cap (remdups (?hist l'))"
    using Cons.prems by (simp add: dict_simps)
  from Cons.IH [OF this, of "h + stack_hits cap (hist l) es" "a + length es"]
  show ?case
    using Cons.prems by (auto simp: r run_recent layered_hits_row of_layer_def filter_map comp_def fun_upd_def)
qed

lemma run_layers_empty:
  "\<exists>caches. run_layers touch rows ([], 0, 0)
      = (caches, layered_hits cap (\<lambda>_. []) (row_accesses rows), length (row_accesses rows))
    \<and> (\<forall>l. dict_get caches l [] = lastn cap (remdups (of_layer l (row_accesses rows))))"
  using run_layers_recent [of "[]" "\<lambda>_. []" rows 0 0] by (simp add: lastn_def)

end

interpretation replay_layers: layered_lru "lru_touch slots" "nat slots" for slots :: int ..

lemma replay_global_eq: "replay_global rows cap = rate (stack_hits (nat cap) [] (accesses rows)) (length (accesses rows))"
  by (simp add: replay_global_def replay.run_empty)

lemma replay_per_layer_eq:
  "replay_per_layer rows slots = rate (layered_hits (nat slots) (\<lambda>_. []) (accesses rows)) (length (accesses rows))"
  using replay_layers.run_layers_empty [of slots "map snd rows"]
  by (auto simp: replay_per_layer_def row_accesses_rows)

end
