(* ===== verification/Policy_Compare.thy ===== *)
theory Policy_Compare
  imports Lru_Replay "HOL-Library.Word"
begin

unbundle bit_operations_syntax

text \<open>
  The policy comparison, \<open>tools/expert_policy_compare.py\<close>: the incumbent's splitmix64 ranks,
  the frequency seed, the demand-warm LRU comparand, the held-out evaluation and the guard
  against scoring a seed on its own calibration data.

  Python's unbounded integers are \<open>int\<close>, masked to 64 bits where the source masks them. A
  Python set that is only tested, counted or compared is a list without duplicates, compared
  with \<open>set\<close>.
\<close>

type_synonym seed_sets = "(int, int list) dict"
type_synonym eval_row = "int \<times> int list"

subsection \<open>Ranks and resident sets\<close>

definition STATIC_PARTITION_SEED :: int where "STATIC_PARTITION_SEED = 0xF2A17C0DE5EED"
definition LAYER_MIX :: int where "LAYER_MIX = 0xD6E8FEB86659FD93"
definition MASK64 :: int where "MASK64 = 2 ^ 64 - 1"

definition splitmix64 :: "int \<Rightarrow> int" where
  "splitmix64 x =
     (let x = (x + 0x9E3779B97F4A7C15) AND MASK64;
          z = ((x XOR drop_bit 30 x) * 0xBF58476D1CE4E5B9) AND MASK64;
          z' = ((z XOR drop_bit 27 z) * 0x94D049BB133111EB) AND MASK64
      in (z' XOR drop_bit 31 z') AND MASK64)"

definition rank_key :: "int \<Rightarrow> int \<Rightarrow> int \<Rightarrow> int" where
  "rank_key seed layer_key expert =
     (let h = splitmix64 ((seed XOR ((layer_key * LAYER_MIX) AND MASK64)) AND MASK64) in
      splitmix64 ((h XOR expert) AND MASK64))"

definition static_set_splitmix64 :: "int \<Rightarrow> int \<Rightarrow> int \<Rightarrow> int \<Rightarrow> int list" where
  "static_set_splitmix64 layer_key slots num_expert seed =
     (if slots \<le> 0 then []
      else let ranked = sort (map (\<lambda>e. (rank_key seed layer_key e, e)) (map int [0..<nat num_expert])) in
        sort (map snd (take_py (min slots num_expert) ranked)))"

definition static_sets_splitmix64 :: "int list \<Rightarrow> int \<Rightarrow> int \<Rightarrow> int \<Rightarrow> seed_sets" where
  "static_sets_splitmix64 layer_keys slots num_expert seed =
     dict_of (map (\<lambda>lk. (lk, static_set_splitmix64 lk slots num_expert seed)) layer_keys)"

definition static_sets_frequency :: "(int \<times> int, int) dict \<Rightarrow> int \<Rightarrow> seed_sets" where
  "static_sets_frequency counts slots =
     map (\<lambda>(lk, items).
       (lk, map snd (take_py (max slots 0) (sort_key (\<lambda>t. (- fst t, snd t)) items))))
     (group_values (map (\<lambda>((lk, e), n). (lk, (n, e))) counts))"

definition census_from_calls :: "call_row list \<Rightarrow> int \<Rightarrow> int option \<Rightarrow> (int \<times> int, int) dict" where
  "census_from_calls calls lo hi =
     tally (concat (map (\<lambda>(seq, lk, tk, ids).
       if seq < lo \<or> (case hi of None \<Rightarrow> False | Some h \<Rightarrow> h \<le> seq) then [] else map (Pair lk) ids) calls))"

fun eval_loop :: "int \<Rightarrow> int option \<Rightarrow> call_row list \<Rightarrow> (eval_row list \<times> nat) res" where
  "eval_loop lo hi [] = Inr ([], 0)"
| "eval_loop lo hi ((seq, lk, top_k, ids) # calls) =
     (if seq < lo \<or> (case hi of None \<Rightarrow> False | Some h \<Rightarrow> h \<le> seq) then eval_loop lo hi calls
      else rbind (split_topk_chunks ids top_k) (\<lambda>cs.
        rbind (eval_loop lo hi calls) (\<lambda>(rows, skipped).
          Inr (if length cs \<noteq> 1 then (rows, skipped + 1) else ((lk, sort (hd cs)) # rows, skipped)))))"

definition eval_rows_from_calls :: "call_row list \<Rightarrow> int \<Rightarrow> int option \<Rightarrow> (eval_row list \<times> nat) res" where
  "eval_rows_from_calls calls lo hi = eval_loop lo hi (sort_key fst calls)"

subsection \<open>Scores\<close>

definition hit_counts :: "eval_row list \<Rightarrow> seed_sets \<Rightarrow> nat \<times> nat" where
  "hit_counts rows sets =
     fold (\<lambda>(lk, experts) s.
       let residents = dict_get sets lk [] in
       fold (\<lambda>e (hits, acc). (if e \<in> set residents then hits + 1 else hits, acc + 1)) experts s) rows (0, 0)"

definition hit_rate :: "eval_row list \<Rightarrow> seed_sets \<Rightarrow> rat \<times> nat \<times> nat" where
  "hit_rate rows sets = (case hit_counts rows sets of (hits, acc) \<Rightarrow> (rate hits acc, hits, acc))"

text \<open>The comparand's access: a miss is inserted only when there are slots at all.\<close>

definition demand_touch :: "int \<Rightarrow> int \<Rightarrow> int list \<Rightarrow> bool \<times> int list" where
  "demand_touch slots e c =
     (if e \<in> set c then (True, remove1 e c @ [e])
      else (False,
        if 0 < slots then (let c' = c @ [e] in if slots < int (length c') then tl c' else c') else c))"

definition lru_hit_rate :: "eval_row list \<Rightarrow> int \<Rightarrow> rat \<times> nat \<times> nat" where
  "lru_hit_rate rows slots =
     (case run_layers (demand_touch slots) rows ([], 0, 0) of (caches, hits, acc) \<Rightarrow> (rate hits acc, hits, acc))"

definition layers_changed :: "seed_sets \<Rightarrow> seed_sets \<Rightarrow> nat" where
  "layers_changed prev sets =
     length (filter (\<lambda>lk. set (dict_get prev lk []) \<noteq> set (dict_get sets lk []))
       (remdups (map fst prev @ map fst sets)))"

record series_point =
  sp_calib_calls :: int
  sp_layers_changed :: "nat option"
  sp_hit_rate :: rat
  sp_accesses :: nat
  sp_hot_cells :: nat

definition pinned_cells :: "seed_sets \<Rightarrow> nat" where
  "pinned_cells sets = sum_list (map (length \<circ> snd) sets)"

fun series_loop ::
  "call_row list \<Rightarrow> eval_row list \<Rightarrow> int \<Rightarrow> int \<Rightarrow> int list \<Rightarrow> seed_sets option \<Rightarrow> series_point list" where
  "series_loop calls eval_rows slots cal_lo [] prev = []"
| "series_loop calls eval_rows slots cal_lo (cutoff # cuts) prev =
     (let sets = static_sets_frequency (census_from_calls calls cal_lo (Some (cutoff + 1))) slots;
          (hr, h, acc) = hit_rate eval_rows sets
      in \<lparr>sp_calib_calls = cutoff + 1,
          sp_layers_changed = (case prev of None \<Rightarrow> None | Some p \<Rightarrow> Some (layers_changed p sets)),
          sp_hit_rate = hr, sp_accesses = acc, sp_hot_cells = pinned_cells sets\<rparr>
         # series_loop calls eval_rows slots cal_lo cuts (Some sets))"

definition window_seqs :: "call_row list \<Rightarrow> int \<Rightarrow> int option \<Rightarrow> int list" where
  "window_seqs calls lo hi =
     sort (remdups (map fst (filter (\<lambda>c. lo \<le> fst c \<and> (case hi of None \<Rightarrow> True | Some h \<Rightarrow> fst c < h)) calls)))"

definition series_cuts :: "int list \<Rightarrow> nat \<Rightarrow> int list" where
  "series_cuts seqs n_points =
     map (\<lambda>i. seqs ! min (length seqs - 1) (length seqs * i div n_points)) [1..<n_points + 1]"

definition convergence_series ::
  "call_row list \<Rightarrow> eval_row list \<Rightarrow> int \<Rightarrow> nat \<Rightarrow> int \<Rightarrow> int option \<Rightarrow> series_point list" where
  "convergence_series calls eval_rows slots n_points cal_lo cal_hi =
     (let seqs = window_seqs calls cal_lo cal_hi in
      if seqs = [] then [] else series_loop calls eval_rows slots cal_lo (series_cuts seqs n_points) None)"

record policy_score =
  po_hit_rate :: rat
  po_hits :: nat
  po_accesses :: nat
  po_pinned :: "nat option"

record comparison =
  co_slots :: int
  co_seed :: int
  co_experts :: int
  co_cal_calls :: nat
  co_cal_cells :: nat
  co_cal_accesses :: int
  co_decode_calls :: nat
  co_batched_skipped :: nat
  co_chance_pct :: rat
  co_splitmix :: policy_score
  co_frequency :: policy_score
  co_lru :: policy_score
  co_agree :: nat
  co_layers :: nat
  co_freq_minus_split :: rat

definition compare ::
  "call_row list \<Rightarrow> int \<Rightarrow> int option \<Rightarrow> call_row list \<Rightarrow> int \<Rightarrow> int option \<Rightarrow> int \<Rightarrow> int \<Rightarrow> int
     \<Rightarrow> comparison res" where
  "compare cal_calls cal_lo cal_hi eval_calls eval_lo eval_hi slots seed num_expert =
     (let cal_counts = census_from_calls cal_calls cal_lo cal_hi in
      rbind (eval_rows_from_calls eval_calls eval_lo eval_hi) (\<lambda>(eval_rows, skipped).
        let layer_keys = sort (remdups (map (fst \<circ> fst) cal_counts @ map fst eval_rows));
            freq_sets = static_sets_frequency cal_counts slots;
            split_sets = static_sets_splitmix64 layer_keys slots num_expert seed;
            (freq_hr, freq_h, freq_a) = hit_rate eval_rows freq_sets;
            (split_hr, split_h, split_a) = hit_rate eval_rows split_sets;
            (lru_hr, lru_h, lru_a) = lru_hit_rate eval_rows slots
        in if num_expert = 0 then Inl ZeroDivision
           else Inr
             \<lparr>co_slots = slots, co_seed = seed, co_experts = num_expert,
              co_cal_calls = length (filter (\<lambda>c. cal_lo \<le> fst c
                \<and> (case cal_hi of None \<Rightarrow> True | Some h \<Rightarrow> fst c < h)) cal_calls),
              co_cal_cells = length cal_counts, co_cal_accesses = sum_list (map snd cal_counts),
              co_decode_calls = length eval_rows, co_batched_skipped = skipped,
              co_chance_pct = f64 (py_div slots num_expert * 100),
              co_splitmix = \<lparr>po_hit_rate = split_hr, po_hits = split_h, po_accesses = split_a,
                             po_pinned = Some (pinned_cells split_sets)\<rparr>,
              co_frequency = \<lparr>po_hit_rate = freq_hr, po_hits = freq_h, po_accesses = freq_a,
                              po_pinned = Some (pinned_cells freq_sets)\<rparr>,
              co_lru = \<lparr>po_hit_rate = lru_hr, po_hits = lru_h, po_accesses = lru_a, po_pinned = None\<rparr>,
              co_agree = length (filter (\<lambda>lk. set (dict_get freq_sets lk []) = set (dict_get split_sets lk []))
                           layer_keys),
              co_layers = length layer_keys,
              co_freq_minus_split = f64 (f64 (freq_hr - split_hr) * 100)\<rparr>))"

subsection \<open>Loading and the guard\<close>

datatype trace_fmt = Call | V1

fun format_lines :: "trace_fmt \<Rightarrow> string list \<Rightarrow> trace_fmt" where
  "format_lines fallback [] = fallback"
| "format_lines fallback (l # ls) =
     (let s = strip l in
      if s = [] then format_lines fallback ls
      else if \<not> startswith s ''#'' then fallback
      else if contains s ''plugin-0044-call-trace'' then Call
      else if contains s ''arcint routing trace v1'' then V1
      else format_lines fallback ls)"

definition detect_format :: "string \<Rightarrow> trace_fmt \<Rightarrow> trace_fmt" where
  "detect_format text fallback = format_lines fallback (file_lines text)"

definition load_calls :: "string \<Rightarrow> trace_fmt \<Rightarrow> call_row list res" where
  "load_calls text fmt =
     (case detect_format text fmt of
        Call \<Rightarrow> parse_call_trace text True
      | V1 \<Rightarrow> rbind (load_trace text) (\<lambda>rows.
          Inr (map (\<lambda>(i, tok, lay, experts). (int i, lay, int (length experts), experts)) (enumerate 0 rows))))"

definition ranges_overlap :: "int \<Rightarrow> int option \<Rightarrow> int \<Rightarrow> bool" where
  "ranges_overlap cal_lo cal_hi eval_lo =
     (let hi = (case cal_hi of Some h \<Rightarrow> h | None \<Rightarrow> 2 ^ 62) in \<not> hi \<le> eval_lo)"

record policy_args =
  ar_calibrate_call :: "string option"
  ar_calibrate_format :: trace_fmt
  ar_cal_lo :: int
  ar_cal_hi :: "int option"
  ar_eval_call :: string
  ar_eval_format :: trace_fmt
  ar_eval_lo :: int
  ar_eval_hi :: "int option"
  ar_slots :: int
  ar_seed :: int
  ar_num_expert :: int
  ar_allow_overlap :: bool
  ar_convergence :: bool

datatype outcome = Refused | Compared bool comparison "series_point list option"

text \<open>
  The body of \<open>main\<close> after argument parsing. \<open>files\<close> gives the text of a path and \<open>sha\<close>
  the digest of a text; the flag of a comparison says that the look-ahead warning was printed,
  the series is present when it was asked for and a calibration corpus was named.
\<close>

definition compare_main :: "(string \<Rightarrow> string) \<Rightarrow> (string \<Rightarrow> string) \<Rightarrow> policy_args \<Rightarrow> outcome res" where
  "compare_main files sha args =
     (let named = (case ar_calibrate_call args of Some p \<Rightarrow> p \<noteq> [] | None \<Rightarrow> False);
          cal_path = (if named then the (ar_calibrate_call args) else ar_eval_call args);
          eval_path = ar_eval_call args in
      rbind (load_calls (files cal_path) (ar_calibrate_format args)) (\<lambda>cal_calls.
      rbind (if eval_path = cal_path \<and> ar_calibrate_call args \<noteq> None then Inr cal_calls
             else load_calls (files eval_path) (ar_eval_format args)) (\<lambda>eval_calls.
      let same_accesses = (cal_path = eval_path \<or> sha (files cal_path) = sha (files eval_path));
          in_sample = (same_accesses \<and> ranges_overlap (ar_cal_lo args) (ar_cal_hi args) (ar_eval_lo args))
      in if in_sample \<and> \<not> ar_allow_overlap args then Inr Refused
         else
           rbind (compare cal_calls (ar_cal_lo args) (ar_cal_hi args) eval_calls (ar_eval_lo args)
                    (ar_eval_hi args) (ar_slots args) (ar_seed args) (ar_num_expert args)) (\<lambda>res.
             if ar_convergence args \<and> named then
               rbind (eval_rows_from_calls eval_calls (ar_eval_lo args) (ar_eval_hi args)) (\<lambda>(rows, skipped).
                 Inr (Compared in_sample res (Some (convergence_series cal_calls rows (ar_slots args) 8
                        (ar_cal_lo args) (ar_cal_hi args)))))
             else Inr (Compared in_sample res None)))))"

end
