(* ===== verification/Policy_Facts.thy ===== *)
theory Policy_Facts
  imports Policy_Compare Census_Calls
begin

unbundle bit_operations_syntax

text \<open>
  Facts about the policy comparison: splitmix64 as a permutation of the 64-bit words, the
  resident set of the static partition as the experts of smallest rank, the frequency seed and
  the demand-warm LRU as instances of the interfaces of the census and of the replay, and the
  windows of the calibration.
\<close>

subsection \<open>splitmix64 permutes the 64-bit words\<close>

lemma AND_MASK64: "x AND MASK64 = take_bit 64 x"
  by (simp add: MASK64_def take_bit_eq_mask mask_eq_exp_minus_1)

definition mix_word :: "64 word \<Rightarrow> 64 word" where
  "mix_word x =
     (let x = x + 0x9E3779B97F4A7C15;
          z = (x XOR drop_bit 30 x) * 0xBF58476D1CE4E5B9;
          z' = (z XOR drop_bit 27 z) * 0x94D049BB133111EB
      in z' XOR drop_bit 31 z')"

lemma xorshift_uint: "uint z XOR drop_bit k (uint z) = uint (z XOR drop_bit k z)" for z :: "64 word"
proof (rule bit_eqI)
  fix n
  show "bit (uint z XOR drop_bit k (uint z)) n = bit (uint (z XOR drop_bit k z)) n"
    by (auto simp: bit_xor_iff bit_drop_bit_eq bit_uint_iff dest: bit_imp_le_length)
qed

lemma mult_uint: "take_bit 64 (uint y * c) = uint (y * word_of_int c)" for y :: "64 word"
proof -
  have "y * word_of_int c = word_of_int (uint y * c)" by (simp only: of_int_mult word_of_int_uint)
  then show ?thesis by (simp only: uint_word_of_int_eq) simp
qed

lemma splitmix64_word: "splitmix64 x = uint (mix_word (word_of_int x))"
proof -
  have a: "take_bit 64 (x + c) = uint (word_of_int x + word_of_int c :: 64 word)" for c
    by (simp add: uint_word_of_int_eq flip: of_int_add)
  have self: "take_bit 64 (uint z) = uint z" for z :: "64 word" 
    by (rule take_bit_int_eq_self) (use uint_lt2p [of z] in simp_all)
  then show ?thesis
    by (simp only: splitmix64_def mix_word_def Let_def AND_MASK64 a self mult_uint xorshift_uint of_int_numeral)
qed

lemma xorshift_inj:
  fixes z w :: "64 word"
  assumes "z XOR drop_bit k z = w XOR drop_bit k w" "0 < k"
  shows "z = w"
proof (rule bit_word_eqI)
  fix n
  have e: "(bit z n \<noteq> bit z (n + k)) = (bit w n \<noteq> bit w (n + k))" for n
    using arg_cong [OF assms(1), of "\<lambda>v. bit v n"] by (simp add: bit_xor_iff bit_drop_bit_eq add.commute)
  have "bit z n = bit w n" for n
  proof (induction "64 - n" arbitrary: n rule: less_induct)
    case less
    show ?case
    proof (cases "64 \<le> n")
      case True
      then show ?thesis using bit_imp_le_length [of z n] bit_imp_le_length [of w n] by auto
    next
      case False
      have "bit z (n + k) = bit w (n + k)" using False assms(2) by (intro less) simp
      with e [of n] show ?thesis by blast
    qed
  qed
  then show "bit z n = bit w n" .
qed

lemma mult_inj:
  fixes x y c d :: "64 word"
  assumes "c * d = 1" "x * c = y * c"
  shows "x = y"
proof -
  have "x * (c * d) = y * (c * d)" using assms(2) by (simp only: mult.assoc [symmetric])
  then show ?thesis by (simp add: assms(1))
qed

lemma inj_stage:
  fixes c d :: "64 word"
  assumes "0 < k" "c * d = 1"
  shows "inj (\<lambda>z. (z XOR drop_bit k z) * c)"
  by (rule injI) (metis assms mult_inj xorshift_inj)

lemma mix_word_stages:
  "mix_word = (\<lambda>z. z XOR drop_bit 31 z) \<circ> (\<lambda>z. (z XOR drop_bit 27 z) * 0x94D049BB133111EB)
     \<circ> (\<lambda>z. (z XOR drop_bit 30 z) * 0xBF58476D1CE4E5B9) \<circ> (\<lambda>x. x + 0x9E3779B97F4A7C15)"
  unfolding mix_word_def Let_def comp_def ..

lemma inj_mix_word: "inj mix_word"
proof -
  have "inj (\<lambda>z :: 64 word. (z XOR drop_bit 27 z) * 0x94D049BB133111EB)"
    by (rule inj_stage [of _ _ "0x319642B2D24D8EC3"]) simp_all
  moreover have "inj (\<lambda>z :: 64 word. (z XOR drop_bit 30 z) * 0xBF58476D1CE4E5B9)"
    by (rule inj_stage [of _ _ "0x96DE1B173F119089"]) simp_all
  moreover have "inj (\<lambda>z :: 64 word. z XOR drop_bit 31 z)"
    by (rule injI) (erule xorshift_inj, simp)
  moreover have "inj (\<lambda>x :: 64 word. x + 0x9E3779B97F4A7C15)" by (rule injI) simp
  ultimately show ?thesis unfolding mix_word_stages by (intro inj_compose)
qed

lemma splitmix64_range: "0 \<le> splitmix64 x \<and> splitmix64 x < 2 ^ 64"
  using uint_lt2p [of "mix_word (word_of_int x)"] by (simp add: splitmix64_word)

lemma word64_eq_iff: "(word_of_int x :: 64 word) = word_of_int y \<longleftrightarrow> take_bit 64 x = take_bit 64 y"
  by (simp add: word_uint_eq_iff uint_word_of_int_eq)

lemma splitmix64_eq_iff: "splitmix64 x = splitmix64 y \<longleftrightarrow> take_bit 64 x = take_bit 64 y"
  by (simp only: splitmix64_word word_uint_eq_iff [symmetric] inj_eq [OF inj_mix_word] word64_eq_iff)

lemma splitmix64_mod: "splitmix64 (x AND MASK64) = splitmix64 x"
  unfolding splitmix64_eq_iff by (simp add: AND_MASK64)

lemma xor_left_cancel: "h XOR e = h XOR e' \<longleftrightarrow> e = (e' :: int)"
proof
  assume "h XOR e = h XOR e'"
  then have "h XOR (h XOR e) = h XOR (h XOR e')" by (rule arg_cong)
  then show "e = e'" by (simp only: xor.assoc [symmetric] xor_self_eq xor.left_neutral)
qed simp

lemma take_bit_xor_left: "take_bit n (h XOR e) = take_bit n (h XOR e') \<longleftrightarrow> take_bit n e = take_bit n (e' :: int)"
  by (simp only: take_bit_xor xor_left_cancel)

lemma rank_key_eq_iff: "rank_key seed lk e = rank_key seed lk e' \<longleftrightarrow> take_bit 64 e = take_bit 64 e'"
  by (simp only: rank_key_def Let_def splitmix64_mod splitmix64_eq_iff take_bit_xor_left)

lemma rank_key_inj: "0 \<le> e \<Longrightarrow> e < 2 ^ 64 \<Longrightarrow> 0 \<le> e' \<Longrightarrow> e' < 2 ^ 64 \<Longrightarrow>
    rank_key seed lk e = rank_key seed lk e' \<longleftrightarrow> e = e'"
  by (simp add: rank_key_eq_iff take_bit_int_eq_self)

subsection \<open>The experts of smallest rank\<close>

definition smallest_ranks :: "nat \<Rightarrow> (int \<Rightarrow> int) \<Rightarrow> int list \<Rightarrow> int list" where
  "smallest_ranks k r es = map snd (take k (sort (map (\<lambda>e. (r e, e)) es)))"

lemma smallest_ranks_length: "length (smallest_ranks k r es) = min k (length es)"
  by (simp add: smallest_ranks_def)

lemma smallest_ranks_subset: "set (smallest_ranks k r es) \<subseteq> set es"
  by (auto simp: smallest_ranks_def dest!: in_set_takeD)

lemma smallest_ranks_distinct:
  assumes "distinct es"
  shows "distinct (smallest_ranks k r es)"
proof -
  have "mset (map snd (sort (map (\<lambda>e. (r e, e)) es))) = mset es" by (simp add: multiset.map_comp comp_def)
  then have "distinct (map snd (sort (map (\<lambda>e. (r e, e)) es)))"
    using assms by (metis mset_eq_imp_distinct_iff)
  then show ?thesis by (simp add: smallest_ranks_def take_map [symmetric])
qed

lemma smallest_ranks_below:
  assumes "e \<in> set (smallest_ranks k r es)" "e' \<in> set es" "e' \<notin> set (smallest_ranks k r es)"
  shows "(r e, e) < (r e', e')"
proof -
  let ?s = "sort (map (\<lambda>e. (r e, e)) es)"
  from assms(1) obtain i where i: "i < k" "i < length ?s" "snd (?s ! i) = e"
    by (auto simp: smallest_ranks_def in_set_conv_nth)
  have "?s ! i \<in> (\<lambda>e. (r e, e)) ` set es" using nth_mem [OF i(2)] by (simp only: set_sort set_map)
  then obtain e0 where "?s ! i = (r e0, e0)" by (rule imageE)
  with i(3) have si: "?s ! i = (r e, e)" by (simp only: snd_conv)
  from assms(2) have "(r e', e') \<in> set ?s" by auto
  then obtain j where j: "j < length ?s" "?s ! j = (r e', e')" unfolding in_set_conv_nth by blast
  have "k \<le> j"
  proof (rule ccontr)
    assume "\<not> k \<le> j"
    then have "?s ! j \<in> set (take k ?s)" 
      using nth_mem [of j "take k ?s"] j(1) by simp
    then have "snd (?s ! j) \<in> set (smallest_ranks k r es)" unfolding smallest_ranks_def by simp
    then have "e' \<in> set (smallest_ranks k r es)" by (simp only: j(2) snd_conv)
    with assms(3) show False by contradiction
  qed
  then have "?s ! i \<le> ?s ! j" using i j by (intro sorted_nth_mono) auto
  moreover have "e \<noteq> e'" using assms by blast
  ultimately show ?thesis using si j by (simp add: order_less_le)
qed

lemma static_set_smallest:
  "static_set_splitmix64 lk slots num_expert seed
     = sort (smallest_ranks (nat slots) (rank_key seed lk) (map int [0..<nat num_expert]))"
proof (cases "slots \<le> 0")
  case True
  then show ?thesis by (simp add: static_set_splitmix64_def smallest_ranks_def)
next
  case False
  let ?s = "sort (map (\<lambda>e. (rank_key seed lk e, e)) (map int [0..<nat num_expert]))"
  have "take_py (min slots num_expert) ?s = take (nat slots) ?s"
    using False by (cases "0 \<le> num_expert") (auto simp: take_py_def min_def not_le nat_le_eq_zle)
  with False show ?thesis by (simp add: static_set_splitmix64_def smallest_ranks_def Let_def)
qed

lemma length_static_set: "length (static_set_splitmix64 lk slots n seed) = min (nat slots) (nat n)"
  by (simp add: static_set_smallest smallest_ranks_length)

subsection \<open>The frequency seed is a frequency selection\<close>

lemma sort_key_map: "map g (sort_key (f \<circ> g) xs) = sort_key f (map g xs)"
proof -
  have "map g (insort_key (f \<circ> g) x xs) = insort_key f (g x) (map g xs)" for x xs
    by (induction xs) auto
  then show ?thesis by (induction xs) auto
qed

lemma rank_desc_swapped:
  "map snd (take k (sort_key (\<lambda>t. (- fst t, snd t)) items))
     = map fst (take k (rank_desc (map (\<lambda>t. (snd t, fst t)) items)))"
proof -
  have "rank_desc (map (\<lambda>t. (snd t, fst t)) items)
      = map (\<lambda>t. (snd t, fst t)) (sort_key (\<lambda>t. (- fst t, snd t)) items)"
    unfolding rank_desc_def by (simp add: sort_key_map [symmetric] comp_def)
  then show ?thesis by (simp add: take_map comp_def)
qed

lemma dict_get_map_values:
  assumes "F [] = []"
  shows "dict_get (map (\<lambda>(k, v). (k, F v)) d) k [] = F (dict_get d k [])"
  using assms by (simp add: dict_get_def map_of_map split: option.split)

lemma tally_of_layer:
  "mset (map (\<lambda>kn. (snd (fst kn), snd kn)) (filter (\<lambda>kn. fst (fst kn) = l) (tally acs)))
     = mset (tally (of_layer l acs))" (is "mset ?xs = mset ?ys")
proof (rule set_eq_iff_mset_eq_distinct [THEN iffD1])
  show "distinct ?ys" using distinct_tally [of "of_layer l acs"] by (simp only: distinct_map)
  have "inj_on fst (set (tally acs))" "distinct (tally acs)"
    using distinct_tally [of acs] by (simp_all only: distinct_map)
  then show "distinct ?xs"
    by (auto simp: distinct_map inj_on_def prod_eq_iff)
  have "(e, c) \<in> set ?xs \<longleftrightarrow> ((l, e), c) \<in> set (tally acs)" for e c by force
  then show "set ?xs = set ?ys"
    by (force simp: tally_entry of_layer_def count_list_map_Pair)
qed

lemma static_sets_frequency_layer:
  assumes "0 \<le> slots"
  shows "dict_get (static_sets_frequency (tally acs) slots) l []
     = map fst (take (nat slots) (rank_desc (tally (of_layer l acs))))"
proof -
  let ?items = "map (\<lambda>kn. (snd (fst kn), snd kn)) (filter (\<lambda>kn. fst (fst kn) = l) (tally acs))"
  let ?F = "\<lambda>items. map snd (take_py (max slots 0) (sort_key (\<lambda>t. (- fst t, snd t)) items))"
  have "dict_get (group_values (map (\<lambda>((lk, e), n). (lk, (n, e))) (tally acs))) l []
      = map (\<lambda>kn. (snd kn, snd (fst kn))) (filter (\<lambda>kn. fst (fst kn) = l) (tally acs))"
    by (simp add: dict_get_group_values filter_map comp_def case_prod_unfold)
  then have "dict_get (static_sets_frequency (tally acs) slots) l []
      = ?F (map (\<lambda>kn. (snd kn, snd (fst kn))) (filter (\<lambda>kn. fst (fst kn) = l) (tally acs)))"
    unfolding static_sets_frequency_def by (subst dict_get_map_values) (simp_all add: take_py_def)
  also have "\<dots> = map fst (take (nat slots) (rank_desc ?items))"
    using assms by (simp add: take_py_nonneg rank_desc_swapped comp_def)
  also have "rank_desc ?items = rank_desc (tally (of_layer l acs))"
  proof (rule rank_desc_cong [OF tally_of_layer])
    have "mset (map fst ?items) = mset (map fst (tally (of_layer l acs)))"
      using arg_cong [OF tally_of_layer [of l acs], of "image_mset fst"] by (simp only: mset_map)
    from mset_eq_imp_distinct_iff [OF this] show "distinct (map fst ?items)"
      using distinct_tally by (simp only:)
  qed
  finally show ?thesis .
qed

interpretation freq: frequency_selection "\<lambda>acs. acs"
  "\<lambda>acs k l. set (dict_get (static_sets_frequency (tally acs) (int k)) l [])"
  by unfold_locales (simp add: static_sets_frequency_layer of_layer_def)

lemma static_sets_frequency_neg: "slots < 0 \<Longrightarrow> static_sets_frequency counts slots = static_sets_frequency counts 0"
  by (simp add: static_sets_frequency_def)

subsection \<open>Scores as counts of accesses\<close>

lemma hit_counts_eq:
  "hit_counts rows sets = (length (filter (resident sets) (row_accesses rows)), length (row_accesses rows))"
proof -
  have row: "fold (\<lambda>e (hits, acc). (if e \<in> set R then hits + 1 else hits, Suc acc)) es (h, n)
      = (h + length (filter (\<lambda>e. e \<in> set R) es), n + length es)" for es R and h n :: nat
    by (induction es arbitrary: h n) auto
  have "fold (\<lambda>(lk, experts) s. let residents = dict_get sets lk [] in
       fold (\<lambda>e (hits, acc). (if e \<in> set residents then hits + 1 else hits, acc + 1)) experts s) rows (h, n)
      = (h + length (filter (resident sets) (row_accesses rows)), n + length (row_accesses rows))"
    for h n :: nat
    by (induction rows arbitrary: h n)
       (auto simp: row_accesses_def row resident_def filter_map comp_def)
  from this [of 0 0] show ?thesis by (simp add: hit_counts_def)
qed

lemma hit_rate_eq:
  "hit_rate rows sets = (rate (length (filter (resident sets) (row_accesses rows))) (length (row_accesses rows)),
     length (filter (resident sets) (row_accesses rows)), length (row_accesses rows))"
  by (simp add: hit_rate_def hit_counts_eq)

interpretation demand: layered_lru "demand_touch slots" "nat slots" for slots :: int
proof
  fix e :: int and c
  show "e \<in> set c \<Longrightarrow> demand_touch slots e c = (True, remove1 e c @ [e])"
    by (simp add: demand_touch_def)
  assume c: "e \<notin> set c" "distinct c" "length c \<le> nat slots"
  then show "demand_touch slots e c = (False, lastn (nat slots) (c @ [e]))"
    using replay.touch_miss [OF c]
    by (cases "0 < slots") (auto simp: demand_touch_def lru_touch_def Let_def lastn_def)
qed

lemma lru_hit_rate_eq:
  "lru_hit_rate rows slots
     = (rate (layered_hits (nat slots) (\<lambda>_. []) (row_accesses rows)) (length (row_accesses rows)),
        layered_hits (nat slots) (\<lambda>_. []) (row_accesses rows), length (row_accesses rows))"
  using demand.run_layers_empty [of slots rows] by (auto simp: lru_hit_rate_def)

subsection \<open>Windows of calls\<close>

definition window_accesses :: "call_row list \<Rightarrow> int \<Rightarrow> int option \<Rightarrow> (int \<times> int) list" where
  "window_accesses calls lo hi =
     concat (map (\<lambda>(seq, lk, tk, ids). map (Pair lk) ids) (filter (\<lambda>c. in_range lo hi (fst c)) calls))"

lemma outside_iff: "(seq < lo \<or> (case hi of None \<Rightarrow> False | Some h \<Rightarrow> h \<le> seq)) \<longleftrightarrow> \<not> in_range lo hi seq"
  by (auto simp: in_range_def split: option.splits)

lemma census_from_calls_eq: "census_from_calls calls lo hi = tally (window_accesses calls lo hi)"
proof -
  have "concat (map (\<lambda>(seq, lk, tk, ids). if \<not> in_range lo hi seq then [] else map (Pair lk) ids) calls)
      = window_accesses calls lo hi"
    by (induction calls) (auto simp: window_accesses_def)
  then show ?thesis by (simp only: census_from_calls_def outside_iff)
qed

text \<open>The evaluation keeps the ids of the single-token calls of the window.\<close>

lemma eval_loop_rows:
  "eval_loop lo hi calls = Inr (rows, skipped) \<Longrightarrow>
     length rows + skipped = length (filter (\<lambda>c. in_range lo hi (fst c)) calls)
     \<and> (skipped = 0 \<longrightarrow> mset (row_accesses rows) = mset (window_accesses calls lo hi))"
proof (induction calls arbitrary: rows skipped)
  case Nil
  then show ?case by (simp add: window_accesses_def)
next
  case (Cons c calls)
  obtain seq lk k ids where c: "c = (seq, lk, k, ids)" by (cases c)
  show ?case
  proof (cases "in_range lo hi seq")
    case False
    with Cons show ?thesis by (simp add: c outside_iff window_accesses_def)
  next
    case True
    then obtain cs rows' sk' where cs: "split_topk_chunks ids k = Inr cs"
      and rest: "eval_loop lo hi calls = Inr (rows', sk')"
      and r: "(rows, skipped) = (if length cs \<noteq> 1 then (rows', sk' + 1) else ((lk, sort (hd cs)) # rows', sk'))"
      using Cons.prems by (auto simp: c outside_iff res_simps)
    have "mset (map (Pair lk) (sort ids)) = mset (map (Pair lk) ids)" by simp
    then show ?thesis
      using Cons.IH [OF rest] r True one_chunk [OF cs]
      by (auto simp: c window_accesses_def split: if_splits)
  qed
qed

lemma window_accesses_sorted:
  "mset (window_accesses (sort_key fst calls) lo hi) = mset (window_accesses calls lo hi)"
proof -
  have "mset (filter (\<lambda>c. in_range lo hi (fst c)) (sort_key fst calls))
      = mset (filter (\<lambda>c. in_range lo hi (fst c)) calls)"
    by (simp add: mset_filter)
  then show ?thesis
    unfolding window_accesses_def mset_concat by (simp add: multiset.map_comp flip: sum_mset_sum_list)
qed

end
