(* ===== verification/Policy_Properties.thy ===== *)
theory Policy_Properties
  imports Policy_Facts Census_Commands
begin

text \<open>
  The properties of the replay and of the policy comparison.
\<close>

subsection \<open>Replay\<close>

text \<open>
  C7. More room never hurts an LRU: neither the per-layer nor the global hit rate the replay
  reports falls when the number of slots grows.
\<close>

theorem lru_monotone:
  assumes "slots \<le> slots'"
  shows "replay_per_layer rows slots \<le> replay_per_layer rows slots'
    \<and> replay_global rows slots \<le> replay_global rows slots'"
proof -
  have "nat slots \<le> nat slots'" using assms by (rule nat_mono)
  then show ?thesis
    unfolding replay_per_layer_eq replay_global_eq
    by (intro conjI rate_mono layered_hits_mono stack_hits_mono)
qed

theorem lru_monotone_witness:
  "replay_per_layer [(0, 3, [1, 2]), (1, 3, [1, 2])] 1 \<le> replay_per_layer [(0, 3, [1, 2]), (1, 3, [1, 2])] 2
    \<and> replay_global [(0, 3, [1, 2]), (1, 3, [1, 2])] 1 \<le> replay_global [(0, 3, [1, 2]), (1, 3, [1, 2])] 2"
  by (rule lru_monotone) simp

text \<open>
  The comparand of the policy comparison is the model of the replay: on the same rows, at
  every number of slots (negative ones included), \<open>lru_hit_rate\<close> reports the rate of
  \<open>replay_per_layer\<close>.
\<close>

theorem lru_comparand_is_replay:
  "fst (lru_hit_rate (map snd rows) slots) = replay_per_layer rows slots"
  by (simp add: lru_hit_rate_eq replay_per_layer_eq row_accesses_rows)

lemma card_pairs: "card (set acs) = (\<Sum>l \<in> fst ` set acs. card (set (of_layer l acs)))"
proof -
  have "set acs = (SIGMA l : fst ` set acs. set (of_layer l acs))"
    by (force simp: of_layer_def)
  then have "card (set acs) = card (SIGMA l : fst ` set acs. set (of_layer l acs))" by (rule arg_cong)
  also have "\<dots> = (\<Sum>l \<in> fst ` set acs. card (set (of_layer l acs)))" by (intro card_SigmaI) auto
  finally show ?thesis .
qed

lemma length_layers: "length acs = (\<Sum>l \<in> fst ` set acs. length (of_layer l acs))"
proof -
  have "length acs = (\<Sum>l \<in> L. length (of_layer l acs))"
    if "finite L" "fst ` set acs \<subseteq> L" for L
    using that(2)
  proof (induction acs)
    case Nil
    then show ?case by (simp add: of_layer_def)
  next
    case (Cons a acs)
    have "(\<Sum>l \<in> L. length (of_layer l (a # acs))) = (\<Sum>l \<in> L. length (of_layer l acs) + (if l = fst a then 1 else 0))"
      by (rule sum.cong) (auto simp: of_layer_def)
    with Cons that(1) show ?case by (simp add: sum.distrib)
  qed
  from this [of "fst ` set acs"] show ?thesis by simp
qed

lemma stack_hits_fresh:
  "stack_hits cap [] ks + card (set ks) \<le> length ks"
  "card (set ks) \<le> cap \<Longrightarrow> stack_hits cap [] ks + card (set ks) = length ks"
  using stack_hits_le [of cap "[]" ks] stack_hits_roomy [of "[]" ks cap] by auto

text \<open>
  C8. The per-layer LRU decomposes: its hits are the sum, over the layers, of the hits of an LRU
  fed with that layer's accesses alone. Every first access of a (layer, expert) misses, and with
  at least as many slots as a layer has experts nothing else does.
\<close>

theorem per_layer_lru_decomposes:
  assumes "lru_hit_rate rows slots = (hr, hits, acc)"
  shows "hits = (\<Sum>l \<in> fst ` set (row_accesses rows). stack_hits (nat slots) [] (of_layer l (row_accesses rows)))
    \<and> hits + card (set (row_accesses rows)) \<le> acc
    \<and> ((\<forall>l. card (set (of_layer l (row_accesses rows))) \<le> nat slots) \<longrightarrow> hits + card (set (row_accesses rows)) = acc)"
proof -
  let ?acs = "row_accesses rows"
  let ?L = "fst ` set ?acs"
  have hits: "hits = (\<Sum>l \<in> ?L. stack_hits (nat slots) [] (of_layer l ?acs))" and acc: "acc = length ?acs"
    using assms layered_hits_split [of ?L ?acs "nat slots" "\<lambda>_. []"] by (auto simp: lru_hit_rate_eq)
  have sum: "hits + card (set ?acs) = (\<Sum>l \<in> ?L. stack_hits (nat slots) [] (of_layer l ?acs) + card (set (of_layer l ?acs)))"
    by (simp only: hits card_pairs [of ?acs] sum.distrib)
  have "\<dots> \<le> (\<Sum>l \<in> ?L. length (of_layer l ?acs))"
    by (intro sum_mono stack_hits_fresh)
  moreover have "\<dots> = (\<Sum>l \<in> ?L. stack_hits (nat slots) [] (of_layer l ?acs) + card (set (of_layer l ?acs)))"
    if "\<forall>l. card (set (of_layer l ?acs)) \<le> nat slots"
    using that by (intro sum.cong) (simp_all add: stack_hits_fresh)
  ultimately show ?thesis using hits acc sum length_layers [of ?acs] by simp
qed

theorem per_layer_lru_decomposes_witness:
  "\<exists>hr hits acc. lru_hit_rate [(3, [1, 2]), (4, [1]), (3, [2, 1])] 2 = (hr, hits, acc)
    \<and> hits + card (set (row_accesses [(3, [1, 2]), (4, [1]), (3, [2, 1])])) \<le> acc"
proof -
  obtain hr hits acc where "lru_hit_rate [(3, [1, 2]), (4, [1]), (3, [2, 1])] 2 = (hr, hits, acc)"
    by (metis surj_pair)
  with per_layer_lru_decomposes [OF this] show ?thesis by blast
qed

text \<open>
  The slot budget is safe and tight: for a non-negative budget of \<open>gib\<close> GiB the slots of
  all layers together fit into the budget, and one more slot per layer would not.
\<close>

theorem slots_fit_budget:
  assumes "0 < slice_bytes" "0 < n_layers"
  shows "of_int (slots_per_layer_for_gib gib slice_bytes n_layers * n_layers * slice_bytes) \<le> gib * of_int GIB
    \<and> gib * of_int GIB < of_int ((slots_per_layer_for_gib gib slice_bytes n_layers + 1) * n_layers * slice_bytes)"
proof -
  let ?q = "\<lfloor>gib * of_int GIB / of_int slice_bytes\<rfloor>"
  let ?s = "?q div n_layers"
  have q: "of_int (?q * slice_bytes) \<le> gib * of_int GIB" "gib * of_int GIB < of_int ((?q + 1) * slice_bytes)"
  proof -
    let ?x = "gib * of_int GIB / of_int slice_bytes"
    have "of_int ?q \<le> ?x" "?x < of_int ?q + 1" by linarith+
    then show "of_int (?q * slice_bytes) \<le> gib * of_int GIB" "gib * of_int GIB < of_int ((?q + 1) * slice_bytes)"
      using assms(1) by (simp_all only: pos_le_divide_eq pos_divide_less_eq of_int_mult of_int_add of_int_1 of_int_0_less_iff)
  qed
  have "q div n_layers * n_layers \<le> q" "q + 1 \<le> (q div n_layers + 1) * n_layers" for q
    using div_mult_mod_eq [of q n_layers] pos_mod_sign [OF assms(2), of q] pos_mod_bound [OF assms(2), of q]
    by (simp_all only: distrib_right mult_1)
  then have "?s * n_layers \<le> ?q" "?q + 1 \<le> (?s + 1) * n_layers" by blast+
  then have "of_int (?s * n_layers * slice_bytes) \<le> (of_int (?q * slice_bytes) :: rat)"
    "of_int ((?q + 1) * slice_bytes) \<le> (of_int ((?s + 1) * n_layers * slice_bytes) :: rat)"
    unfolding of_int_le_iff using assms(1) by (auto intro!: mult_right_mono)
  with q show ?thesis unfolding slots_per_layer_for_gib_def by (meson le_less_trans less_le_trans order_trans)
qed

theorem slots_fit_budget_witness:
  "of_int (slots_per_layer_for_gib 16 SLICE_BYTES N_LAYERS * N_LAYERS * SLICE_BYTES) \<le> (16 :: rat) * of_int GIB
    \<and> (16 :: rat) * of_int GIB < of_int ((slots_per_layer_for_gib 16 SLICE_BYTES N_LAYERS + 1) * N_LAYERS * SLICE_BYTES)"
  by (rule slots_fit_budget) (simp_all add: SLICE_BYTES_def N_LAYERS_def)

subsection \<open>The static partition\<close>

text \<open>
  C6. splitmix64 is a permutation of the 64-bit values, so its ranks never collide: two experts
  below \<open>2 ^ 64\<close> of one layer have the same rank key only if they are the same expert, whatever
  the seed and the layer key.
\<close>

theorem splitmix64_permutation:
  "bij_betw splitmix64 {0..<2 ^ 64} {0..<2 ^ 64}
   \<and> inj_on (rank_key seed layer_key) {0..<2 ^ 64}"
proof
  have inj: "inj_on splitmix64 {0..<2 ^ 64}"
    by (rule inj_onI) (simp add: splitmix64_eq_iff take_bit_int_eq_self)
  have sub: "splitmix64 ` {0..<2 ^ 64} \<subseteq> {0..<2 ^ 64}" using splitmix64_range by auto
  have "splitmix64 ` {0..<2 ^ 64} = {0..<2 ^ 64}"
    using sub inj by (intro card_subset_eq) (auto simp: card_image)
  with inj show "bij_betw splitmix64 {0..<2 ^ 64} {0..<2 ^ 64}" by (simp add: bij_betw_def)
  show "inj_on (rank_key seed layer_key) {0..<2 ^ 64}"
    by (rule inj_onI) (use rank_key_inj in auto)
qed

text \<open>
  The incumbent's resident set for a layer: exactly \<open>min slots num_expert\<close> experts of the
  layer, in strictly ascending order, each with a strictly smaller rank than every expert that
  was left out; it is empty for a budget of zero or below.
\<close>

theorem static_set_spec:
  assumes "num_expert \<le> 2 ^ 64"
  shows "length (static_set_splitmix64 lk slots num_expert seed) = min (nat slots) (nat num_expert)
    \<and> sorted_wrt (<) (static_set_splitmix64 lk slots num_expert seed)
    \<and> set (static_set_splitmix64 lk slots num_expert seed) \<subseteq> {0..<num_expert}
    \<and> (\<forall>e \<in> set (static_set_splitmix64 lk slots num_expert seed).
         \<forall>e' \<in> {0..<num_expert} - set (static_set_splitmix64 lk slots num_expert seed).
           rank_key seed lk e < rank_key seed lk e')"
proof -
  let ?es = "map int [0..<nat num_expert]"
  let ?S = "smallest_ranks (nat slots) (rank_key seed lk) ?es"
  have es: "set ?es = {0..<num_expert}" by (auto simp: image_iff intro!: bexI [of _ "nat _"])
  have S: "set (static_set_splitmix64 lk slots num_expert seed) = set ?S" by (simp add: static_set_smallest)
  have sub: "set ?S \<subseteq> {0..<num_expert}" using smallest_ranks_subset [of _ _ ?es] es by blast
  have "sorted_wrt (<) (static_set_splitmix64 lk slots num_expert seed)"
    using smallest_ranks_distinct [of ?es] by (simp add: static_set_smallest strict_sorted_iff distinct_map)
  moreover have "rank_key seed lk e < rank_key seed lk e'"
    if "e \<in> set ?S" "e' \<in> {0..<num_expert} - set ?S" for e e'
  proof -
    have less: "(rank_key seed lk e, e) < (rank_key seed lk e', e')"
      by (rule smallest_ranks_below) (use that es in auto)
    have "rank_key seed lk e \<noteq> rank_key seed lk e'"
      using rank_key_inj [of e e' seed lk] that sub assms by force
    with less show ?thesis by auto
  qed
  ultimately show ?thesis using S sub by (simp add: length_static_set)
qed

theorem static_set_spec_witness:
  "length (static_set_splitmix64 7 2 4 STATIC_PARTITION_SEED) = 2
    \<and> sorted_wrt (<) (static_set_splitmix64 7 2 4 STATIC_PARTITION_SEED)
    \<and> set (static_set_splitmix64 7 2 4 STATIC_PARTITION_SEED) \<subseteq> {0..<4}"
  using static_set_spec [of 4 7 2 STATIC_PARTITION_SEED] by simp

subsection \<open>The comparison\<close>

lemma split_sets_card:
  assumes "distinct lks"
  shows "card (set (dict_get (static_sets_splitmix64 lks slots n seed) l [])) \<le> nat slots"
proof -
  have "dict_get (static_sets_splitmix64 lks slots n seed) l []
      = (if l \<in> set lks then static_set_splitmix64 l slots n seed else [])"
    using assms by (simp add: static_sets_splitmix64_def dict_of_distinct comp_def dict_get_map_Pair)
  moreover have "card (set (static_set_splitmix64 l slots n seed)) \<le> nat slots"
    using card_length [of "static_set_splitmix64 l slots n seed"] by (simp add: length_static_set)
  ultimately show ?thesis by (cases "l \<in> set lks") simp_all
qed

lemma frequency_hits_best:
  assumes "\<And>l. card (set (dict_get other l [])) \<le> nat slots" and acs: "mset acs = mset cal"
  shows "length (filter (resident other) acs)
    \<le> length (filter (resident (static_sets_frequency (tally cal) slots)) acs)"
proof -
  have "length (filter (resident other) cal)
      \<le> length (filter (resident (static_sets_frequency (tally cal) (int (nat slots)))) cal)"
    using freq.residents_best [of "\<lambda>l. set (dict_get other l [])" "nat slots" cal] assms(1)
    by (simp only: resident_def [abs_def] List.finite_set)
  moreover have "static_sets_frequency (tally cal) (int (nat slots)) = static_sets_frequency (tally cal) slots"
    by (cases "0 \<le> slots") (simp_all add: static_sets_frequency_neg)
  moreover have "length (filter P acs) = length (filter P cal)" for P
    using acs by (metis mset_filter size_mset)
  ultimately show ?thesis by simp
qed

text \<open>
  Scored on its own calibration data the frequency seed cannot lose: when calibration and
  evaluation are the same window of the same calls and no batched call was dropped, its hits are
  at least those of the incumbent, at every budget, seed and number of experts. This is the
  look-ahead the honesty rule refuses.
\<close>

theorem in_sample_never_loses:
  assumes res: "compare calls lo hi calls lo hi slots seed num_expert = Inr res"
    and decode: "co_batched_skipped res = 0"
  shows "po_hits (co_splitmix res) \<le> po_hits (co_frequency res)
    \<and> po_accesses (co_splitmix res) = po_accesses (co_frequency res)
    \<and> po_hit_rate (co_splitmix res) \<le> po_hit_rate (co_frequency res)"
proof -
  let ?cal = "window_accesses calls lo hi"
  let ?freq = "static_sets_frequency (tally ?cal) slots"
  obtain rows skipped where rows: "eval_loop lo hi (sort_key fst calls) = Inr (rows, skipped)"
    using res by (auto simp: compare_def Let_def res_simps eval_rows_from_calls_def)
  define split where "split = static_sets_splitmix64
    (sort (remdups (map (fst \<circ> fst) (tally ?cal) @ map fst rows))) slots num_expert seed"
  have parts: "co_batched_skipped res = skipped"
    "po_hits (co_splitmix res) = length (filter (resident split) (row_accesses rows))"
    "po_hits (co_frequency res) = length (filter (resident ?freq) (row_accesses rows))"
    "po_accesses (co_splitmix res) = length (row_accesses rows)"
    "po_accesses (co_frequency res) = length (row_accesses rows)"
    "po_hit_rate (co_splitmix res) = rate (po_hits (co_splitmix res)) (length (row_accesses rows))"
    "po_hit_rate (co_frequency res) = rate (po_hits (co_frequency res)) (length (row_accesses rows))"
    using res
    by (auto simp: compare_def Let_def res_simps eval_rows_from_calls_def rows hit_rate_eq lru_hit_rate_eq
        split_def census_from_calls_eq split: if_splits)
  have "mset (row_accesses rows) = mset ?cal"
    using eval_loop_rows [OF rows] decode parts(1) window_accesses_sorted by simp
  then have "po_hits (co_splitmix res) \<le> po_hits (co_frequency res)"
    unfolding parts(2,3) split_def by (intro frequency_hits_best split_sets_card) simp_all
  then show ?thesis using parts by (simp add: rate_mono)
qed

lemma compare_ok:
  assumes "eval_rows_from_calls eval_calls eval_lo eval_hi = Inr (rows, skipped)" "num_expert \<noteq> 0"
  shows "\<exists>res. compare cal_calls cal_lo cal_hi eval_calls eval_lo eval_hi slots seed num_expert = Inr res
    \<and> co_batched_skipped res = skipped"
  using assms by (simp add: compare_def Let_def case_prod_unfold)

theorem in_sample_never_loses_witness:
  "\<exists>res. compare [(0, 7, 2, [3, 1]), (1, 7, 2, [3, 0])] 0 None [(0, 7, 2, [3, 1]), (1, 7, 2, [3, 0])] 0 None 1
      STATIC_PARTITION_SEED 4 = Inr res
    \<and> po_hits (co_splitmix res) \<le> po_hits (co_frequency res)"
proof -
  let ?calls = "[(0, 7, 2, [3, 1]), (1, 7, 2, [3, 0])] :: call_row list"
  let ?r = "compare ?calls 0 None ?calls 0 None 1 STATIC_PARTITION_SEED 4"
  have "\<exists>res. ?r = Inr res \<and> co_batched_skipped res = 0"
    by (rule compare_ok [where rows = "[(7, [1, 3]), (7, [0, 3])]"]) (code_simp, simp)
  then obtain res where "?r = Inr res" "co_batched_skipped res = 0" by blast
  with in_sample_never_loses [OF this] show ?thesis by blast
qed

text \<open>
  C5. The honesty guard is sound: when the calibration file has the same content as the
  evaluation file and the look-ahead was not permitted, a comparison is only ever reported for
  windows with no call sequence number in common. The open-ended calibration window needs the
  evaluation to start below the sentinel \<open>2 ^ 62\<close> the guard uses for it.
\<close>

theorem honesty_guard_sound:
  assumes run: "compare_main files sha args = Inr (Compared warned res series)"
    and same: "files (case ar_calibrate_call args of Some p \<Rightarrow> if p \<noteq> [] then p else ar_eval_call args
                       | None \<Rightarrow> ar_eval_call args) = files (ar_eval_call args)"
    and honest: "\<not> ar_allow_overlap args"
    and sentinel: "ar_cal_hi args = None \<longrightarrow> ar_eval_lo args < 2 ^ 62"
  shows "\<not> warned
    \<and> (\<forall>seq. \<not> (in_range (ar_cal_lo args) (ar_cal_hi args) seq \<and> in_range (ar_eval_lo args) (ar_eval_hi args) seq))"
proof -
  let ?cal = "case ar_calibrate_call args of Some p \<Rightarrow> if p \<noteq> [] then p else ar_eval_call args
                | None \<Rightarrow> ar_eval_call args"
  have path: "(if (case ar_calibrate_call args of Some p \<Rightarrow> p \<noteq> [] | None \<Rightarrow> False)
      then the (ar_calibrate_call args) else ar_eval_call args) = ?cal"
    by (simp split: option.split)
  have "\<not> ranges_overlap (ar_cal_lo args) (ar_cal_hi args) (ar_eval_lo args) \<and> \<not> warned"
    using run honest same unfolding compare_main_def Let_def path
    by (auto simp: res_simps split: if_splits)
  moreover from this sentinel obtain h where "ar_cal_hi args = Some h" "h \<le> ar_eval_lo args"
    by (auto simp: ranges_overlap_def Let_def split: option.splits)
  ultimately show ?thesis by (auto simp: in_range_def)
qed

definition demo_args :: policy_args where
  "demo_args = \<lparr>ar_calibrate_call = Some ''a'', ar_calibrate_format = Call, ar_cal_lo = 0, ar_cal_hi = Some 1,
     ar_eval_call = ''b'', ar_eval_format = Call, ar_eval_lo = 1, ar_eval_hi = None, ar_slots = 1,
     ar_seed = STATIC_PARTITION_SEED, ar_num_expert = 4, ar_allow_overlap = False, ar_convergence = False\<rparr>"

definition demo_file :: string where
  "demo_file = ''0 7 1 3'' @ [LF] @ ''1 7 1 3''"

lemma demo_loads: "load_calls demo_file Call = Inr [(0, 7, 1, [3]), (1, 7, 1, [3])]"
  by code_simp

lemma demo_rows_ok: "eval_rows_from_calls [(0, 7, 1, [3]), (1, 7, 1, [3])] 1 None = Inr ([(7, [3])], 0)"
  by code_simp

theorem honesty_guard_sound_witness:
  "\<exists>warned res series. compare_main (\<lambda>_. demo_file) (\<lambda>s. s) demo_args = Inr (Compared warned res series)
    \<and> \<not> warned \<and> \<not> (in_range 0 (Some 1) 1 \<and> in_range 1 None 1)"
proof -
  have "\<exists>warned res series. compare_main (\<lambda>_. demo_file) (\<lambda>s. s) demo_args = Inr (Compared warned res series)"
    using compare_ok [OF demo_rows_ok, of 4 "[(0, 7, 1, [3]), (1, 7, 1, [3])]" 0 "Some 1" 1 STATIC_PARTITION_SEED]
    by (auto simp: compare_main_def demo_args_def demo_loads ranges_overlap_def)
  then obtain warned res series
    where r: "compare_main (\<lambda>_. demo_file) (\<lambda>s. s) demo_args = Inr (Compared warned res series)" by blast
  show ?thesis
    using honesty_guard_sound [OF r] r by (auto simp: demo_args_def)
qed

lemma series_loop_points:
  "p \<in> set (series_loop calls rows slots lo cuts prev) \<Longrightarrow>
     sp_calib_calls p - 1 \<in> set cuts
     \<and> sp_hit_rate p = fst (hit_rate rows (static_sets_frequency (census_from_calls calls lo (Some (sp_calib_calls p))) slots))"
  by (induction cuts arbitrary: prev) (auto simp: Let_def case_prod_unfold)

lemma series_loop_cuts: "map sp_calib_calls (series_loop calls rows slots lo cuts prev) = map (\<lambda>c. c + 1) cuts"
  by (induction cuts arbitrary: prev) (auto simp: Let_def case_prod_unfold)

lemma set_window_seqs: "seq \<in> set (window_seqs calls lo hi) \<longleftrightarrow> seq \<in> fst ` set calls \<and> in_range lo hi seq"
proof -
  have "(\<lambda>c. lo \<le> fst c \<and> (case hi of None \<Rightarrow> True | Some h \<Rightarrow> fst c < h)) = (\<lambda>c :: call_row. in_range lo hi (fst c))"
    by (auto simp: in_range_def)
  then show ?thesis by (auto simp: window_seqs_def)
qed

lemma series_cuts_subset: "seqs \<noteq> [] \<Longrightarrow> set (series_cuts seqs n) \<subseteq> set seqs"
  by (auto simp: series_cuts_def min_less_iff_disj intro!: nth_mem)

lemma series_cuts_last: "0 < n \<Longrightarrow> seqs \<noteq> [] \<Longrightarrow> last (series_cuts seqs n) = last seqs"
  by (simp add: series_cuts_def last_conv_nth)

text \<open>
  No point of the convergence series calibrates outside the calibration window. Each point
  scores the frequency seed of a head \<open>[cal_lo, calib_calls)\<close> of the window, on the given
  evaluation rows; the heads stay inside the window, and the last one is the whole window.
\<close>

theorem convergence_series_in_window:
  assumes "window_seqs calls lo hi \<noteq> []" "0 < n"
  shows "(\<forall>p \<in> set (convergence_series calls rows slots n lo hi).
      sp_hit_rate p = fst (hit_rate rows (static_sets_frequency (census_from_calls calls lo (Some (sp_calib_calls p))) slots))
      \<and> (\<forall>seq. in_range lo (Some (sp_calib_calls p)) seq \<longrightarrow> in_range lo hi seq))
    \<and> length (convergence_series calls rows slots n lo hi) = n
    \<and> census_from_calls calls lo (Some (sp_calib_calls (last (convergence_series calls rows slots n lo hi))))
      = census_from_calls calls lo hi"
proof -
  let ?seqs = "window_seqs calls lo hi"
  let ?cuts = "series_cuts ?seqs n"
  have series: "convergence_series calls rows slots n lo hi = series_loop calls rows slots lo ?cuts None"
    using assms(1) by (simp add: convergence_series_def)
  have cuts: "map sp_calib_calls (convergence_series calls rows slots n lo hi) = map (\<lambda>c. c + 1) ?cuts"
    by (simp only: series series_loop_cuts)
  then have len: "length (convergence_series calls rows slots n lo hi) = n"
    by (metis series_cuts_def length_map length_upt add_diff_cancel_right')
  have inside: "in_range lo hi seq" if "in_range lo (Some (c + 1)) seq" "c \<in> set ?seqs" for c seq
    using that by (auto simp: set_window_seqs in_range_def split: option.splits)
  have "sp_calib_calls (last (convergence_series calls rows slots n lo hi)) = last ?seqs + 1"
  proof -
    have "convergence_series calls rows slots n lo hi \<noteq> []" "?cuts \<noteq> []"
      using len assms(2) by (auto simp: series_cuts_def)
    with cuts series_cuts_last [OF assms(2,1)] show ?thesis by (metis last_map)
  qed
  moreover have "in_range lo (Some (last ?seqs + 1)) (fst c) \<longleftrightarrow> in_range lo hi (fst c)" if "c \<in> set calls" for c
  proof
    assume "in_range lo hi (fst c)"
    then have c: "fst c \<in> set ?seqs" using that by (simp add: set_window_seqs)
    then have "fst c \<le> last ?seqs" by (intro sorted_le_last) (simp_all add: window_seqs_def)
    then show "in_range lo (Some (last ?seqs + 1)) (fst c)" using c by (simp add: set_window_seqs in_range_def)
  qed (use inside last_in_set [OF assms(1)] in blast)
  then have "window_accesses calls lo (Some (last ?seqs + 1)) = window_accesses calls lo hi"
    unfolding window_accesses_def by (metis (mono_tags, lifting) filter_cong)
  ultimately have last: "census_from_calls calls lo (Some (sp_calib_calls (last (convergence_series calls rows slots n lo hi))))
      = census_from_calls calls lo hi" by (simp only: census_from_calls_eq)
  have "sp_calib_calls p - 1 \<in> set ?seqs" if "p \<in> set (convergence_series calls rows slots n lo hi)" for p
    using series_loop_points that series_cuts_subset [OF assms(1)] unfolding series by blast
  with inside have "in_range lo hi seq" if "p \<in> set (convergence_series calls rows slots n lo hi)"
    "in_range lo (Some (sp_calib_calls p)) seq" for p seq
    using that by (metis diff_add_cancel)
  with last len series_loop_points show ?thesis unfolding series by blast
qed

theorem convergence_series_in_window_witness:
  "length (convergence_series [(0, 7, 1, [3]), (1, 7, 1, [2])] [(7, [3])] 1 2 0 (Some 2)) = 2"
  using convergence_series_in_window [of "[(0, 7, 1, [3]), (1, 7, 1, [2])]" 0 "Some 2" 2 "[(7, [3])]" 1]
  by (simp add: window_seqs_def)

lemma scan_lines_weaken:
  assumes "\<And>n l r. f n l = Inr r \<Longrightarrow> g n l = Inr r"
  shows "scan_lines f n ls = Inr xs \<Longrightarrow> scan_lines g n ls = Inr xs"
proof (induction ls arbitrary: n xs)
  case Nil
  then show ?case by simp
next
  case (Cons l ls)
  then show ?case using assms by (fastforce simp: res_simps)
qed

lemma load_trace_of_parse: "parse_trace text True = Inr rows \<Longrightarrow> load_trace text = Inr rows"
  unfolding parse_trace_def load_trace_def
  by (rule scan_lines_weaken)
     (auto simp: parse_trace_row_def load_trace_row_def Let_def simp del: ints.simps
       split: if_splits list.splits option.splits)

lemma detect_format_v1_text:
  assumes "list_all plain_pair prov"
  shows "detect_format (v1_text prov rows) fmt = V1"
proof -
  let ?ls = "(''# arcint routing trace v1'' # map render_pair prov) @ map render_row rows"
  have "list_all one_line ?ls"
    using plain_pair_lines [OF assms] by (auto simp: render_row_one_line one_line_chars list_all_iff)
  then have "file_lines (v1_text prov rows) = ?ls" by (simp add: v1_text_def text_of_def file_lines_join)
  moreover have "strip ''# arcint routing trace v1'' = ''# arcint routing trace v1''"
    by (rule strip_id) (simp add: is_ws_def)
  ultimately show ?thesis by (simp add: detect_format_def)
qed

text \<open>
  The comparison recognises what the converter writes: a file of \<open>from-call-trace\<close> carries
  both header markers, and is always read as format v1, whatever format the command line asked
  for, as one call per trace row in the order of the file.
\<close>

theorem converter_output_recognised:
  assumes "cmd_from_call_trace ct pf lk skip from = Inr out" and "nonneg_indices lk"
  shows "detect_format out fmt = V1
    \<and> (\<exists>rows. parse_trace out True = Inr rows
       \<and> load_calls out fmt = Inr (map (\<lambda>(i, tok, lay, es). (int i, lay, int (length es), es)) (enumerate 0 rows)))"
  using assms(1)
proof (rule cmd_from_call_trace_elim)
  fix calls m rows rep
  assume calls: "parse_call_trace ct True = Inr calls" and m: "read_layer_keys lk = Inr m"
    and rows: "call_trace_to_v1 calls m skip from = Inr (rows, rep)"
    and out: "out = v1_text (v1_provenance (read_provenance_file pf) rep) rows"
  have plain: "list_all plain_pair (v1_provenance (read_provenance_file pf) rep)"
    by (intro v1_provenance_plain read_provenance_file_plain)
  have "list_all good_row rows"
    by (rule call_trace_to_v1_good [OF rows parse_call_trace_good [OF calls] m assms(2)])
  with plain have "parse_trace out True = Inr rows" unfolding out by (rule v1_text_parse)
  moreover have "detect_format out fmt = V1" unfolding out by (rule detect_format_v1_text [OF plain])
  ultimately show ?thesis by (simp add: load_calls_def load_trace_of_parse)
qed

theorem converter_output_recognised_witness:
  "\<exists>out. cmd_from_call_trace (''0 7 1 3'' @ [LF]) ''artifact=a card=b'' None False 0 = Inr out
    \<and> detect_format out Call = V1"
proof -
  have "is_ok (cmd_from_call_trace (''0 7 1 3'' @ [LF]) ''artifact=a card=b'' None False 0)" by code_simp
  then obtain out where "cmd_from_call_trace (''0 7 1 3'' @ [LF]) ''artifact=a card=b'' None False 0 = Inr out"
    unfolding is_ok_iff ..
  with converter_output_recognised [OF this] show ?thesis by (auto simp: nonneg_indices_def)
qed

text \<open>
  A comparison over zero experts never returns a result: the chance baseline divides by the
  number of experts. The branch of the report for "zero experts" is therefore never reached.
\<close>

theorem zero_experts_raises:
  "compare cal cal_lo cal_hi ev ev_lo ev_hi slots seed 0
     = (case eval_rows_from_calls ev ev_lo ev_hi of Inl e \<Rightarrow> Inl e | Inr rows \<Rightarrow> Inl ZeroDivision)"
  by (cases "eval_rows_from_calls ev ev_lo ev_hi") (auto simp: compare_def Let_def case_prod_unfold)

end
