(* ===== verification/Convergence.thy ===== *)
theory Convergence
  imports Policy_Facts
begin

text \<open>
  The convergence measurement, \<open>tools/expert_convergence.py\<close>: regimes of a call trace, the hit
  rate per decile of access position, the fill of the pinned slots, the plateau probe, the
  evictions of the LRU comparand, the rolling census, and the matrix of all of them.

  A float that only counts (\<open>sums[b] += 1\<close>) is a natural number, exact below \<open>2 ^ 53\<close>;
  \<open>sum\<close> over floats adds from the left and rounds after each addition.
\<close>

subsection \<open>Regimes and seeds\<close>

definition regime_slice :: "call_row list \<Rightarrow> int \<Rightarrow> int option \<Rightarrow> call_row list" where
  "regime_slice calls lo hi =
     filter (\<lambda>c. lo \<le> fst c \<and> (case hi of None \<Rightarrow> True | Some h \<Rightarrow> fst c < h)) calls"

definition access_rows :: "call_row list \<Rightarrow> eval_row list" where
  "access_rows calls_subset = map (\<lambda>(seq, lk, tk, ids). (lk, ids)) calls_subset"

definition seed_splitmix :: "int list \<Rightarrow> int \<Rightarrow> seed_sets" where
  "seed_splitmix layer_keys slots = static_sets_splitmix64 layer_keys slots N_EXPERTS STATIC_PARTITION_SEED"

definition seed_census :: "call_row list \<Rightarrow> int \<Rightarrow> int option \<Rightarrow> int \<Rightarrow> seed_sets" where
  "seed_census calls cal_lo cal_hi slots = static_sets_frequency (census_from_calls calls cal_lo cal_hi) slots"

subsection \<open>Deciles\<close>

record decile_report =
  de_series :: "(nat \<times> rat \<times> nat) list"
  de_early :: rat
  de_steady :: rat
  de_tail :: rat
  de_tail_minus_steady :: rat
  de_convergence :: "nat option"
  de_accesses :: nat

fun decile_fill ::
  "nat \<Rightarrow> nat \<Rightarrow> seed_sets \<Rightarrow> (int \<times> int) list \<Rightarrow> nat \<Rightarrow> nat list \<times> nat list \<Rightarrow> nat list \<times> nat list" where
  "decile_fill n tot sets [] ordinal st = st"
| "decile_fill n tot sets ((lk, e) # acs) ordinal (hit_sums, accs) =
     (let ordinal' = ordinal + 1; b = (ordinal' - 1) * n div tot in
      decile_fill n tot sets acs ordinal'
        (if e \<in> set (dict_get sets lk []) then hit_sums[b := hit_sums ! b + 1] else hit_sums, accs[b := accs ! b + 1]))"

definition float_sum :: "rat list \<Rightarrow> rat" where
  "float_sum xs = fold (\<lambda>x s. f64 (s + x)) xs 0"

definition first_settled :: "rat list \<Rightarrow> rat \<Rightarrow> nat option" where
  "first_settled vals eps =
     map_option (\<lambda>i. i + 1)
       (find (\<lambda>i. list_all (\<lambda>j. \<bar>f64 (vals ! j - last vals)\<bar> \<le> eps) [i..<length vals]) [0..<length vals])"

definition decile_hit :: "eval_row list \<Rightarrow> seed_sets \<Rightarrow> int \<Rightarrow> rat \<Rightarrow> decile_report res" where
  "decile_hit rows sets n eps =
     (if n < 2 then Inl BadDecileCount
      else let tot = sum_list (map (\<lambda>r. length (snd r)) rows) in
        if tot = 0 then
          Inr \<lparr>de_series = [], de_early = 0, de_steady = 0, de_tail = 0, de_tail_minus_steady = 0,
               de_convergence = None, de_accesses = 0\<rparr>
        else
          let k = nat n;
              (hit_sums, accs) = decile_fill k tot sets (row_accesses rows) 0 (replicate k 0, replicate k 0);
              vals = map (\<lambda>i. rate (hit_sums ! i) (accs ! i)) [0..<k];
              middle = (if 2 < k then butlast (tl vals) else vals);
              steady = (if middle = [] then 0 else f64 (float_sum middle / of_nat (length middle)));
              tail = last vals
          in Inr \<lparr>de_series = map (\<lambda>i. (i + 1, f64 (vals ! i * 100), accs ! i)) [0..<k],
                  de_early = hd vals, de_steady = steady, de_tail = tail,
                  de_tail_minus_steady = f64 (f64 (tail - steady) * 100),
                  de_convergence = first_settled vals eps, de_accesses = tot\<rparr>)"

subsection \<open>Fill and plateau probe\<close>

definition pinned_total :: "seed_sets \<Rightarrow> nat" where
  "pinned_total sets = sum_list (map (length \<circ> snd) sets)"

text \<open>\<open>for e in ids: if e in res: demanded.add((lk, e))\<close>.\<close>

definition demand_call :: "seed_sets \<Rightarrow> call_row \<Rightarrow> (int \<times> int) list \<Rightarrow> (int \<times> int) list" where
  "demand_call sets call demanded =
     (case call of (seq, lk, tk, ids) \<Rightarrow>
        let residents = dict_get sets lk [] in
        if residents = [] then demanded
        else fold (\<lambda>e d. if e \<in> set residents then List.insert (lk, e) d else d) ids demanded)"

record fill_report =
  fi_per_call :: "(nat \<times> nat) list"
  fi_last_new :: nat
  fi_monotone :: bool
  fi_total :: nat
  fi_at_end :: nat
  fi_fraction :: rat

fun fill_loop ::
  "seed_sets \<Rightarrow> nat \<Rightarrow> call_row list \<Rightarrow> (int \<times> int) list \<Rightarrow> nat
     \<Rightarrow> (nat \<times> nat) list \<times> nat \<times> (int \<times> int) list" where
  "fill_loop sets idx [] demanded last_new = ([], last_new, demanded)"
| "fill_loop sets idx (c # calls) demanded last_new =
     (let demanded' = demand_call sets c demanded;
          last_new' = (if length demanded < length demanded' then idx else last_new);
          (per_call, new, d) = fill_loop sets (Suc idx) calls demanded' last_new'
      in ((idx, length demanded') # per_call, new, d))"

definition fill_curve :: "call_row list \<Rightarrow> seed_sets \<Rightarrow> fill_report" where
  "fill_curve calls_subset sets =
     (let tot = pinned_total sets in
      if tot = 0 then
        \<lparr>fi_per_call = [], fi_last_new = 0, fi_monotone = True, fi_total = 0, fi_at_end = 0, fi_fraction = 0\<rparr>
      else
        let (per_call, last_new, demanded) = fill_loop sets 0 calls_subset [] 0
        in \<lparr>fi_per_call = per_call, fi_last_new = last_new,
            fi_monotone = list_all (\<lambda>i. snd (per_call ! (i - 1)) \<le> snd (per_call ! i)) [1..<length per_call],
            fi_total = tot, fi_at_end = length demanded,
            fi_fraction = py_div (int (length demanded)) (int tot)\<rparr>)"

record probe_report =
  pb_forwards :: nat
  pb_deltas :: "int list"
  pb_last_new :: "nat option"
  pb_plateau :: bool
  pb_filled :: nat
  pb_total :: nat

fun probe_loop ::
  "seed_sets \<Rightarrow> call_row list list \<Rightarrow> (int \<times> int) list \<Rightarrow> int list \<times> (int \<times> int) list" where
  "probe_loop sets [] demanded = ([], demanded)"
| "probe_loop sets (block # blocks) demanded =
     (let demanded' = fold (demand_call sets) block demanded;
          (deltas, d) = probe_loop sets blocks demanded'
      in ((int (length demanded') - int (length demanded)) # deltas, d))"

definition probe_plateau :: "call_row list \<Rightarrow> seed_sets \<Rightarrow> int \<Rightarrow> probe_report res" where
  "probe_plateau calls_subset sets calls_per_forward =
     (if calls_per_forward \<le> 0 then Inl BadForwardSize
      else let (deltas, demanded) = probe_loop sets (chunks (nat calls_per_forward) calls_subset) []
        in Inr \<lparr>pb_forwards = length deltas, pb_deltas = deltas,
                pb_last_new = fold (\<lambda>(i, d) acc. if 0 < d then Some (i + 1) else acc) (enumerate 0 deltas) None,
                pb_plateau = (2 \<le> length deltas \<and> last deltas = 0 \<and> last (butlast deltas) = 0),
                pb_filled = length demanded, pb_total = pinned_total sets\<rparr>)"

subsection \<open>Thrash of the LRU comparand\<close>

record thrash_state =
  th_caches :: "(int, int list) dict"
  th_hits :: nat
  th_evictions :: nat
  th_acc :: nat
  th_calls :: nat

text \<open>
  One access. A key not resident is inserted only when there are slots, evicting the least
  recently used key first when the table is full.
\<close>

definition thrash_touch :: "int \<Rightarrow> int \<Rightarrow> int list \<Rightarrow> bool \<times> bool \<times> int list" where
  "thrash_touch slots e c =
     (if e \<in> set c then (True, False, remove1 e c @ [e])
      else if 0 < slots then
        (if slots \<le> int (length c) then (False, True, tl c @ [e]) else (False, False, c @ [e]))
      else (False, False, c))"

fun thrash_ids :: "int \<Rightarrow> int list \<Rightarrow> int list \<times> nat \<times> nat \<times> nat \<Rightarrow> int list \<times> nat \<times> nat \<times> nat" where
  "thrash_ids slots [] st = st"
| "thrash_ids slots (e # es) (c, hits, evictions, acc) =
     (let (hit, evicted, c') = thrash_touch slots e c in
      thrash_ids slots es
        (c', if hit then hits + 1 else hits, if evicted then evictions + 1 else evictions, acc + 1))"

fun thrash_loop :: "int \<Rightarrow> eval_row list \<Rightarrow> thrash_state \<Rightarrow> thrash_state" where
  "thrash_loop slots [] st = st"
| "thrash_loop slots ((lk, ids) # rows) st =
     (let (c, hits, evictions, acc) =
            thrash_ids slots ids (dict_get (th_caches st) lk [], th_hits st, th_evictions st, th_acc st)
      in thrash_loop slots rows
           \<lparr>th_caches = AList.update lk c (th_caches st), th_hits = hits, th_evictions = evictions,
            th_acc = acc, th_calls = th_calls st + 1\<rparr>)"

definition thrash_init :: thrash_state where
  "thrash_init = \<lparr>th_caches = [], th_hits = 0, th_evictions = 0, th_acc = 0, th_calls = 0\<rparr>"

record thrash_report =
  tr_hits :: nat
  tr_accesses :: nat
  tr_calls :: nat
  tr_evictions :: nat
  tr_per_1000_calls :: rat
  tr_per_1000_accesses :: rat
  tr_hit_pct :: rat

definition lru_thrash :: "eval_row list \<Rightarrow> int \<Rightarrow> thrash_report res" where
  "lru_thrash rows slots =
     (if slots < 0 then Inl NegativeSlots
      else let st = thrash_loop slots rows thrash_init in
        Inr \<lparr>tr_hits = th_hits st, tr_accesses = th_acc st, tr_calls = th_calls st,
             tr_evictions = th_evictions st,
             tr_per_1000_calls = (if th_calls st = 0 then 0
               else f64 (py_div (int (th_evictions st)) (int (th_calls st)) * 1000)),
             tr_per_1000_accesses = (if th_acc st = 0 then 0
               else f64 (py_div (int (th_evictions st)) (int (th_acc st)) * 1000)),
             tr_hit_pct = (if th_acc st = 0 then 0
               else f64 (py_div (int (th_hits st)) (int (th_acc st)) * 100))\<rparr>)"

subsection \<open>The rolling census\<close>

record rolling_state =
  ro_prev :: "seed_sets option"
  ro_series :: "(nat \<times> nat option \<times> nat) list"
  ro_stable :: nat
  ro_plateau_at :: "nat option"

definition rolling_step :: "call_row list \<Rightarrow> int \<Rightarrow> nat \<Rightarrow> rolling_state \<Rightarrow> rolling_state" where
  "rolling_step calls_subset slots L st =
     (let sets = static_sets_frequency (census_from_calls (take L calls_subset) 0 None) slots;
          changed = (case ro_prev st of None \<Rightarrow> None | Some p \<Rightarrow> Some (layers_changed p sets));
          series = ro_series st @ [(L, changed, pinned_total sets)];
          stable = (if ro_prev st \<noteq> None \<and> changed = Some 0 then ro_stable st + 1 else 0)
      in \<lparr>ro_prev = Some sets, ro_series = series, ro_stable = stable,
          ro_plateau_at =
            (if 1 \<le> stable \<and> ro_plateau_at st = None \<and> 2 \<le> length series
             then Some (fst (series ! (length series - 2))) else ro_plateau_at st)\<rparr>)"

definition rolling_lengths :: "nat \<Rightarrow> int \<Rightarrow> nat list" where
  "rolling_lengths n n_points =
     (let lengths = doublings 1 n @ [n] in
      if n_points < int (length lengths)
      then filter (\<lambda>x. 0 < x \<and> x \<le> n) (sort (remdups (take_py n_points lengths @ [n])))
      else lengths)"

definition rolling_init :: rolling_state where
  "rolling_init = \<lparr>ro_prev = None, ro_series = [], ro_stable = 0, ro_plateau_at = None\<rparr>"

record rolling_report =
  rp_series :: "(nat \<times> nat option \<times> nat) list"
  rp_rounds :: "nat option"
  rp_plateau :: bool

definition rolling_prefix_series :: "call_row list \<Rightarrow> int \<Rightarrow> int \<Rightarrow> rolling_report res" where
  "rolling_prefix_series calls_subset slots n_points =
     (if slots \<le> 0 then Inl NotPositive
      else let n = length calls_subset in
        if n = 0 then Inr \<lparr>rp_series = [], rp_rounds = None, rp_plateau = False\<rparr>
        else let st = fold (rolling_step calls_subset slots) (rolling_lengths n n_points) rolling_init
          in Inr \<lparr>rp_series = ro_series st, rp_rounds = ro_plateau_at st,
                  rp_plateau = (ro_plateau_at st \<noteq> None)\<rparr>)"

subsection \<open>The matrix\<close>

record seed_cell =
  ce_hit :: decile_report
  ce_fill :: fill_report
  ce_pinned :: nat
  ce_probe :: probe_report

definition seed_cell_of :: "call_row list \<Rightarrow> seed_sets \<Rightarrow> int \<Rightarrow> seed_cell res" where
  "seed_cell_of reg_calls sets calls_per_forward =
     rbind (decile_hit (access_rows reg_calls) sets 10 (f64 (1 / 100))) (\<lambda>dec.
     let fill = fill_curve reg_calls sets in
     rbind (probe_plateau reg_calls sets calls_per_forward) (\<lambda>probe.
       Inr \<lparr>ce_hit = dec, ce_fill = fill, ce_pinned = pinned_total sets, ce_probe = probe\<rparr>))"

record budget_cell =
  bu_seeds :: "(string \<times> (string \<times> seed_cell) list) list"
  bu_lru :: "(string \<times> thrash_report) list"
  bu_rolling :: "(string \<times> rolling_report) list"

definition measure_budget ::
  "call_row list \<Rightarrow> (string \<times> call_row list) list \<Rightarrow> (string \<times> (int \<times> int option) option) list
     \<Rightarrow> int \<Rightarrow> int \<Rightarrow> budget_cell res" where
  "measure_budget calls reg_calls seeds calls_per_forward slots =
     (let layer_keys = sort (remdups (map (fst \<circ> snd) calls));
          seed_sets = map (\<lambda>(sname, cal). (sname,
            case cal of None \<Rightarrow> seed_splitmix layer_keys slots
                      | Some (lo, hi) \<Rightarrow> seed_census calls lo hi slots)) seeds in
      rbind (map_res (\<lambda>(rname, rc).
        rbind (map_res (\<lambda>(sname, sets). rbind (seed_cell_of rc sets calls_per_forward) (\<lambda>c. Inr (sname, c))) seed_sets)
          (\<lambda>cells. Inr (rname, cells))) reg_calls) (\<lambda>cells.
      rbind (map_res (\<lambda>(rname, rc).
        rbind (lru_thrash (access_rows rc) slots) (\<lambda>t. Inr (rname, t))) reg_calls) (\<lambda>lru.
      rbind (map_res (\<lambda>(rname, rc).
        rbind (rolling_prefix_series rc slots 13) (\<lambda>r. Inr (rname, r))) reg_calls) (\<lambda>rolling.
        Inr \<lparr>bu_seeds = cells, bu_lru = lru, bu_rolling = rolling\<rparr>))))"

definition measure_trace ::
  "string \<Rightarrow> int list \<Rightarrow> (string \<times> int \<times> int option) list \<Rightarrow> (string \<times> (int \<times> int option) option) list
     \<Rightarrow> int \<Rightarrow> (int, budget_cell) dict res" where
  "measure_trace trace budgets regimes seeds calls_per_forward =
     rbind (parse_call_trace trace True) (\<lambda>raw.
       let calls = sort_key fst raw;
           reg_calls = map (\<lambda>(name, lo, hi). (name, regime_slice calls lo hi)) regimes in
       rbind (map_res (\<lambda>slots. rbind (measure_budget calls reg_calls seeds calls_per_forward slots)
                (\<lambda>c. Inr (slots, c))) budgets)
         (\<lambda>cells. Inr (dict_of cells)))"

definition DEFAULT_REGIMES :: "(string \<times> int \<times> int option) list" where
  "DEFAULT_REGIMES = [(''probe'', 0, Some 288), (''prefill'', 288, Some 576), (''decode'', 576, None),
                      (''corpus'', 288, None)]"

definition DEFAULT_SEEDS :: "(string \<times> (int \<times> int option) option) list" where
  "DEFAULT_SEEDS = [(''splitmix64'', None), (''census-probe'', Some (0, Some 288)),
     (''census-prefill'', Some (288, Some 576)), (''census-decode'', Some (576, None)),
     (''census-mixture'', Some (288, None))]"

text \<open>\<open>name=lo:hi\<close>; a missing separator fails to unpack.\<close>

definition parse_regime :: "string \<Rightarrow> (string \<times> int \<times> int option) res" where
  "parse_regime p =
     (if CHR ''='' \<notin> set p then Inl ValueErrorInt
      else let (name, rng) = split_first (CHR ''='') p in
        if CHR '':'' \<notin> set rng then Inl ValueErrorInt
        else let (lo_s, hi_s) = split_first (CHR '':'') rng in
          rbind (of_option ValueErrorInt (py_int lo_s)) (\<lambda>lo.
          rbind (if lower hi_s \<in> {[], ''end'', ''none''} then Inr None
                 else rbind (of_option ValueErrorInt (py_int hi_s)) (\<lambda>h. Inr (Some h))) (\<lambda>hi.
            Inr (name, lo, hi))))"

definition parse_regimes :: "string list \<Rightarrow> (string \<times> int \<times> int option) list res" where
  "parse_regimes pairs =
     (if pairs = [] then Inr DEFAULT_REGIMES
      else rbind (map_res parse_regime pairs) (\<lambda>rs. Inr (dict_of rs)))"

definition convergence_main :: "string \<Rightarrow> string \<Rightarrow> string list \<Rightarrow> int \<Rightarrow> (int, budget_cell) dict res" where
  "convergence_main trace slots regime calls_per_forward =
     rbind (map_res (\<lambda>x. of_option ValueErrorInt (py_int x)) (split_on (CHR '','') slots)) (\<lambda>budgets.
     rbind (parse_regimes regime) (\<lambda>regimes.
       measure_trace trace budgets regimes DEFAULT_SEEDS calls_per_forward))"

end
