(* ===== verification/Convergence_Facts.thy ===== *)
theory Convergence_Facts
  imports Convergence Census_Plateau
begin

text \<open>
  Facts about the convergence measurement: the decile buckets as a partition of the access
  ordinals, the demanded set as the resident accesses so far, the thrash counters, and the
  rolling census.
\<close>

subsection \<open>Deciles\<close>

lemma sum_row_lengths: "sum_list (map (\<lambda>r. length (snd r)) rows) = length (row_accesses rows)"
  by (induction rows) auto

lemma bucket_lt: "o' < tot \<Longrightarrow> 0 < n \<Longrightarrow> o' * n div tot < (n :: nat)"
  by (simp add: div_less_iff_less_mult mult.commute)

text \<open>The ordinals that fall into bucket \<open>b\<close>.\<close>

definition bucket :: "nat \<Rightarrow> nat \<Rightarrow> nat \<Rightarrow> nat list" where
  "bucket n tot b = filter (\<lambda>i. i * n div tot = b) [0..<tot]"

lemma decile_fill_nth:
  assumes "0 < n" "length hs = n" "length as = n"
  shows "j + length acs \<le> tot \<Longrightarrow> b < n \<Longrightarrow>
    (case decile_fill n tot sets acs j (hs, as) of (hs', as') \<Rightarrow>
       length hs' = n \<and> length as' = n
       \<and> as' ! b = as ! b + length (filter (\<lambda>i. (j + i) * n div tot = b) [0..<length acs])
       \<and> hs' ! b = hs ! b
           + length (filter (\<lambda>i. (j + i) * n div tot = b \<and> resident sets (acs ! i)) [0..<length acs]))"
  using assms(2,3)
proof (induction acs arbitrary: j hs as)
  case Nil
  then show ?case by simp
next
  case (Cons a acs)
  obtain l e where a: "a = (l, e)" by (cases a)
  let ?b = "j * n div tot"
  let ?hs = "if e \<in> set (dict_get sets l []) then hs[?b := hs ! ?b + 1] else hs"
  let ?as = "as[?b := as ! ?b + 1]"
  have bn: "?b < n" using Cons.prems(1) assms(1) by (intro bucket_lt) auto
  have upt: "[0..<length (a # acs)] = 0 # map Suc [0..<length acs]"
    by (simp add: upt_conv_Cons map_Suc_upt del: upt_Suc)
  have IH: "case decile_fill n tot sets acs (Suc j) (?hs, ?as) of (hs', as') \<Rightarrow>
       length hs' = n \<and> length as' = n
       \<and> as' ! b = ?as ! b + length (filter (\<lambda>i. (Suc j + i) * n div tot = b) [0..<length acs])
       \<and> hs' ! b = ?hs ! b
           + length (filter (\<lambda>i. (Suc j + i) * n div tot = b \<and> resident sets (acs ! i)) [0..<length acs])"
    using Cons.prems by (intro Cons.IH) auto
  then show ?case
    unfolding upt using bn Cons.prems
    by (auto simp: a Let_def filter_map comp_def resident_def nth_list_update split: prod.splits)
qed

lemma decile_fill_bucket:
  fixes acs :: "(int \<times> int) list" and n :: nat
  assumes "0 < n" "b < n" "decile_fill n (length acs) sets acs 0 (replicate n 0, replicate n 0) = (hs, as)"
  shows "as ! b = length (bucket n (length acs) b)"
    and "hs ! b = length (filter (\<lambda>i. resident sets (acs ! i)) (bucket n (length acs) b))"
  using decile_fill_nth [of n "replicate n 0" "replicate n 0" 0 acs "length acs" b sets] assms
  by (simp_all add: bucket_def conj_commute)

lemma bucket_partition:
  assumes "0 < n" "0 < tot"
  shows "sum_list (map (\<lambda>b. length (bucket n tot b)) [0..<n]) = tot"
proof -
  have "sum_list (map (\<lambda>b. length (filter (\<lambda>i. i * n div tot = b) xs)) [0..<n]) = length xs"
    if "\<And>x. x \<in> set xs \<Longrightarrow> x < tot" for xs
    using that
  proof (induction xs)
    case Nil
    then show ?case by simp
  next
    case (Cons x xs)
    have "x * n div tot < n" using Cons.prems assms(1) by (intro bucket_lt) auto
    then have "sum_list (map (\<lambda>b. if x * n div tot = b then 1 else (0::nat)) [0..<n]) = 1"
      by (simp add: interv_sum_list_conv_sum_set_nat sum.delta)
    moreover have "(\<lambda>b. length (filter (\<lambda>i. i * n div tot = b) (x # xs)))
        = (\<lambda>b. (if x * n div tot = b then 1 else 0) + length (filter (\<lambda>i. i * n div tot = b) xs))"
      by (rule ext) simp
    ultimately show ?case using Cons by (simp only: sum_list_addf) simp
  qed
  from this [of "[0..<tot]"] show ?thesis by (simp add: bucket_def)
qed

lemma first_settled_Some:
  assumes "vals \<noteq> []" "0 \<le> eps"
  shows "\<exists>i. first_settled vals eps = Some i \<and> 1 \<le> i \<and> i \<le> length vals"
proof -
  let ?P = "\<lambda>i. list_all (\<lambda>j. \<bar>f64 (vals ! j - last vals)\<bar> \<le> eps) [i..<length vals]"
  have "[length vals - 1..<length vals] = [length vals - 1]"
    using assms(1) by (metis Suc_pred' length_greater_0_conv upt_rec less_Suc_eq upt_conv_Nil order_refl)
  then have "?P (length vals - 1)"
    using assms by (simp add: last_conv_nth f64_def fl_def)
  moreover have "length vals - 1 \<in> set [0..<length vals]" using assms(1) by simp
  ultimately have "find ?P [0..<length vals] \<noteq> None" unfolding find_None_iff by blast
  then obtain i where i: "find ?P [0..<length vals] = Some i" by blast
  then have "i < length vals" by (auto simp: find_Some_iff)
  with i show ?thesis unfolding first_settled_def by (auto simp: first_settled_def)
qed

subsection \<open>The demanded set\<close>

lemma demand_call_facts:
  assumes "distinct d"
  shows "distinct (demand_call sets c d)"
    and "set (demand_call sets c d) = set d \<union> set (filter (resident sets) (row_accesses (access_rows [c])))"
proof -
  obtain seq lk tk ids where c: "c = (seq, lk, tk, ids)" by (cases c)
  have "distinct (fold (\<lambda>e d. if e \<in> set R then List.insert (lk, e) d else d) ids d)
      \<and> set (fold (\<lambda>e d. if e \<in> set R then List.insert (lk, e) d else d) ids d)
        = set d \<union> {(lk, e) |e. e \<in> set ids \<and> e \<in> set R}" for R
    using assms by (induction ids arbitrary: d) auto
  then show "distinct (demand_call sets c d)"
    and "set (demand_call sets c d) = set d \<union> set (filter (resident sets) (row_accesses (access_rows [c])))"
    using assms by (auto simp: demand_call_def c Let_def access_rows_def resident_def)
qed

definition demanded_by :: "seed_sets \<Rightarrow> call_row list \<Rightarrow> (int \<times> int) set" where
  "demanded_by sets calls = set (filter (resident sets) (row_accesses (access_rows calls)))"

lemma demanded_by_simps [simp]:
  "demanded_by sets [] = {}"
  "demanded_by sets (c # calls)
     = set (filter (resident sets) (row_accesses (access_rows [c]))) \<union> demanded_by sets calls"
  by (auto simp: demanded_by_def access_rows_def row_accesses_def)

lemma finite_demanded_by [simp]: "finite (demanded_by sets calls)"
  by (simp add: demanded_by_def)

lemma demanded_by_append: "demanded_by sets (xs @ ys) = demanded_by sets xs \<union> demanded_by sets ys"
  by (auto simp: demanded_by_def access_rows_def row_accesses_def)

lemma demand_calls:
  "distinct d \<Longrightarrow> distinct (fold (demand_call sets) calls d)
     \<and> set (fold (demand_call sets) calls d) = set d \<union> demanded_by sets calls"
proof (induction calls arbitrary: d)
  case Nil
  then show ?case by simp
next
  case (Cons c calls)
  from Cons.IH [OF demand_call_facts(1) [OF Cons.prems]] demand_call_facts(2) [OF Cons.prems]
  show ?case by (simp add: Un_assoc)
qed

lemma length_demanded:
  "length (fold (demand_call sets) calls []) = card (demanded_by sets calls)"
  using demand_calls [of "[]" sets calls] distinct_card by fastforce

subsection \<open>Fill\<close>

lemma fill_loop_spec:
  assumes "fill_loop sets idx calls (fold (demand_call sets) ps []) n0 = (per_call, n1, d)"
  shows "d = fold (demand_call sets) (ps @ calls) []"
    and "per_call = map (\<lambda>i. (idx + i, card (demanded_by sets (ps @ take (Suc i) calls)))) [0..<length calls]"
    and "(n1 = n0 \<and> demanded_by sets (ps @ calls) = demanded_by sets ps)
       \<or> (\<exists>i < length calls. n1 = idx + i \<and> demanded_by sets (ps @ take (Suc i) calls) = demanded_by sets (ps @ calls))"
proof -
  have "d = fold (demand_call sets) (ps @ calls) []
    \<and> per_call = map (\<lambda>i. (idx + i, card (demanded_by sets (ps @ take (Suc i) calls)))) [0..<length calls]
    \<and> ((n1 = n0 \<and> demanded_by sets (ps @ calls) = demanded_by sets ps)
       \<or> (\<exists>i < length calls. n1 = idx + i
            \<and> demanded_by sets (ps @ take (Suc i) calls) = demanded_by sets (ps @ calls)))"
    using assms
  proof (induction calls arbitrary: ps idx n0 per_call n1 d)
    case Nil
    then show ?case by simp
  next
    case (Cons c calls)
    let ?d = "fold (demand_call sets) ps []"
    let ?d' = "fold (demand_call sets) (ps @ [c]) []"
    let ?n0 = "if length ?d < length ?d' then idx else n0"
    obtain per where rest: "fill_loop sets (Suc idx) calls ?d' ?n0 = (per, n1, d)"
      and per: "per_call = (idx, length ?d') # per"
      using Cons.prems by (auto simp: Let_def split: prod.splits)
    have upt: "[0..<length (c # calls)] = 0 # map Suc [0..<length calls]"
      by (simp add: upt_conv_Cons map_Suc_upt del: upt_Suc)
    note IH = Cons.IH [OF rest]
    have same: "demanded_by sets (ps @ [c]) = demanded_by sets ps" if "\<not> length ?d < length ?d'"
    proof -
      have "demanded_by sets ps \<subseteq> demanded_by sets (ps @ [c])" by (auto simp: demanded_by_append)
      moreover have "card (demanded_by sets (ps @ [c])) \<le> card (demanded_by sets ps)"
        using that by (simp only: length_demanded not_less)
      ultimately show ?thesis by (intro sym [OF card_seteq]) auto
    qed
    have last: "(n1 = n0 \<and> demanded_by sets (ps @ c # calls) = demanded_by sets ps)
       \<or> (\<exists>i < length (c # calls). n1 = idx + i
            \<and> demanded_by sets (ps @ take (Suc i) (c # calls)) = demanded_by sets (ps @ c # calls))"
    proof -
      from IH consider
        (old) "n1 = ?n0" "demanded_by sets ((ps @ [c]) @ calls) = demanded_by sets (ps @ [c])"
        | (new) i where "i < length calls" "n1 = Suc idx + i"
          "demanded_by sets ((ps @ [c]) @ take (Suc i) calls) = demanded_by sets ((ps @ [c]) @ calls)"
        by blast
      then show ?thesis
      proof cases
        case old
        then show ?thesis
          using same by (cases "length ?d < length ?d'") (auto intro!: exI [of _ 0])
      next
        case new
        then show ?thesis by (intro disjI2 exI [of _ "Suc i"]) simp
      qed
    qed
    have "length ?d' = card (demanded_by sets (ps @ [c]))" by (rule length_demanded)
    with IH last show ?case unfolding upt by (simp add: per comp_def)
  qed
  then show "d = fold (demand_call sets) (ps @ calls) []"
    and "per_call = map (\<lambda>i. (idx + i, card (demanded_by sets (ps @ take (Suc i) calls)))) [0..<length calls]"
    and "(n1 = n0 \<and> demanded_by sets (ps @ calls) = demanded_by sets ps)
       \<or> (\<exists>i < length calls. n1 = idx + i \<and> demanded_by sets (ps @ take (Suc i) calls) = demanded_by sets (ps @ calls))"
    by blast+
qed

lemma demanded_by_take_mono: "i \<le> j \<Longrightarrow> demanded_by sets (take i calls) \<subseteq> demanded_by sets (take j calls)"
  by (metis demanded_by_append le_iff_add sup_ge1 take_add)

lemma demanded_by_take_subset: "demanded_by sets (take i calls) \<subseteq> demanded_by sets calls"
  by (metis append_take_drop_id demanded_by_append sup_ge1)

lemma resident_pinned:
  assumes "resident sets a"
  shows "a \<in> set (concat (map (\<lambda>(l, es). map (Pair l) es) sets))"
proof -
  obtain l e where a: "a = (l, e)" by (cases a)
  obtain es where "map_of sets l = Some es" "e \<in> set es"
    using assms by (cases "map_of sets l") (auto simp: a resident_def dict_get_def)
  then have "(l, es) \<in> set sets" by (auto dest: map_of_SomeD)
  with \<open>e \<in> set es\<close> show ?thesis by (force simp: a)
qed

lemma demanded_by_pinned: "card (demanded_by sets calls) \<le> pinned_total sets"
proof -
  have "demanded_by sets calls \<subseteq> set (concat (map (\<lambda>(l, es). map (Pair l) es) sets))"
    using resident_pinned by (force simp: demanded_by_def)
  then have "card (demanded_by sets calls) \<le> card (set (concat (map (\<lambda>(l, es). map (Pair l) es) sets)))"
    by (intro card_mono List.finite_set)
  also have "\<dots> \<le> length (concat (map (\<lambda>(l, es). map (Pair l) es) sets))" by (rule card_length)
  also have "\<dots> = pinned_total sets"
    by (simp add: pinned_total_def length_concat comp_def case_prod_unfold)
  finally show ?thesis .
qed

subsection \<open>Probe\<close>

lemma probe_loop_spec:
  assumes "probe_loop sets blocks (fold (demand_call sets) ps []) = (deltas, d)"
  shows "d = fold (demand_call sets) (ps @ concat blocks) []
    \<and> deltas = map (\<lambda>i. int (card (demanded_by sets (ps @ concat (take (Suc i) blocks))))
                     - int (card (demanded_by sets (ps @ concat (take i blocks))))) [0..<length blocks]"
  using assms
proof (induction blocks arbitrary: ps deltas d)
  case Nil
  then show ?case by simp
next
  case (Cons b blocks)
  let ?d' = "fold (demand_call sets) (ps @ b) []"
  obtain ds where rest: "probe_loop sets blocks ?d' = (ds, d)"
    and ds: "deltas = (int (length ?d') - int (length (fold (demand_call sets) ps []))) # ds"
    using Cons.prems by (auto simp: Let_def split: prod.splits)
  have upt: "[0..<length (b # blocks)] = 0 # map Suc [0..<length blocks]"
    by (simp add: upt_conv_Cons map_Suc_upt del: upt_Suc)
  have "length ?d' = card (demanded_by sets (ps @ b))"
    "length (fold (demand_call sets) ps []) = card (demanded_by sets ps)" by (rule length_demanded)+
  with Cons.IH [OF rest] show ?case unfolding upt by (simp add: ds comp_def del: fold_append)
qed

subsection \<open>Thrash\<close>

text \<open>Evicting before inserting is the same table as inserting before evicting.\<close>

interpretation thrash: layered_lru "\<lambda>e c. case thrash_touch slots e c of (hit, evicted, c') \<Rightarrow> (hit, c')"
  "nat slots" for slots :: int
proof
  fix e :: int and c
  show "e \<in> set c \<Longrightarrow> (case thrash_touch slots e c of (hit, evicted, c') \<Rightarrow> (hit, c')) = (True, remove1 e c @ [e])"
    by (simp add: thrash_touch_def)
  assume c: "e \<notin> set c" "distinct c" "length c \<le> nat slots"
  show "(case thrash_touch slots e c of (hit, evicted, c') \<Rightarrow> (hit, c')) = (False, lastn (nat slots) (c @ [e]))"
  proof (cases "slots \<le> int (length c)")
    case True
    with c have "nat slots = length c" by linarith
    with True c show ?thesis by (cases c) (auto simp: thrash_touch_def lastn_def)
  next
    case False
    with c show ?thesis by (auto simp: thrash_touch_def lastn_def)
  qed
qed

lemma length_move_to_end: "e \<in> set c \<Longrightarrow> length (remove1 e c @ [e]) = length c"
  using length_pos_if_in_set [of e c] by (simp add: length_remove1)

abbreviation thrash_step :: "int \<Rightarrow> int \<Rightarrow> int list \<Rightarrow> bool \<times> int list" where
  "thrash_step slots e c \<equiv> case thrash_touch slots e c of (hit, evicted, c') \<Rightarrow> (hit, c')"

lemma thrash_ids_run:
  assumes "thrash_ids slots es (c, h, ev, a) = (c', h', ev', a')"
  shows "run_cache (thrash_step slots) es (c, h, a) = (c', h', a')"
  using assms
  by (induction es arbitrary: c h ev a) (auto simp: Let_def split: prod.splits)

lemma thrash_loop_run:
  "\<exists>caches. run_layers (thrash_step slots) rows (th_caches st, th_hits st, th_acc st)
     = (caches, th_hits (thrash_loop slots rows st), th_acc (thrash_loop slots rows st))
   \<and> caches = th_caches (thrash_loop slots rows st)"
proof (induction rows arbitrary: st)
  case Nil
  then show ?case by simp
next
  case (Cons r rows)
  obtain lk ids where r: "r = (lk, ids)" by (cases r)
  obtain c h ev a where t: "thrash_ids slots ids (dict_get (th_caches st) lk [], th_hits st, th_evictions st, th_acc st)
      = (c, h, ev, a)" by (metis surj_pair)
  show ?case
    using Cons.IH [of "\<lparr>th_caches = AList.update lk c (th_caches st), th_hits = h, th_evictions = ev,
        th_acc = a, th_calls = th_calls st + 1\<rparr>"]
    by (simp add: r t thrash_ids_run [OF t])
qed

text \<open>Every access hits, evicts, or fills a slot.\<close>

lemma thrash_ids_balance:
  assumes "0 < slots" "thrash_ids slots es (c, h, ev, a) = (c', h', ev', a')"
  shows "h' + ev' + length c' + a = h + ev + length c + a'"
  using assms(2)
proof (induction es arbitrary: c h ev a)
  case Nil
  then show ?case by simp
next
  case (Cons e es)
  obtain hit evicted c1 where t: "thrash_touch slots e c = (hit, evicted, c1)" by (metis prod_cases3)
  have "(if hit then 1 else 0) + (if evicted then 1 else 0) + length c1 = length c + (1 :: nat)"
    using t assms(1) length_move_to_end [of e c] by (cases c) (auto simp: thrash_touch_def split: if_splits)
  moreover from Cons.prems have "thrash_ids slots es (c1, if hit then h + 1 else h, if evicted then ev + 1 else ev, a + 1)
      = (c', h', ev', a')" by (simp add: t)
  from Cons.IH [OF this] have "h' + ev' + length c' + (a + 1)
      = (if hit then h + 1 else h) + (if evicted then ev + 1 else ev) + length c1 + a'" .
  ultimately show ?case by (auto split: if_splits)
qed

definition resident_cells :: "(int, int list) dict \<Rightarrow> nat" where
  "resident_cells caches = sum_list (map (length \<circ> snd) caches)"

lemma resident_cells_update:
  "distinct (map fst d) \<Longrightarrow> resident_cells (AList.update k v d) + length (dict_get d k []) = resident_cells d + length v"
proof (induction d)
  case Nil
  then show ?case by (simp add: resident_cells_def)
next
  case (Cons kv d)
  then show ?case by (cases kv) (auto simp: resident_cells_def dict_get_def)
qed

lemma thrash_loop_balance:
  assumes "0 < slots"
  shows "distinct (map fst (th_caches st)) \<Longrightarrow>
    th_hits (thrash_loop slots rows st) + th_evictions (thrash_loop slots rows st)
      + resident_cells (th_caches (thrash_loop slots rows st)) + th_acc st
    = th_hits st + th_evictions st + resident_cells (th_caches st) + th_acc (thrash_loop slots rows st)
    \<and> th_calls (thrash_loop slots rows st) = th_calls st + length rows"
proof (induction rows arbitrary: st)
  case Nil
  then show ?case by simp
next
  case (Cons r rows)
  obtain lk ids where r: "r = (lk, ids)" by (cases r)
  obtain c h ev a where t: "thrash_ids slots ids (dict_get (th_caches st) lk [], th_hits st, th_evictions st, th_acc st)
      = (c, h, ev, a)" by (metis surj_pair)
  let ?st = "\<lparr>th_caches = AList.update lk c (th_caches st), th_hits = h, th_evictions = ev,
        th_acc = a, th_calls = th_calls st + 1\<rparr>"
  have "distinct (map fst (th_caches ?st))" using Cons.prems by (simp add: distinct_update)
  from Cons.IH [OF this] thrash_ids_balance [OF assms t] resident_cells_update [OF Cons.prems, of lk c]
  show ?case by (simp add: r t)
qed

subsection \<open>The rolling census\<close>

fun first_unchanged :: "(nat \<times> seed_sets) list \<Rightarrow> nat option" where
  "first_unchanged (p # q # ps) =
     (if layers_changed (snd p) (snd q) = 0 then Some (fst p) else first_unchanged (q # ps))"
| "first_unchanged ps = None"

definition prefix_seed :: "call_row list \<Rightarrow> int \<Rightarrow> nat \<Rightarrow> nat \<times> seed_sets" where
  "prefix_seed calls slots L = (L, static_sets_frequency (census_from_calls (take L calls) 0 None) slots)"

definition rolling_looking :: "nat \<times> seed_sets \<Rightarrow> rolling_state \<Rightarrow> bool" where
  "rolling_looking p st = (ro_plateau_at st = None \<and> ro_prev st = Some (snd p) \<and> ro_stable st = 0
     \<and> ro_series st \<noteq> [] \<and> fst (last (ro_series st)) = fst p)"

lemma rolling_found_stays:
  "ro_plateau_at st = Some t \<Longrightarrow> ro_plateau_at (fold (rolling_step calls slots) Ls st) = Some t"
  by (induction Ls arbitrary: st) (auto simp: rolling_step_def Let_def)

lemma rolling_step_looking:
  assumes "rolling_looking p st"
  shows "if layers_changed (snd p) (snd (prefix_seed calls slots L)) = 0
         then ro_plateau_at (rolling_step calls slots L st) = Some (fst p)
         else rolling_looking (prefix_seed calls slots L) (rolling_step calls slots L st)"
proof -
  have ne: "ro_series st \<noteq> []" using assms by (simp add: rolling_looking_def)
  then have "(ro_series st @ [x]) ! (length (ro_series st @ [x]) - 2) = last (ro_series st)" for x
    by (cases "ro_series st" rule: rev_cases) (simp_all add: nth_append)
  with assms ne show ?thesis
    by (auto simp: rolling_looking_def rolling_step_def prefix_seed_def Let_def Suc_le_eq nth_append last_conv_nth)
qed

lemma rolling_run_looking:
  "rolling_looking p st \<Longrightarrow> ro_plateau_at (fold (rolling_step calls slots) Ls st)
     = first_unchanged (p # map (prefix_seed calls slots) Ls)"
proof (induction Ls arbitrary: p st)
  case Nil
  then show ?case by (simp add: rolling_looking_def)
next
  case (Cons L Ls)
  show ?case
    using rolling_step_looking [OF Cons.prems, of calls slots L] Cons.IH rolling_found_stays
    by (auto simp: prefix_seed_def split: if_splits)
qed

lemma rolling_run_first:
  "ro_plateau_at (fold (rolling_step calls slots) Ls rolling_init) = first_unchanged (map (prefix_seed calls slots) Ls)"
proof (cases Ls)
  case Nil
  then show ?thesis by (simp add: rolling_init_def)
next
  case (Cons L Ls')
  have "rolling_looking (prefix_seed calls slots L) (rolling_step calls slots L rolling_init)"
    by (simp add: rolling_looking_def rolling_step_def rolling_init_def prefix_seed_def Let_def)
  from rolling_run_looking [OF this] show ?thesis by (simp add: Cons)
qed

end
