(* ===== verification/Convergence_Properties.thy ===== *)
theory Convergence_Properties
  imports Convergence_Facts Census_Formats
begin

text \<open>
  The properties of the convergence measurement.
\<close>

text \<open>
  The decile series partitions the accesses: it has \<open>n\<close> points, the \<open>i\<close>-th counts
  exactly the access ordinals that fall into the \<open>i\<close>-th bucket, the counts add up to the
  number of accesses, and early and tail are hit rates between zero and one.
\<close>

theorem decile_partition:
  assumes "decile_hit rows sets n eps = Inr rep" and "row_accesses rows \<noteq> []"
  shows "length (de_series rep) = nat n
    \<and> map (\<lambda>(d, pct, acc). acc) (de_series rep) = map (\<lambda>b. length (bucket (nat n) (length (row_accesses rows)) b)) [0..<nat n]
    \<and> sum_list (map (\<lambda>(d, pct, acc). acc) (de_series rep)) = de_accesses rep
    \<and> de_accesses rep = length (row_accesses rows)
    \<and> 0 \<le> de_early rep \<and> de_early rep \<le> 1 \<and> 0 \<le> de_tail rep \<and> de_tail rep \<le> 1"
proof -
  let ?acs = "row_accesses rows"
  obtain hs as where fill: "decile_fill (nat n) (length ?acs) sets ?acs 0 (replicate (nat n) 0, replicate (nat n) 0) = (hs, as)"
    by fastforce
  define vals where "vals = map (\<lambda>i. rate (hs ! i) (as ! i)) [0..<nat n]"
  have n: "2 \<le> n" using assms(1) by (auto simp: decile_hit_def split: if_splits)
  have rep: "de_series rep = map (\<lambda>i. (i + 1, f64 (vals ! i * 100), as ! i)) [0..<nat n]"
    "de_accesses rep = length ?acs" "de_early rep = hd vals" "de_tail rep = last vals"
    using assms n by (auto simp: decile_hit_def sum_row_lengths fill vals_def Let_def split: if_splits)
  have b: "as ! b = length (bucket (nat n) (length ?acs) b)" "hs ! b \<le> as ! b" if "b < nat n" for b
    using decile_fill_bucket [OF _ that fill] n by (simp_all add: length_filter_le)
  have acc: "map (\<lambda>(d, pct, acc). acc) (de_series rep) = map (\<lambda>b. length (bucket (nat n) (length ?acs) b)) [0..<nat n]"
    by (simp add: rep(1) b(1))
  have "sum_list (map (\<lambda>(d, pct, acc). acc) (de_series rep)) = length ?acs"
    unfolding acc by (rule bucket_partition) (use n assms(2) in auto)
  moreover have "length (de_series rep) = nat n" by (simp add: rep(1))
  moreover have "0 \<le> v \<and> v \<le> 1" if "v \<in> set vals" for v
    using that b(2) by (auto simp: vals_def rate_unit)
  moreover have "vals \<noteq> []" using n by (simp add: vals_def)
  ultimately show ?thesis using acc rep(2-4) by simp
qed

theorem decile_partition_witness:
  "\<exists>rep. decile_hit [(7, [3, 1, 3])] [(7, [3])] 2 (1 / 100) = Inr rep
    \<and> sum_list (map (\<lambda>(d, pct, acc). acc) (de_series rep)) = 3"
proof -
  have "\<exists>rep. decile_hit [(7, [3, 1, 3])] [(7, [3])] 2 (1 / 100) = Inr rep"
    by (simp add: decile_hit_def Let_def case_prod_unfold)
  then obtain rep where r: "decile_hit [(7, [3, 1, 3])] [(7, [3])] 2 (1 / 100) = Inr rep" ..
  from decile_partition [OF r] r show ?thesis by (auto simp: row_accesses_def)
qed

text \<open>
  On a non-empty trace the series always settles: \<open>convergence_decile\<close> is a decile between
  one and \<open>n\<close> for every non-negative tolerance, so "never settles" is only reported for a trace
  without accesses.
\<close>

theorem convergence_decile_exists:
  assumes "decile_hit rows sets n eps = Inr rep" and "row_accesses rows \<noteq> []" and "0 \<le> eps"
  shows "\<exists>d. de_convergence rep = Some d \<and> 1 \<le> d \<and> d \<le> nat n"
proof -
  have "2 \<le> n" using assms(1) by (auto simp: decile_hit_def split: if_splits)
  then obtain vals where "de_convergence rep = first_settled vals eps" "length vals = nat n" "vals \<noteq> []"
    using assms(1,2) by (auto simp: decile_hit_def sum_row_lengths Let_def case_prod_unfold split: if_splits)
  with first_settled_Some [OF _ assms(3), of vals] show ?thesis by auto
qed

theorem convergence_decile_exists_witness:
  "\<exists>rep d. decile_hit [(7, [3, 1, 3])] [(7, [3])] 2 (1 / 100) = Inr rep \<and> de_convergence rep = Some d"
proof -
  have "\<exists>rep. decile_hit [(7, [3, 1, 3])] [(7, [3])] 2 (1 / 100) = Inr rep"
    by (simp add: decile_hit_def Let_def case_prod_unfold)
  then obtain rep where r: "decile_hit [(7, [3, 1, 3])] [(7, [3])] 2 (1 / 100) = Inr rep" ..
  from convergence_decile_exists [OF r] r show ?thesis by (auto simp: row_accesses_def)
qed

text \<open>
  The fill curve is what its fields say. It never falls; its end is the number of distinct
  pinned (layer, expert) cells the calls demanded, which is at most the number of pinned cells;
  and from \<open>calls_to_last_new\<close> on it is constant.
\<close>

theorem fill_curve_spec:
  assumes "pinned_total sets \<noteq> 0"
  shows "fi_monotone (fill_curve calls sets)
    \<and> fi_at_end (fill_curve calls sets) = card (demanded_by sets calls)
    \<and> fi_at_end (fill_curve calls sets) \<le> fi_total (fill_curve calls sets)
    \<and> map fst (fi_per_call (fill_curve calls sets)) = [0..<length calls]
    \<and> (\<forall>i k. (i, k) \<in> set (fi_per_call (fill_curve calls sets)) \<and> fi_last_new (fill_curve calls sets) \<le> i
         \<longrightarrow> k = fi_at_end (fill_curve calls sets))"
proof -
  let ?f = "\<lambda>i. demanded_by sets (take i calls)"
  obtain per n1 d where loop: "fill_loop sets 0 calls [] 0 = (per, n1, d)" by (metis surj_pair)
  have spec: "d = fold (demand_call sets) calls []"
    "per = map (\<lambda>i. (i, card (?f (Suc i)))) [0..<length calls]"
    "(n1 = 0 \<and> demanded_by sets calls = {}) \<or> (\<exists>i < length calls. n1 = i \<and> ?f (Suc i) = demanded_by sets calls)"
    using fill_loop_spec [of sets 0 calls "[]" 0 per n1 d] loop by simp_all
  have mono: "card (?f i) \<le> card (?f j)" if "i \<le> j" for i j
    using demanded_by_take_mono [OF that] by (intro card_mono) auto
  have le: "card (?f i) \<le> card (demanded_by sets calls)" for i
    using demanded_by_take_subset by (intro card_mono) auto
  have fc: "fi_per_call (fill_curve calls sets) = per" "fi_last_new (fill_curve calls sets) = n1"
    "fi_at_end (fill_curve calls sets) = length d" "fi_total (fill_curve calls sets) = pinned_total sets"
    "fi_monotone (fill_curve calls sets) = list_all (\<lambda>i. snd (per ! (i - 1)) \<le> snd (per ! i)) [1..<length per]"
    using assms loop by (simp_all add: fill_curve_def Let_def)
  have settled: "card (?f (Suc i)) = card (demanded_by sets calls)" if "n1 \<le> i" for i
  proof (rule antisym [OF le])
    from spec(3) show "card (demanded_by sets calls) \<le> card (?f (Suc i))"
      using mono [of "Suc n1" "Suc i"] that by auto
  qed
  have "list_all (\<lambda>i. snd (per ! (i - 1)) \<le> snd (per ! i)) [1..<length per]"
    using mono by (auto simp: spec(2) list_all_iff)
  moreover have "length d = card (demanded_by sets calls)" unfolding spec(1) by (rule length_demanded)
  ultimately show ?thesis
    unfolding fc using demanded_by_pinned [of sets calls] settled by (auto simp: spec(2) comp_def)
qed

theorem fill_curve_spec_witness:
  "fi_at_end (fill_curve [(0, 7, 2, [3, 1]), (1, 7, 1, [3])] [(7, [3, 4])])
     = card (demanded_by [(7, [3, 4])] [(0, 7, 2, [3, 1]), (1, 7, 1, [3])])"
  using fill_curve_spec [of "[(7, [3, 4])]" "[(0, 7, 2, [3, 1]), (1, 7, 1, [3])]"]
  by (simp add: pinned_total_def)

text \<open>
  The plateau probe does not depend on how the calls are grouped into forwards: its deltas
  are non-negative and add up to the number of distinct pinned cells demanded, the end of the
  fill curve. A reported plateau means that the last two forwards demanded no new cell: the
  calls before them had already demanded everything.
\<close>

theorem probe_plateau_spec:
  assumes "probe_plateau calls sets k = Inr rep"
  shows "sum_list (pb_deltas rep) = int (pb_filled rep)
    \<and> pb_filled rep = card (demanded_by sets calls)
    \<and> list_all (\<lambda>d. 0 \<le> d) (pb_deltas rep)
    \<and> (pb_plateau rep \<longrightarrow> demanded_by sets (take (nat k * (pb_forwards rep - 2)) calls) = demanded_by sets calls)"
proof -
  let ?bs = "chunks (nat k) calls"
  let ?f = "\<lambda>i. demanded_by sets (concat (take i ?bs))"
  let ?c = "\<lambda>i. int (card (?f i))"
  have k: "0 < nat k" using assms by (auto simp: probe_plateau_def split: if_splits)
  obtain deltas d where loop: "probe_loop sets ?bs [] = (deltas, d)" by fastforce
  have d: "d = fold (demand_call sets) calls []" and deltas: "deltas = map (\<lambda>i. ?c (Suc i) - ?c i) [0..<length ?bs]"
    using probe_loop_spec [of sets ?bs "[]" deltas d] loop k by (simp_all add: concat_chunks)
  have rep: "pb_deltas rep = deltas" "pb_filled rep = length d" "pb_forwards rep = length ?bs"
    "pb_plateau rep = (2 \<le> length deltas \<and> last deltas = 0 \<and> last (butlast deltas) = 0)"
    using assms k loop deltas by (auto simp: probe_plateau_def split: if_splits)
  have mono: "?f i \<subseteq> ?f j" if "i \<le> j" for i j
    using that by (metis concat_append demanded_by_append le_iff_add sup_ge1 take_add)
  then have nonneg: "?c i \<le> ?c (Suc i)" for i by (simp add: card_mono)
  have "sum_list (map (\<lambda>i. ?c (Suc i) - ?c i) [0..<m]) = ?c m - ?c 0" for m
    by (induction m) simp_all
  then have sum: "sum_list deltas = int (card (demanded_by sets calls))"
    using k by (simp add: deltas concat_chunks)
  have same: "?f i = ?f (Suc i)" if "?c (Suc i) - ?c i = 0" for i
    using that mono [of i "Suc i"] by (intro card_seteq) auto
  have "demanded_by sets (take (nat k * (length ?bs - 2)) calls) = demanded_by sets calls" if "pb_plateau rep"
  proof -
    have "length deltas = length ?bs" by (simp add: deltas)
    moreover have "2 \<le> length deltas" using that rep(4) by (simp only: simp_thms)
    ultimately obtain m where m: "length ?bs = Suc (Suc m)"
      by (metis add_2_eq_Suc le_Suc_ex)
    have "?c (Suc (Suc m)) - ?c (Suc m) = 0" "?c (Suc m) - ?c m = 0"
      using that rep(4) by (simp_all add: deltas m butlast_append)
    from same [OF this(1)] same [OF this(2)] have "?f m = ?f (length ?bs)" by (simp only: m)
    moreover have "concat (take m ?bs) = take (nat k * m) calls"
      by (rule concat_take_chunks) (use k m in simp_all)
    moreover have "length ?bs - 2 = m" by (simp add: m)
    ultimately show ?thesis using k by (simp add: concat_chunks)
  qed
  with rep sum nonneg show ?thesis
    using length_demanded [of sets calls] by (simp add: d) (auto simp: deltas list_all_iff)
qed

theorem probe_plateau_spec_witness:
  "\<exists>rep. probe_plateau [(0, 7, 1, [3]), (1, 7, 1, [3]), (2, 7, 1, [3])] [(7, [3])] 1 = Inr rep
    \<and> sum_list (pb_deltas rep) = int (pb_filled rep)"
proof -
  have "\<exists>rep. probe_plateau [(0, 7, 1, [3]), (1, 7, 1, [3]), (2, 7, 1, [3])] [(7, [3])] 1 = Inr rep"
    by (simp add: probe_plateau_def case_prod_unfold Let_def)
  then obtain rep where r: "probe_plateau [(0, 7, 1, [3]), (1, 7, 1, [3]), (2, 7, 1, [3])] [(7, [3])] 1 = Inr rep" ..
  from probe_plateau_spec [OF r] r show ?thesis by blast
qed

text \<open>
  The thrash comparand is the same LRU as the other two: it evicts before it inserts where
  they insert before they evict, and counts the same hits. With at least one slot every access
  is a hit, an eviction, or the filling of a slot that is still resident at the end.
\<close>

theorem lru_thrash_spec:
  assumes "lru_thrash rows slots = Inr rep"
  shows "tr_hits rep = fst (snd (lru_hit_rate rows slots))
    \<and> tr_accesses rep = snd (snd (lru_hit_rate rows slots))
    \<and> tr_calls rep = length rows
    \<and> (0 < slots \<longrightarrow> tr_hits rep + tr_evictions rep
          + resident_cells (th_caches (thrash_loop slots rows thrash_init)) = tr_accesses rep)"
proof -
  let ?st = "thrash_loop slots rows thrash_init"
  have rep: "tr_hits rep = th_hits ?st" "tr_accesses rep = th_acc ?st" "tr_calls rep = th_calls ?st"
    "tr_evictions rep = th_evictions ?st"
    using assms by (auto simp: lru_thrash_def Let_def split: if_splits)
  have "th_hits ?st = layered_hits (nat slots) (\<lambda>_. []) (row_accesses rows)" "th_acc ?st = length (row_accesses rows)"
    using thrash_loop_run [of slots rows thrash_init] thrash.run_layers_empty [of slots rows]
    by (auto simp: thrash_init_def)
  moreover have "th_calls (thrash_loop slots rows st) = th_calls st + length rows" for st
    by (induction rows arbitrary: st) (auto simp: Let_def split: prod.splits)
  from this [of thrash_init] have "th_calls ?st = length rows" by (simp add: thrash_init_def)
  moreover have "th_hits ?st + th_evictions ?st + resident_cells (th_caches ?st) = th_acc ?st" if "0 < slots"
    using thrash_loop_balance [OF that, of thrash_init rows] by (simp add: thrash_init_def resident_cells_def)
  ultimately show ?thesis by (simp add: rep lru_hit_rate_eq)
qed

theorem lru_thrash_spec_witness:
  "\<exists>rep. lru_thrash [(7, [3, 1, 3])] 1 = Inr rep \<and> tr_hits rep = fst (snd (lru_hit_rate [(7, [3, 1, 3])] 1))"
proof -
  have "\<exists>rep. lru_thrash [(7, [3, 1, 3])] 1 = Inr rep" by (simp add: lru_thrash_def Let_def)
  then obtain rep where r: "lru_thrash [(7, [3, 1, 3])] 1 = Inr rep" ..
  from lru_thrash_spec [OF r] r show ?thesis by blast
qed

text \<open>
  The rolling census reports the first prefix of the calls whose seed the next prefix keeps
  in every layer, and none when no prefix does; a budget of zero or below is refused, since an
  always-empty seed would look settled.
\<close>

theorem rolling_prefix_series_spec:
  "rolling_prefix_series calls slots n_points =
     (if slots \<le> 0 then Inl NotPositive
      else if calls = [] then Inr \<lparr>rp_series = [], rp_rounds = None, rp_plateau = False\<rparr>
      else Inr \<lparr>rp_series = ro_series (fold (rolling_step calls slots) (rolling_lengths (length calls) n_points) rolling_init),
                rp_rounds = first_unchanged (map (prefix_seed calls slots) (rolling_lengths (length calls) n_points)),
                rp_plateau = (first_unchanged (map (prefix_seed calls slots) (rolling_lengths (length calls) n_points)) \<noteq> None)\<rparr>)"
  by (simp add: rolling_prefix_series_def Let_def rolling_run_first)

subsection \<open>A format-v1 trace is not recognised\<close>

text \<open>
  The reader of the measurement is the call-trace reader. On the rows of a format-v1 trace with
  at least two experts it does not refuse: the first expert is taken for \<open>top_k\<close>.
\<close>

definition misread :: "trace_row \<Rightarrow> call_row" where
  "misread r = (case r of (tok, lay, es) \<Rightarrow> (tok, lay, hd es, tl es))"

definition wide_row :: "trace_row \<Rightarrow> bool" where
  "wide_row r = (good_row r \<and> 2 \<le> length (snd (snd r)))"

lemma parse_call_row_of_trace_row:
  assumes "wide_row r"
  shows "parse_call_row strict n (render_row r) = Inr (Some (misread r))"
proof -
  obtain tok lay e e' es where r: "r = (tok, lay, e # e' # es)"
    using assms by (cases r; cases "snd (snd r)"; cases "tl (snd (snd r))") (auto simp: wide_row_def)
  have nn: "0 \<le> tok" "0 \<le> lay" "0 \<le> e" "0 \<le> e'" "list_all (\<lambda>e. 0 \<le> e) es"
    using assms by (simp_all add: wide_row_def good_row_def r)
  let ?xs = "tok # lay # e # e' # es"
  have line: "render_row r = join '' '' (map py_str ?xs)" by (simp add: render_row_def r)
  have s: "strip (render_row r) = render_row r"
    unfolding line by (simp add: text_simps del: list.map)
  have sp: "split_ws (render_row r) = map py_str ?xs"
    unfolding line by (rule split_ws_join) (rule tokens_py_str)
  have plain: "render_row r \<noteq> []" "\<not> startswith (render_row r) ''#''"
    unfolding line by (rule join_py_str_plain, simp)+
  have "\<not> list_ex (\<lambda>x. x < 0) (e' # es)" using nn by (auto simp: list_ex_iff list_all_iff)
  then show ?thesis
    using s sp plain nn ints_py_str [of "e' # es"]
    by (simp add: parse_call_row_def misread_def r text_simps del: ints.simps)
qed

interpretation v1_as_calls: row_format
  "scan_lines (parse_call_row strict)" "\<lambda>r. (#) (misread r)" render_row wide_row is_comment
  for strict
proof
  show "is_comment l \<Longrightarrow> scan_lines (parse_call_row strict) n (l # ls)
      = scan_lines (parse_call_row strict) (Suc n) ls" for l n ls
    using strip_comment [of l]
    by (cases "scan_lines (parse_call_row strict) (Suc n) ls") (simp_all add: parse_call_row_def)
  show "wide_row x \<Longrightarrow> scan_lines (parse_call_row strict) n (render_row x # ls)
      = rbind (scan_lines (parse_call_row strict) (Suc n) ls) (\<lambda>r. Inr (misread x # r))" for x n ls
    by (simp add: parse_call_row_of_trace_row)
qed

text \<open>
  The measurement reads a format-v1 trace as something else. Its documentation accepts
  either format, but it has one reader: every v1 file whose rows route at least two experts is
  accepted without a refusal, with the first expert of each row dropped from the accesses and
  used as \<open>top_k\<close>.
\<close>

theorem v1_trace_misread:
  assumes "list_all is_comment hs" "list_all one_line hs" "hs \<noteq> []" "list_all wide_row rows"
  shows "parse_call_trace (text_of (hs @ map render_row rows)) True = Inr (map misread rows)"
proof -
  have "list_all one_line (hs @ map render_row rows)"
    using assms(2) by (auto simp: list_all_iff render_row_one_line)
  then have "file_lines (text_of (hs @ map render_row rows)) = hs @ map render_row rows"
    using assms(3) by (simp add: text_of_def file_lines_join)
  moreover have "scan_lines (parse_call_row True) 1 (hs @ map render_row rows @ [])
      = Inr (foldr (\<lambda>r. (#) (misread r)) rows [])"
    by (rule v1_as_calls.scan_file) (use assms in auto)
  moreover have "foldr (\<lambda>r. (#) (misread r)) rows [] = map misread rows" by (induction rows) auto
  ultimately show ?thesis by (simp add: parse_call_trace_def)
qed

theorem v1_trace_misread_witness:
  "parse_call_trace (text_of ([''# arcint routing trace v1''] @ map render_row [(0, 3, [1, 2])])) True
     = Inr (map misread [(0, 3, [1, 2])])"
  by (rule v1_trace_misread) (simp_all add: is_comment_def one_line_def wide_row_def good_row_def)

end
