(* ===== verification/Expert_Quant.thy ===== *)
theory Expert_Quant
  imports Prelude Py_Float "HOL-Library.Word"
begin

unbundle bit_operations_syntax

text \<open>
  The u4 code of \<open>tools/q4e/expert_fill.py\<close>: packing two codes per byte, the unpacking of the
  serving engine, and the grouped affine quantiser with its dequantiser.

  A float32 or float64 value is the rational it denotes, and every operation of the source is
  followed by the rounding of its type, \<open>f32\<close> or \<open>f64\<close>. Infinities and NaN are outside the
  model: on finite float32 inputs no operation of the quantiser overflows, because the range of
  a group is formed in float64 and every scale is at most the largest input.

  The second half of the theory bounds the error of the quantiser including all of its
  roundings: a decoded value lies within \<open>1/2 + 2 powi -16\<close> steps of the original.
\<close>

subsection \<open>Packing\<close>

definition U4_LEVELS :: int where "U4_LEVELS = 16"
definition U4_STEPS :: int where "U4_STEPS = U4_LEVELS - 1"

text \<open>\<open>q[0::2] | (q[1::2] << 4)\<close> on bytes.\<close>

fun pack_pairs :: "int list \<Rightarrow> 8 word list" where
  "pack_pairs (a # b # q) = (word_of_int a OR push_bit 4 (word_of_int b)) # pack_pairs q"
| "pack_pairs _ = []"

definition pack_u4 :: "int list \<Rightarrow> 8 word list res" where
  "pack_u4 q =
     (if odd (length q) then Inl OddCodeCount
      else if q = [] then Inl ValueErr
      else if \<not> (0 \<le> Min (set q) \<and> Max (set q) \<le> 15) then Inl CodeOutOfRange
      else Inr (pack_pairs q))"

definition nibble :: "8 word list \<Rightarrow> nat \<Rightarrow> 8 word" where
  "nibble buf i = drop_bit ((i mod 2) * 4) (buf ! (i div 2)) AND 0xF"

definition unpack_u4 :: "8 word list \<Rightarrow> int \<Rightarrow> 8 word list res" where
  "unpack_u4 buf n =
     (if 2 * int (length buf) < n then Inl IndexError
      else Inr (map (nibble buf) [0..<nat n]))"

subsection \<open>The quantiser\<close>

definition clip_code :: "int \<Rightarrow> int" where
  "clip_code c = max 0 (min U4_STEPS c)"

text \<open>
  The scale and the zero point of one group from its extrema. \<open>affine_scale\<close> is the float64
  scale before it is stored as a float32.
\<close>

definition group_step :: "rat \<Rightarrow> rat \<Rightarrow> rat" where
  "group_step lo hi = f64 (f64 (hi - lo) / of_int U4_STEPS)"

definition degenerate :: "rat \<Rightarrow> rat \<Rightarrow> bool" where
  "degenerate lo hi \<longleftrightarrow> group_step lo hi \<le> 0"

definition safe_step :: "rat \<Rightarrow> rat \<Rightarrow> rat" where
  "safe_step lo hi = (if degenerate lo hi then 1 else group_step lo hi)"

definition rounded_zp :: "rat \<Rightarrow> rat \<Rightarrow> int" where
  "rounded_zp lo hi = clip_code (round_half_even (f64 (- lo / safe_step lo hi)))"

definition widened_step :: "rat \<Rightarrow> rat \<Rightarrow> rat" where
  "widened_step lo hi =
     (let zp = rounded_zp lo hi;
          need_lo = (if 0 < zp then f64 (- lo / of_int zp) else 0);
          need_hi = (if zp < U4_STEPS then f64 (hi / of_int (U4_STEPS - zp)) else 0)
      in max (safe_step lo hi) (max need_lo need_hi))"

definition zero_point :: "rat \<Rightarrow> rat \<Rightarrow> int" where
  "zero_point lo hi =
     (if degenerate lo hi then (if lo < 0 then U4_STEPS else 0) else rounded_zp lo hi)"

definition affine_scale :: "rat \<Rightarrow> rat \<Rightarrow> rat" where
  "affine_scale lo hi =
     (if degenerate lo hi then f64 (\<bar>lo\<bar> / of_int U4_STEPS) else widened_step lo hi)"

definition affine_code :: "bool \<Rightarrow> rat \<Rightarrow> rat \<Rightarrow> int \<Rightarrow> rat \<Rightarrow> int" where
  "affine_code degen lo scale zp v =
     clip_code (if 0 < scale then round_half_even (f32 (f32 (v / scale) + of_int zp))
                else if degen \<and> 0 < lo then U4_STEPS else 0)"

type_synonym qgroup = "int list \<times> int \<times> rat"

definition quantise_group :: "rat list \<Rightarrow> qgroup" where
  "quantise_group g =
     (let lo = Min (set g); hi = Max (set g);
          scale = f32 (affine_scale lo hi);
          zp = zero_point lo hi
      in (map (affine_code (degenerate lo hi) lo scale zp) g, zp, scale))"

text \<open>
  \<open>quantise_group_affine(x, group_size)\<close> on an array \<open>[experts, out, inn]\<close>: every row is cut
  into groups of \<open>group_size\<close> consecutive values.
\<close>

definition quantise_group_affine ::
    "nat \<Rightarrow> nat \<Rightarrow> rat list list list \<Rightarrow> qgroup list list list res" where
  "quantise_group_affine inn group_size x =
     (if group_size = 0 then Inl ZeroDivision
      else if inn mod group_size \<noteq> 0 then Inl NotWholeGroups
      else Inr (map (map (\<lambda>row. map quantise_group (chunks group_size (map f32 row)))) x))"

definition dequantise_affine :: "int \<Rightarrow> int \<Rightarrow> rat \<Rightarrow> rat" where
  "dequantise_affine q zp scale = f32 (f32 (f32 (of_int q) - f32 (of_int zp)) * f32 scale)"

definition quantisation_step_bound :: "rat \<Rightarrow> rat" where
  "quantisation_step_bound scale = f32 (f32 scale / 2)"

subsection \<open>Packing is undone by the unpacking of the engine\<close>

definition code_ok :: "int \<Rightarrow> bool" where
  "code_ok c \<longleftrightarrow> 0 \<le> c \<and> c \<le> 15"

lemma mask4: "(0xF :: 8 word) = mask 4"
  by (simp add: mask_eq_exp_minus_1)

lemma code_bit: "code_ok c \<Longrightarrow> bit c n \<Longrightarrow> n < 4"
proof -
  assume "code_ok c" "bit c n"
  then have "take_bit 4 c = c" by (intro take_bit_int_eq_self) (auto simp: code_ok_def)
  then show ?thesis using \<open>bit c n\<close> by (metis bit_take_bit_iff)
qed

lemma low_nibble:
  "code_ok a \<Longrightarrow> (word_of_int a OR push_bit 4 (word_of_int b)) AND (0xF :: 8 word) = word_of_int a"
  unfolding mask4 by (rule bit_word_eqI) (auto simp: bit_simps dest: code_bit)

lemma high_nibble:
  "code_ok a \<Longrightarrow> code_ok b \<Longrightarrow>
     drop_bit 4 (word_of_int a OR push_bit 4 (word_of_int b)) AND (0xF :: 8 word) = word_of_int b"
  unfolding mask4 by (rule bit_word_eqI) (auto simp: bit_simps dest: code_bit)

lemma rejoin_nibbles: "(w AND 0xF) OR push_bit 4 (drop_bit 4 w AND 0xF) = (w :: 8 word)"
  unfolding mask4 by (rule bit_word_eqI) (auto simp: bit_simps)

fun unpack_pairs :: "8 word list \<Rightarrow> 8 word list" where
  "unpack_pairs [] = []"
| "unpack_pairs (w # buf) = (w AND 0xF) # (drop_bit 4 w AND 0xF) # unpack_pairs buf"

lemma length_unpack_pairs [simp]: "length (unpack_pairs buf) = 2 * length buf"
  by (induction buf) auto

lemma unpack_pairs_nth: "i < 2 * length buf \<Longrightarrow> unpack_pairs buf ! i = nibble buf i"
proof (induction buf arbitrary: i)
  case (Cons w buf)
  consider "i = 0" | "i = 1" | j where "i = Suc (Suc j)" by (metis One_nat_def not0_implies_Suc)
  then show ?case
  proof cases
    case (3 j)
    then show ?thesis using Cons by (simp add: nibble_def)
  qed (simp_all add: nibble_def)
qed simp

lemma unpack_u4_eq: "unpack_u4 buf n = (if 2 * int (length buf) < n then Inl IndexError
    else Inr (take (nat n) (unpack_pairs buf)))"
proof -
  have "map (nibble buf) [0..<nat n] = take (nat n) (unpack_pairs buf)" if "n \<le> 2 * int (length buf)"
    using that by (intro nth_equalityI) (auto simp: unpack_pairs_nth)
  then show ?thesis by (simp add: unpack_u4_def)
qed

lemma length_pack_pairs [simp]: "length (pack_pairs q) = length q div 2"
  by (induction q rule: pack_pairs.induct) auto

lemma pack_pairs_append: "even (length p) \<Longrightarrow> pack_pairs (p @ q) = pack_pairs p @ pack_pairs q"
  by (induction p rule: pack_pairs.induct) auto

lemma pack_pairs_concat:
  "(\<And>q. q \<in> set qs \<Longrightarrow> even (length q)) \<Longrightarrow> pack_pairs (concat qs) = concat (map pack_pairs qs)"
  by (induction qs) (auto simp: pack_pairs_append)

lemma unpack_pack_pairs:
  "even (length q) \<Longrightarrow> list_all code_ok q \<Longrightarrow> unpack_pairs (pack_pairs q) = map word_of_int q"
proof (induction q rule: pack_pairs.induct)
  case (1 a b q)
  then show ?case using low_nibble [of a b] high_nibble [of a b] by simp
qed auto

lemma pack_unpack_pairs: "pack_pairs (map uint (unpack_pairs buf)) = buf"
proof (induction buf)
  case (Cons w buf)
  then show ?case using rejoin_nibbles [of w] by simp
qed simp

lemma pack_u4_Inr_iff:
  "pack_u4 q = Inr buf \<longleftrightarrow> even (length q) \<and> q \<noteq> [] \<and> list_all code_ok q \<and> buf = pack_pairs q"
proof (cases "q = []")
  case False
  then have "0 \<le> Min (set q) \<and> Max (set q) \<le> 15 \<longleftrightarrow> list_all code_ok q"
    by (auto simp: list_all_iff code_ok_def)
  then show ?thesis using False by (auto simp: pack_u4_def)
qed (simp add: pack_u4_def)

lemma unpack_codes_ok: "list_all code_ok (map uint (unpack_pairs buf))"
proof -
  have "uint (w AND (0xF :: 8 word)) \<le> 15" for w
    unfolding mask4 take_bit_eq_mask [symmetric]
    by (simp add: unsigned_take_bit_eq) (use take_bit_int_less_exp [of 4 "uint w"] in simp)
  then show ?thesis by (induction buf) (auto simp: code_ok_def)
qed

subsection \<open>The error of the quantiser\<close>

lemmas u4_consts = U4_STEPS_def U4_LEVELS_def

lemma clip_code_bounds [simp]: "0 \<le> clip_code c" "clip_code c \<le> 15"
  by (auto simp: clip_code_def u4_consts)

lemma clip_code_cases:
  "clip_code c = c \<and> 0 \<le> c \<and> c \<le> 15 \<or> clip_code c = 0 \<and> c \<le> 0 \<or> clip_code c = 15 \<and> 15 \<le> c"
  by (auto simp: clip_code_def u4_consts)

lemma clip_code_near:
  assumes "- 1 / 2 - d \<le> t" "t \<le> 31 / 2 + d" "0 \<le> d"
  shows "\<bar>of_int (clip_code (round_half_even t)) - t\<bar> \<le> 1 / 2 + d"
proof -
  let ?r = "round_half_even t"
  have r: "of_int ?r - t \<le> 1 / 2" "t - of_int ?r \<le> 1 / 2"
    using round_half_even_error [of t] by linarith+
  have "?r \<le> 0 \<Longrightarrow> of_int ?r \<le> (0::rat)" "15 \<le> ?r \<Longrightarrow> (15::rat) \<le> of_int ?r" by linarith+
  then show ?thesis
    using clip_code_cases [of ?r] assms r unfolding abs_le_iff by (elim disjE conjE) (simp; linarith)+
qed

lemma group_step_bounds:
  assumes span: "1 / 2 ^ 100 \<le> hi - lo"
  shows "1 / 2 ^ 106 \<le> group_step lo hi" "hi - lo \<le> 15 * group_step lo hi * (1 + 1 / 2 ^ 50)"
proof -
  have half: "x / 2 \<le> f64 x" if "1 / 2 ^ 200 \<le> x" for x
  proof -
    have "(1::rat) / 2 ^ 1000 \<le> 1 / 2 ^ 200" by simp
    then have "\<bar>f64 x - x\<bar> \<le> x / 2 ^ 53" using that by (intro f64_rel_error) linarith
    moreover have "0 \<le> x" using that by (rule order_trans [rotated]) simp
    ultimately show ?thesis by (simp only: abs_le_iff) (simp; linarith)
  qed
  have d: "1 / 2 ^ 101 \<le> f64 (hi - lo)" using half [of "hi - lo"] span by simp
  let ?s = "group_step lo hi"
  have "1 / 2 ^ 105 \<le> f64 (hi - lo) / 15" using d by simp
  then show s: "1 / 2 ^ 106 \<le> ?s"
    using half [of "f64 (hi - lo) / 15"] by (simp add: group_step_def u4_consts)
  have "f64 (hi - lo) / 15 \<le> ?s * (1 + 1 / 2 ^ 52)"
    by (rule f64_le_D) (use s in \<open>simp_all add: group_step_def u4_consts\<close>)
  then have "f64 (hi - lo) \<le> 15 * ?s * (1 + 1 / 2 ^ 52)" by simp
  then have "hi - lo \<le> 15 * ?s * (1 + 1 / 2 ^ 52) * (1 + 1 / 2 ^ 52)"
    by (rule f64_le_D) (use s in simp)
  also have "\<dots> \<le> 15 * ?s * (1 + 1 / 2 ^ 50)" using s by simp
  finally show "hi - lo \<le> 15 * ?s * (1 + 1 / 2 ^ 50)" .
qed

lemma not_degenerate: "1 / 2 ^ 100 \<le> hi - lo \<Longrightarrow> \<not> degenerate lo hi"
  using group_step_bounds(1) [of hi lo] by (simp add: degenerate_def)

lemma rounded_zp_bounds [simp]: "0 \<le> rounded_zp lo hi" "rounded_zp lo hi \<le> 15"
  by (simp_all add: rounded_zp_def)

lemma widened_step_ge:
  "safe_step lo hi \<le> widened_step lo hi"
  "0 < rounded_zp lo hi \<Longrightarrow> f64 (- lo / of_int (rounded_zp lo hi)) \<le> widened_step lo hi"
  "rounded_zp lo hi < 15 \<Longrightarrow> f64 (hi / of_int (15 - rounded_zp lo hi)) \<le> widened_step lo hi"
  by (auto simp: widened_step_def Let_def u4_consts)

text \<open>
  The widened step covers the group from the rounded zero point up to half a step at either
  end; the half step appears only where the zero point itself was clipped or rounded away.
\<close>

lemma widened_step_covers:
  assumes span: "1 / 2 ^ 100 \<le> hi - lo"
  defines "z \<equiv> of_int (rounded_zp lo hi) :: rat" and "A \<equiv> widened_step lo hi"
  shows "- lo \<le> (z + 1 / 2) * A * (1 + 1 / 2 ^ 40)" "hi \<le> (31 / 2 - z) * A * (1 + 1 / 2 ^ 40)"
proof -
  let ?s = "group_step lo hi" and ?zp = "rounded_zp lo hi" and ?x = "- lo / group_step lo hi"
  note s = group_step_bounds [OF span]
  have s0: "0 < ?s" using s(1) by (rule less_le_trans [rotated]) simp
  have safe: "safe_step lo hi = ?s" using not_degenerate [OF span] by (simp add: safe_step_def)
  have sA: "?s \<le> A" using widened_step_ge(1) [of lo hi] by (simp add: safe A_def)
  have Abig: "1 / 2 ^ 1022 \<le> A"
    by (rule order_trans [OF _ order_trans [OF s(1) sA]]) simp
  have A0: "0 < A" using s0 sA by linarith
  have zp: "?zp = clip_code (round_half_even (f64 ?x))" by (simp add: rounded_zp_def safe)
  have zb: "0 \<le> z" "z \<le> 15" by (simp_all add: z_def)
  have lo_x: "- lo = ?x * ?s" using s0 by simp
  show "- lo \<le> (z + 1 / 2) * A * (1 + 1 / 2 ^ 40)"
  proof (cases "0 < ?zp")
    case True
    then have z0: "0 < z" by (simp add: z_def)
    have "- lo / z \<le> A * (1 + 1 / 2 ^ 52)"
      using widened_step_ge(2) [OF True] Abig by (intro f64_le_D) (simp_all add: A_def z_def)
    then have "- lo \<le> A * (1 + 1 / 2 ^ 52) * z" using z0 by (simp only: pos_divide_le_eq)
    then have "- lo \<le> z * A * (1 + 1 / 2 ^ 52)" by (simp only: mult.commute mult.left_commute)
    also have "\<dots> \<le> (z + 1 / 2) * A * (1 + 1 / 2 ^ 40)"
      using A0 z0 by (intro mult_mono) auto
    finally show ?thesis .
  next
    case False
    then have "round_half_even (f64 ?x) \<le> 0"
      using clip_code_cases [of "round_half_even (f64 ?x)"] by (auto simp: zp)
    then have "of_int (round_half_even (f64 ?x)) \<le> (0::rat)" by linarith
    then have "f64 ?x \<le> 1 / 2" using round_half_even_error [of "f64 ?x"] by (simp only: abs_le_iff) linarith
    then have "?x \<le> 1 / 2 * (1 + 1 / 2 ^ 52)" by (rule f64_le_D) simp
    then have "- lo \<le> 1 / 2 * (1 + 1 / 2 ^ 52) * ?s" using s0 by (subst lo_x) (rule mult_right_mono; simp)
    also have "\<dots> \<le> 1 / 2 * (1 + 1 / 2 ^ 52) * A" using sA by simp
    also have "\<dots> \<le> (z + 1 / 2) * A * (1 + 1 / 2 ^ 40)"
      using A0 zb by (simp add: mult.commute mult_mono)
    finally show ?thesis .
  qed
  show "hi \<le> (31 / 2 - z) * A * (1 + 1 / 2 ^ 40)"
  proof (cases "?zp < 15")
    case True
    then have z0: "0 < 15 - z" by (simp add: z_def)
    have "hi / (15 - z) \<le> A * (1 + 1 / 2 ^ 52)"
      using widened_step_ge(3) [OF True] Abig by (intro f64_le_D) (simp_all add: A_def z_def)
    then have "hi \<le> A * (1 + 1 / 2 ^ 52) * (15 - z)" using z0 by (simp only: pos_divide_le_eq)
    then have "hi \<le> (15 - z) * A * (1 + 1 / 2 ^ 52)" by (simp only: mult.commute mult.left_commute)
    also have "\<dots> \<le> (31 / 2 - z) * A * (1 + 1 / 2 ^ 40)"
      using A0 z0 by (intro mult_mono) auto
    finally show ?thesis .
  next
    case False
    then have z15: "z = 15" using rounded_zp_bounds(2) [of lo hi] by (simp add: z_def)
    have "15 \<le> round_half_even (f64 ?x)"
      using False clip_code_cases [of "round_half_even (f64 ?x)"] by (auto simp: zp)
    then have "(15::rat) \<le> of_int (round_half_even (f64 ?x))" by linarith
    then have "29 / 2 \<le> f64 ?x" using round_half_even_error [of "f64 ?x"] by (simp only: abs_le_iff) linarith
    then have "29 / 2 * (1 - 1 / 2 ^ 52) \<le> ?x" by (rule f64_ge_D) simp
    then have "29 / 2 * (1 - 1 / 2 ^ 52) * ?s \<le> - lo" using s0 by (subst lo_x) (rule mult_right_mono; simp)
    with s(2) have "hi \<le> 15 * ?s * (1 + 1 / 2 ^ 50) - 29 / 2 * (1 - 1 / 2 ^ 52) * ?s" by linarith
    also have "\<dots> \<le> 1 / 2 * ?s * (1 + 1 / 2 ^ 40)" using s0 by simp
    also have "\<dots> \<le> 1 / 2 * A * (1 + 1 / 2 ^ 40)" using sA by simp
    finally show ?thesis by (simp add: z15)
  qed
qed


lemma stored_step_bounds:
  assumes span: "1 / 2 ^ 100 \<le> hi - lo"
  defines "A \<equiv> widened_step lo hi"
  shows "0 < f32 A" "A \<le> f32 A * (1 + 1 / 2 ^ 23)" "1 / 2 ^ 106 \<le> A"
proof -
  have "1 / 2 ^ 106 \<le> safe_step lo hi"
    using group_step_bounds(1) [OF span] not_degenerate [OF span] by (simp add: safe_step_def)
  then show A: "1 / 2 ^ 106 \<le> A" using widened_step_ge(1) [of lo hi] by (simp add: A_def)
  then have A0: "0 < A" by (rule less_le_trans [rotated]) simp
  have "(2::rat) powi (- 149 + 24 - 1) \<le> 2 powi (- 106)" by (simp only: powi2_le_iff)
  also have "\<dots> \<le> A" using A by (simp add: power_int_def power_one_over)
  finally have "\<bar>f32 A - A\<bar> \<le> A / 2 ^ 24"
    using fl_rel_error [of "- 149" 24 A] A0 by (simp add: f32_def power_int_def power_one_over)
  then have "A - A / 2 ^ 24 \<le> f32 A" by linarith
  then have l: "A * (1 - 1 / 2 ^ 24) \<le> f32 A" by (simp add: right_diff_distrib)
  moreover have "0 < A * (1 - 1 / 2 ^ 24)" using A0 by simp
  ultimately show "0 < f32 A" by linarith
  have "A * (1 - 1 / 2 ^ 24) * (1 + 1 / 2 ^ 23) \<le> f32 A * (1 + 1 / 2 ^ 23)"
    by (rule mult_right_mono [OF l]) simp
  moreover have "A \<le> A * (1 - 1 / 2 ^ 24) * (1 + 1 / 2 ^ 23)" using A0 by simp
  ultimately show "A \<le> f32 A * (1 + 1 / 2 ^ 23)" by linarith
qed

lemma scaled_value_bounds:
  assumes span: "1 / 2 ^ 100 \<le> hi - lo" and v: "lo \<le> v" "v \<le> hi"
  defines "z \<equiv> of_int (rounded_zp lo hi) :: rat" and "s \<equiv> f32 (widened_step lo hi)"
  shows "- 1 / 2 - 1 / 2 ^ 18 \<le> v / s + z" "v / s + z \<le> 31 / 2 + 1 / 2 ^ 18"
proof -
  let ?A = "widened_step lo hi"
  have s: "0 < s" "?A \<le> s * (1 + 1 / 2 ^ 23)"
    using stored_step_bounds [OF span] by (simp_all add: s_def)
  have z: "0 \<le> z" "z \<le> 15" by (simp_all add: z_def)
  have stretch: "x \<le> y + 1 / 2 ^ 18"
    if "x * s \<le> y * ?A * (1 + 1 / 2 ^ 40)" "0 \<le> y" "y \<le> 31 / 2" for x y
  proof -
    have "x * s \<le> y * (s * (1 + 1 / 2 ^ 23)) * (1 + 1 / 2 ^ 40)"
      using that(1) by (rule order_trans) (use s that in \<open>intro mult_right_mono mult_left_mono; simp\<close>)
    also have "\<dots> = (y * ((1 + 1 / 2 ^ 23) * (1 + 1 / 2 ^ 40))) * s" by simp
    finally have "x \<le> y * ((1 + 1 / 2 ^ 23) * (1 + 1 / 2 ^ 40))" using s(1) by (rule mult_right_le_imp_le)
    also have "\<dots> \<le> y + 1 / 2 ^ 18" using that by simp
    finally show ?thesis .
  qed
  have "- lo \<le> (z + 1 / 2) * ?A * (1 + 1 / 2 ^ 40)" "hi \<le> (31 / 2 - z) * ?A * (1 + 1 / 2 ^ 40)"
    using widened_step_covers [OF span] by (simp_all only: z_def)
  then have "(- v / s) * s \<le> (z + 1 / 2) * ?A * (1 + 1 / 2 ^ 40)" "(v / s) * s \<le> (31 / 2 - z) * ?A * (1 + 1 / 2 ^ 40)"
    using v s(1) by simp_all
  then have "- v / s \<le> z + 1 / 2 + 1 / 2 ^ 18" "v / s \<le> 31 / 2 - z + 1 / 2 ^ 18"
    using z by (intro stretch; simp only:; simp)+
  then show "- 1 / 2 - 1 / 2 ^ 18 \<le> v / s + z" "v / s + z \<le> 31 / 2 + 1 / 2 ^ 18"
    by (simp_all del: power_numeral)
qed

lemma affine_code_error:
  assumes span: "1 / 2 ^ 100 \<le> hi - lo" and v: "lo \<le> v" "v \<le> hi"
  defines "zp \<equiv> rounded_zp lo hi" and "s \<equiv> f32 (widened_step lo hi)"
  shows "\<bar>v - of_int (affine_code d lo s zp v - zp) * s\<bar> \<le> (1 / 2 + 1 / 2 ^ 16) * s"
proof -
  have s: "0 < s" using stored_step_bounds [OF span] by (simp add: s_def)
  define w where "w = v / s"
  let ?z = "of_int zp :: rat" and ?t = "f32 (f32 w + of_int zp)"
  have z: "0 \<le> ?z" "?z \<le> 15" by (simp_all add: zp_def)
  have t: "- 1 / 2 - 1 / 2 ^ 18 \<le> w + ?z" "w + ?z \<le> 31 / 2 + 1 / 2 ^ 18"
    using scaled_value_bounds [OF span v] by (simp_all only: zp_def s_def w_def)
  have "(1::rat) / 2 ^ 18 \<le> 1 / 4" "(1::rat) / 2 ^ 20 \<le> 1 / 4"
      "(1::rat) / 2 ^ 20 + 1 / 2 ^ 20 = 1 / 2 ^ 19" "(1::rat) / 2 ^ 19 + 1 / 2 ^ 17 \<le> 1 / 2 ^ 16"
      "(1::rat) / 2 ^ 18 + 1 / 2 ^ 19 \<le> 1 / 2 ^ 17"
    by simp_all
  note small = this
  have "\<bar>w\<bar> < 32" unfolding abs_less_iff using z t small by linarith
  then have e1: "\<bar>f32 w - w\<bar> \<le> 1 / 2 ^ 20" by (rule f32_abs_error)
  have "\<bar>f32 w + ?z\<bar> < 32" unfolding abs_less_iff using e1 t small by linarith
  then have e2: "\<bar>?t - (f32 w + ?z)\<bar> \<le> 1 / 2 ^ 20" by (rule f32_abs_error)
  have e: "\<bar>?t - (w + ?z)\<bar> \<le> 1 / 2 ^ 19" using e1 e2 small(3) by linarith
  have "- 1 / 2 - 1 / 2 ^ 17 \<le> ?t" "?t \<le> 31 / 2 + 1 / 2 ^ 17" using t e small(5) by linarith+
  then have "\<bar>of_int (clip_code (round_half_even ?t)) - ?t\<bar> \<le> 1 / 2 + 1 / 2 ^ 17"
    by (rule clip_code_near) simp
  then have "\<bar>of_int (affine_code d lo s zp v) - ?t\<bar> \<le> 1 / 2 + 1 / 2 ^ 17"
    using s by (simp add: affine_code_def w_def)
  with e have "\<bar>w - of_int (affine_code d lo s zp v - zp)\<bar> \<le> 1 / 2 + 1 / 2 ^ 16"
    using small(4) unfolding of_int_diff by linarith
  then have "\<bar>w - of_int (affine_code d lo s zp v - zp)\<bar> * s \<le> (1 / 2 + 1 / 2 ^ 16) * s"
    by (rule mult_right_mono) (use s in simp)
  moreover have "v - of_int (affine_code d lo s zp v - zp) * s =
      (w - of_int (affine_code d lo s zp v - zp)) * s"
    using s by (simp add: left_diff_distrib w_def)
  ultimately show ?thesis using s by (simp only: abs_mult abs_of_pos)
qed

lemma quantise_group_error:
  assumes "1 / 2 ^ 100 \<le> Max (set g) - Min (set g)" and "i < length g"
    and "quantise_group g = (q, zp, scale)"
  shows "\<bar>g ! i - of_int (q ! i - zp) * scale\<bar> \<le> (1 / 2 + 1 / 2 ^ 16) * scale"
proof -
  have gi: "g ! i \<in> set g" using assms(2) by simp
  have nd: "\<not> degenerate (Min (set g)) (Max (set g))" by (rule not_degenerate [OF assms(1)])
  show ?thesis
    using affine_code_error [OF assms(1), of "g ! i" False] assms(2,3) gi nd
    by (auto simp: quantise_group_def Let_def zero_point_def affine_scale_def)
qed

subsection \<open>The decoded value\<close>

text \<open>The product of the dequantiser is rounded once more, and so is the scale it reads.\<close>

lemma dequantise_near:
  assumes s: "1 / 2 ^ 110 \<le> scale" and q: "code_ok q" "code_ok zp"
  shows "\<bar>dequantise_affine q zp scale - of_int (q - zp) * scale\<bar> \<le> scale / 2 ^ 18"
proof (cases "q = zp")
  case False
  define d where "d = (of_int (q - zp) :: rat)"
  have ex: "f32 (of_int q) = of_int q" "f32 (of_int zp) = of_int zp" "f32 (of_int (q - zp)) = d"
    unfolding d_def using q by (intro f32_of_int; auto simp: code_ok_def abs_less_iff)+
  have s0: "0 < scale" using s by (rule less_le_trans [rotated]) simp
  have "1 \<le> \<bar>q - zp\<bar>" "\<bar>q - zp\<bar> \<le> 15" using q False by (auto simp: code_ok_def)
  then have d: "1 \<le> \<bar>d\<bar>" "\<bar>d\<bar> \<le> 15" by (simp_all add: d_def flip: of_int_abs del: of_int_diff)
  have "(1::rat) / 2 ^ 126 \<le> 1 / 2 ^ 110" by simp
  then have r: "\<bar>f32 scale - scale\<bar> \<le> scale / 2 ^ 24" using f32_rel [of scale] s s0 by simp
  then have hs: "scale / 2 \<le> f32 scale" "f32 scale \<le> 2 * scale" using s0 by (simp_all only: abs_le_iff) (simp_all add: field_simps)
  have "1 * (scale / 2) \<le> \<bar>d\<bar> * f32 scale" using d hs s0 by (intro mult_mono) auto
  then have p: "scale / 2 \<le> \<bar>d * f32 scale\<bar>" using hs s0 by (simp add: abs_mult)
  have "(1::rat) / 2 ^ 126 \<le> 1 / 2 ^ 110 / 2" by simp
  also have "\<dots> \<le> scale / 2" using s by (rule divide_right_mono) simp
  finally have e1: "\<bar>f32 (d * f32 scale) - d * f32 scale\<bar> \<le> \<bar>d * f32 scale\<bar> / 2 ^ 24" using p by (intro f32_rel) simp
  have "\<bar>d * f32 scale\<bar> \<le> 15 * (2 * scale)" unfolding abs_mult using d hs s0 by (intro mult_mono) auto
  with e1 have e1': "\<bar>f32 (d * f32 scale) - d * f32 scale\<bar> \<le> 30 * scale / 2 ^ 24" by simp
  have "\<bar>d * f32 scale - d * scale\<bar> = \<bar>d\<bar> * \<bar>f32 scale - scale\<bar>" by (simp add: abs_mult flip: right_diff_distrib)
  also have "\<dots> \<le> 15 * (scale / 2 ^ 24)" using d r by (intro mult_mono) auto
  finally have "\<bar>d * f32 scale - d * scale\<bar> \<le> 15 * (scale / 2 ^ 24)" .
  with e1' have "\<bar>f32 (d * f32 scale) - d * scale\<bar> \<le> 30 * scale / 2 ^ 24 + 15 * (scale / 2 ^ 24)" by linarith
  also have "\<dots> \<le> scale / 2 ^ 18" using s0 by simp
  finally show ?thesis using ex by (simp add: dequantise_affine_def d_def)
qed (use s in \<open>simp add: dequantise_affine_def order_trans [OF _ s]\<close>)

text \<open>A group of equal values uses one code at an end of the range.\<close>

lemma constant_group_code:
  assumes v: "1 / 2 ^ 100 \<le> \<bar>v\<bar>"
  defines "s \<equiv> f32 (affine_scale v v)" and "zp \<equiv> zero_point v v"
  shows "1 / 2 ^ 105 \<le> s" "\<bar>v - of_int (affine_code d v s zp v - zp) * s\<bar> \<le> s / 2 ^ 17"
proof -
  have deg: "degenerate v v" by (simp add: degenerate_def group_step_def)
  define a where "a = \<bar>v\<bar> / 15"
  have v0: "0 < \<bar>v\<bar>" using v by (rule less_le_trans [rotated]) simp
  have a: "1 / 2 ^ 104 \<le> a" "0 < a" using v v0 by (simp_all add: a_def)
  have "(1::rat) / 2 ^ 1000 \<le> 1 / 2 ^ 104" by simp
  with a have e64: "\<bar>f64 a - a\<bar> \<le> a / 2 ^ 53" using f64_rel [of a] by simp
  then have h: "a / 2 \<le> f64 a" "f64 a \<le> 2 * a" using a(2) by (simp_all only: abs_le_iff) (simp_all add: field_simps)
  have "(1::rat) / 2 ^ 126 \<le> 1 / 2 ^ 104 / 2" by simp
  also have "\<dots> \<le> a / 2" using a(1) by (rule divide_right_mono) simp
  finally have "\<bar>f32 (f64 a) - f64 a\<bar> \<le> f64 a / 2 ^ 24" using f32_rel [of "f64 a"] h a(2) by simp
  from near_trans [OF this e64] have "\<bar>s - a\<bar> \<le> f64 a / 2 ^ 24 + a / 2 ^ 53"
    by (simp only: s_def affine_scale_def deg u4_consts) (simp add: a_def)
  also have "\<dots> \<le> 2 * a / 2 ^ 24 + a / 2 ^ 53" using h(2) by (intro add_mono divide_right_mono) auto
  also have "\<dots> \<le> a / 2 ^ 22" using a(2) by simp
  finally have e: "\<bar>s - a\<bar> \<le> a / 2 ^ 22" .
  then have s: "a - a / 2 ^ 22 \<le> s" by (rule near_low)
  then have s2: "a / 2 \<le> s" using a(2) by simp
  with a show "1 / 2 ^ 105 \<le> s" by simp
  have s0: "0 < s" using s2 a(2) by linarith
  define n :: rat where "n = (if v < 0 then - 15 else 15)"
  let ?z = "of_int zp :: rat"
  have n: "\<bar>n\<bar> = 15" by (simp add: n_def)
  have "v - n * s = n * (a - s)" by (simp add: n_def a_def right_diff_distrib)
  then have "\<bar>v - n * s\<bar> = 15 * \<bar>s - a\<bar>" by (simp add: abs_mult n abs_minus_commute)
  also have "\<dots> \<le> 15 * (2 * s / 2 ^ 22)" using e s2 by simp
  also have "\<dots> \<le> s / 2 ^ 17" using s0 by simp
  finally have fin: "\<bar>v - n * s\<bar> \<le> s / 2 ^ 17" .
  have "v / s - n = (v - n * s) / s" using s0 by (simp add: diff_divide_distrib)
  then have "\<bar>v / s - n\<bar> = \<bar>v - n * s\<bar> / s" using s0 by (simp only: abs_divide abs_of_pos)
  also have "\<dots> \<le> (s / 2 ^ 17) / s" using fin s0 by (intro divide_right_mono) auto
  also have "\<dots> = 1 / 2 ^ 17" using s0 by simp
  finally have w: "\<bar>v / s - n\<bar> \<le> 1 / 2 ^ 17" .
  then have "\<bar>v / s\<bar> < 32" by (rule near_bound) (simp add: n)
  from near_trans [OF f32_abs_error [OF this] w] have w': "\<bar>f32 (v / s) - n\<bar> \<le> 1 / 2 ^ 16" by simp
  have z: "?z = (if v < 0 then 15 else 0)" by (simp add: zp_def zero_point_def deg u4_consts)
  have w2: "\<bar>f32 (v / s) + ?z - (n + ?z)\<bar> \<le> 1 / 2 ^ 16" using w' by simp
  then have "\<bar>f32 (v / s) + ?z\<bar> < 32" by (rule near_bound) (simp add: n_def z)
  from near_trans [OF f32_abs_error [OF this] w2]
  have "\<bar>f32 (f32 (v / s) + ?z) - (n + ?z)\<bar> \<le> 1 / 2 ^ 15" by simp
  then have "round_half_even (f32 (f32 (v / s) + ?z)) = (if v < 0 then 0 else 15)"
    by (intro round_half_even_eqI) (auto simp: z n_def abs_minus_commute split: if_splits)
  then have "of_int (affine_code d v s zp v - zp) = n"
    using s0 z by (simp add: affine_code_def clip_code_def u4_consts n_def)
  with fin show "\<bar>v - of_int (affine_code d v s zp v - zp) * s\<bar> \<le> s / 2 ^ 17" by simp
qed

text \<open>The groups the bound is stated for: not all values equal and not closer than \<open>2^-100\<close>, or all equal, to zero or to a
  value that is not tiny.\<close>

definition group_in_range :: "rat list \<Rightarrow> bool" where
  "group_in_range g \<longleftrightarrow>
     (let lo = Min (set g); hi = Max (set g) in
      if lo = hi then lo = 0 \<or> 1 / 2 ^ 100 \<le> \<bar>lo\<bar> else 1 / 2 ^ 100 \<le> hi - lo)"

lemma all_equal: "Min (set g) = Max (set g) \<Longrightarrow> x \<in> set g \<Longrightarrow> x = Min (set (g :: rat list))"
  using Min_le [of "set g" x] Max_ge [of "set g" x] by (auto intro: antisym)

lemma quantise_group_decoded:
  assumes g: "group_in_range g" and i: "i < length g" and q: "quantise_group g = (q, zp, scale)" and ok: "code_ok (q ! i)" "code_ok zp"
  shows "\<bar>g ! i - dequantise_affine (q ! i) zp scale\<bar> \<le> (1 / 2 + 1 / 2 ^ 15) * scale"
proof -
  let ?lo = "Min (set g)" and ?hi = "Max (set g)" and ?e = "of_int (q ! i - zp) * scale"
  have gi: "g ! i \<in> set g" using i by simp
  consider "?lo = ?hi" "?lo = 0" | "?lo = ?hi" "1 / 2 ^ 100 \<le> \<bar>?lo\<bar>" | "1 / 2 ^ 100 \<le> ?hi - ?lo"
    using g by (auto simp: group_in_range_def Let_def split: if_splits)
  then show ?thesis
  proof cases
    case 1
    then have "g ! i = 0" using all_equal [OF 1(1) gi] by simp
    moreover have "dequantise_affine (q ! i) zp scale = 0" "scale = 0"
      using q 1 by (auto simp: quantise_group_def Let_def affine_scale_def degenerate_def group_step_def dequantise_affine_def)
    ultimately show ?thesis by simp
  next
    case 2
    have v: "g ! i = ?lo" by (rule all_equal [OF 2(1) gi])
    note c = constant_group_code [OF 2(2)]
    have qi: "q ! i = affine_code (degenerate ?lo ?lo) ?lo scale zp ?lo" "scale = f32 (affine_scale ?lo ?lo)" "zp = zero_point ?lo ?lo"
      using q i v 2(1) by (auto simp: quantise_group_def Let_def)
    have s: "1 / 2 ^ 110 \<le> scale" using c(1) by (simp add: qi(2))
    have "\<bar>g ! i - ?e\<bar> \<le> scale / 2 ^ 17" unfolding v qi(1) using c(2) by (simp only: qi(2,3))
    from near_both [OF this dequantise_near [OF s ok]] have "\<bar>g ! i - dequantise_affine (q ! i) zp scale\<bar> \<le> scale / 2 ^ 17 + scale / 2 ^ 18" .
    also have "\<dots> \<le> (1 / 2 + 1 / 2 ^ 15) * scale" using s by (simp add: order_trans [OF _ s])
    finally show ?thesis .
  next
    case 3
    have "scale = f32 (widened_step ?lo ?hi)"
      using q not_degenerate [OF 3] by (auto simp: quantise_group_def Let_def affine_scale_def)
    with stored_step_bounds [OF 3] have "1 / 2 ^ 106 \<le> scale * (1 + 1 / 2 ^ 23)" by simp
    then have s: "1 / 2 ^ 110 \<le> scale" by simp
    from near_both [OF quantise_group_error [OF 3 i q] dequantise_near [OF s ok]] have "\<bar>g ! i - dequantise_affine (q ! i) zp scale\<bar> \<le> (1 / 2 + 1 / 2 ^ 16) * scale + scale / 2 ^ 18" .
    also have "\<dots> \<le> (1 / 2 + 1 / 2 ^ 15) * scale" using s by (simp add: order_trans [OF _ s])
    finally show ?thesis .
  qed
qed

end
