(* ===== verification/Expert_Fill.thy ===== *)
theory Expert_Fill
  imports Expert_Quant Py_Text "HOL-Library.List_Lexorder" "HOL-Library.Char_ord"
begin

text \<open>
  The u4 filler of \<open>tools/q4e/expert_fill.py\<close>: \<open>ExpertFiller\<close> with its log of what it served,
  its census, and the source that reads the shipped shards.

  A filler is a record; a request returns the filler after the call and the result, because a
  request that fails has already been counted in \<open>_seen\<close>. The log that both fillers keep is the
  common part of the two records, and what a census of such a log says about the requests is
  proved once in the locale \<open>logged_filler\<close>.
\<close>

subsection \<open>The log and its census\<close>

type_synonym fill_key = "int \<times> string"
type_synonym fill_shape = "nat \<times> nat \<times> nat"

record fill_log =
  served :: "(int \<times> string \<times> fill_shape \<times> nat) list"
  seen :: "(fill_key, int) dict"

record fill_census =
  fc_bodies :: nat
  fc_layers :: "int list"
  fc_kinds :: "string list"
  fc_double_written :: "(fill_key, int) dict"
  fc_filled_bytes :: nat
  fc_experts :: "nat list"

definition note_request :: "fill_key \<Rightarrow> 'a fill_log_scheme \<Rightarrow> 'a fill_log_scheme" where
  "note_request k f = f\<lparr>seen := incr 1 k (seen f)\<rparr>"

definition log_served :: "fill_key \<Rightarrow> fill_shape \<Rightarrow> nat \<Rightarrow> 'a fill_log_scheme \<Rightarrow> 'a fill_log_scheme" where
  "log_served k shape nbytes f = f\<lparr>served := served f @ [(fst k, snd k, shape, nbytes)]\<rparr>"

definition census :: "'a fill_log_scheme \<Rightarrow> fill_census" where
  "census f =
     \<lparr>fc_bodies = length (served f),
      fc_layers = sort (remdups (map (fst \<circ> fst) (seen f))),
      fc_kinds = sort (remdups (map (snd \<circ> fst) (seen f))),
      fc_double_written = filter (\<lambda>(k, n). n \<noteq> 1) (seen f),
      fc_filled_bytes = sum_list (map (\<lambda>(_, _, _, n). n) (served f)),
      fc_experts = sort (remdups (map (\<lambda>(_, _, s, _). fst s) (served f)))\<rparr>"

subsection \<open>The u4 filler\<close>

text \<open>
  An array of rank 3 is its shape with its entries by expert and row; the shape is kept because
  an array with a zero dimension still has the others.
\<close>

record tensor3 =
  tshape :: fill_shape
  entries :: "rat list list list"

record expert_filler = fill_log +
  group_size :: nat
  expert_chunk :: int

definition new_expert_filler :: "nat \<Rightarrow> int \<Rightarrow> expert_filler" where
  "new_expert_filler gs chunk = \<lparr>served = [], seen = [], group_size = gs, expert_chunk = chunk\<rparr>"

type_synonym u4_body = "8 word list \<times> 8 word list \<times> rat list"

definition group_list :: "qgroup list list list \<Rightarrow> qgroup list" where
  "group_list x = concat (concat x)"

definition body_chunk :: "nat \<Rightarrow> nat \<Rightarrow> rat list list list \<Rightarrow> u4_body res" where
  "body_chunk inn gs x =
     rbind (quantise_group_affine inn gs x) (\<lambda>qs.
     rbind (pack_u4 (concat (map fst (group_list qs)))) (\<lambda>w.
     rbind (pack_u4 (map (fst \<circ> snd) (group_list qs))) (\<lambda>z.
     Inr (w, z, map (snd \<circ> snd) (group_list qs)))))"

definition join_parts :: "u4_body list \<Rightarrow> u4_body res" where
  "join_parts parts =
     (if parts = [] then Inl ValueErr
      else Inr (concat (map fst parts), concat (map (fst \<circ> snd) parts), concat (map (snd \<circ> snd) parts)))"

definition body_bytes :: "u4_body \<Rightarrow> nat" where
  "body_bytes b = length (fst b) + length (fst (snd b)) + 4 * length (snd (snd b))"

definition fill_rows :: "expert_filler \<Rightarrow> fill_shape \<Rightarrow> tensor3 \<Rightarrow> u4_body res" where
  "fill_rows f shape rows =
     (if tshape rows \<noteq> shape then Inl ShapeMismatch
      else rbind (map_res (body_chunk (snd (snd shape)) (group_size f))
                    (chunks (nat (expert_chunk f)) (map (map (map f32)) (entries rows)))) join_parts)"

definition body ::
    "(int \<Rightarrow> string \<Rightarrow> tensor3 res) \<Rightarrow> fill_key \<times> fill_shape \<Rightarrow> expert_filler \<Rightarrow> expert_filler \<times> u4_body res" where
  "body source req f =
     (let (key, shape) = req;
          f1 = note_request key f
      in case rbind (source (fst key) (snd key)) (fill_rows f1 shape) of
           Inl e \<Rightarrow> (f1, Inl e)
         | Inr b \<Rightarrow> (log_served key shape (body_bytes b) f1, Inr b))"

subsection \<open>The source that reads the shards\<close>

definition take_out :: "nat \<Rightarrow> tensor3 \<Rightarrow> tensor3" where
  "take_out n t = (case tshape t of (e, out, inn) \<Rightarrow>
     \<lparr>tshape = (e, min n out, inn), entries = map (take n) (entries t)\<rparr>)"

definition drop_out :: "nat \<Rightarrow> tensor3 \<Rightarrow> tensor3" where
  "drop_out n t = (case tshape t of (e, out, inn) \<Rightarrow>
     \<lparr>tshape = (e, out - n, inn), entries = map (drop n) (entries t)\<rparr>)"

definition gguf_expert_source ::
    "(string \<Rightarrow> tensor3 res) \<Rightarrow> (int \<Rightarrow> int) option \<Rightarrow> int \<Rightarrow> string \<Rightarrow> tensor3 res" where
  "gguf_expert_source pin_tensor layer_of layer kind =
     (let blk = (case layer_of of None \<Rightarrow> layer | Some f \<Rightarrow> f layer)
      in if kind = ''down''
         then pin_tensor (''layers.'' @ py_str blk @ ''.mlp.experts.down_proj'')
         else rbind (pin_tensor (''layers.'' @ py_str blk @ ''.mlp.experts.gate_up_proj'')) (\<lambda>fused.
              let ff = fst (snd (tshape fused)) div 2
              in Inr (if kind = ''gate'' then take_out ff fused else drop_out ff fused)))"

subsection \<open>A sequence of requests\<close>

fun run_requests :: "('r \<Rightarrow> 's \<Rightarrow> 's \<times> 'o res) \<Rightarrow> 'r list \<Rightarrow> 's \<Rightarrow> 's \<times> 'o res list" where
  "run_requests step [] s = (s, [])"
| "run_requests step (r # rs) s =
     (let (s1, o1) = step r s; (s2, os) = run_requests step rs s1 in (s2, o1 # os))"

definition successes :: "'o res list \<Rightarrow> 'o list" where
  "successes os = concat (map (\<lambda>r. case r of Inl _ \<Rightarrow> [] | Inr x \<Rightarrow> [x]) os)"

locale logged_filler =
  fixes step :: "fill_key \<times> fill_shape \<Rightarrow> 'a fill_log_scheme \<Rightarrow> 'a fill_log_scheme \<times> 'o res"
    and nbytes :: "'o \<Rightarrow> nat"
  assumes seen_step: "seen (fst (step (k, sh) s)) = incr 1 k (seen s)"
    and served_step: "served (fst (step (k, sh) s)) =
      served s @ (case snd (step (k, sh) s) of Inl _ \<Rightarrow> [] | Inr x \<Rightarrow> [(fst k, snd k, sh, nbytes x)])"
begin

lemma seen_run: "seen (fst (run_requests step rs s)) = tally_onto (seen s) (map fst rs)"
proof (induction rs arbitrary: s)
  case (Cons r rs)
  then show ?case
    by (cases r) (simp add: case_prod_unfold Let_def seen_step tally_onto_def)
qed (simp add: tally_onto_def)

lemma bytes_run: "map (\<lambda>(_, _, _, n). n) (served (fst (run_requests step rs s))) =
    map (\<lambda>(_, _, _, n). n) (served s) @ map nbytes (successes (snd (run_requests step rs s)))"
proof (induction rs arbitrary: s)
  case (Cons r rs)
  then show ?case
    by (cases r) (auto simp: case_prod_unfold Let_def served_step successes_def split: sum.splits)
qed (simp add: successes_def)

lemma census_run:
  fixes rs
  assumes "seen s = []" "served s = []"
  defines "c \<equiv> census (fst (run_requests step rs s))" and "os \<equiv> snd (run_requests step rs s)"
  shows "set (fc_double_written c) =
      {(k, n). k \<in> set (map fst rs) \<and> n = int (count_list (map fst rs) k) \<and> n \<noteq> 1}"
    and "fc_bodies c = length (successes os)"
    and "fc_filled_bytes c = sum_list (map nbytes (successes os))"
proof -
  have "seen (fst (run_requests step rs s)) = tally (map fst rs)"
    using assms(1) by (simp add: seen_run)
  then show "set (fc_double_written c) =
      {(k, n). k \<in> set (map fst rs) \<and> n = int (count_list (map fst rs) k) \<and> n \<noteq> 1}"
    unfolding c_def census_def by (auto simp: tally_entry simp del: set_map)
  note b = bytes_run [of rs s, unfolded assms(2) list.map append_Nil]
  show "fc_bodies c = length (successes os)"
    using arg_cong [OF b, of length] by (simp add: c_def os_def census_def)
  show "fc_filled_bytes c = sum_list (map nbytes (successes os))"
    using b by (simp add: c_def os_def census_def)
qed

lemma no_double_iff:
  assumes "seen s = []" "served s = []"
  shows "fc_double_written (census (fst (run_requests step rs s))) = [] \<longleftrightarrow> distinct (map fst rs)"
proof -
  let ?d = "fc_double_written (census (fst (run_requests step rs s)))" and ?ks = "map fst rs"
  have "?d = [] \<longleftrightarrow> set ?d = {}" by simp
  also have "\<dots> \<longleftrightarrow> (\<forall>k \<in> set ?ks. count_list ?ks k = 1)"
    by (subst census_run(1) [OF assms]) (auto simp del: set_map)
  also have "\<dots> \<longleftrightarrow> distinct ?ks"
    by (rule distinct_count_list [symmetric])
  finally show ?thesis .
qed

end

interpretation u4: logged_filler "body source" body_bytes
  by unfold_locales
     (auto simp: body_def Let_def note_request_def log_served_def split: sum.splits prod.splits)

subsection \<open>What a fill returns\<close>

definition rect :: "nat \<Rightarrow> nat \<Rightarrow> rat list list list \<Rightarrow> bool" where
  "rect out inn x \<longleftrightarrow> (\<forall>m \<in> set x. length m = out \<and> (\<forall>r \<in> set m. length r = inn))"

definition tensor_ok :: "tensor3 \<Rightarrow> bool" where
  "tensor_ok t = (case tshape t of (e, out, inn) \<Rightarrow> length (entries t) = e \<and> rect out inn (entries t))"

definition groups_of :: "nat \<Rightarrow> rat list list list \<Rightarrow> qgroup list" where
  "groups_of gs x = group_list (map (map (\<lambda>row. map quantise_group (chunks gs (map f32 row)))) x)"

lemma groups_of_append: "groups_of gs (x @ y) = groups_of gs x @ groups_of gs y"
  by (simp add: groups_of_def group_list_def)

lemma groups_of_concat: "groups_of gs (concat xs) = concat (map (groups_of gs) xs)"
  by (induction xs) (simp_all add: groups_of_append, simp add: groups_of_def group_list_def)

lemma code_ok_quantise:
  "list_all code_ok (fst (quantise_group g))" "code_ok (fst (snd (quantise_group g)))"
  by (auto simp: quantise_group_def Let_def list_all_iff code_ok_def affine_code_def zero_point_def u4_consts)

lemma length_quantise [simp]: "length (fst (quantise_group g)) = length g"
  by (simp add: quantise_group_def Let_def)

lemma in_groups_of:
  assumes "0 < gs" "gs dvd inn" "rect out inn x" "t \<in> set (groups_of gs x)"
  obtains g where "t = quantise_group g" "length g = gs"
proof -
  from assms(4) obtain m r c where m: "m \<in> set x" "r \<in> set m" and
    c: "c \<in> set (chunks gs (map f32 r))" "t = quantise_group c"
    by (auto simp: groups_of_def group_list_def)
  from m assms(3) have "length r = inn" by (auto simp: rect_def)
  then have "length c = gs" using length_in_chunks [OF assms(1), of "map f32 r" c] assms(2) c by simp
  with c that show ?thesis by blast
qed

lemma length_groups_of:
  assumes "0 < gs" "gs dvd inn" "rect out inn x"
  shows "length (groups_of gs x) = length x * (out * (inn div gs))"
  using assms(3)
proof (induction x)
  case Nil
  show ?case by (simp add: groups_of_def group_list_def)
next
  case (Cons m x)
  have "length (concat (map (\<lambda>row. map quantise_group (chunks gs (map f32 row))) m)) = length m * (inn div gs)"
    by (rule length_concat_map) (use Cons.prems assms(1,2) in \<open>auto simp: rect_def length_chunks\<close>)
  then have "length (groups_of gs [m]) = out * (inn div gs)"
    using Cons.prems by (simp add: groups_of_def group_list_def rect_def)
  then show ?case using Cons groups_of_append [of gs "[m]" x] by (simp add: rect_def)
qed

lemma length_codes:
  assumes "0 < gs" "gs dvd inn" "rect out inn x"
  shows "length (concat (map fst (groups_of gs x))) = length x * (out * inn)"
proof -
  have "length (concat (map fst (groups_of gs x))) = length (groups_of gs x) * gs"
    by (rule length_concat_map) (auto elim!: in_groups_of [OF assms])
  then show ?thesis using assms(2) by (simp add: mult.assoc length_groups_of [OF assms])
qed

definition packed_groups :: "qgroup list \<Rightarrow> u4_body" where
  "packed_groups gl = (pack_pairs (concat (map fst gl)), pack_pairs (map (fst \<circ> snd) gl), map (snd \<circ> snd) gl)"

lemma body_chunk_ok:
  assumes gs: "0 < gs" "gs dvd inn" and x: "rect out inn x" "x \<noteq> []" "0 < out" "0 < inn"
    and ev: "even (out * (inn div gs))"
  shows "body_chunk inn gs x = Inr (packed_groups (groups_of gs x))"
proof -
  let ?gl = "groups_of gs x"
  have "0 < inn div gs" using gs x(4) by (simp add: dvd_imp_le div_greater_zero_iff)
  then have ne: "length ?gl \<noteq> 0" "even (length ?gl)" using x ev by (simp_all add: length_groups_of [OF gs x(1)])
  have "out * inn = out * (inn div gs) * gs" using gs(2) by (simp add: mult.assoc)
  then have cd: "length (concat (map fst ?gl)) \<noteq> 0" "even (length (concat (map fst ?gl)))"
    unfolding length_codes [OF gs x(1)] using x ev by auto
  have ok: "list_all code_ok (concat (map fst ?gl))" "list_all code_ok (map (fst \<circ> snd) ?gl)"
    using code_ok_quantise by (auto simp: list_all_iff elim!: in_groups_of [OF gs x(1)])
  have "pack_u4 (concat (map fst ?gl)) = Inr (pack_pairs (concat (map fst ?gl)))"
    unfolding pack_u4_Inr_iff using cd ok(1) by force
  moreover have "pack_u4 (map (fst \<circ> snd) ?gl) = Inr (pack_pairs (map (fst \<circ> snd) ?gl))"
    unfolding pack_u4_Inr_iff using ne ok(2) by auto
  moreover have "quantise_group_affine inn gs x =
      Inr (map (map (\<lambda>row. map quantise_group (chunks gs (map f32 row)))) x)"
    using gs by (simp add: quantise_group_affine_def)
  ultimately show ?thesis by (simp add: body_chunk_def packed_groups_def groups_of_def)
qed

lemma rect_chunk: "rect out inn x \<Longrightarrow> 0 < k \<Longrightarrow> c \<in> set (chunks k x) \<Longrightarrow> rect out inn c"
  by (auto simp: rect_def dest!: set_chunk)


definition packable :: "qgroup list \<Rightarrow> bool" where
  "packable gl \<longleftrightarrow> even (length (concat (map fst gl))) \<and> even (length gl) \<and> gl \<noteq> [] \<and>
     list_all code_ok (concat (map fst gl)) \<and> list_all code_ok (map (fst \<circ> snd) gl)"

lemma body_chunk_Inr:
  assumes "body_chunk inn gs x = Inr b"
  shows "0 < gs" "gs dvd inn" "b = packed_groups (groups_of gs x)" "packable (groups_of gs x)"
  using assms
  by (auto simp: body_chunk_def res_simps pack_u4_Inr_iff quantise_group_affine_def packable_def
      packed_groups_def groups_of_def mod_eq_0_iff_dvd split: if_splits)

lemma packable_concat:
  assumes "ps \<noteq> []" "\<And>gl. gl \<in> set ps \<Longrightarrow> packable gl"
  shows "packable (concat ps)"
  using assms by (induction ps rule: list_nonempty_induct) (auto simp: packable_def)

lemma join_packed:
  assumes "ps \<noteq> []" "\<And>gl. gl \<in> set ps \<Longrightarrow> packable gl"
  shows "join_parts (map packed_groups ps) = Inr (packed_groups (concat ps))"
proof -
  have "even (length q)" if "q \<in> set (map (\<lambda>gl. concat (map fst gl)) ps)" for q
    using that assms(2) by (auto simp: packable_def)
  from pack_pairs_concat [of "map (\<lambda>gl. concat (map fst gl)) ps", OF this]
  have "pack_pairs (concat (map fst (concat ps))) = concat (map (\<lambda>gl. pack_pairs (concat (map fst gl))) ps)"
    by (simp add: concat_map_nested o_def)
  moreover have "even (length q)" if "q \<in> set (map (map (fst \<circ> snd)) ps)" for q
    using that assms(2) by (auto simp: packable_def)
  from pack_pairs_concat [of "map (map (fst \<circ> snd)) ps", OF this]
  have "pack_pairs (map (fst \<circ> snd) (concat ps)) = concat (map (\<lambda>gl. pack_pairs (map (fst \<circ> snd) gl)) ps)"
    by (simp add: map_concat o_def)
  ultimately show ?thesis
    using assms(1) by (simp add: join_parts_def packed_groups_def map_concat o_def)
qed

lemma fill_rows_Inr:
  assumes "fill_rows f sh rows = Inr b"
  defines "gl \<equiv> groups_of (group_size f) (map (map (map f32)) (entries rows))"
  shows "b = packed_groups gl" "packable gl" "0 < group_size f" "group_size f dvd snd (snd sh)" "tshape rows = sh"
proof -
  let ?x = "map (map (map f32)) (entries rows)" and ?k = "nat (expert_chunk f)"
  let ?c = "chunks ?k ?x" and ?inn = "snd (snd sh)" and ?gs = "group_size f"
  from assms(1) obtain parts where sh: "tshape rows = sh" and
    p: "map_res (body_chunk ?inn ?gs) ?c = Inr parts" and b: "join_parts parts = Inr b"
    by (auto simp: fill_rows_def res_simps split: if_splits)
  have ne: "?c \<noteq> []" using p b by (auto simp: join_parts_def)
  then have k: "0 < ?k" by (subst (asm) chunks.simps) (auto split: if_splits)
  have ok: "0 < ?gs \<and> ?gs dvd ?inn \<and> packable (groups_of ?gs x)" if "x \<in> set ?c" for x
    using map_res_Inr_ex [OF p that] body_chunk_Inr by blast
  show "tshape rows = sh" by (rule sh)
  show "0 < ?gs" "?gs dvd ?inn" using ne ok [of "hd ?c"] by auto
  have "parts = map (\<lambda>x. packed_groups (groups_of ?gs x)) ?c"
    by (rule map_res_Inr_eq_map [OF p]) (rule body_chunk_Inr(3))
  then have "parts = map packed_groups (map (groups_of ?gs) ?c)" by (simp add: o_def)
  then have "b = packed_groups (concat (map (groups_of ?gs) ?c))"
    using b join_packed [of "map (groups_of ?gs) ?c"] ne ok by auto
  moreover have gl: "gl = concat (map (groups_of ?gs) ?c)"
    unfolding gl_def groups_of_concat [symmetric] concat_chunks [OF k] ..
  ultimately show "b = packed_groups gl" by simp
  show "packable gl" unfolding gl using ne ok by (intro packable_concat) auto
qed

text \<open>What a fill returns, for every input whose chunks hold whole bytes.\<close>

lemma fill_rows_spec:
  assumes t: "tensor_ok rows" "tshape rows = (e, out, inn)" and k: "0 < expert_chunk f"
    and ev: "even (out * (inn div group_size f))"
  defines "x \<equiv> map (map (map f32)) (entries rows)"
  shows "fill_rows f (e, out, inn) rows =
    (if e = 0 then Inl ValueErr
     else if group_size f = 0 then Inl ZeroDivision
     else if inn mod group_size f \<noteq> 0 then Inl NotWholeGroups
     else if out = 0 \<or> inn = 0 then Inl ValueErr
     else Inr (packed_groups (groups_of (group_size f) x)))"
proof -
  let ?gs = "group_size f" and ?c = "chunks (nat (expert_chunk f)) x"
  have len: "length x = e" and r: "rect out inn x"
    using t by (auto simp: tensor_ok_def x_def rect_def)
  have k': "0 < nat (expert_chunk f)" using k by simp
  have ne: "?c \<noteq> []" if "e \<noteq> 0" using that len k' by (subst chunks.simps) auto
  have fr: "fill_rows f (e, out, inn) rows = rbind (map_res (body_chunk inn ?gs) ?c) join_parts"
    using t(2) by (simp add: fill_rows_def x_def)
  have all: "fill_rows f (e, out, inn) rows = Inl er"
    if "e \<noteq> 0" "\<And>y. y \<in> set ?c \<Longrightarrow> body_chunk inn ?gs y = Inl er" for er
    using map_res_all_Inl [OF ne [OF that(1)] that(2)] by (simp add: fr)
  consider (empty) "e = 0" | (zero) "e \<noteq> 0" "?gs = 0" | (rest) "e \<noteq> 0" "0 < ?gs" "\<not> ?gs dvd inn"
    | (flat) "e \<noteq> 0" "0 < ?gs" "?gs dvd inn" "out = 0 \<or> inn = 0"
    | (full) "e \<noteq> 0" "0 < ?gs" "?gs dvd inn" "0 < out" "0 < inn"
    by blast
  then show ?thesis
  proof cases
    case empty
    then show ?thesis using len by (simp add: fr [unfolded empty] join_parts_def)
  next
    case zero
    then show ?thesis using all by (simp add: body_chunk_def quantise_group_affine_def)
  next
    case rest
    then show ?thesis using all by (simp add: body_chunk_def quantise_group_affine_def mod_eq_0_iff_dvd)
  next
    case flat
    have "groups_of ?gs y = []" if "y \<in> set ?c" for y
      using length_groups_of [OF flat(2,3) rect_chunk [OF r k' that]] flat(4) by auto
    then have "body_chunk inn ?gs y = Inl ValueErr" if "y \<in> set ?c" for y
      using that flat by (simp add: body_chunk_def quantise_group_affine_def groups_of_def pack_u4_def)
    then show ?thesis using all flat by (simp add: mod_eq_0_iff_dvd)
  next
    case full
    have "body_chunk inn ?gs y = Inr (packed_groups (groups_of ?gs y))" if "y \<in> set ?c" for y
      using that rect_chunk [OF r k' that] chunks_nonempty [OF that] full ev by (intro body_chunk_ok)
    then have "map_res (body_chunk inn ?gs) ?c = Inr (map (\<lambda>y. packed_groups (groups_of ?gs y)) ?c)"
      by (rule map_res_Inr_map)
    then obtain b where b: "fill_rows f (e, out, inn) rows = Inr b"
      using ne [OF full(1)] by (simp add: fr join_parts_def)
    then show ?thesis using fill_rows_Inr(1) [OF b] full by (simp add: x_def mod_eq_0_iff_dvd)
  qed
qed

lemma unpack_packed:
  assumes "even (length q)" "list_all code_ok q" "n = int (length q)"
  shows "unpack_u4 (pack_pairs q) n = Inr (map word_of_int q)"
  using assms by (auto simp: unpack_u4_eq unpack_pack_pairs)

lemma body_Inr_iff:
  "body source ((l, k), sh) f = (f', Inr b) \<longleftrightarrow>
     (\<exists>t. source l k = Inr t \<and> fill_rows (note_request (l, k) f) sh t = Inr b \<and>
        f' = log_served (l, k) sh (body_bytes b) (note_request (l, k) f))"
  by (auto simp: body_def Let_def res_simps split: sum.splits)

lemma fill_rows_note [simp]: "fill_rows (note_request key f) = fill_rows f"
  by (simp add: fill_rows_def note_request_def fun_eq_iff)

end
