(* ===== verification/Fill_Properties.thy ===== *)
theory Fill_Properties
  imports Expert_Fill
begin

text \<open>
  The properties of the u4 fill: the error of the quantiser with all of its float roundings,
  two inputs on which the documented exact bounds are missed, that the packed bytes of a served
  body read back as the codes of its rows, that the chunk size does not change a result, and
  what the census says about a sequence of requests.
\<close>

subsection \<open>The quantiser\<close>

text \<open>C9. Every code and zero point of a quantised group is in 0..15, and the value \<open>dequantise_affine\<close> computes for every
  element is within \<open>1/2 + 2^-15\<close> steps of the original, for groups whose values span at least \<open>2^-100\<close> and for
  groups of equal values that are zero or at least \<open>2^-100\<close> in magnitude. All roundings of the quantiser, to float64 and to
  float32, and those of the dequantiser are included.\<close>

theorem quantise_error_bound:
  assumes "quantise_group g = (q, zp, scale)" and "group_in_range g"
  shows "0 \<le> zp \<and> zp \<le> 15 \<and> length q = length g \<and>
    (\<forall>i < length g. 0 \<le> q ! i \<and> q ! i \<le> 15 \<and>
       \<bar>g ! i - dequantise_affine (q ! i) zp scale\<bar> \<le> (1 / 2 + 1 / 2 ^ 15) * scale)"
proof -
  have ok: "list_all code_ok q" "code_ok zp" "length q = length g"
    using code_ok_quantise [of g] length_quantise [of g] assms(1) by simp_all
  then have "code_ok (q ! i)" if "i < length g" for i
    using that by (simp add: list_all_length)
  with ok(2,3) show ?thesis
    using quantise_group_decoded [OF assms(2) _ assms(1) _ ok(2)] by (simp add: code_ok_def)
qed

theorem quantise_error_bound_witness:
  "quantise_group [0, 15] = ([0, 15], 0, 1) \<and> \<bar>15 - dequantise_affine 15 0 1\<bar> \<le> (1 / 2 + 1 / 2 ^ 15) * 1"
proof -
  have q: "quantise_group [0, 15] = ([0, 15], 0, 1)" by code_simp
  have "group_in_range [0, 15]" by (simp add: group_in_range_def)
  from quantise_error_bound [OF q this] q show ?thesis by auto
qed

subsection \<open>Two inputs on which the documented bound is missed\<close>

lemma fl_fact1: "f64 (19) = 19"
  using fl_eqI [of "-48" 53 "19" "- 1074" "5348024557502464"]
  by (simp add: f64_def power_int_def field_simps)

lemma fl_fact2: "f64 (19 / 15) = 1426139882000657 / 1125899906842624"
  using fl_eqI [of "-52" 53 "19 / 15" "- 1074" "5704559528002628"]
  by (simp add: f64_def power_int_def field_simps)

lemma fl_fact3: "f64 (16888498602639360 / 1426139882000657) = 6666512606305011 / 562949953421312"
  using fl_eqI [of "-49" 53 "16888498602639360 / 1426139882000657" "- 1074" "6666512606305011"]
  by (simp add: f64_def power_int_def field_simps)

lemma fl_fact4: "f64 (5 / 4) = 5 / 4"
  using fl_eqI [of "-52" 53 "5 / 4" "- 1074" "5629499534213120"]
  by (simp add: f64_def power_int_def field_simps)

lemma fl_fact5: "f64 (4 / 3) = 6004799503160661 / 4503599627370496"
  using fl_eqI [of "-52" 53 "4 / 3" "- 1074" "6004799503160661"]
  by (simp add: f64_def power_int_def field_simps)

lemma fl_fact6: "f32 (6004799503160661 / 4503599627370496) = 11184811 / 8388608"
  using fl_eqI [of "-23" 24 "6004799503160661 / 4503599627370496" "- 149" "11184811"]
  by (simp add: f32_def power_int_def field_simps)

lemma fl_fact7: "f32 (- (83886080 / 11184811)) = - (15 / 2)"
  using fl_eqI [of "-21" 24 "- (83886080 / 11184811)" "- 149" "-15728640"]
  by (simp add: f32_def power_int_def field_simps)

lemma fl_fact8: "f32 (9 / 2) = 9 / 2"
  using fl_eqI [of "-21" 24 "9 / 2" "- 149" "9437184"]
  by (simp add: f32_def power_int_def field_simps)

lemma fl_fact9: "f32 (33554432 / 11184811) = 3"
  using fl_eqI [of "-22" 24 "33554432 / 11184811" "- 149" "12582912"]
  by (simp add: f32_def power_int_def field_simps)

lemma fl_fact10: "f32 (15) = 15"
  using fl_eqI [of "-20" 24 "15" "- 149" "15728640"]
  by (simp add: f32_def power_int_def field_simps)

lemma fl_fact11: "f32 (- (125829120 / 11184811)) = - (45 / 4)"
  using fl_eqI [of "-20" 24 "- (125829120 / 11184811)" "- 149" "-11796480"]
  by (simp add: f32_def power_int_def field_simps)

lemma fl_fact12: "f32 (3 / 4) = 3 / 4"
  using fl_eqI [of "-24" 24 "3 / 4" "- 149" "12582912"]
  by (simp add: f32_def power_int_def field_simps)

lemma fl_fact13: "f32 (11184811 / 8388608) = 11184811 / 8388608"
  using fl_eqI [of "-23" 24 "11184811 / 8388608" "- 149" "11184811"]
  by (simp add: f32_def power_int_def field_simps)

lemma fl_fact14: "f32 (11184811 / 16777216) = 11184811 / 16777216"
  using fl_eqI [of "-24" 24 "11184811 / 16777216" "- 149" "11184811"]
  by (simp add: f32_def power_int_def field_simps)

lemma fl_fact15: "f64 (- 63) = - 63"
  using fl_eqI [of "-47" 53 "- 63" "- 1074" "-8866461766385664"]
  by (simp add: f64_def power_int_def field_simps)

lemma fl_fact16: "f64 (21 / 5) = 4728779608739021 / 1125899906842624"
  using fl_eqI [of "-50" 53 "21 / 5" "- 1074" "4728779608739021"]
  by (simp add: f64_def power_int_def field_simps)

lemma fl_fact17: "f32 (4728779608739021 / 1125899906842624) = 4404019 / 1048576"
  using fl_eqI [of "-21" 24 "4728779608739021 / 1125899906842624" "- 149" "8808038"]
  by (simp add: f32_def power_int_def field_simps)

lemma fl_fact18: "f32 (66060288 / 4404019) = 15728641 / 1048576"
  using fl_eqI [of "-20" 24 "66060288 / 4404019" "- 149" "15728641"]
  by (simp add: f32_def power_int_def field_simps)

lemma fl_fact19: "f32 (15728641 / 1048576) = 15728641 / 1048576"
  using fl_eqI [of "-20" 24 "15728641 / 1048576" "- 149" "15728641"]
  by (simp add: f32_def power_int_def field_simps)

lemma fl_fact20: "f32 (66060285 / 1048576) = 16515071 / 262144"
  using fl_eqI [of "-18" 24 "66060285 / 1048576" "- 149" "16515071"]
  by (simp add: f32_def power_int_def field_simps)

lemma fl_fact21: "f32 (4404019 / 1048576) = 4404019 / 1048576"
  using fl_eqI [of "-21" 24 "4404019 / 1048576" "- 149" "8808038"]
  by (simp add: f32_def power_int_def field_simps)

lemmas fl_facts = fl_fact1 fl_fact2 fl_fact3 fl_fact4 fl_fact5 fl_fact6 fl_fact7 fl_fact8 fl_fact9 fl_fact10 fl_fact11 fl_fact12 fl_fact13 fl_fact14 fl_fact15 fl_fact16 fl_fact17 fl_fact18 fl_fact19 fl_fact20 fl_fact21

lemma rint_facts:
  "round_half_even (6666512606305011 / 562949953421312) = 12" "round_half_even (3 / 4) = 1"
  "round_half_even (15728641 / 1048576) = 15" "round_half_even 15 = 15" "round_half_even (9 / 2) = 4"
proof -
  show "round_half_even 15 = 15" using round_half_even_of_int [of 15] by simp
  have "\<lfloor>9 / 2 :: rat\<rfloor> = 4" by (simp add: floor_eq_iff)
  then show "round_half_even (9 / 2) = 4" by (simp add: round_half_even_def)
qed (rule round_half_even_eqI; simp)+

lemma minus_ten_group:
  "quantise_group [- 10, 4, - 15] = ([4, 15, 1], 12, 11184811 / 8388608)"
proof -
  have s: "group_step (- 15) 4 = 1426139882000657 / 1125899906842624"
    by (simp add: group_step_def u4_consts fl_facts)
  have d: "\<not> degenerate (- 15) 4" by (simp add: degenerate_def s)
  have z: "rounded_zp (- 15) 4 = 12"
    by (simp add: rounded_zp_def safe_step_def d s fl_facts rint_facts clip_code_def u4_consts)
  have w: "widened_step (- 15) 4 = 6004799503160661 / 4503599627370496"
    by (simp add: widened_step_def Let_def z safe_step_def d s u4_consts fl_facts)
  show ?thesis
    by (simp add: quantise_group_def Let_def zero_point_def affine_scale_def d z w affine_code_def
        fl_facts rint_facts clip_code_def u4_consts)
qed

lemma sixty_three_group: "quantise_group [63, 63] = ([15, 15], 0, 4404019 / 1048576)"
proof -
  have d: "degenerate 63 63" by (simp add: degenerate_def group_step_def f64_def)
  show ?thesis
    by (simp add: quantise_group_def Let_def zero_point_def affine_scale_def d affine_code_def
        fl_facts rint_facts clip_code_def u4_consts)
qed

text \<open>The half-step bound is not exact, and neither is a group of equal values: in the group
  \<open>[-10, 4, -15]\<close> the value -10 is decoded more than \<open>quantisation_step_bound\<close> away, and the group
  \<open>[63, 63]\<close> is dequantised to a value below 63.\<close>

theorem half_step_not_exact:
  "(case quantise_group [- 10, 4, - 15] of (q, zp, scale) \<Rightarrow>
      quantisation_step_bound scale < \<bar>- 10 - of_int (q ! 0 - zp) * scale\<bar>) \<and>
   (case quantise_group [63, 63] of (q, zp, scale) \<Rightarrow> dequantise_affine (q ! 0) zp scale < 63)"
  by (simp add: minus_ten_group sixty_three_group quantisation_step_bound_def dequantise_affine_def
      fl_facts f32_zero)

subsection \<open>A served body\<close>

text \<open>C10. The bytes of a served body read back, through the unpacking of the serving engine, as the codes
  and zero points of the quantised rows in row order; the scales are theirs; and the log gains
  exactly one entry with the size of what was returned.\<close>

theorem body_reads_back:
  assumes "body source ((l, k), (e, out, inn)) f = (f', Inr (w, z, s))"
    and "source l k = Inr t" and "tensor_ok t"
  defines "gl \<equiv> groups_of (group_size f) (map (map (map f32)) (entries t))"
  shows "unpack_u4 w (int (e * out * inn)) = Inr (map word_of_int (concat (map fst gl))) \<and>
    unpack_u4 z (int (e * out * (inn div group_size f))) = Inr (map (word_of_int \<circ> fst \<circ> snd) gl) \<and>
    s = map (snd \<circ> snd) gl \<and> 2 * length w = e * out * inn \<and>
    served f' = served f @ [(l, k, (e, out, inn), length w + length z + 4 * length s)]"
proof -
  have fr: "fill_rows f (e, out, inn) t = Inr (w, z, s)"
    and f': "f' = log_served (l, k) (e, out, inn) (body_bytes (w, z, s)) (note_request (l, k) f)"
    using assms(1,2) by (auto simp: body_Inr_iff)
  note r = fill_rows_Inr [OF fr, folded gl_def]
  have gs: "0 < group_size f" "group_size f dvd inn" and sh: "tshape t = (e, out, inn)" using r by simp_all
  have rc: "rect out inn (map (map (map f32)) (entries t))" "length (entries t) = e"
    using assms(3) sh by (auto simp: tensor_ok_def rect_def)
  have n: "length (concat (map fst gl)) = e * out * inn" "length gl = e * out * (inn div group_size f)"
    unfolding gl_def using length_codes [OF gs rc(1)] length_groups_of [OF gs rc(1)] rc(2) by (simp_all add: mult.assoc)
  have p: "even (length (concat (map fst gl)))" "even (length gl)" "list_all code_ok (concat (map fst gl))"
    "list_all code_ok (map (fst \<circ> snd) gl)" using r(2) by (simp_all add: packable_def)
  have b: "w = pack_pairs (concat (map fst gl))" "z = pack_pairs (map (fst \<circ> snd) gl)" "s = map (snd \<circ> snd) gl"
    using r(1) by (simp_all add: packed_groups_def)
  have "unpack_u4 w (int (e * out * inn)) = Inr (map word_of_int (concat (map fst gl)))"
    unfolding b(1) by (rule unpack_packed) (use p n in simp_all)
  moreover have "unpack_u4 z (int (e * out * (inn div group_size f))) = Inr (map word_of_int (map (fst \<circ> snd) gl))"
    unfolding b(2) by (rule unpack_packed) (use p n in simp_all)
  moreover have "2 * length w = e * out * inn" using p(1) n(1) by (simp add: b(1))
  ultimately show ?thesis
    by (simp add: b(3) f' log_served_def note_request_def body_bytes_def o_def)
qed

theorem body_reads_back_witness:
  "unpack_u4 [0xF0, 0] 4 = Inr [0, 15, 0, 0] \<and>
   snd (body (\<lambda>l k. Inr \<lparr>tshape = (2, 1, 2), entries = [[[0, 15]], [[0, 0]]]\<rparr>) ((0, ''up''), (2, 1, 2))
     (new_expert_filler 2 2)) = Inr ([0xF0, 0], [0], [1, 0])"
proof -
  let ?t = "\<lparr>tshape = (2, 1, 2), entries = [[[0, 15]], [[0, 0]]]\<rparr> :: tensor3"
  let ?b = "body (\<lambda>l k. Inr ?t) ((0, ''up''), (2, 1, 2)) (new_expert_filler 2 2)"
  have b: "snd ?b = Inr ([0xF0, 0], [0], [1, 0])" by code_simp
  then have "?b = (fst ?b, Inr ([0xF0, 0], [0], [1, 0]))" by (metis prod.collapse)
  moreover have "tensor_ok ?t" by code_simp
  moreover have "concat (map fst (groups_of 2 (map (map (map f32)) (entries ?t)))) = [0, 15, 0, 0]" by code_simp
  ultimately have "unpack_u4 [0xF0, 0] 4 = Inr [0, 15, 0, 0]"
    using body_reads_back [of "\<lambda>l k. Inr ?t" 0 "''up''" 2 1 2 "new_expert_filler 2 2" "fst ?b" "[0xF0, 0]" "[0]" "[1, 0]" ?t]
    by (simp add: new_expert_filler_def)
  with b show ?thesis by simp
qed

text \<open>C11. The number of experts quantised per pass, when it is positive, does not change the result of a request, nor
  whether and how it fails, provided the source returns a well-formed tensor and an expert has an even number of groups (with an
  odd number the zero points of a pass need not fill whole bytes).\<close>

theorem body_chunk_invariant:
  assumes "source l k = Inr t" and "tensor_ok t" and "0 < c" and "0 < expert_chunk f"
    and "even (out * (inn div group_size f))"
  shows "snd (body source ((l, k), (e, out, inn)) (f\<lparr>expert_chunk := c\<rparr>)) =
    snd (body source ((l, k), (e, out, inn)) f)"
proof -
  let ?sh = "(e, out, inn)"
  have "fill_rows (f\<lparr>expert_chunk := c\<rparr>) ?sh t = fill_rows f ?sh t"
  proof (cases "tshape t = ?sh")
    case True
    show ?thesis using fill_rows_spec [OF assms(2) True] assms(3-5) by simp
  qed (simp add: fill_rows_def)
  then show ?thesis using assms(1) by (simp add: body_def Let_def split: sum.splits)
qed

theorem body_chunk_invariant_witness:
  "snd (body (\<lambda>l k. Inr \<lparr>tshape = (2, 2, 2), entries = [[[0, 15], [0, 0]], [[0, 0], [1, 1]]]\<rparr>)
      ((0, ''up''), (2, 2, 2)) (new_expert_filler 2 1)) =
   snd (body (\<lambda>l k. Inr \<lparr>tshape = (2, 2, 2), entries = [[[0, 15], [0, 0]], [[0, 0], [1, 1]]]\<rparr>)
      ((0, ''up''), (2, 2, 2)) (new_expert_filler 2 32))"
  using body_chunk_invariant [of "\<lambda>l k. Inr \<lparr>tshape = (2, 2, 2), entries = [[[0, 15], [0, 0]], [[0, 0], [1, 1]]]\<rparr>"
      0 "''up''" "\<lparr>tshape = (2, 2, 2), entries = [[[0, 15], [0, 0]], [[0, 0], [1, 1]]]\<rparr>" 1 "new_expert_filler 2 32" 2 2 2]
  by (simp add: new_expert_filler_def tensor_ok_def rect_def)

text \<open>After any sequence of requests to a fresh filler, \<open>double_written\<close> is empty exactly when no body
  was requested twice, \<open>bodies\<close> counts the requests that succeeded and \<open>filled_bytes\<close> is the size of
  what they returned.\<close>

theorem census_accounts:
  "(fc_double_written (census (fst (run_requests (body source) rs (new_expert_filler gs c)))) = [] \<longleftrightarrow>
      distinct (map fst rs)) \<and>
   fc_bodies (census (fst (run_requests (body source) rs (new_expert_filler gs c)))) =
      length (successes (snd (run_requests (body source) rs (new_expert_filler gs c)))) \<and>
   fc_filled_bytes (census (fst (run_requests (body source) rs (new_expert_filler gs c)))) =
      sum_list (map body_bytes (successes (snd (run_requests (body source) rs (new_expert_filler gs c)))))"
proof -
  have f: "seen (new_expert_filler gs c) = []" "served (new_expert_filler gs c) = []"
    by (simp_all add: new_expert_filler_def)
  show ?thesis using u4.no_double_iff [OF f] u4.census_run(2,3) [OF f] by blast
qed

end
