(* ===== verification/Native_Tables.thy ===== *)
theory Native_Tables
  imports "HOL-Library.Word"
begin

text \<open>
  The constant tables of \<open>tools/q4e/native_blocks.py\<close>: the 16 levels of the IQ4 formats, the bit
  masks and sign bytes, and the magnitude grids of IQ3_XXS and IQ2_S, whose words hold four and
  eight magnitudes in little-endian byte order.
\<close>

definition KVALUES_IQ4NL :: "int list" where
  "KVALUES_IQ4NL = [
     - 127, - 104, - 83, - 65, - 49, - 35, - 22, - 10,
     1, 13, 25, 38, 53, 69, 89, 113]"

definition KMASK_IQ2XS :: "8 word list" where
  "KMASK_IQ2XS = [1, 2, 4, 8, 16, 32, 64, 128]"

definition KSIGNS_IQ2XS :: "8 word list" where
  "KSIGNS_IQ2XS = [
     0, 129, 130, 3, 132, 5, 6, 135, 136, 9, 10, 139, 12, 141, 142, 15,
     144, 17, 18, 147, 20, 149, 150, 23, 24, 153, 154, 27, 156, 29, 30, 159,
     160, 33, 34, 163, 36, 165, 166, 39, 40, 169, 170, 43, 172, 45, 46, 175,
     48, 177, 178, 51, 180, 53, 54, 183, 184, 57, 58, 187, 60, 189, 190, 63,
     192, 65, 66, 195, 68, 197, 198, 71, 72, 201, 202, 75, 204, 77, 78, 207,
     80, 209, 210, 83, 212, 85, 86, 215, 216, 89, 90, 219, 92, 221, 222, 95,
     96, 225, 226, 99, 228, 101, 102, 231, 232, 105, 106, 235, 108, 237, 238, 111,
     240, 113, 114, 243, 116, 245, 246, 119, 120, 249, 250, 123, 252, 125, 126, 255]"

definition IQ3XXS_GRID_U32 :: "32 word list" where
  "IQ3XXS_GRID_U32 = [
     0x04040404, 0x04040414, 0x04040424, 0x04040c0c, 0x04040c1c, 0x04040c3e, 0x04041404, 0x04041414,
     0x04041c0c, 0x04042414, 0x04043e1c, 0x04043e2c, 0x040c040c, 0x040c041c, 0x040c0c04, 0x040c0c14,
     0x040c140c, 0x040c142c, 0x040c1c04, 0x040c1c14, 0x040c240c, 0x040c2c24, 0x040c3e04, 0x04140404,
     0x04140414, 0x04140424, 0x04140c0c, 0x04141404, 0x04141414, 0x04141c0c, 0x04141c1c, 0x04141c3e,
     0x04142c0c, 0x04142c3e, 0x04143e2c, 0x041c040c, 0x041c043e, 0x041c0c04, 0x041c0c14, 0x041c142c,
     0x041c3e04, 0x04240c1c, 0x04241c3e, 0x04242424, 0x04242c3e, 0x04243e1c, 0x04243e2c, 0x042c040c,
     0x042c043e, 0x042c1c14, 0x042c2c14, 0x04341c2c, 0x04343424, 0x043e0c04, 0x043e0c24, 0x043e0c34,
     0x043e241c, 0x043e340c, 0x0c04040c, 0x0c04041c, 0x0c040c04, 0x0c040c14, 0x0c04140c, 0x0c04141c,
     0x0c041c04, 0x0c041c14, 0x0c041c24, 0x0c04243e, 0x0c042c04, 0x0c0c0404, 0x0c0c0414, 0x0c0c0c0c,
     0x0c0c1404, 0x0c0c1414, 0x0c14040c, 0x0c14041c, 0x0c140c04, 0x0c140c14, 0x0c14140c, 0x0c141c04,
     0x0c143e14, 0x0c1c0404, 0x0c1c0414, 0x0c1c1404, 0x0c1c1c0c, 0x0c1c2434, 0x0c1c3434, 0x0c24040c,
     0x0c24042c, 0x0c242c04, 0x0c2c1404, 0x0c2c1424, 0x0c2c2434, 0x0c2c3e0c, 0x0c34042c, 0x0c3e1414,
     0x0c3e2404, 0x14040404, 0x14040414, 0x14040c0c, 0x14040c1c, 0x14041404, 0x14041414, 0x14041434,
     0x14041c0c, 0x14042414, 0x140c040c, 0x140c041c, 0x140c042c, 0x140c0c04, 0x140c0c14, 0x140c140c,
     0x140c1c04, 0x140c341c, 0x140c343e, 0x140c3e04, 0x14140404, 0x14140414, 0x14140c0c, 0x14140c3e,
     0x14141404, 0x14141414, 0x14141c3e, 0x14142404, 0x14142c2c, 0x141c040c, 0x141c0c04, 0x141c0c24,
     0x141c3e04, 0x141c3e24, 0x14241c2c, 0x14242c1c, 0x142c041c, 0x142c143e, 0x142c240c, 0x142c3e24,
     0x143e040c, 0x143e041c, 0x143e0c34, 0x143e242c, 0x1c04040c, 0x1c040c04, 0x1c040c14, 0x1c04140c,
     0x1c04141c, 0x1c042c04, 0x1c04342c, 0x1c043e14, 0x1c0c0404, 0x1c0c0414, 0x1c0c1404, 0x1c0c1c0c,
     0x1c0c2424, 0x1c0c2434, 0x1c14040c, 0x1c14041c, 0x1c140c04, 0x1c14142c, 0x1c142c14, 0x1c143e14,
     0x1c1c0c0c, 0x1c1c1c1c, 0x1c241c04, 0x1c24243e, 0x1c243e14, 0x1c2c0404, 0x1c2c0434, 0x1c2c1414,
     0x1c2c2c2c, 0x1c340c24, 0x1c341c34, 0x1c34341c, 0x1c3e1c1c, 0x1c3e3404, 0x24040424, 0x24040c3e,
     0x24041c2c, 0x24041c3e, 0x24042c1c, 0x24042c3e, 0x240c3e24, 0x24141404, 0x24141c3e, 0x24142404,
     0x24143404, 0x24143434, 0x241c043e, 0x241c242c, 0x24240424, 0x24242c0c, 0x24243424, 0x242c142c,
     0x242c241c, 0x242c3e04, 0x243e042c, 0x243e0c04, 0x243e0c14, 0x243e1c04, 0x2c040c14, 0x2c04240c,
     0x2c043e04, 0x2c0c0404, 0x2c0c0434, 0x2c0c1434, 0x2c0c2c2c, 0x2c140c24, 0x2c141c14, 0x2c143e14,
     0x2c1c0414, 0x2c1c2c1c, 0x2c240c04, 0x2c24141c, 0x2c24143e, 0x2c243e14, 0x2c2c0414, 0x2c2c1c0c,
     0x2c342c04, 0x2c3e1424, 0x2c3e2414, 0x34041424, 0x34042424, 0x34042434, 0x34043424, 0x340c140c,
     0x340c340c, 0x34140c3e, 0x34143424, 0x341c1c04, 0x341c1c34, 0x34242424, 0x342c042c, 0x342c2c14,
     0x34341c1c, 0x343e041c, 0x343e140c, 0x3e04041c, 0x3e04042c, 0x3e04043e, 0x3e040c04, 0x3e041c14,
     0x3e042c14, 0x3e0c1434, 0x3e0c2404, 0x3e140c14, 0x3e14242c, 0x3e142c14, 0x3e1c0404, 0x3e1c0c2c,
     0x3e1c1c1c, 0x3e1c3404, 0x3e24140c, 0x3e24240c, 0x3e2c0404, 0x3e2c0414, 0x3e2c1424, 0x3e341c04]"

definition IQ2S_GRID_U64 :: "64 word list" where
  "IQ2S_GRID_U64 = [
     0x0808080808080808, 0x080808080808082b, 0x0808080808081919, 0x0808080808082b08,
     0x0808080808082b2b, 0x0808080808190819, 0x0808080808191908, 0x080808080819192b,
     0x0808080808192b19, 0x08080808082b0808, 0x08080808082b082b, 0x08080808082b1919,
     0x08080808082b2b08, 0x0808080819080819, 0x0808080819081908, 0x080808081908192b,
     0x0808080819082b19, 0x0808080819190808, 0x080808081919082b, 0x0808080819191919,
     0x0808080819192b08, 0x08080808192b0819, 0x08080808192b1908, 0x08080808192b192b,
     0x08080808192b2b19, 0x080808082b080808, 0x080808082b08082b, 0x080808082b081919,
     0x080808082b082b08, 0x080808082b190819, 0x080808082b191908, 0x080808082b2b0808,
     0x080808082b2b1919, 0x080808082b2b2b2b, 0x0808081908080819, 0x0808081908081908,
     0x080808190808192b, 0x0808081908082b19, 0x0808081908190808, 0x080808190819082b,
     0x0808081908191919, 0x0808081908192b08, 0x08080819082b0819, 0x08080819082b1908,
     0x0808081919080808, 0x080808191908082b, 0x0808081919081919, 0x0808081919082b08,
     0x0808081919190819, 0x0808081919191908, 0x080808191919192b, 0x0808081919192b19,
     0x08080819192b0808, 0x08080819192b1919, 0x08080819192b2b08, 0x080808192b080819,
     0x080808192b081908, 0x080808192b190808, 0x080808192b19082b, 0x080808192b191919,
     0x080808192b2b0819, 0x080808192b2b1908, 0x0808082b08080808, 0x0808082b0808082b,
     0x0808082b08081919, 0x0808082b08082b08, 0x0808082b08190819, 0x0808082b08191908,
     0x0808082b082b0808, 0x0808082b082b2b2b, 0x0808082b19080819, 0x0808082b19081908,
     0x0808082b1908192b, 0x0808082b19082b19, 0x0808082b19190808, 0x0808082b19191919,
     0x0808082b2b080808, 0x0808082b2b081919, 0x0808082b2b082b2b, 0x0808082b2b191908,
     0x0808082b2b2b082b, 0x0808190808080819, 0x0808190808081908, 0x080819080808192b,
     0x0808190808082b19, 0x0808190808190808, 0x080819080819082b, 0x0808190808191919,
     0x0808190808192b08, 0x08081908082b0819, 0x08081908082b1908, 0x08081908082b192b,
     0x08081908082b2b19, 0x0808190819080808, 0x080819081908082b, 0x0808190819081919,
     0x0808190819082b08, 0x0808190819082b2b, 0x0808190819190819, 0x0808190819191908,
     0x080819081919192b, 0x0808190819192b19, 0x08081908192b0808, 0x08081908192b082b,
     0x08081908192b1919, 0x080819082b080819, 0x080819082b081908, 0x080819082b08192b,
     0x080819082b082b19, 0x080819082b190808, 0x080819082b191919, 0x080819082b192b08,
     0x080819082b2b0819, 0x080819082b2b1908, 0x0808191908080808, 0x080819190808082b,
     0x0808191908081919, 0x0808191908082b08, 0x0808191908082b2b, 0x0808191908190819,
     0x0808191908191908, 0x080819190819192b, 0x0808191908192b19, 0x08081919082b0808,
     0x08081919082b1919, 0x08081919082b2b08, 0x0808191919080819, 0x0808191919081908,
     0x080819191908192b, 0x0808191919082b19, 0x0808191919190808, 0x080819191919082b,
     0x0808191919191919, 0x0808191919192b08, 0x08081919192b0819, 0x08081919192b1908,
     0x080819192b080808, 0x080819192b08082b, 0x080819192b081919, 0x080819192b082b08,
     0x080819192b190819, 0x080819192b191908, 0x080819192b2b0808, 0x0808192b08080819,
     0x0808192b08081908, 0x0808192b0808192b, 0x0808192b08082b19, 0x0808192b08190808,
     0x0808192b08191919, 0x0808192b19080808, 0x0808192b19081919, 0x0808192b19082b08,
     0x0808192b19190819, 0x0808192b19191908, 0x0808192b192b0808, 0x0808192b2b080819,
     0x0808192b2b081908, 0x0808192b2b190808, 0x08082b0808080808, 0x08082b080808082b,
     0x08082b0808081919, 0x08082b0808082b08, 0x08082b0808190819, 0x08082b0808191908,
     0x08082b080819192b, 0x08082b0808192b19, 0x08082b08082b0808, 0x08082b08082b1919,
     0x08082b08082b2b2b, 0x08082b0819080819, 0x08082b0819081908, 0x08082b081908192b,
     0x08082b0819082b19, 0x08082b0819190808, 0x08082b081919082b, 0x08082b0819191919,
     0x08082b0819192b08, 0x08082b08192b0819, 0x08082b08192b1908, 0x08082b082b080808,
     0x08082b082b081919, 0x08082b082b191908, 0x08082b082b2b2b2b, 0x08082b1908080819,
     0x08082b1908081908, 0x08082b1908190808, 0x08082b190819082b, 0x08082b1908191919,
     0x08082b1908192b08, 0x08082b19082b0819, 0x08082b1919080808, 0x08082b1919081919,
     0x08082b1919082b08, 0x08082b1919190819, 0x08082b1919191908, 0x08082b19192b0808,
     0x08082b192b080819, 0x08082b192b190808, 0x08082b2b08080808, 0x08082b2b08190819,
     0x08082b2b08191908, 0x08082b2b082b082b, 0x08082b2b082b2b08, 0x08082b2b082b2b2b,
     0x08082b2b19190808, 0x08082b2b2b192b19, 0x0819080808080819, 0x0819080808081908,
     0x081908080808192b, 0x0819080808082b19, 0x0819080808190808, 0x081908080819082b,
     0x0819080808191919, 0x0819080808192b08, 0x08190808082b0819, 0x08190808082b1908,
     0x08190808082b192b, 0x0819080819080808, 0x081908081908082b, 0x0819080819081919,
     0x0819080819082b08, 0x0819080819190819, 0x0819080819191908, 0x081908081919192b,
     0x0819080819192b19, 0x08190808192b0808, 0x08190808192b082b, 0x08190808192b1919,
     0x08190808192b2b08, 0x081908082b080819, 0x081908082b081908, 0x081908082b08192b,
     0x081908082b190808, 0x081908082b191919, 0x081908082b192b08, 0x081908082b2b0819,
     0x081908082b2b1908, 0x0819081908080808, 0x081908190808082b, 0x0819081908081919,
     0x0819081908082b08, 0x0819081908082b2b, 0x0819081908190819, 0x0819081908191908,
     0x081908190819192b, 0x0819081908192b19, 0x08190819082b0808, 0x08190819082b082b,
     0x08190819082b1919, 0x08190819082b2b08, 0x0819081919080819, 0x0819081919081908,
     0x081908191908192b, 0x0819081919082b19, 0x0819081919190808, 0x081908191919082b,
     0x0819081919191919, 0x0819081919192b08, 0x08190819192b0819, 0x08190819192b1908,
     0x081908192b080808, 0x081908192b08082b, 0x081908192b081919, 0x081908192b082b08,
     0x081908192b190819, 0x081908192b191908, 0x0819082b08080819, 0x0819082b08081908,
     0x0819082b08082b19, 0x0819082b08190808, 0x0819082b08191919, 0x0819082b082b0819,
     0x0819082b082b1908, 0x0819082b19080808, 0x0819082b19081919, 0x0819082b19190819,
     0x0819082b19191908, 0x0819082b2b080819, 0x0819082b2b081908, 0x0819082b2b190808,
     0x0819190808080808, 0x081919080808082b, 0x0819190808081919, 0x0819190808082b08,
     0x0819190808190819, 0x0819190808191908, 0x081919080819192b, 0x0819190808192b19,
     0x08191908082b0808, 0x08191908082b1919, 0x08191908082b2b08, 0x0819190819080819,
     0x0819190819081908, 0x081919081908192b, 0x0819190819082b19, 0x0819190819190808,
     0x081919081919082b, 0x0819190819191919, 0x0819190819192b08, 0x08191908192b0819,
     0x08191908192b1908, 0x081919082b080808, 0x081919082b08082b, 0x081919082b081919,
     0x081919082b082b08, 0x081919082b190819, 0x081919082b191908, 0x081919082b2b0808,
     0x0819191908080819, 0x0819191908081908, 0x081919190808192b, 0x0819191908082b19,
     0x0819191908190808, 0x081919190819082b, 0x0819191908191919, 0x0819191908192b08,
     0x08191919082b0819, 0x08191919082b1908, 0x0819191919080808, 0x081919191908082b,
     0x0819191919081919, 0x0819191919082b08, 0x0819191919190819, 0x0819191919191908,
     0x08191919192b0808, 0x081919192b080819, 0x081919192b081908, 0x081919192b190808,
     0x0819192b08080808, 0x0819192b08081919, 0x0819192b08082b08, 0x0819192b08190819,
     0x0819192b08191908, 0x0819192b082b0808, 0x0819192b19080819, 0x0819192b19081908,
     0x0819192b19190808, 0x0819192b2b080808, 0x0819192b2b2b2b2b, 0x08192b0808080819,
     0x08192b0808081908, 0x08192b080808192b, 0x08192b0808082b19, 0x08192b0808190808,
     0x08192b0808191919, 0x08192b0808192b08, 0x08192b08082b0819, 0x08192b0819080808,
     0x08192b081908082b, 0x08192b0819081919, 0x08192b0819082b08, 0x08192b0819190819,
     0x08192b0819191908, 0x08192b08192b0808, 0x08192b082b080819, 0x08192b082b081908,
     0x08192b1908080808, 0x08192b190808082b, 0x08192b1908081919, 0x08192b1908082b08,
     0x08192b1908190819, 0x08192b1908191908, 0x08192b19082b0808, 0x08192b1919080819,
     0x08192b1919081908, 0x08192b1919190808, 0x08192b19192b2b19, 0x08192b192b2b082b,
     0x08192b2b08081908, 0x08192b2b08190808, 0x08192b2b19080808, 0x08192b2b1919192b,
     0x082b080808080808, 0x082b08080808082b, 0x082b080808081919, 0x082b080808082b08,
     0x082b080808190819, 0x082b080808191908, 0x082b08080819192b, 0x082b080808192b19,
     0x082b0808082b0808, 0x082b0808082b1919, 0x082b0808082b2b2b, 0x082b080819080819,
     0x082b080819081908, 0x082b080819190808, 0x082b08081919082b, 0x082b080819191919,
     0x082b0808192b1908, 0x082b08082b080808, 0x082b08082b082b2b, 0x082b08082b191908,
     0x082b08082b2b2b2b, 0x082b081908080819, 0x082b081908081908, 0x082b081908190808,
     0x082b08190819082b, 0x082b081908191919, 0x082b0819082b0819, 0x082b081919080808,
     0x082b08191908082b, 0x082b081919081919, 0x082b081919190819, 0x082b081919191908,
     0x082b0819192b0808, 0x082b08192b080819, 0x082b08192b081908, 0x082b08192b190808,
     0x082b082b08080808, 0x082b082b08082b2b, 0x082b082b082b082b, 0x082b082b082b2b08,
     0x082b082b082b2b2b, 0x082b082b19081908, 0x082b082b19190808, 0x082b082b2b082b08,
     0x082b082b2b082b2b, 0x082b082b2b2b2b08, 0x082b190808080819, 0x082b190808081908,
     0x082b19080808192b, 0x082b190808082b19, 0x082b190808190808, 0x082b190808191919,
     0x082b190808192b08, 0x082b1908082b0819, 0x082b1908082b1908, 0x082b190819080808,
     0x082b19081908082b, 0x082b190819081919, 0x082b190819082b08, 0x082b190819190819,
     0x082b190819191908, 0x082b1908192b0808, 0x082b19082b080819, 0x082b19082b081908,
     0x082b19082b190808, 0x082b191908080808, 0x082b191908081919, 0x082b191908082b08,
     0x082b191908190819, 0x082b191908191908, 0x082b1919082b0808, 0x082b191919080819,
     0x082b191919081908, 0x082b191919190808, 0x082b1919192b192b, 0x082b19192b080808,
     0x082b192b08080819, 0x082b192b08081908, 0x082b192b08190808, 0x082b192b19080808,
     0x082b192b19192b19, 0x082b2b0808080808, 0x082b2b0808081919, 0x082b2b0808190819,
     0x082b2b0808191908, 0x082b2b0819080819, 0x082b2b0819081908, 0x082b2b0819190808,
     0x082b2b082b082b2b, 0x082b2b082b2b2b2b, 0x082b2b1908080819, 0x082b2b1908081908,
     0x082b2b1908190808, 0x082b2b192b191919, 0x082b2b2b08082b2b, 0x082b2b2b082b082b,
     0x082b2b2b192b1908, 0x082b2b2b2b082b08, 0x082b2b2b2b082b2b, 0x1908080808080819,
     0x1908080808081908, 0x190808080808192b, 0x1908080808082b19, 0x1908080808190808,
     0x190808080819082b, 0x1908080808191919, 0x1908080808192b08, 0x1908080808192b2b,
     0x19080808082b0819, 0x19080808082b1908, 0x19080808082b192b, 0x1908080819080808,
     0x190808081908082b, 0x1908080819081919, 0x1908080819082b08, 0x1908080819082b2b,
     0x1908080819190819, 0x1908080819191908, 0x190808081919192b, 0x1908080819192b19,
     0x19080808192b0808, 0x19080808192b082b, 0x19080808192b1919, 0x190808082b080819,
     0x190808082b081908, 0x190808082b190808, 0x190808082b191919, 0x190808082b192b08,
     0x190808082b2b0819, 0x190808082b2b1908, 0x1908081908080808, 0x190808190808082b,
     0x1908081908081919, 0x1908081908082b08, 0x1908081908190819, 0x1908081908191908,
     0x190808190819192b, 0x1908081908192b19, 0x19080819082b0808, 0x19080819082b082b,
     0x19080819082b1919, 0x1908081919080819, 0x1908081919081908, 0x190808191908192b,
     0x1908081919082b19, 0x1908081919190808, 0x190808191919082b, 0x1908081919191919,
     0x1908081919192b08, 0x19080819192b0819, 0x19080819192b1908, 0x190808192b080808,
     0x190808192b08082b, 0x190808192b081919, 0x190808192b082b08, 0x190808192b190819,
     0x190808192b191908, 0x190808192b2b0808, 0x1908082b08080819, 0x1908082b08081908,
     0x1908082b08190808, 0x1908082b0819082b, 0x1908082b08191919, 0x1908082b08192b08,
     0x1908082b082b1908, 0x1908082b19080808, 0x1908082b19081919, 0x1908082b19082b08,
     0x1908082b19190819, 0x1908082b19191908, 0x1908082b192b0808, 0x1908082b2b080819,
     0x1908082b2b081908, 0x1908190808080808, 0x190819080808082b, 0x1908190808081919,
     0x1908190808082b08, 0x1908190808082b2b, 0x1908190808190819, 0x1908190808191908,
     0x190819080819192b, 0x1908190808192b19, 0x19081908082b0808, 0x19081908082b082b,
     0x19081908082b1919, 0x19081908082b2b08, 0x1908190819080819, 0x1908190819081908,
     0x190819081908192b, 0x1908190819082b19, 0x1908190819190808, 0x190819081919082b,
     0x1908190819191919, 0x1908190819192b08, 0x19081908192b0819, 0x19081908192b1908,
     0x190819082b080808, 0x190819082b08082b, 0x190819082b081919, 0x190819082b082b08,
     0x190819082b190819, 0x190819082b191908, 0x190819082b2b0808, 0x1908191908080819,
     0x1908191908081908, 0x190819190808192b, 0x1908191908082b19, 0x1908191908190808,
     0x190819190819082b, 0x1908191908191919, 0x1908191908192b08, 0x19081919082b0819,
     0x19081919082b1908, 0x1908191919080808, 0x190819191908082b, 0x1908191919081919,
     0x1908191919082b08, 0x1908191919190819, 0x1908191919191908, 0x19081919192b0808,
     0x19081919192b2b2b, 0x190819192b080819, 0x190819192b081908, 0x190819192b190808,
     0x1908192b08080808, 0x1908192b0808082b, 0x1908192b08081919, 0x1908192b08082b08,
     0x1908192b08190819, 0x1908192b08191908, 0x1908192b082b0808, 0x1908192b19080819,
     0x1908192b19081908, 0x1908192b19190808, 0x1908192b2b080808, 0x1908192b2b2b1919,
     0x19082b0808080819, 0x19082b0808081908, 0x19082b0808082b19, 0x19082b0808190808,
     0x19082b080819082b, 0x19082b0808191919, 0x19082b0808192b08, 0x19082b08082b0819,
     0x19082b08082b1908, 0x19082b0819080808, 0x19082b081908082b, 0x19082b0819081919,
     0x19082b0819082b08, 0x19082b0819190819, 0x19082b0819191908, 0x19082b08192b0808,
     0x19082b082b081908, 0x19082b082b190808, 0x19082b1908080808, 0x19082b190808082b,
     0x19082b1908081919, 0x19082b1908082b08, 0x19082b1908190819, 0x19082b1908191908,
     0x19082b19082b0808, 0x19082b1919080819, 0x19082b1919081908, 0x19082b1919190808,
     0x19082b192b080808, 0x19082b192b19192b, 0x19082b2b08080819, 0x19082b2b08081908,
     0x19082b2b08190808, 0x19082b2b19080808, 0x1919080808080808, 0x191908080808082b,
     0x1919080808081919, 0x1919080808082b08, 0x1919080808190819, 0x1919080808191908,
     0x191908080819192b, 0x1919080808192b19, 0x19190808082b0808, 0x19190808082b082b,
     0x19190808082b1919, 0x19190808082b2b08, 0x1919080819080819, 0x1919080819081908,
     0x191908081908192b, 0x1919080819082b19, 0x1919080819190808, 0x191908081919082b,
     0x1919080819191919, 0x1919080819192b08, 0x19190808192b0819, 0x19190808192b1908,
     0x191908082b080808, 0x191908082b08082b, 0x191908082b081919, 0x191908082b082b08,
     0x191908082b190819, 0x191908082b191908, 0x1919081908080819, 0x1919081908081908,
     0x191908190808192b, 0x1919081908082b19, 0x1919081908190808, 0x191908190819082b,
     0x1919081908191919, 0x1919081908192b08, 0x19190819082b0819, 0x19190819082b1908,
     0x1919081919080808, 0x191908191908082b, 0x1919081919081919, 0x1919081919082b08,
     0x1919081919190819, 0x1919081919191908, 0x19190819192b0808, 0x191908192b080819,
     0x191908192b081908, 0x191908192b190808, 0x1919082b08080808, 0x1919082b08081919,
     0x1919082b08082b08, 0x1919082b08190819, 0x1919082b08191908, 0x1919082b082b0808,
     0x1919082b19080819, 0x1919082b19081908, 0x1919082b19190808, 0x1919082b192b2b19,
     0x1919082b2b080808, 0x1919190808080819, 0x1919190808081908, 0x191919080808192b,
     0x1919190808082b19, 0x1919190808190808, 0x191919080819082b, 0x1919190808191919,
     0x1919190808192b08, 0x19191908082b0819, 0x19191908082b1908, 0x1919190819080808,
     0x191919081908082b, 0x1919190819081919, 0x1919190819082b08, 0x1919190819190819,
     0x1919190819191908, 0x19191908192b0808, 0x191919082b080819, 0x191919082b081908,
     0x191919082b190808, 0x1919191908080808, 0x191919190808082b, 0x1919191908081919,
     0x1919191908082b08, 0x1919191908190819, 0x1919191908191908, 0x19191919082b0808,
     0x1919191919080819, 0x1919191919081908, 0x1919191919190808, 0x191919192b080808,
     0x1919192b08080819, 0x1919192b08081908, 0x1919192b08190808, 0x1919192b082b192b,
     0x1919192b19080808, 0x19192b0808080808, 0x19192b080808082b, 0x19192b0808081919,
     0x19192b0808082b08, 0x19192b0808190819, 0x19192b0808191908, 0x19192b08082b0808,
     0x19192b0819080819, 0x19192b0819081908, 0x19192b0819190808, 0x19192b0819192b2b,
     0x19192b082b080808, 0x19192b1908080819, 0x19192b1908081908, 0x19192b1908190808,
     0x19192b1919080808, 0x19192b2b08080808, 0x19192b2b08192b19, 0x19192b2b2b081919,
     0x19192b2b2b2b2b08, 0x192b080808080819, 0x192b080808081908, 0x192b08080808192b,
     0x192b080808190808, 0x192b08080819082b, 0x192b080808191919, 0x192b080808192b08,
     0x192b0808082b0819, 0x192b0808082b1908, 0x192b080819080808, 0x192b080819081919,
     0x192b080819082b08, 0x192b080819190819, 0x192b080819191908, 0x192b0808192b0808,
     0x192b08082b081908, 0x192b08082b190808, 0x192b081908080808, 0x192b08190808082b,
     0x192b081908081919, 0x192b081908082b08, 0x192b081908190819, 0x192b081908191908,
     0x192b0819082b0808, 0x192b081919080819, 0x192b081919081908, 0x192b081919190808,
     0x192b08192b080808, 0x192b08192b192b19, 0x192b082b08081908, 0x192b082b08190808,
     0x192b082b19080808, 0x192b082b1919192b, 0x192b082b2b2b0819, 0x192b190808080808,
     0x192b190808081919, 0x192b190808082b08, 0x192b190808190819, 0x192b190808191908,
     0x192b1908082b0808, 0x192b190819080819, 0x192b190819081908, 0x192b190819190808,
     0x192b19082b080808, 0x192b191908080819, 0x192b191908081908, 0x192b191908190808,
     0x192b191919080808, 0x192b191919082b2b, 0x192b1919192b2b08, 0x192b19192b19082b,
     0x192b192b08080808, 0x192b192b2b191908, 0x192b2b0808080819, 0x192b2b0808081908,
     0x192b2b0808190808, 0x192b2b08192b1919, 0x192b2b082b192b08, 0x192b2b1908080808,
     0x192b2b19082b2b2b, 0x192b2b2b1908082b, 0x192b2b2b2b2b0819, 0x2b08080808080808,
     0x2b0808080808082b, 0x2b08080808081919, 0x2b08080808082b08, 0x2b08080808190819,
     0x2b08080808191908, 0x2b08080808192b19, 0x2b080808082b0808, 0x2b080808082b1919,
     0x2b08080819080819, 0x2b08080819081908, 0x2b08080819190808, 0x2b0808081919082b,
     0x2b08080819191919, 0x2b08080819192b08, 0x2b080808192b0819, 0x2b0808082b080808,
     0x2b0808082b081919, 0x2b0808082b190819, 0x2b0808082b191908, 0x2b08081908080819,
     0x2b08081908081908, 0x2b08081908082b19, 0x2b08081908190808, 0x2b0808190819082b,
     0x2b08081908191919, 0x2b08081908192b08, 0x2b080819082b0819, 0x2b080819082b1908,
     0x2b08081919080808, 0x2b0808191908082b, 0x2b08081919081919, 0x2b08081919082b08,
     0x2b08081919190819, 0x2b08081919191908, 0x2b0808192b080819, 0x2b0808192b081908,
     0x2b0808192b190808, 0x2b0808192b2b2b19, 0x2b08082b08080808, 0x2b08082b08081919,
     0x2b08082b08082b2b, 0x2b08082b08190819, 0x2b08082b08191908, 0x2b08082b19080819,
     0x2b08082b19081908, 0x2b08082b19190808, 0x2b08190808080819, 0x2b08190808081908,
     0x2b0819080808192b, 0x2b08190808082b19, 0x2b08190808190808, 0x2b0819080819082b,
     0x2b08190808191919, 0x2b08190808192b08, 0x2b081908082b0819, 0x2b08190819080808,
     0x2b0819081908082b, 0x2b08190819081919, 0x2b08190819082b08, 0x2b08190819190819,
     0x2b08190819191908, 0x2b081908192b0808, 0x2b0819082b080819, 0x2b0819082b081908,
     0x2b0819082b190808, 0x2b08191908080808, 0x2b0819190808082b, 0x2b08191908081919,
     0x2b08191908082b08, 0x2b08191908190819, 0x2b08191908191908, 0x2b081919082b0808,
     0x2b08191919080819, 0x2b08191919081908, 0x2b08191919190808, 0x2b0819192b080808,
     0x2b0819192b082b2b, 0x2b08192b08080819, 0x2b08192b08081908, 0x2b08192b08190808,
     0x2b08192b082b2b19, 0x2b08192b19080808, 0x2b082b0808080808, 0x2b082b0808081919,
     0x2b082b0808190819, 0x2b082b0808191908, 0x2b082b0819080819, 0x2b082b0819081908,
     0x2b082b0819190808, 0x2b082b082b2b082b, 0x2b082b1908080819, 0x2b082b1908081908,
     0x2b082b1919080808, 0x2b082b19192b1919, 0x2b082b2b082b082b, 0x2b082b2b19192b08,
     0x2b082b2b19192b2b, 0x2b082b2b2b08082b, 0x2b082b2b2b2b082b, 0x2b19080808080819,
     0x2b19080808081908, 0x2b19080808082b19, 0x2b19080808190808, 0x2b1908080819082b,
     0x2b19080808191919, 0x2b19080808192b08, 0x2b190808082b1908, 0x2b19080819080808,
     0x2b1908081908082b, 0x2b19080819081919, 0x2b19080819082b08, 0x2b19080819190819,
     0x2b19080819191908, 0x2b190808192b0808, 0x2b1908082b080819, 0x2b1908082b081908,
     0x2b1908082b190808, 0x2b19081908080808, 0x2b19081908081919, 0x2b19081908190819,
     0x2b19081908191908, 0x2b19081919080819, 0x2b19081919081908, 0x2b19081919190808,
     0x2b19081919192b2b, 0x2b19082b08080819, 0x2b19082b08081908, 0x2b19082b08190808,
     0x2b19082b19080808, 0x2b19082b2b2b192b, 0x2b19190808080808, 0x2b1919080808082b,
     0x2b19190808081919, 0x2b19190808082b08, 0x2b19190808190819, 0x2b19190808191908,
     0x2b191908082b0808, 0x2b19190819080819, 0x2b19190819081908, 0x2b19190819190808,
     0x2b1919082b080808, 0x2b1919082b19192b, 0x2b19191908080819, 0x2b19191908081908,
     0x2b19191908190808, 0x2b19191919080808, 0x2b1919192b192b08, 0x2b1919192b2b0819,
     0x2b19192b08080808, 0x2b19192b1908192b, 0x2b19192b192b1908, 0x2b192b0808080819,
     0x2b192b0808081908, 0x2b192b0808190808, 0x2b192b08082b192b, 0x2b192b0819080808,
     0x2b192b082b2b2b19, 0x2b192b1908080808, 0x2b192b1919082b19, 0x2b192b191919082b,
     0x2b192b2b2b190808, 0x2b2b080808080808, 0x2b2b080808081919, 0x2b2b080808082b2b,
     0x2b2b080808191908, 0x2b2b0808082b082b, 0x2b2b0808082b2b2b, 0x2b2b080819080819,
     0x2b2b080819081908, 0x2b2b080819190808, 0x2b2b08082b2b082b, 0x2b2b08082b2b2b2b,
     0x2b2b081919080808, 0x2b2b0819192b1919, 0x2b2b082b0808082b, 0x2b2b082b08082b2b,
     0x2b2b082b082b082b, 0x2b2b082b082b2b08, 0x2b2b082b082b2b2b, 0x2b2b082b2b08082b,
     0x2b2b082b2b082b08, 0x2b2b082b2b082b2b, 0x2b2b082b2b2b2b08, 0x2b2b190808080819,
     0x2b2b190808081908, 0x2b2b190808190808, 0x2b2b190819080808, 0x2b2b19082b082b19,
     0x2b2b19082b2b1908, 0x2b2b191908080808, 0x2b2b191908192b19, 0x2b2b192b19190819,
     0x2b2b2b0808082b2b, 0x2b2b2b08082b2b08, 0x2b2b2b082b2b082b, 0x2b2b2b1919191908,
     0x2b2b2b192b08192b, 0x2b2b2b2b08082b08, 0x2b2b2b2b08082b2b, 0x2b2b2b2b082b0808,
     0x2b2b2b2b082b082b, 0x2b2b2b2b082b2b08, 0x2b2b2b2b2b082b08, 0x2b2b2b2b2b2b2b2b]"

text \<open>\<open>.view(np.uint8)\<close>: the bytes of a word, the least significant first.\<close>

definition le_bytes :: "nat \<Rightarrow> 'a::len word \<Rightarrow> 8 word list" where
  "le_bytes n w = map (\<lambda>i. ucast (drop_bit (8 * i) w)) [0..<n]"

definition IQ3XXS_GRID :: "8 word list list" where
  "IQ3XXS_GRID = map (le_bytes 4) IQ3XXS_GRID_U32"

definition IQ2S_GRID :: "8 word list list" where
  "IQ2S_GRID = map (le_bytes 8) IQ2S_GRID_U64"

lemma length_tables [simp]:
  "length KVALUES_IQ4NL = 16" "length KMASK_IQ2XS = 8" "length KSIGNS_IQ2XS = 128"
  by (simp_all add: KVALUES_IQ4NL_def KMASK_IQ2XS_def KSIGNS_IQ2XS_def)

lemma length_IQ3XXS_GRID [simp]: "length IQ3XXS_GRID = 256"
  by (simp add: IQ3XXS_GRID_def IQ3XXS_GRID_U32_def)

lemma length_IQ2S_GRID [simp]: "length IQ2S_GRID = 1024"
  by (simp add: IQ2S_GRID_def IQ2S_GRID_U64_def)

lemma length_grid_rows:
  "g \<in> set IQ3XXS_GRID \<Longrightarrow> length g = 4" "g \<in> set IQ2S_GRID \<Longrightarrow> length g = 8"
  by (auto simp: IQ3XXS_GRID_def IQ2S_GRID_def le_bytes_def)

end
