(* ===== verification/Native_Blocks.thy ===== *)
theory Native_Blocks
  imports Prelude Py_Float Native_Tables
begin

unbundle bit_operations_syntax

text \<open>
  The block formats of \<open>tools/q4e/native_blocks.py\<close>: IQ4_NL, IQ3_XXS, IQ4_XS, Q8_0 and IQ2_S.
  Each format has a \<open>split\<close> that re-lays the raw bytes of a tensor into per-role arrays and a
  \<open>decode\<close> that turns the arrays into numbers; IQ2_S also has a packed form.

  An array of rank 2 is a list of rows; the raw array carries its row length, which the asserts
  of the source test. A float is the rational it denotes, \<open>None\<close> standing for an infinity or a
  NaN, which a block scale may hold and which every product keeps. Each float operation of the
  source is followed by the rounding of its type. \<open>rows_with\<close> is numpy's broadcasting of an
  axis, and \<open>reshape2\<close> its reshape to rank 2.
\<close>

type_synonym fval = "rat option"
type_synonym raw_rows = "nat \<times> 8 word list list"

definition IQ4_NL_BLOCK :: nat where "IQ4_NL_BLOCK = 32"
definition IQ4_NL_BYTES :: nat where "IQ4_NL_BYTES = 18"
definition IQ3_XXS_BLOCK :: nat where "IQ3_XXS_BLOCK = 256"
definition IQ3_XXS_BYTES :: nat where "IQ3_XXS_BYTES = 98"
definition IQ2_S_BLOCK :: nat where "IQ2_S_BLOCK = 256"
definition IQ2_S_BYTES :: nat where "IQ2_S_BYTES = 82"
definition IQ4_XS_BLOCK :: nat where "IQ4_XS_BLOCK = 256"
definition IQ4_XS_BYTES :: nat where "IQ4_XS_BYTES = 136"
definition Q8_0_BLOCK :: nat where "Q8_0_BLOCK = 32"
definition Q8_0_BYTES :: nat where "Q8_0_BYTES = 34"

definition BLOCK_BYTES :: "(string, nat \<times> nat) dict" where
  "BLOCK_BYTES =
     [(''IQ4_NL'', IQ4_NL_BLOCK, IQ4_NL_BYTES), (''IQ3_XXS'', IQ3_XXS_BLOCK, IQ3_XXS_BYTES),
      (''IQ2_S'', IQ2_S_BLOCK, IQ2_S_BYTES),
      (''IQ4_XS'', IQ4_XS_BLOCK, IQ4_XS_BYTES), (''Q8_0'', Q8_0_BLOCK, Q8_0_BYTES)]"

subsection \<open>Array operations\<close>

definition table_get :: "'a list \<Rightarrow> int \<Rightarrow> 'a res" where
  "table_get t i = (if nat i < length t then Inr (t ! nat i) else Inl IndexError)"

definition bcast :: "nat \<Rightarrow> 'a list \<Rightarrow> 'a list" where
  "bcast n xs = (if length xs = 1 then replicate n (hd xs) else xs)"

definition rows_with :: "('a \<Rightarrow> 'b \<Rightarrow> 'c res) \<Rightarrow> 'a list \<Rightarrow> 'b list \<Rightarrow> 'c list res" where
  "rows_with f xs ys =
     (let zs = bcast (length xs) ys
      in if length zs \<noteq> length xs then Inl ValueErr else map_res (\<lambda>(x, y). f x y) (zip xs zs))"

definition reshape2 :: "nat \<Rightarrow> nat \<Rightarrow> 'a list \<Rightarrow> 'a list list res" where
  "reshape2 rows n xs =
     (if length xs \<noteq> rows * n then Inl ValueErr
      else Inr (map (\<lambda>i. take n (drop (i * n) xs)) [0..<rows]))"

definition whole_blocks :: "nat \<Rightarrow> raw_rows \<Rightarrow> (8 word list list \<Rightarrow> 'a) \<Rightarrow> 'a res" where
  "whole_blocks n raw f = (if fst raw mod n \<noteq> 0 then Inl NotWholeGroups else Inr (f (snd raw)))"

definition fmul :: "fval \<Rightarrow> rat \<Rightarrow> fval" where
  "fmul s v = map_option (\<lambda>d. f32 (v * d)) s"

text \<open>\<open>(vals.reshape(rows, inn // n, n) * scales[:, :, None]).reshape(rows, inn)\<close>\<close>

definition scale_rows :: "nat \<Rightarrow> rat list list \<Rightarrow> fval list list \<Rightarrow> fval list list res" where
  "scale_rows n vals scales =
     (if (\<exists>r \<in> set vals. length r mod n \<noteq> 0) then Inl ValueErr
      else rbind (rows_with (rows_with (\<lambda>g s. Inr (map (fmul s) g))) (map (chunks n) vals) scales)
             (\<lambda>z. Inr (map concat z)))"

definition sign_of_mask :: "8 word \<Rightarrow> rat list" where
  "sign_of_mask m = map (\<lambda>k. if m AND k \<noteq> 0 then - 1 else 1) KMASK_IQ2XS"

definition byte_rat :: "8 word \<Rightarrow> rat" where
  "byte_rat b = of_int (uint b)"

subsection \<open>The half-precision scale of a block\<close>

fun le_int :: "8 word list \<Rightarrow> int" where
  "le_int [] = 0"
| "le_int (b # bs) = uint b + 256 * le_int bs"

definition half_value :: "int \<Rightarrow> fval" where
  "half_value h =
     (let sgn = (if h div 32768 mod 2 = 1 then - 1 else 1); e = h div 1024 mod 32; m = h mod 1024
      in if e = 31 then None
         else if e = 0 then Some (of_int (sgn * m) * 2 powi (- 24))
         else Some (of_int (sgn * (1024 + m)) * 2 powi (e - 25)))"

definition f16_le :: "8 word list \<Rightarrow> fval" where
  "f16_le b = half_value (le_int b)"

subsection \<open>IQ4\_NL\<close>

definition nibble_codes :: "8 word list \<Rightarrow> 8 word list" where
  "nibble_codes qs = map (\<lambda>q. q AND 0x0F) qs @ map (drop_bit 4) qs"

definition iq4_nl_block :: "8 word list \<Rightarrow> 8 word list \<times> fval" where
  "iq4_nl_block blk = (nibble_codes (drop 2 blk), f16_le (take 2 blk))"

definition iq4_nl_row :: "8 word list \<Rightarrow> 8 word list \<times> fval list" where
  "iq4_nl_row row =
     (let bs = map iq4_nl_block (chunks IQ4_NL_BYTES row) in (concat (map fst bs), map snd bs))"

definition iq4_nl_split :: "raw_rows \<Rightarrow> (8 word list list \<times> fval list list) res" where
  "iq4_nl_split raw = whole_blocks IQ4_NL_BYTES raw
     (\<lambda>rows. (map (fst \<circ> iq4_nl_row) rows, map (snd \<circ> iq4_nl_row) rows))"

definition iq4_nl_decode :: "8 word list list \<Rightarrow> fval list list \<Rightarrow> fval list list res" where
  "iq4_nl_decode codes scales =
     rbind (map_res (map_res (\<lambda>c. table_get KVALUES_IQ4NL (uint c))) codes)
       (\<lambda>vals. scale_rows IQ4_NL_BLOCK (map (map of_int) vals) scales)"

subsection \<open>IQ3\_XXS\<close>

definition iq3_xxs_block :: "8 word list \<Rightarrow> 8 word list \<times> 8 word list \<times> fval list" where
  "iq3_xxs_block blk =
     (let d = f16_le (take 2 blk);
          qs = take 64 (drop 2 blk);
          aux = map le_int (chunks 4 (take 32 (drop 66 blk)));
          scales = map (\<lambda>a. map_option (\<lambda>x. f32 (f32 (x * f32 (1 / 2 + of_int (drop_bit 28 a))) * (1 / 2))) d) aux;
          signix = concat (map (\<lambda>a. map (\<lambda>l. word_of_int (drop_bit (7 * l) a AND 127)) [0..<4]) aux)
      in (qs, signix, scales))"

definition iq3_xxs_row :: "8 word list \<Rightarrow> 8 word list \<times> 8 word list \<times> fval list" where
  "iq3_xxs_row row =
     (let bs = map iq3_xxs_block (chunks IQ3_XXS_BYTES row)
      in (concat (map fst bs), concat (map (fst \<circ> snd) bs), concat (map (snd \<circ> snd) bs)))"

definition iq3_xxs_split :: "raw_rows \<Rightarrow> (8 word list list \<times> 8 word list list \<times> fval list list) res" where
  "iq3_xxs_split raw = whole_blocks IQ3_XXS_BYTES raw
     (\<lambda>rows. (map (fst \<circ> iq3_xxs_row) rows, map (fst \<circ> snd \<circ> iq3_xxs_row) rows,
              map (snd \<circ> snd \<circ> iq3_xxs_row) rows))"

definition iq3_xxs_decode ::
    "8 word list list \<Rightarrow> 8 word list list \<Rightarrow> fval list list \<Rightarrow> fval list list res" where
  "iq3_xxs_decode gridix signix scales =
     (let rows = length gridix; inn = (case gridix of [] \<Rightarrow> 0 | r # _ \<Rightarrow> length r * 4)
      in rbind (map_res (map_res (\<lambda>i. table_get IQ3XXS_GRID (uint i))) gridix) (\<lambda>mag.
         rbind (map_res (map_res (\<lambda>i. table_get KSIGNS_IQ2XS (uint i))) signix) (\<lambda>masks.
         rbind (reshape2 rows inn (concat (map sign_of_mask (concat masks)))) (\<lambda>sign.
         scale_rows 32 (map2 (map2 (\<lambda>m s. f32 (byte_rat m * s))) (map concat mag) sign) scales))))"

subsection \<open>IQ4\_XS\<close>

definition iq4_xs_block :: "8 word list \<Rightarrow> 8 word list \<times> fval list" where
  "iq4_xs_block blk =
     (let d = f16_le (take 2 blk);
          scales_h = le_int (take 2 (drop 2 blk));
          scales_l = map uint (take 4 (drop 4 blk));
          ls = map (\<lambda>ib. let lo = drop_bit (4 * (ib mod 2)) (scales_l ! (ib div 2)) AND 0xF;
                             hi = drop_bit (2 * ib) scales_h AND 3
                         in lo OR push_bit 4 hi) [0..<8];
          scales = map (\<lambda>l. map_option (\<lambda>x. f32 (x * of_int (l - 32))) d) ls
      in (concat (map nibble_codes (chunks 16 (drop 8 blk))), scales))"

definition iq4_xs_row :: "8 word list \<Rightarrow> 8 word list \<times> fval list" where
  "iq4_xs_row row =
     (let bs = map iq4_xs_block (chunks IQ4_XS_BYTES row)
      in (concat (map fst bs), concat (map snd bs)))"

definition iq4_xs_split :: "raw_rows \<Rightarrow> (8 word list list \<times> fval list list) res" where
  "iq4_xs_split raw = whole_blocks IQ4_XS_BYTES raw
     (\<lambda>rows. (map (fst \<circ> iq4_xs_row) rows, map (snd \<circ> iq4_xs_row) rows))"

definition iq4_xs_decode :: "8 word list list \<Rightarrow> fval list list \<Rightarrow> fval list list res" where
  "iq4_xs_decode = iq4_nl_decode"

subsection \<open>Q8\_0\<close>

definition q8_0_row :: "8 word list \<Rightarrow> 8 word list \<times> fval list" where
  "q8_0_row row =
     (let bs = chunks Q8_0_BYTES row in (concat (map (drop 2) bs), map (\<lambda>b. f16_le (take 2 b)) bs))"

definition q8_0_split :: "raw_rows \<Rightarrow> (8 word list list \<times> fval list list) res" where
  "q8_0_split raw = whole_blocks Q8_0_BYTES raw
     (\<lambda>rows. (map (fst \<circ> q8_0_row) rows, map (snd \<circ> q8_0_row) rows))"

definition q8_0_decode :: "8 word list list \<Rightarrow> fval list list \<Rightarrow> fval list list res" where
  "q8_0_decode codes scales = scale_rows Q8_0_BLOCK (map (map (\<lambda>c. of_int (sint c))) codes) scales"

subsection \<open>IQ2\_S\<close>

definition iq2_s_index :: "8 word list \<Rightarrow> 8 word list \<Rightarrow> int list" where
  "iq2_s_index qs qh =
     concat (map2 (\<lambda>q h. map (\<lambda>l. uint (q ! l) OR push_bit 8 (drop_bit (2 * l) (uint h) AND 3)) [0..<4])
               (chunks 4 qs) qh)"

definition iq2_s_block :: "8 word list \<Rightarrow> 16 word list \<times> 8 word list \<times> fval list" where
  "iq2_s_block blk =
     (let d = f16_le (take 2 blk);
          qs = take 32 (drop 2 blk);
          signs = take 32 (drop 34 blk);
          qh = take 8 (drop 66 blk);
          sc = map uint (take 8 (drop 74 blk));
          scale = (\<lambda>n. map_option (\<lambda>x. f64 (f64 (x * f64 (1 / 2 + of_int n)) * (1 / 4))) d);
          scales = concat (map (\<lambda>c. let s_lo = scale (c AND 0x0F); s_hi = scale (drop_bit 4 c)
                                    in [s_lo, s_lo, s_hi, s_hi]) sc)
      in (map word_of_int (iq2_s_index qs qh), signs, map (map_option f32) scales))"

definition iq2_s_row :: "8 word list \<Rightarrow> 16 word list \<times> 8 word list \<times> fval list" where
  "iq2_s_row row =
     (let bs = map iq2_s_block (chunks IQ2_S_BYTES row)
      in (concat (map fst bs), concat (map (fst \<circ> snd) bs), concat (map (snd \<circ> snd) bs)))"

definition iq2_s_split :: "raw_rows \<Rightarrow> (16 word list list \<times> 8 word list list \<times> fval list list) res" where
  "iq2_s_split raw = whole_blocks IQ2_S_BYTES raw
     (\<lambda>rows. (map (fst \<circ> iq2_s_row) rows, map (fst \<circ> snd \<circ> iq2_s_row) rows,
              map (snd \<circ> snd \<circ> iq2_s_row) rows))"

definition signed_group :: "8 word list \<Rightarrow> 8 word \<Rightarrow> rat list" where
  "signed_group mag m8 = map2 (\<lambda>m s. f32 (byte_rat m * s)) mag (sign_of_mask m8)"

definition iq2_s_decode ::
    "16 word list list \<Rightarrow> 8 word list list \<Rightarrow> fval list list \<Rightarrow> fval list list res" where
  "iq2_s_decode gridix signix scales =
     rbind (map_res (map_res (\<lambda>i. table_get IQ2S_GRID (uint i))) gridix) (\<lambda>mag.
     rbind (rows_with (rows_with (\<lambda>m s. Inr (signed_group m s))) mag signix) (\<lambda>y.
     rbind (rows_with (rows_with (\<lambda>g s. Inr (map (fmul s) g))) y scales) (\<lambda>z.
     Inr (map concat z))))"

subsection \<open>The packed form of IQ2\_S\<close>

definition iq2_s_packed_split :: "raw_rows \<Rightarrow> (8 word list list \<times> fval list list) res" where
  "iq2_s_packed_split raw = whole_blocks IQ2_S_BYTES raw
     (\<lambda>rows. (map (\<lambda>row. concat (map (take 80 \<circ> drop 2) (chunks IQ2_S_BYTES row))) rows,
              map (\<lambda>row. map (f16_le \<circ> take 2) (chunks IQ2_S_BYTES row)) rows))"

definition packed_block :: "8 word list \<Rightarrow> int list \<times> 8 word list \<times> rat list" where
  "packed_block b =
     (let sc = map uint (take 8 (drop 72 b))
      in (iq2_s_index (take 32 b) (take 8 (drop 64 b)), take 32 (drop 32 b),
          concat (map (\<lambda>c. let lo = of_int (c AND 0x0F); hi = of_int (drop_bit 4 c) in [lo, lo, hi, hi]) sc)))"

definition packed_scale :: "fval \<Rightarrow> rat \<Rightarrow> fval" where
  "packed_scale d nib = map_option (\<lambda>x. f32 (f32 (x * f32 (1 / 2 + nib)) * (1 / 4))) d"

definition packed_group :: "int \<Rightarrow> 8 word \<Rightarrow> fval \<Rightarrow> fval list res" where
  "packed_group i m s = rbind (table_get IQ2S_GRID i) (\<lambda>mag. Inr (map (fmul s) (signed_group mag m)))"

definition iq2_s_packed_decode :: "raw_rows \<Rightarrow> fval list list \<Rightarrow> fval list list res" where
  "iq2_s_packed_decode w80 d =
     (if fst w80 mod 80 \<noteq> 0 then Inl NotWholeGroups
      else rbind (reshape2 (length (snd w80)) (fst w80 div 80 * 32) (concat (map (replicate 32) (concat d)))) (\<lambda>d16.
       rbind (map_res (\<lambda>(row, dr).
            let bs = map packed_block (chunks 80 row);
                idx = concat (map fst bs); signix = concat (map (fst \<circ> snd) bs); nib = concat (map (snd \<circ> snd) bs)
            in map_res (\<lambda>((i, m), s). packed_group i m s) (zip (zip idx signix) (map2 packed_scale dr nib)))
          (zip (snd w80) d16)) (\<lambda>z. Inr (map concat z))))"

subsection \<open>The tables of formats\<close>

datatype parts =
    CodeParts "8 word list list" "fval list list"
  | GridParts "8 word list list" "8 word list list" "fval list list"
  | WideGridParts "16 word list list" "8 word list list" "fval list list"

definition SPLIT :: "(string, raw_rows \<Rightarrow> parts res) dict" where
  "SPLIT =
     [(''IQ4_NL'', \<lambda>r. rbind (iq4_nl_split r) (\<lambda>(c, s). Inr (CodeParts c s))),
      (''IQ3_XXS'', \<lambda>r. rbind (iq3_xxs_split r) (\<lambda>(g, i, s). Inr (GridParts g i s))),
      (''IQ2_S'', \<lambda>r. rbind (iq2_s_split r) (\<lambda>(g, i, s). Inr (WideGridParts g i s))),
      (''IQ4_XS'', \<lambda>r. rbind (iq4_xs_split r) (\<lambda>(c, s). Inr (CodeParts c s))),
      (''Q8_0'', \<lambda>r. rbind (q8_0_split r) (\<lambda>(c, s). Inr (CodeParts c s)))]"

definition PACKED :: "(string, raw_rows \<Rightarrow> parts res) dict" where
  "PACKED = [(''IQ2_S'', \<lambda>r. rbind (iq2_s_packed_split r) (\<lambda>(w, d). Inr (CodeParts w d)))]"

definition DECODE :: "(string, parts \<Rightarrow> fval list list res) dict" where
  "DECODE =
     [(''IQ4_NL'', \<lambda>p. case p of CodeParts c s \<Rightarrow> iq4_nl_decode c s | _ \<Rightarrow> Inl TypeErr),
      (''IQ3_XXS'', \<lambda>p. case p of GridParts g i s \<Rightarrow> iq3_xxs_decode g i s | _ \<Rightarrow> Inl TypeErr),
      (''IQ2_S'', \<lambda>p. case p of WideGridParts g i s \<Rightarrow> iq2_s_decode g i s | _ \<Rightarrow> Inl TypeErr),
      (''IQ4_XS'', \<lambda>p. case p of CodeParts c s \<Rightarrow> iq4_xs_decode c s | _ \<Rightarrow> Inl TypeErr),
      (''Q8_0'', \<lambda>p. case p of CodeParts c s \<Rightarrow> q8_0_decode c s | _ \<Rightarrow> Inl TypeErr)]"

text \<open>\<open>p.nbytes\<close> summed over the parts: one byte per code, two per wide index, four per scale.\<close>

fun part_bytes :: "parts \<Rightarrow> nat" where
  "part_bytes (CodeParts c s) = length (concat c) + 4 * length (concat s)"
| "part_bytes (GridParts g i s) = length (concat g) + length (concat i) + 4 * length (concat s)"
| "part_bytes (WideGridParts g i s) = 2 * length (concat g) + length (concat i) + 4 * length (concat s)"

end
