(* ===== verification/Native_Facts.thy ===== *)
theory Native_Facts
  imports Native_Blocks
begin

unbundle bit_operations_syntax

text \<open>
  The decodes of the IQ4_NL, IQ4_XS and Q8_0 blocks. A scale has at most 11 significant bits and
  every product the decoders form at most 24, so no rounding of the source changes a value:
  splitting a tensor and decoding the parts gives the numbers of the format's formula. The
  arithmetic that shows it (\<open>dyadic\<close>) and the broadcasting lemmas are shared with the two grid
  formats of the next theory.
\<close>

subsection \<open>Broadcasting\<close>

lemma rows_with_eq: "length ys = length xs \<Longrightarrow> rows_with f xs ys = map_res (\<lambda>(x, y). f x y) (zip xs ys)"
proof -
  assume l: "length ys = length xs"
  then have "bcast (length xs) ys = ys"
    by (cases ys) (auto simp: bcast_def)
  with l show ?thesis by (simp add: rows_with_def)
qed

lemma rows_with_Inr:
  assumes "length ys = length xs" "\<And>x y. (x, y) \<in> set (zip xs ys) \<Longrightarrow> f x y = Inr (h x y)"
  shows "rows_with f xs ys = Inr (map2 h xs ys)"
  unfolding rows_with_eq [OF assms(1)] using assms(2) by (intro map_res_Inr_map) auto

definition scale_row :: "nat \<Rightarrow> rat list \<Rightarrow> fval list \<Rightarrow> fval list" where
  "scale_row n v s = concat (map2 (\<lambda>g x. map (fmul x) g) (chunks n v) s)"

lemma scale_rows_eq:
  assumes "0 < n" "list_all2 (\<lambda>v s. length v = n * length s) vals scales"
  shows "scale_rows n vals scales = Inr (map2 (scale_row n) vals scales)"
proof -
  have d: "length v mod n = 0" if "v \<in> set vals" for v
    using assms(2) that by (auto simp: list_all2_conv_all_nth in_set_conv_nth)
  have "rows_with (rows_with (\<lambda>g s. Inr (map (fmul s) g))) (map (chunks n) vals) scales =
      Inr (map2 (\<lambda>c s. map2 (\<lambda>g x. map (fmul x) g) c s) (map (chunks n) vals) scales)"
  proof (rule rows_with_Inr)
    show "length scales = length (map (chunks n) vals)" using assms(2) by (simp add: list_all2_lengthD)
    fix c s assume cs: "(c, s) \<in> set (zip (map (chunks n) vals) scales)"
    then obtain v where "c = chunks n v" "(v, s) \<in> set (zip vals scales)"
      by (fastforce simp: in_set_zip)
    then have "length c = length s" using assms by (auto simp: list_all2_iff length_chunks)
    then show "rows_with (\<lambda>g s. Inr (map (fmul s) g)) c s = Inr (map2 (\<lambda>g x. map (fmul x) g) c s)"
      by (intro rows_with_Inr) auto
  qed
  then show ?thesis using d by (auto simp: scale_rows_def scale_row_def map_zip_map o_def case_prod_unfold)
qed

lemma scale_row_append:
  "0 < n \<Longrightarrow> length v = n * length s \<Longrightarrow> scale_row n (v @ v') (s @ s') = scale_row n v s @ scale_row n v' s'"
  by (simp add: scale_row_def chunks_append length_chunks)

lemma scale_row_concat:
  "0 < n \<Longrightarrow> (\<And>b. b \<in> set bs \<Longrightarrow> length (A b) = n * length (S b)) \<Longrightarrow>
    scale_row n (concat (map A bs)) (concat (map S bs)) = concat (map (\<lambda>b. scale_row n (A b) (S b)) bs)"
proof (induction bs)
  case (Cons b bs)
  then show ?case by (simp add: scale_row_append)
qed (simp add: scale_row_def)

lemma scale_row_nth:
  assumes "0 < n" "length v = n * length s"
  shows "length (scale_row n v s) = length v"
    and "j < length v \<Longrightarrow> scale_row n v s ! j = fmul (s ! (j div n)) (v ! j)"
proof -
  have c: "length (chunks n v) = length s" using assms by (simp add: length_chunks)
  let ?z = "zip (chunks n v) s"
  have l: "length (case p of (g, x) \<Rightarrow> map (fmul x) g) = n" if "p \<in> set ?z" for p
    using that assms length_in_chunks [of n v "fst p"] set_zip_leftD [of "fst p" "snd p"]
    by (simp add: case_prod_unfold)
  show "length (scale_row n v s) = length v"
    unfolding scale_row_def by (subst length_concat_map [OF l]) (use assms c in auto)
  assume j: "j < length v"
  then have "scale_row n v s ! j = (case ?z ! (j div n) of (g, x) \<Rightarrow> map (fmul x) g) ! (j mod n)"
    unfolding scale_row_def using assms c by (intro nth_concat_uniform) (auto dest: l)
  moreover have jd: "j div n < length s" using j assms by (simp add: less_mult_imp_div_less mult.commute)
  moreover have "chunks n v ! (j div n) = take n (drop (j div n * n) v)"
    using assms jd by (intro chunks_nth) auto
  moreover have "j div n * n + j mod n = j" by simp
  ultimately show "scale_row n v s ! j = fmul (s ! (j div n)) (v ! j)"
    using assms j c by (auto simp: nth_append less_diff_conv)
qed

lemma reshape2_concat:
  assumes "\<And>x. x \<in> set xss \<Longrightarrow> length x = n"
  shows "reshape2 (length xss) n (concat xss) = Inr xss"
proof (cases "n = 0")
  case True
  then have e: "x = []" if "x \<in> set xss" for x using assms that by simp
  have "map (\<lambda>i. []) [0..<length xss] = xss" by (rule nth_equalityI) (simp_all add: e [OF nth_mem])
  moreover have "concat xss = []" using e by auto
  ultimately show ?thesis using True by (simp add: reshape2_def)
next
  case False
  have l: "length (concat xss) = length xss * n" using length_concat_map [of xss id n] assms by simp
  have "map (\<lambda>i. take n (drop (i * n) (concat xss))) [0..<length xss] = xss"
  proof (rule nth_equalityI)
    fix i assume "i < length (map (\<lambda>i. take n (drop (i * n) (concat xss))) [0..<length xss])"
    then have i: "i < length xss" by simp
    have "chunks n (concat xss) ! i = take n (drop (i * n) (concat xss))"
      using False l i by (intro chunks_nth) auto
    then show "map (\<lambda>i. take n (drop (i * n) (concat xss))) [0..<length xss] ! i = xss ! i"
      using False i assms by (simp add: chunks_concat)
  qed simp
  then show ?thesis by (simp add: reshape2_def l)
qed

subsection \<open>Products that no rounding touches\<close>

definition dyadic :: "int \<Rightarrow> int \<Rightarrow> rat \<Rightarrow> bool" where
  "dyadic B k x \<longleftrightarrow> (\<exists>n e. x = of_int n * 2 powi e \<and> \<bar>n\<bar> \<le> B \<and> k \<le> e)"

lemma f32_dyadic: "dyadic B k x \<Longrightarrow> B < 2 ^ 24 \<Longrightarrow> - 149 \<le> k \<Longrightarrow> f32 x = x"
  unfolding f32_def dyadic_def by (auto intro!: fl_exact [OF refl])

lemma f64_dyadic: "dyadic B k x \<Longrightarrow> B < 2 ^ 24 \<Longrightarrow> - 149 \<le> k \<Longrightarrow> f64 x = x"
  unfolding f64_def dyadic_def by (auto intro!: fl_exact [OF refl])

lemma dyadic_mult:
  assumes "dyadic A k x" "dyadic B l y"
  shows "dyadic (A * B) (k + l) (x * y)"
proof -
  obtain n e m d where xy: "x = of_int n * 2 powi e" "\<bar>n\<bar> \<le> A" "k \<le> e"
    "y = of_int m * 2 powi d" "\<bar>m\<bar> \<le> B" "l \<le> d"
    using assms by (auto simp: dyadic_def)
  have "x * y = of_int (n * m) * 2 powi (e + d)" by (simp add: xy power_int_add)
  moreover have "\<bar>n * m\<bar> \<le> A * B" using xy by (simp add: abs_mult mult_mono)
  ultimately show ?thesis using xy unfolding dyadic_def by (metis add_mono)
qed

lemma dyadic_int: "\<bar>n\<bar> \<le> B \<Longrightarrow> dyadic B 0 (of_int n)"
  unfolding dyadic_def by (rule exI [of _ n], rule exI [of _ 0]) simp

lemma dyadic_half: "dyadic 1 (- 1) (1 / 2)"
  unfolding dyadic_def by (rule exI [of _ 1], rule exI [of _ "- 1"]) (simp add: power_int_def)

lemma dyadic_quarter: "dyadic 1 (- 2) (1 / 4)"
  unfolding dyadic_def by (rule exI [of _ 1], rule exI [of _ "- 2"]) (simp add: power_int_def power2_eq_square)

lemma dyadic_half_plus: "0 \<le> n \<Longrightarrow> n \<le> 15 \<Longrightarrow> dyadic 31 (- 1) (1 / 2 + of_int n)"
  unfolding dyadic_def by (rule exI [of _ "2 * n + 1"], rule exI [of _ "- 1"]) (simp add: power_int_def algebra_simps)

lemma dyadic_byte: "dyadic 255 0 (byte_rat b)"
  unfolding byte_rat_def using uint_lt2p [of b] by (intro dyadic_int) simp

lemma dyadic_sign: "s \<in> {- 1, 1} \<Longrightarrow> dyadic 1 0 s"
  using dyadic_int [of 1 1] dyadic_int [of "- 1" 1] by auto

lemma half_value_dyadic: "half_value h = Some x \<Longrightarrow> dyadic 2047 (- 24) x"
proof -
  assume h: "half_value h = Some x"
  define s where "s = (if h div 32768 mod 2 = 1 then - 1 else 1 :: int)"
  define e where "e = h div 1024 mod 32"
  define m where "m = h mod 1024"
  have b: "0 \<le> m" "m < 1024" "0 \<le> e" by (simp_all add: m_def e_def)
  have v: "half_value h = (if e = 31 then None else if e = 0 then Some (of_int (s * m) * 2 powi (- 24))
      else Some (of_int (s * (1024 + m)) * 2 powi (e - 25)))"
    by (simp only: half_value_def Let_def s_def e_def m_def)
  have sb: "\<bar>s * k\<bar> = \<bar>k\<bar>" for k by (simp add: s_def)
  show ?thesis
  proof (cases "e = 0")
    case True
    then have "x = of_int (s * m) * 2 powi (- 24)" using h v by simp
    moreover have "\<bar>s * m\<bar> \<le> 2047" using b by (simp add: sb)
    ultimately show ?thesis unfolding dyadic_def by blast
  next
    case False
    then have "x = of_int (s * (1024 + m)) * 2 powi (e - 25)" using h v by (cases "e = 31") simp_all
    moreover have "\<bar>s * (1024 + m)\<bar> \<le> 2047" using b by (simp add: sb)
    moreover have "- 24 \<le> e - 25" using b False by simp
    ultimately show ?thesis unfolding dyadic_def by blast
  qed
qed

lemma f16_le_dyadic: "f16_le b = Some x \<Longrightarrow> dyadic 2047 (- 24) x"
  unfolding f16_le_def by (rule half_value_dyadic)

subsection \<open>The reference decodes\<close>

text \<open>
  The formulas of the block layouts, element by element, with exact arithmetic: what the module
  text gives for IQ4_NL and IQ3_XXS and the comment above \<open>BLOCK_BYTES\<close> for IQ2_S.
\<close>

definition ggml_iq4_nl :: "8 word list \<Rightarrow> nat \<Rightarrow> fval" where
  "ggml_iq4_nl blk j =
     (let q = blk ! (2 + j mod 16); c = (if j < 16 then q AND 15 else drop_bit 4 q)
      in map_option (\<lambda>d. d * of_int (KVALUES_IQ4NL ! unat c)) (f16_le (take 2 blk)))"

definition ggml_rows :: "nat \<Rightarrow> nat \<Rightarrow> (8 word list \<Rightarrow> nat \<Rightarrow> fval) \<Rightarrow> 8 word list list \<Rightarrow> fval list list" where
  "ggml_rows bytes values f rows =
     map (\<lambda>row. concat (map (\<lambda>blk. map (f blk) [0..<values]) (chunks bytes row))) rows"

definition raw_ok :: "raw_rows \<Rightarrow> bool" where
  "raw_ok raw \<longleftrightarrow> (\<forall>row \<in> set (snd raw). length row = fst raw)"

subsection \<open>IQ4_NL\<close>

lemma unat_low_nibble: "unat (q AND 15 :: 8 word) < 16"
proof -
  have "q AND 15 \<le> (15 :: 8 word)" by (rule word_and_le1)
  then show ?thesis by (simp add: word_le_nat_alt)
qed

lemma unat_high_nibble: "unat (drop_bit 4 q :: 8 word) < 16"
  using unsigned_less [of q, where ?'a = nat] by (subst unat_drop_bit_eq) (simp add: drop_bit_eq_div)

lemma nibble_codes_small: "c \<in> set (nibble_codes qs) \<Longrightarrow> unat c < 16"
  using unat_low_nibble unat_high_nibble by (auto simp: nibble_codes_def)

lemma KVALUES_bound: "i < 16 \<Longrightarrow> \<bar>KVALUES_IQ4NL ! i\<bar> \<le> 127"
proof -
  assume "i < 16"
  then have "KVALUES_IQ4NL ! i \<in> set KVALUES_IQ4NL" by simp
  moreover have "\<forall>x \<in> set KVALUES_IQ4NL. \<bar>x\<bar> \<le> 127" by (simp add: KVALUES_IQ4NL_def)
  ultimately show ?thesis by blast
qed

lemma table_get_uint: "unat c < length t \<Longrightarrow> table_get t (uint c) = Inr (t ! unat c)"
  by (simp add: table_get_def)

lemma iq4_value:
  assumes "dyadic B k x" "B * 127 < 2 ^ 24" "- 149 \<le> k" "i < 16"
  shows "fmul (Some x) (of_int (KVALUES_IQ4NL ! i)) = Some (x * of_int (KVALUES_IQ4NL ! i))"
proof -
  have "dyadic (B * 127) (k + 0) (x * of_int (KVALUES_IQ4NL ! i))"
    by (intro dyadic_mult assms dyadic_int KVALUES_bound)
  then have "f32 (x * of_int (KVALUES_IQ4NL ! i)) = x * of_int (KVALUES_IQ4NL ! i)"
    by (rule f32_dyadic) (use assms in simp_all)
  then show ?thesis by (simp add: fmul_def mult.commute)
qed

lemma iq4_decode_codes:
  assumes "\<And>r c. r \<in> set codes \<Longrightarrow> c \<in> set r \<Longrightarrow> unat c < 16"
    and "list_all2 (\<lambda>c s. length c = 32 * length s) codes scales"
  shows "iq4_nl_decode codes scales =
    Inr (map2 (\<lambda>c s. scale_row 32 (map (\<lambda>x. of_int (KVALUES_IQ4NL ! unat x)) c) s) codes scales)"
proof -
  have "map_res (map_res (\<lambda>c. table_get KVALUES_IQ4NL (uint c))) codes =
      Inr (map (map (\<lambda>c. KVALUES_IQ4NL ! unat c)) codes)"
    using assms(1) by (intro map_res_rows) (simp add: table_get_uint)
  then show ?thesis using assms(2)
    by (simp add: iq4_nl_decode_def IQ4_NL_BLOCK_def scale_rows_eq list.rel_map o_def map_zip_map case_prod_unfold)
qed

lemma iq4_nl_block_decode:
  assumes "length blk = 18"
  shows "scale_row 32 (map (\<lambda>c. of_int (KVALUES_IQ4NL ! unat c)) (fst (iq4_nl_block blk))) [snd (iq4_nl_block blk)] =
    map (ggml_iq4_nl blk) [0..<32]"
proof (rule nth_equalityI)
  let ?v = "map (\<lambda>c. of_int (KVALUES_IQ4NL ! unat c)) (fst (iq4_nl_block blk)) :: rat list"
  have l: "length ?v = 32 * length [snd (iq4_nl_block blk)]"
    using assms by (simp add: iq4_nl_block_def nibble_codes_def)
  show "length (scale_row 32 ?v [snd (iq4_nl_block blk)]) = length (map (ggml_iq4_nl blk) [0..<32])"
    using scale_row_nth(1) [OF _ l] l by simp
  fix j assume "j < length (scale_row 32 ?v [snd (iq4_nl_block blk)])"
  then have j: "j < 32" using scale_row_nth(1) [OF _ l] l by simp
  let ?c = "if j < 16 then blk ! (2 + j mod 16) AND 15 else drop_bit 4 (blk ! (2 + j mod 16))"
  have "?v ! j = of_int (KVALUES_IQ4NL ! unat ?c)"
    using j assms by (auto simp: iq4_nl_block_def nibble_codes_def nth_append mod_if add.commute)
  moreover have "unat ?c < 16" using unat_low_nibble unat_high_nibble by simp
  ultimately show "scale_row 32 ?v [snd (iq4_nl_block blk)] ! j = map (ggml_iq4_nl blk) [0..<32] ! j"
    using j l scale_row_nth(2) [OF _ l, of j] f16_le_dyadic [of "take 2 blk"]
    by (cases "f16_le (take 2 blk)")
       (auto simp: ggml_iq4_nl_def Let_def iq4_nl_block_def iq4_value [of 2047 "-24"] fmul_def simp del: upt_Suc
         dest: iq4_value [of 2047 "-24" _ "unat ?c"])
qed

lemma decode_rows:
  assumes "0 < n" and "\<And>row b. row \<in> set rows \<Longrightarrow> b \<in> set (C row) \<Longrightarrow> length (A b) = n * length (S b)"
    and "\<And>row b. row \<in> set rows \<Longrightarrow> b \<in> set (C row) \<Longrightarrow> scale_row n (A b) (S b) = R b"
  shows "map2 (scale_row n) (map (\<lambda>row. concat (map A (C row))) rows) (map (\<lambda>row. concat (map S (C row))) rows) =
    map (\<lambda>row. concat (map R (C row))) rows"
proof -
  have "scale_row n (concat (map A (C row))) (concat (map S (C row))) = concat (map R (C row))"
    if "row \<in> set rows" for row
    using scale_row_concat [of n "C row" A S] assms(1,2) assms(3) [OF that] that by (simp cong: map_cong)
  then show ?thesis by (simp add: zip_map_map map2_map_map zip_same_conv_map cong: map_cong)
qed

lemma rows_lengths:
  assumes "\<And>row b. row \<in> set rows \<Longrightarrow> b \<in> set (C row) \<Longrightarrow> length (A b) = n * length (S b)"
  shows "list_all2 (\<lambda>c s. length c = n * length s)
    (map (\<lambda>row. concat (map A (C row))) rows) (map (\<lambda>row. concat (map S (C row))) rows)"
proof -
  have "length (concat (map A bs)) = n * length (concat (map S bs))"
    if "\<And>b. b \<in> set bs \<Longrightarrow> length (A b) = n * length (S b)" for bs
    using that by (induction bs) (auto simp: algebra_simps)
  then show ?thesis using assms by (auto simp: list.rel_map list_all2_same)
qed

lemma block_length:
  "raw_ok raw \<Longrightarrow> fst raw mod n = 0 \<Longrightarrow> 0 < n \<Longrightarrow> row \<in> set (snd raw) \<Longrightarrow> b \<in> set (chunks n row) \<Longrightarrow> length b = n"
  using length_in_chunks [of n row b] by (auto simp: raw_ok_def)

lemma iq4_decode_rows:
  assumes len: "\<And>row b. row \<in> set rows \<Longrightarrow> b \<in> set (C row) \<Longrightarrow> length (A b) = 32 * length (S b)"
    and small: "\<And>row b c. row \<in> set rows \<Longrightarrow> b \<in> set (C row) \<Longrightarrow> c \<in> set (A b) \<Longrightarrow> unat c < 16"
    and R: "\<And>row b. row \<in> set rows \<Longrightarrow> b \<in> set (C row) \<Longrightarrow>
      scale_row 32 (map (\<lambda>x. of_int (KVALUES_IQ4NL ! unat x)) (A b)) (S b) = R b"
  shows "iq4_nl_decode (map (\<lambda>row. concat (map A (C row))) rows) (map (\<lambda>row. concat (map S (C row))) rows) =
    Inr (map (\<lambda>row. concat (map R (C row))) rows)"
proof -
  let ?T = "\<lambda>x. of_int (KVALUES_IQ4NL ! unat x) :: rat"
  have "iq4_nl_decode (map (\<lambda>row. concat (map A (C row))) rows) (map (\<lambda>row. concat (map S (C row))) rows) =
    Inr (map2 (\<lambda>c s. scale_row 32 (map ?T c) s) (map (\<lambda>row. concat (map A (C row))) rows) (map (\<lambda>row. concat (map S (C row))) rows))"
    by (rule iq4_decode_codes) (use small in auto, rule rows_lengths [OF len])
  also have "map2 (\<lambda>c s. scale_row 32 (map ?T c) s) (map (\<lambda>row. concat (map A (C row))) rows) (map (\<lambda>row. concat (map S (C row))) rows) =
      map2 (scale_row 32) (map (\<lambda>row. concat (map (\<lambda>b. map ?T (A b)) (C row))) rows) (map (\<lambda>row. concat (map S (C row))) rows)"
    by (simp add: map_concat zip_map_map map2_map_map o_def case_prod_unfold)
  also have "\<dots> = map (\<lambda>row. concat (map R (C row))) rows"
    by (rule decode_rows) (use len R in auto)
  finally show ?thesis .
qed

lemma iq4_nl_exact:
  assumes "raw_ok raw" "fst raw mod 18 = 0"
  shows "rbind (iq4_nl_split raw) (\<lambda>(c, s). iq4_nl_decode c s) = Inr (ggml_rows 18 32 ggml_iq4_nl (snd raw))"
proof -
  note bl = block_length [OF assms, simplified]
  let ?A = "\<lambda>b. fst (iq4_nl_block b)" and ?S = "\<lambda>b. [snd (iq4_nl_block b)]"
  have "iq4_nl_decode (map (\<lambda>row. concat (map ?A (chunks 18 row))) (snd raw)) (map (\<lambda>row. concat (map ?S (chunks 18 row))) (snd raw)) =
      Inr (map (\<lambda>row. concat (map (\<lambda>b. map (ggml_iq4_nl b) [0..<32]) (chunks 18 row))) (snd raw))"
  proof (rule iq4_decode_rows)
    fix row b assume "row \<in> set (snd raw)" "b \<in> set (chunks 18 row)"
    then have l: "length b = 18" by (rule bl)
    show "length (?A b) = 32 * length (?S b)" using l by (simp add: iq4_nl_block_def nibble_codes_def)
    show "scale_row 32 (map (\<lambda>x. of_int (KVALUES_IQ4NL ! unat x)) (?A b)) (?S b) = map (ggml_iq4_nl b) [0..<32]"
      by (rule iq4_nl_block_decode [OF l])
  qed (auto simp: iq4_nl_block_def dest: nibble_codes_small)
  then show ?thesis using assms(2)
    by (simp add: iq4_nl_split_def whole_blocks_def IQ4_NL_BYTES_def iq4_nl_row_def Let_def o_def
        concat_singletons ggml_rows_def)
qed

subsection \<open>IQ4_XS\<close>

definition iq4_xs_ls :: "8 word list \<Rightarrow> nat \<Rightarrow> int" where
  "iq4_xs_ls blk ib =
     (drop_bit (4 * (ib mod 2)) (uint (blk ! (4 + ib div 2))) AND 15) OR
       push_bit 4 (drop_bit (2 * ib) (le_int [blk ! 2, blk ! 3]) AND 3)"

definition ggml_iq4_xs :: "8 word list \<Rightarrow> nat \<Rightarrow> fval" where
  "ggml_iq4_xs blk j =
     (let q = blk ! (8 + 16 * (j div 32) + j mod 16);
          c = (if j mod 32 < 16 then q AND 15 else drop_bit 4 q)
      in map_option (\<lambda>d. d * of_int (iq4_xs_ls blk (j div 32) - 32) * of_int (KVALUES_IQ4NL ! unat c))
           (f16_le (take 2 blk)))"

lemma and_bounds: "0 \<le> (x AND 15 :: int)" "(x AND 15 :: int) \<le> 15" "0 \<le> (x AND 3 :: int)" "(x AND 3 :: int) \<le> 3"
  using AND_upper2 [of 15 x] AND_upper2 [of 3 x] by (simp_all)

lemma iq4_xs_ls_bounds: "0 \<le> iq4_xs_ls blk ib" "iq4_xs_ls blk ib < 64"
proof -
  let ?h = "drop_bit (2 * ib) (le_int [blk ! 2, blk ! 3])"
  have "push_bit 4 (?h AND 3) < 64" using and_bounds(4) [of ?h] by (simp add: push_bit_eq_mult)
  moreover have "0 \<le> push_bit 4 (?h AND 3)" by (simp add: push_bit_eq_mult)
  moreover have "drop_bit (4 * (ib mod 2)) (uint (blk ! (4 + ib div 2))) AND 15 < (2::int) ^ 6"
    using and_bounds(2) [of "drop_bit (4 * (ib mod 2)) (uint (blk ! (4 + ib div 2)))"] by simp
  ultimately show "0 \<le> iq4_xs_ls blk ib" "iq4_xs_ls blk ib < 64"
    unfolding iq4_xs_ls_def using OR_upper [of _ 6] by (simp_all add: OR_lower)
qed

lemma nibble_codes_nth:
  "length qs = 16 \<Longrightarrow> i < 32 \<Longrightarrow>
    nibble_codes qs ! i = (if i < 16 then qs ! (i mod 16) AND 15 else drop_bit 4 (qs ! (i mod 16)))"
  by (auto simp: nibble_codes_def nth_append mod_if)

lemma length_nibble_codes [simp]: "length (nibble_codes qs) = 2 * length qs"
  by (simp add: nibble_codes_def)

lemma take2_nth: "2 + k \<le> length b \<Longrightarrow> take 2 (drop k b) = [b ! k, b ! Suc k]"
  by (auto simp: numeral_2_eq_2 take_Suc_conv_app_nth)

lemma iq4_xs_scales:
  assumes "length b = 136"
  shows "snd (iq4_xs_block b) = map (\<lambda>ib. map_option (\<lambda>x. f32 (x * of_int (iq4_xs_ls b ib - 32))) (f16_le (take 2 b))) [0..<8]"
proof -
  have "take 4 (drop 4 b) ! (ib div 2) = b ! (4 + ib div 2)" if "ib < 8" for ib
    using that assms by auto
  then show ?thesis using assms
    by (auto simp: iq4_xs_block_def Let_def iq4_xs_ls_def take2_nth [of 2] simp del: upt_Suc)
qed

lemma iq4_xs_codes:
  assumes "length b = 136" "j < 256"
  shows "length (fst (iq4_xs_block b)) = 256"
    and "fst (iq4_xs_block b) ! j =
      (if j mod 32 < 16 then b ! (8 + 16 * (j div 32) + j mod 16) AND 15 else drop_bit 4 (b ! (8 + 16 * (j div 32) + j mod 16)))"
proof -
  let ?c = "chunks 16 (drop 8 b)"
  have c: "length ?c = 8" using assms(1) by (simp add: length_chunks)
  have l: "length x = 16" if "x \<in> set ?c" for x using that assms(1) length_in_chunks [of 16 "drop 8 b" x] by simp
  have f: "fst (iq4_xs_block b) = concat (map nibble_codes ?c)" by (simp add: iq4_xs_block_def Let_def)
  show "length (fst (iq4_xs_block b)) = 256"
    unfolding f by (subst length_concat_map [of _ _ 32]) (auto simp: c dest: l)
  have "concat (map nibble_codes ?c) ! j = nibble_codes (?c ! (j div 32)) ! (j mod 32)"
    by (rule nth_concat_uniform) (use assms c in \<open>auto dest: l\<close>)
  moreover have "?c ! (j div 32) = take 16 (drop (j div 32 * 16) (drop 8 b))"
    using assms by (intro chunks_nth) auto
  moreover have "length (?c ! (j div 32)) = 16" using assms(2) c by (intro l nth_mem) simp
  moreover have "j mod 32 mod 16 = j mod 16" by (simp add: mod_mod_cancel)
  ultimately show "fst (iq4_xs_block b) ! j =
      (if j mod 32 < 16 then b ! (8 + 16 * (j div 32) + j mod 16) AND 15 else drop_bit 4 (b ! (8 + 16 * (j div 32) + j mod 16)))"
    using assms by (simp add: f nibble_codes_nth mult.commute add.commute [of 8])
qed

lemma iq4_xs_block_decode:
  assumes "length b = 136"
  shows "scale_row 32 (map (\<lambda>x. of_int (KVALUES_IQ4NL ! unat x)) (fst (iq4_xs_block b))) (snd (iq4_xs_block b)) =
    map (ggml_iq4_xs b) [0..<256]"
proof (rule nth_equalityI)
  let ?v = "map (\<lambda>x. of_int (KVALUES_IQ4NL ! unat x)) (fst (iq4_xs_block b)) :: rat list" and ?s = "snd (iq4_xs_block b)"
  have l: "length ?v = 32 * length ?s" using assms by (simp add: iq4_xs_codes(1) [of b 0] iq4_xs_scales)
  have v: "length ?v = 256" using assms by (simp add: iq4_xs_codes(1) [of b 0])
  show "length (scale_row 32 ?v ?s) = length (map (ggml_iq4_xs b) [0..<256])"
    using scale_row_nth(1) [OF _ l] v by simp
  fix j assume "j < length (scale_row 32 ?v ?s)"
  then have j: "j < 256" using scale_row_nth(1) [OF _ l] v by simp
  let ?q = "b ! (8 + 16 * (j div 32) + j mod 16)"
  let ?c = "if j mod 32 < 16 then ?q AND 15 else drop_bit 4 ?q" and ?ls = "iq4_xs_ls b (j div 32)"
  have vj: "?v ! j = of_int (KVALUES_IQ4NL ! unat ?c)" using iq4_xs_codes [OF assms j] j by simp
  have sj: "?s ! (j div 32) = map_option (\<lambda>x. f32 (x * of_int (?ls - 32))) (f16_le (take 2 b))"
    using j by (simp add: iq4_xs_scales [OF assms] less_mult_imp_div_less del: upt_Suc)
  have c: "unat ?c < 16" using unat_low_nibble unat_high_nibble by simp
  have g: "ggml_iq4_xs b j = map_option (\<lambda>d. d * of_int (?ls - 32) * of_int (KVALUES_IQ4NL ! unat ?c)) (f16_le (take 2 b))"
    by (simp only: ggml_iq4_xs_def Let_def)
  have "fmul (?s ! (j div 32)) (?v ! j) = ggml_iq4_xs b j"
  proof (cases "f16_le (take 2 b)")
    case None
    then show ?thesis unfolding sj g by (simp add: fmul_def)
  next
    case (Some x)
    have ls: "\<bar>?ls - 32\<bar> \<le> 32" using iq4_xs_ls_bounds [of b "j div 32"] by linarith
    have d: "dyadic (2047 * 32) (- 24 + 0) (x * of_int (?ls - 32))"
      by (intro dyadic_mult dyadic_int ls f16_le_dyadic [OF Some])
    then have "f32 (x * of_int (?ls - 32)) = x * of_int (?ls - 32)" by (rule f32_dyadic) simp_all
    then show ?thesis using iq4_value [OF d _ _ c] unfolding sj g vj Some by simp
  qed
  then show "scale_row 32 ?v ?s ! j = map (ggml_iq4_xs b) [0..<256] ! j"
    using scale_row_nth(2) [OF _ l, of j] j v by (simp del: upt_Suc)
qed

lemma iq4_xs_exact:
  assumes "raw_ok raw" "fst raw mod 136 = 0"
  shows "rbind (iq4_xs_split raw) (\<lambda>(c, s). iq4_xs_decode c s) = Inr (ggml_rows 136 256 ggml_iq4_xs (snd raw))"
proof -
  note bl = block_length [OF assms, simplified]
  let ?A = "\<lambda>b. fst (iq4_xs_block b)" and ?S = "\<lambda>b. snd (iq4_xs_block b)"
  have "iq4_nl_decode (map (\<lambda>row. concat (map ?A (chunks 136 row))) (snd raw)) (map (\<lambda>row. concat (map ?S (chunks 136 row))) (snd raw)) =
      Inr (map (\<lambda>row. concat (map (\<lambda>b. map (ggml_iq4_xs b) [0..<256]) (chunks 136 row))) (snd raw))"
  proof (rule iq4_decode_rows)
    fix row b assume "row \<in> set (snd raw)" "b \<in> set (chunks 136 row)"
    then have l: "length b = 136" by (rule bl)
    show "length (?A b) = 32 * length (?S b)" using l by (simp add: iq4_xs_codes(1) [of b 0] iq4_xs_scales)
    show "scale_row 32 (map (\<lambda>x. of_int (KVALUES_IQ4NL ! unat x)) (?A b)) (?S b) = map (ggml_iq4_xs b) [0..<256]"
      by (rule iq4_xs_block_decode [OF l])
  qed (auto simp: iq4_xs_block_def Let_def dest: nibble_codes_small)
  then show ?thesis using assms(2)
    by (simp add: iq4_xs_split_def whole_blocks_def IQ4_XS_BYTES_def iq4_xs_row_def Let_def o_def
        iq4_xs_decode_def ggml_rows_def)
qed

subsection \<open>Q8_0\<close>

definition ggml_q8_0 :: "8 word list \<Rightarrow> nat \<Rightarrow> fval" where
  "ggml_q8_0 blk j = map_option (\<lambda>d. d * of_int (sint (blk ! (2 + j)))) (f16_le (take 2 blk))"

lemma q8_0_block_decode:
  assumes "length b = 34"
  shows "scale_row 32 (map (\<lambda>c. of_int (sint c)) (drop 2 b)) [f16_le (take 2 b)] = map (ggml_q8_0 b) [0..<32]"
proof (rule nth_equalityI)
  let ?v = "map (\<lambda>c. of_int (sint c)) (drop 2 b) :: rat list" and ?s = "[f16_le (take 2 b)]"
  have l: "length ?v = 32 * length ?s" using assms by simp
  show "length (scale_row 32 ?v ?s) = length (map (ggml_q8_0 b) [0..<32])"
    using scale_row_nth(1) [OF _ l] assms by simp
  fix j assume "j < length (scale_row 32 ?v ?s)"
  then have j: "j < 32" using scale_row_nth(1) [OF _ l] assms by simp
  have "fmul (f16_le (take 2 b)) (of_int (sint (b ! (2 + j)))) = ggml_q8_0 b j"
  proof (cases "f16_le (take 2 b)")
    case (Some x)
    have "\<bar>sint (b ! (2 + j))\<bar> \<le> 128" using sint_ge [of "b ! (2 + j)"] sint_lt [of "b ! (2 + j)"] by simp
    then have "dyadic (2047 * 128) (- 24 + 0) (x * of_int (sint (b ! (2 + j))))"
      by (intro dyadic_mult dyadic_int f16_le_dyadic [OF Some])
    then have "f32 (x * of_int (sint (b ! (2 + j)))) = x * of_int (sint (b ! (2 + j)))" by (rule f32_dyadic) simp_all
    then show ?thesis by (simp add: fmul_def ggml_q8_0_def Some mult.commute)
  qed (simp add: fmul_def ggml_q8_0_def)
  then show "scale_row 32 ?v ?s ! j = map (ggml_q8_0 b) [0..<32] ! j"
    using scale_row_nth(2) [OF _ l, of j] j assms by (simp del: upt_Suc)
qed

lemma q8_0_exact:
  assumes "raw_ok raw" "fst raw mod 34 = 0"
  shows "rbind (q8_0_split raw) (\<lambda>(c, s). q8_0_decode c s) = Inr (ggml_rows 34 32 ggml_q8_0 (snd raw))"
proof -
  note bl = block_length [OF assms, simplified]
  let ?A = "\<lambda>b. map (\<lambda>c. of_int (sint c)) (drop 2 b) :: rat list" and ?S = "\<lambda>b. [f16_le (take 2 b)]"
  have len: "length (?A b) = 32 * length (?S b)" if "row \<in> set (snd raw)" "b \<in> set (chunks 34 row)" for row b
    using bl [OF that] by simp
  have "scale_rows 32 (map (\<lambda>row. concat (map ?A (chunks 34 row))) (snd raw)) (map (\<lambda>row. concat (map ?S (chunks 34 row))) (snd raw)) =
      Inr (map2 (scale_row 32) (map (\<lambda>row. concat (map ?A (chunks 34 row))) (snd raw)) (map (\<lambda>row. concat (map ?S (chunks 34 row))) (snd raw)))"
    by (rule scale_rows_eq [OF _ rows_lengths [OF len]]) simp
  also have "map2 (scale_row 32) (map (\<lambda>row. concat (map ?A (chunks 34 row))) (snd raw)) (map (\<lambda>row. concat (map ?S (chunks 34 row))) (snd raw)) =
      map (\<lambda>row. concat (map (\<lambda>b. map (ggml_q8_0 b) [0..<32]) (chunks 34 row))) (snd raw)"
  proof (rule decode_rows [OF _ len])
    fix row b assume "row \<in> set (snd raw)" "b \<in> set (chunks 34 row)"
    then show "scale_row 32 (?A b) (?S b) = map (ggml_q8_0 b) [0..<32]" by (intro q8_0_block_decode bl)
  qed simp_all
  finally show ?thesis using assms(2)
    by (simp add: q8_0_split_def whole_blocks_def Q8_0_BYTES_def Q8_0_BLOCK_def q8_0_row_def q8_0_decode_def
        Let_def o_def map_concat concat_singletons ggml_rows_def)
qed

end
