(* ===== verification/Native_Grid.thy ===== *)
theory Native_Grid
  imports Native_Facts
begin

unbundle bit_operations_syntax

text \<open>
  The two grid formats: IQ2_S in its split and its packed form, and IQ3_XXS. Both forms of IQ2_S
  decode to the same numbers, those of the format's formula.
\<close>

subsection \<open>IQ2_S\<close>

lemma sign_of_mask_nth: "i < 8 \<Longrightarrow> sign_of_mask m ! i = (if bit m i then - 1 else 1)"
proof -
  assume i: "i < 8"
  then have "i \<in> set [0..<8]" by simp
  then have "KMASK_IQ2XS ! i = 2 ^ i" by (auto simp: KMASK_IQ2XS_def upt_rec)
  then show ?thesis using i by (simp add: sign_of_mask_def and_exp_eq_0_iff_not_bit)
qed

lemma length_sign_of_mask [simp]: "length (sign_of_mask m) = 8"
  by (simp add: sign_of_mask_def)

lemma f32_signed_byte: "s \<in> {- 1, 1} \<Longrightarrow> f32 (byte_rat m * s) = byte_rat m * s"
  using f32_dyadic [OF dyadic_mult [OF dyadic_byte dyadic_sign]] by simp

lemma signed_group_nth:
  "length g = 8 \<Longrightarrow> i < 8 \<Longrightarrow> signed_group g m ! i = byte_rat (g ! i) * (if bit m i then - 1 else 1)"
  by (simp add: signed_group_def sign_of_mask_nth f32_signed_byte)

lemma length_signed_group [simp]: "length g = 8 \<Longrightarrow> length (signed_group g m) = 8"
  by (simp add: signed_group_def)

definition grid_group :: "int \<Rightarrow> 8 word \<Rightarrow> fval \<Rightarrow> fval list" where
  "grid_group i m s = map (fmul s) (signed_group (IQ2S_GRID ! nat i) m)"

definition grid_vals :: "int list \<Rightarrow> 8 word list \<Rightarrow> fval list \<Rightarrow> fval list" where
  "grid_vals gi ms ss = concat (map (\<lambda>((i, m), s). grid_group i m s) (zip (zip gi ms) ss))"

lemma grid_vals_append:
  "length gi = length ms \<Longrightarrow> length ss = length ms \<Longrightarrow>
    grid_vals (gi @ gi') (ms @ ms') (ss @ ss') = grid_vals gi ms ss @ grid_vals gi' ms' ss'"
  by (simp add: grid_vals_def)

lemma grid_vals_concat:
  "(\<And>b. b \<in> set bs \<Longrightarrow> length (G b) = length (M b) \<and> length (S b) = length (M b)) \<Longrightarrow>
    grid_vals (concat (map G bs)) (concat (map M bs)) (concat (map S bs)) = concat (map (\<lambda>b. grid_vals (G b) (M b) (S b)) bs)"
  by (induction bs) (simp_all add: grid_vals_append, simp add: grid_vals_def)

lemma length_grid_row: "nat i < 1024 \<Longrightarrow> length (IQ2S_GRID ! nat i) = 8"
  by (rule length_grid_rows(2)) simp

lemma length_grid_group [simp]: "nat i < 1024 \<Longrightarrow> length (grid_group i m s) = 8"
  by (simp add: grid_group_def length_grid_row)

lemma iq2_s_decode_eq:
  assumes "length signix = length gridix" "length scales = length gridix"
    and "\<And>k. k < length gridix \<Longrightarrow> length (signix ! k) = length (gridix ! k) \<and> length (scales ! k) = length (gridix ! k)"
    and "\<And>r i. r \<in> set gridix \<Longrightarrow> i \<in> set r \<Longrightarrow> unat i < 1024"
  shows "iq2_s_decode gridix signix scales =
    Inr (map (\<lambda>k. grid_vals (map uint (gridix ! k)) (signix ! k) (scales ! k)) [0..<length gridix])"
proof -
  let ?mag = "map (map (\<lambda>i. IQ2S_GRID ! unat i)) gridix"
  let ?y = "map2 (map2 signed_group) ?mag signix"
  let ?z = "map2 (map2 (\<lambda>g s. map (fmul s) g)) ?y scales"
  have mag: "map_res (map_res (\<lambda>i. table_get IQ2S_GRID (uint i))) gridix = Inr ?mag"
    using assms(4) by (intro map_res_rows) (simp add: table_get_uint)
  have y: "rows_with (rows_with (\<lambda>m s. Inr (signed_group m s))) ?mag signix = Inr ?y"
    by (intro rows_with_Inr) (use assms in \<open>auto simp: in_set_zip\<close>)
  have z: "rows_with (rows_with (\<lambda>g s. Inr (map (fmul s) g))) ?y scales = Inr ?z"
    by (intro rows_with_Inr) (use assms in \<open>auto simp: in_set_zip\<close>)
  have "map concat ?z = map (\<lambda>k. grid_vals (map uint (gridix ! k)) (signix ! k) (scales ! k)) [0..<length gridix]"
  proof (rule nth_equalityI)
    fix k assume "k < length (map concat ?z)"
    then have k: "k < length gridix" using assms by simp
    have "map2 (\<lambda>g s. map (fmul s) g) (map2 signed_group (map (\<lambda>i. IQ2S_GRID ! unat i) (gridix ! k)) (signix ! k)) (scales ! k) =
        map (\<lambda>((i, m), s). grid_group i m s) (zip (zip (map uint (gridix ! k)) (signix ! k)) (scales ! k))"
      by (rule nth_equalityI) (use assms(3) [OF k] in \<open>auto simp: grid_group_def\<close>)
    then show "map concat ?z ! k = map (\<lambda>k. grid_vals (map uint (gridix ! k)) (signix ! k) (scales ! k)) [0..<length gridix] ! k"
      using k assms(1,2) by (simp add: grid_vals_def)
  qed (use assms in simp)
  then show ?thesis by (simp add: iq2_s_decode_def mag y z)
qed

lemma iq2_s_index_bounds: "i \<in> set (iq2_s_index qs qh) \<Longrightarrow> 0 \<le> i \<and> i < 1024"
proof -
  assume "i \<in> set (iq2_s_index qs qh)"
  then obtain q h l where i: "i = uint (q ! l :: 8 word) OR push_bit 8 (drop_bit (2 * l) (uint (h :: 8 word)) AND 3)"
    by (auto simp: iq2_s_index_def)
  let ?h = "drop_bit (2 * l) (uint h) AND 3"
  have "push_bit 8 ?h < 2 ^ 10" using and_bounds(4) [of "drop_bit (2 * l) (uint h)"] by (simp add: push_bit_eq_mult)
  moreover have "uint (q ! l) < 2 ^ 10" using uint_bounded [of "q ! l"] by simp
  ultimately show ?thesis unfolding i using OR_upper [of "uint (q ! l)" 10 "push_bit 8 ?h"]
    by (simp add: OR_lower push_bit_eq_mult)
qed

lemma uint_index16: "0 \<le> i \<Longrightarrow> i < 1024 \<Longrightarrow> uint (word_of_int i :: 16 word) = i"
  by (simp add: uint_word_of_int_eq take_bit_int_eq_self)

definition iq2_exact_scale :: "8 word list \<Rightarrow> int \<Rightarrow> fval" where
  "iq2_exact_scale b n = map_option (\<lambda>x. x * (1 / 2 + of_int n) * (1 / 4)) (f16_le (take 2 b))"

definition iq2_exact_scales :: "8 word list \<Rightarrow> fval list" where
  "iq2_exact_scales b = concat (map (\<lambda>c. let lo = iq2_exact_scale b (uint c AND 15); hi = iq2_exact_scale b (drop_bit 4 (uint c))
     in [lo, lo, hi, hi]) (take 8 (drop 74 b)))"

lemma nibble_bounds: "0 \<le> (uint (c :: 8 word) AND 15)" "uint c AND 15 \<le> 15" "0 \<le> drop_bit 4 (uint c)" "drop_bit 4 (uint c) \<le> 15"
  using and_bounds [of "uint c"] uint_bounded [of c] uint_nonnegative [of c]
  by (auto simp: drop_bit_eq_div pos_imp_zdiv_nonneg_iff)

lemma scale_product_dyadic:
  assumes "f16_le bs = Some x" "0 \<le> n" "n \<le> 15"
  shows "dyadic (2047 * 31) (- 24 + - 1) (x * (1 / 2 + of_int n))"
    and "dyadic (2047 * 31 * 1) (- 24 + - 1 + - 2) (x * (1 / 2 + of_int n) * (1 / 4))"
  by (intro dyadic_mult dyadic_half_plus dyadic_quarter f16_le_dyadic [OF assms(1)] assms)+

lemma half_plus_exact: "0 \<le> n \<Longrightarrow> n \<le> 15 \<Longrightarrow> f32 (1 / 2 + of_int n) = 1 / 2 + of_int n"
    "0 \<le> n \<Longrightarrow> n \<le> 15 \<Longrightarrow> f64 (1 / 2 + of_int n) = 1 / 2 + of_int n"
  using f32_dyadic [OF dyadic_half_plus] f64_dyadic [OF dyadic_half_plus] by simp_all

lemma iq2_split_scale:
  assumes "0 \<le> n" "n \<le> 15"
  shows "map_option f32 (map_option (\<lambda>x. f64 (f64 (x * f64 (1 / 2 + of_int n)) * (1 / 4))) (f16_le (take 2 b))) = iq2_exact_scale b n"
proof (cases "f16_le (take 2 b)")
  case (Some x)
  note d = scale_product_dyadic [OF Some assms]
  have "f64 (x * (1 / 2 + of_int n)) = x * (1 / 2 + of_int n)" by (rule f64_dyadic [OF d(1)]) simp_all
  moreover have "f64 (x * (1 / 2 + of_int n) * (1 / 4)) = x * (1 / 2 + of_int n) * (1 / 4)" by (rule f64_dyadic [OF d(2)]) simp_all
  moreover have "f32 (x * (1 / 2 + of_int n) * (1 / 4)) = x * (1 / 2 + of_int n) * (1 / 4)" by (rule f32_dyadic [OF d(2)]) simp_all
  ultimately show ?thesis using assms by (simp only: Some iq2_exact_scale_def option.map half_plus_exact)
qed (simp add: iq2_exact_scale_def)

lemma packed_scale_exact:
  assumes "0 \<le> n" "n \<le> 15"
  shows "packed_scale (f16_le (take 2 b)) (of_int n) = iq2_exact_scale b n"
proof (cases "f16_le (take 2 b)")
  case (Some x)
  note d = scale_product_dyadic [OF Some assms]
  have "f32 (x * (1 / 2 + of_int n)) = x * (1 / 2 + of_int n)" by (rule f32_dyadic [OF d(1)]) simp_all
  moreover have "f32 (x * (1 / 2 + of_int n) * (1 / 4)) = x * (1 / 2 + of_int n) * (1 / 4)" by (rule f32_dyadic [OF d(2)]) simp_all
  ultimately show ?thesis using assms by (simp only: Some packed_scale_def iq2_exact_scale_def option.map half_plus_exact)
qed (simp add: iq2_exact_scale_def packed_scale_def)

definition iq2_idx :: "8 word list \<Rightarrow> int list" where
  "iq2_idx b = iq2_s_index (take 32 (drop 2 b)) (take 8 (drop 66 b))"

definition iq2_block_vals :: "8 word list \<Rightarrow> fval list" where
  "iq2_block_vals b = grid_vals (iq2_idx b) (take 32 (drop 34 b)) (iq2_exact_scales b)"

lemma iq2_s_block_eq:
  "fst (iq2_s_block b) = map word_of_int (iq2_idx b)" "fst (snd (iq2_s_block b)) = take 32 (drop 34 b)"
  "snd (snd (iq2_s_block b)) = iq2_exact_scales b"
proof -
  show "snd (snd (iq2_s_block b)) = iq2_exact_scales b"
    unfolding iq2_s_block_def iq2_exact_scales_def Let_def snd_conv map_concat map_map o_def list.map
    by (intro arg_cong [where f = concat] map_cong refl) (simp only: iq2_split_scale nibble_bounds)
qed (simp_all add: iq2_s_block_def Let_def iq2_idx_def)

lemma iq2_lengths:
  assumes "length b = 82"
  shows "length (iq2_idx b) = 32" "length (take 32 (drop 34 b)) = 32" "length (iq2_exact_scales b) = 32"
proof -
  have "length (chunks 4 (take 32 (drop 2 b))) = 8" using assms by (simp add: length_chunks)
  then show "length (iq2_idx b) = 32" using assms
    unfolding iq2_idx_def iq2_s_index_def
    by (subst length_concat_map [of _ _ 4]) (auto simp: case_prod_unfold)
  show "length (iq2_exact_scales b) = 32" using assms
    unfolding iq2_exact_scales_def by (subst length_concat_map [of _ _ 4]) (auto simp: Let_def)
qed (use assms in simp)

lemma uint_iq2_idx: "map uint (map word_of_int (iq2_idx b) :: 16 word list) = iq2_idx b"
  unfolding map_map o_def
  by (rule map_idI) (auto simp: iq2_idx_def dest!: iq2_s_index_bounds intro: uint_index16)

lemma iq2_split_decode:
  assumes "raw_ok raw" "fst raw mod 82 = 0"
  shows "rbind (iq2_s_split raw) (\<lambda>(g, i, s). iq2_s_decode g i s) =
    Inr (map (\<lambda>row. concat (map iq2_block_vals (chunks 82 row))) (snd raw))"
proof -
  let ?G = "\<lambda>row. concat (map (\<lambda>b. map word_of_int (iq2_idx b) :: 16 word list) (chunks 82 row))"
  let ?M = "\<lambda>row. concat (map (\<lambda>b. take 32 (drop 34 b)) (chunks 82 row))"
  let ?S = "\<lambda>row. concat (map iq2_exact_scales (chunks 82 row))"
  let ?rows = "snd raw"
  note bl = block_length [OF assms, simplified]
  have len: "length (?G row) = length (chunks 82 row) * 32" "length (?M row) = length (chunks 82 row) * 32"
    "length (?S row) = length (chunks 82 row) * 32" if "row \<in> set ?rows" for row
    using iq2_lengths [OF bl [OF that]] by (auto intro!: length_concat_map)
  have sp: "iq2_s_split raw = Inr (map ?G ?rows, map ?M ?rows, map ?S ?rows)"
    using assms(2) by (simp add: iq2_s_split_def whole_blocks_def IQ2_S_BYTES_def iq2_s_row_def Let_def o_def iq2_s_block_eq)
  have small: "unat i < 1024" if ri: "r \<in> set (map ?G ?rows)" "i \<in> set r" for r i
  proof -
    obtain row where "i \<in> set (?G row)" using ri by (auto simp del: set_concat)
    then obtain b j where "j \<in> set (iq2_idx b)" "i = word_of_int j" by auto
    moreover from this have "0 \<le> j" "j < 1024" using iq2_s_index_bounds by (auto simp: iq2_idx_def)
    ultimately show ?thesis using uint_index16 [of j] by (simp add: unat_eq_nat_uint)
  qed
  have "iq2_s_decode (map ?G ?rows) (map ?M ?rows) (map ?S ?rows) =
      Inr (map (\<lambda>k. grid_vals (map uint (map ?G ?rows ! k)) (map ?M ?rows ! k) (map ?S ?rows ! k)) [0..<length (map ?G ?rows)])"
    by (rule iq2_s_decode_eq) (use len small in auto)
  also have "map (\<lambda>k. grid_vals (map uint (map ?G ?rows ! k)) (map ?M ?rows ! k) (map ?S ?rows ! k)) [0..<length (map ?G ?rows)] =
      map (\<lambda>row. grid_vals (map uint (?G row)) (?M row) (?S row)) ?rows"
    by (rule nth_equalityI) simp_all
  also have "\<dots> = map (\<lambda>row. concat (map iq2_block_vals (chunks 82 row))) ?rows"
  proof (rule map_cong [OF refl])
    fix row assume row: "row \<in> set ?rows"
    have "map uint (?G row) = concat (map iq2_idx (chunks 82 row))"
      by (simp only: map_concat map_map o_def uint_iq2_idx [unfolded map_map o_def])
    then show "grid_vals (map uint (?G row)) (?M row) (?S row) = concat (map iq2_block_vals (chunks 82 row))"
      unfolding iq2_block_vals_def using iq2_lengths [OF bl [OF row]] by (simp only: grid_vals_concat)
  qed
  finally show ?thesis by (simp add: sp)
qed

lemma packed_block_eq:
  assumes "length b = 82"
  shows "fst (packed_block (take 80 (drop 2 b))) = iq2_idx b"
    "fst (snd (packed_block (take 80 (drop 2 b)))) = take 32 (drop 34 b)"
    "map2 packed_scale (replicate 32 (f16_le (take 2 b))) (snd (snd (packed_block (take 80 (drop 2 b))))) = iq2_exact_scales b"
proof -
  show "fst (packed_block (take 80 (drop 2 b))) = iq2_idx b"
    by (simp add: packed_block_def iq2_idx_def drop_take)
  show "fst (snd (packed_block (take 80 (drop 2 b)))) = take 32 (drop 34 b)"
    by (simp add: packed_block_def drop_take)
  let ?nib = "snd (snd (packed_block (take 80 (drop 2 b))))"
  let ?n4 = "\<lambda>c. let lo = of_int (uint c AND 0x0F); hi = of_int (drop_bit 4 (uint c)) in [lo, lo, hi, hi] :: rat list"
  have nib: "?nib = concat (map ?n4 (take 8 (drop 74 b)))"
    by (simp add: packed_block_def drop_take o_def)
  have "length ?nib = 32" unfolding nib using assms by (subst length_concat_map [of _ _ 4]) (auto simp: Let_def)
  then have "map2 packed_scale (replicate 32 (f16_le (take 2 b))) ?nib = map (packed_scale (f16_le (take 2 b))) ?nib"
    by (intro nth_equalityI) auto
  also have "\<dots> = iq2_exact_scales b"
    unfolding nib iq2_exact_scales_def map_concat map_map o_def
    by (intro arg_cong [where f = concat] map_cong refl)
       (simp add: Let_def packed_scale_exact nibble_bounds del: of_int_numeral)
  finally show "map2 packed_scale (replicate 32 (f16_le (take 2 b))) ?nib = iq2_exact_scales b" .
qed

lemma packed_groups_Inr:
  assumes "\<And>i. i \<in> set gi \<Longrightarrow> 0 \<le> i \<and> i < 1024"
  shows "map_res (\<lambda>((i, m), s). packed_group i m s) (zip (zip gi ms) ss) =
    Inr (map (\<lambda>((i, m), s). grid_group i m s) (zip (zip gi ms) ss))"
proof (rule map_res_Inr_map)
  fix x assume "x \<in> set (zip (zip gi ms) ss)"
  moreover obtain i m s where x: "x = ((i, m), s)" by (metis surj_pair)
  ultimately have "i \<in> set gi" by (auto dest!: set_zip_leftD)
  then have "nat i < 1024" using assms by force
  then show "(\<lambda>((i, m), s). packed_group i m s) x = Inr ((\<lambda>((i, m), s). grid_group i m s) x)"
    by (simp add: x packed_group_def grid_group_def table_get_def)
qed

lemma iq2_packed_decode:
  assumes "raw_ok raw" "fst raw mod 82 = 0"
  shows "rbind (iq2_s_packed_split raw) (\<lambda>(w, d). iq2_s_packed_decode (fst raw div 82 * 80, w) d) =
    Inr (map (\<lambda>row. concat (map iq2_block_vals (chunks 82 row))) (snd raw))"
proof -
  let ?rows = "snd raw" and ?nb = "fst raw div 82"
  let ?W = "\<lambda>row. concat (map (take 80 \<circ> drop 2) (chunks 82 row))"
  let ?D = "\<lambda>row. map (f16_le \<circ> take 2) (chunks 82 row)"
  note bl = block_length [OF assms, simplified]
  have nb: "length (chunks 82 row) = ?nb" if "row \<in> set ?rows" for row
    using that assms by (auto simp: raw_ok_def length_chunks mod_eq_0_iff_dvd)
  have sp: "iq2_s_packed_split raw = Inr (map ?W ?rows, map ?D ?rows)"
    using assms(2) by (simp add: iq2_s_packed_split_def whole_blocks_def IQ2_S_BYTES_def)
  let ?R = "\<lambda>row. concat (map (\<lambda>b. replicate 32 (f16_le (take 2 b))) (chunks 82 row))"
  have "concat (map (replicate 32) (concat (map ?D ?rows))) = concat (map ?R ?rows)"
    by (simp add: concat_map_nested o_def)
  moreover have "reshape2 (length (map ?R ?rows)) (?nb * 32) (concat (map ?R ?rows)) = Inr (map ?R ?rows)"
  proof (rule reshape2_concat)
    fix x assume "x \<in> set (map ?R ?rows)"
    then obtain row where row: "x = ?R row" "row \<in> set ?rows" by auto
    then show "length x = ?nb * 32" using nb [OF row(2)] length_concat_map [of "chunks 82 row" "\<lambda>b. replicate 32 (f16_le (take 2 b))" 32] by simp
  qed
  ultimately have d16: "reshape2 (length ?rows) (?nb * 32) (concat (map (replicate 32) (concat (map ?D ?rows)))) = Inr (map ?R ?rows)"
    by simp
  let ?F = "\<lambda>(row, dr). let bs = map packed_block (chunks 80 row);
                idx = concat (map fst bs); signix = concat (map (fst \<circ> snd) bs); nib = concat (map (snd \<circ> snd) bs)
            in map_res (\<lambda>((i, m), s). packed_group i m s) (zip (zip idx signix) (map2 packed_scale dr nib))"
  let ?I = "\<lambda>row. concat (map iq2_idx (chunks 82 row))" and ?M = "\<lambda>row. concat (map (\<lambda>b. take 32 (drop 34 b)) (chunks 82 row))"
    and ?S = "\<lambda>row. concat (map iq2_exact_scales (chunks 82 row))"
  have F: "?F (?W row, ?R row) = Inr (map (\<lambda>((i, m), s). grid_group i m s) (zip (zip (?I row) (?M row)) (?S row)))"
    if row: "row \<in> set ?rows" for row
  proof -
    have c: "chunks 80 (?W row) = map (take 80 \<circ> drop 2) (chunks 82 row)"
      by (rule chunks_concat) (use bl [OF row] in auto)
    have pb: "map2 packed_scale (?R row) (concat (map (\<lambda>b. snd (snd (packed_block (take 80 (drop 2 b))))) (chunks 82 row))) = ?S row"
    proof (subst map2_concat)
      fix b assume b: "b \<in> set (chunks 82 row)"
      have "length (map2 packed_scale (replicate 32 (f16_le (take 2 b))) (snd (snd (packed_block (take 80 (drop 2 b)))))) = 32"
        unfolding packed_block_eq(3) [OF bl [OF row b]] by (rule iq2_lengths(3) [OF bl [OF row b]])
      moreover have "length (snd (snd (packed_block (take 80 (drop 2 b))))) = 32"
        using bl [OF row b] unfolding packed_block_def Let_def snd_conv by (subst length_concat_map [of _ _ 4]) (auto simp: Let_def)
      ultimately show "length (replicate 32 (f16_le (take 2 b))) = length (snd (snd (packed_block (take 80 (drop 2 b)))))" by simp
    qed (use packed_block_eq(3) [OF bl [OF row]] in \<open>simp cong: map_cong\<close>)
    have "?F (?W row, ?R row) = map_res (\<lambda>((i, m), s). packed_group i m s) (zip (zip (?I row) (?M row)) (?S row))"
      unfolding prod.case Let_def c map_map
      using packed_block_eq(1,2) [OF bl [OF row]] pb by (simp add: o_def cong: map_cong)
    also have "\<dots> = Inr (map (\<lambda>((i, m), s). grid_group i m s) (zip (zip (?I row) (?M row)) (?S row)))"
      by (rule packed_groups_Inr) (auto simp: iq2_idx_def dest!: iq2_s_index_bounds)
    finally show ?thesis .
  qed
  have c1: "?nb * 80 mod 80 = 0" "?nb * 80 div 80 = ?nb" by simp_all
  have dec: "iq2_s_packed_decode (?nb * 80, map ?W ?rows) (map ?D ?rows) =
      rbind (map_res ?F (zip (map ?W ?rows) (map ?R ?rows))) (\<lambda>z. Inr (map concat z))"
    unfolding iq2_s_packed_decode_def fst_conv snd_conv length_map c1 d16 rbind.simps by (simp only: simp_thms if_False)
  have res: "map_res ?F (zip (map ?W ?rows) (map ?R ?rows)) =
      Inr (map (\<lambda>row. map (\<lambda>((i, m), s). grid_group i m s) (zip (zip (?I row) (?M row)) (?S row))) ?rows)"
    by (rule map_res_zip_map) (rule F)
  have "concat (map (\<lambda>((i, m), s). grid_group i m s) (zip (zip (?I row) (?M row)) (?S row))) = concat (map iq2_block_vals (chunks 82 row))"
    if row: "row \<in> set ?rows" for row
    unfolding grid_vals_def [symmetric] iq2_block_vals_def using iq2_lengths [OF bl [OF row]] by (simp only: grid_vals_concat)
  then show ?thesis unfolding sp rbind.simps prod.case dec res by (simp cong: map_cong)
qed

definition iq2_grid_index :: "8 word list \<Rightarrow> nat \<Rightarrow> int" where
  "iq2_grid_index blk g =
     uint (blk ! (2 + g)) OR push_bit 8 (drop_bit (2 * (g mod 4)) (uint (blk ! (66 + g div 4))) AND 3)"

definition iq2_nibble :: "8 word list \<Rightarrow> nat \<Rightarrow> int" where
  "iq2_nibble blk g =
     (let c = uint (blk ! (74 + g div 4)) in if g mod 4 < 2 then c AND 15 else drop_bit 4 c)"

definition ggml_iq2_s :: "8 word list \<Rightarrow> nat \<Rightarrow> fval" where
  "ggml_iq2_s blk j =
     (let g = j div 8
      in map_option (\<lambda>d. d * (1 / 2 + of_int (iq2_nibble blk g)) * (1 / 4)
             * byte_rat (IQ2S_GRID ! nat (iq2_grid_index blk g) ! (j mod 8))
             * (if bit (blk ! (34 + g)) (j mod 8) then - 1 else 1))
           (f16_le (take 2 blk)))"

lemma iq2_idx_nth:
  assumes "length b = 82" "g < 32"
  shows "iq2_idx b ! g = iq2_grid_index b g"
proof -
  let ?qs = "take 32 (drop 2 b)" and ?qh = "take 8 (drop 66 b)"
  let ?f = "\<lambda>(q, h). map (\<lambda>l. uint (q ! l) OR push_bit 8 (drop_bit (2 * l) (uint (h :: 8 word)) AND 3)) [0..<4]"
  have c: "length (chunks 4 ?qs) = 8" using assms(1) by (simp add: length_chunks)
  then have z: "length (zip (chunks 4 ?qs) ?qh) = 8" using assms(1) by simp
  have "iq2_idx b ! g = ?f (zip (chunks 4 ?qs) ?qh ! (g div 4)) ! (g mod 4)"
    unfolding iq2_idx_def iq2_s_index_def
    by (rule nth_concat_uniform) (use assms z in \<open>auto simp: case_prod_unfold\<close>)
  moreover have "chunks 4 ?qs ! (g div 4) = take 4 (drop (g div 4 * 4) ?qs)"
    using assms by (intro chunks_nth) auto
  moreover have "g div 4 * 4 + g mod 4 = g" by simp
  ultimately show ?thesis using assms c
    by (simp add: iq2_grid_index_def less_mult_imp_div_less add.assoc add.commute [of 2] del: upt_Suc)
qed

lemma iq2_scales_nth:
  assumes "length b = 82" "g < 32"
  shows "iq2_exact_scales b ! g = iq2_exact_scale b (iq2_nibble b g)"
proof -
  let ?f = "\<lambda>c. let lo = iq2_exact_scale b (uint c AND 15); hi = iq2_exact_scale b (drop_bit 4 (uint c)) in [lo, lo, hi, hi]"
  have "iq2_exact_scales b ! g = ?f (take 8 (drop 74 b) ! (g div 4)) ! (g mod 4)"
    unfolding iq2_exact_scales_def by (rule nth_concat_uniform) (use assms in \<open>auto simp: Let_def\<close>)
  moreover have "g mod 4 \<in> {0, 1, 2, 3}" by auto
  ultimately show ?thesis using assms by (auto simp: iq2_nibble_def Let_def numeral_2_eq_2 numeral_3_eq_3)
qed

lemma iq2_nibble_bounds: "0 \<le> iq2_nibble b g" "iq2_nibble b g \<le> 15"
  by (simp_all add: iq2_nibble_def Let_def nibble_bounds)

lemma iq2_block_vals_eq:
  assumes "length b = 82"
  shows "iq2_block_vals b = map (ggml_iq2_s b) [0..<256]"
proof -
  let ?M = "take 32 (drop 34 b)"
  let ?z = "zip (zip (iq2_idx b) ?M) (iq2_exact_scales b)"
  note l = iq2_lengths [OF assms]
  have gl: "length ((\<lambda>((i, m), s). grid_group i m s) p) = 8" if "p \<in> set ?z" for p
  proof -
    obtain i m s where p: "p = ((i, m), s)" by (metis surj_pair)
    then have "i \<in> set (iq2_idx b)" using that by (auto dest!: set_zip_leftD)
    then have "nat i < 1024" unfolding iq2_idx_def using iq2_s_index_bounds by fastforce
    then show ?thesis by (simp add: p)
  qed
  have zl: "length ?z = 32" using l by simp
  have cl: "length (concat (map (\<lambda>((i, m), s). grid_group i m s) ?z)) = length ?z * 8"
    by (rule length_concat_map) (rule gl)
  show ?thesis
  proof (rule nth_equalityI)
    show len: "length (iq2_block_vals b) = length (map (ggml_iq2_s b) [0..<256])"
      unfolding iq2_block_vals_def grid_vals_def unfolding cl zl by simp
    fix j assume "j < length (iq2_block_vals b)"
    then have j: "j < 256" using len by simp
    let ?g = "j div 8" and ?i = "iq2_grid_index b (j div 8)" and ?m = "b ! (34 + j div 8)"
    have g: "?g < 32" using j by simp
    have "iq2_block_vals b ! j = (\<lambda>((i, m), s). grid_group i m s) (?z ! ?g) ! (j mod 8)"
      unfolding iq2_block_vals_def grid_vals_def by (rule nth_concat_uniform, rule gl) (use zl j in simp_all)
    also have "?z ! ?g = ((?i, ?m), iq2_exact_scale b (iq2_nibble b ?g))"
      using g l assms by (simp add: iq2_idx_nth iq2_scales_nth)
    finally have v: "iq2_block_vals b ! j = grid_group ?i ?m (iq2_exact_scale b (iq2_nibble b ?g)) ! (j mod 8)" by simp
    have "iq2_idx b ! ?g \<in> set (iq2_idx b)" using g l by simp
    then have "nat ?i < 1024" unfolding iq2_idx_nth [OF assms g] unfolding iq2_idx_def using iq2_s_index_bounds by fastforce
    then have row: "length (IQ2S_GRID ! nat ?i) = 8" by (rule length_grid_row)
    let ?y = "byte_rat (IQ2S_GRID ! nat ?i ! (j mod 8))" and ?sg = "(if bit ?m (j mod 8) then - 1 else 1) :: rat"
    have "grid_group ?i ?m s ! (j mod 8) = fmul s (?y * ?sg)" for s
      using row by (simp add: grid_group_def signed_group_nth)
    then have "iq2_block_vals b ! j = fmul (iq2_exact_scale b (iq2_nibble b ?g)) (?y * ?sg)" by (simp add: v)
    also have "\<dots> = ggml_iq2_s b j"
    proof (cases "f16_le (take 2 b)")
      case (Some x)
      note d = scale_product_dyadic(2) [OF Some iq2_nibble_bounds [of b ?g]]
      have "dyadic (2047 * 31 * 1 * 255 * 1) (- 24 + - 1 + - 2 + 0 + 0) (x * (1 / 2 + of_int (iq2_nibble b ?g)) * (1 / 4) * ?y * ?sg)"
        by (intro dyadic_mult d dyadic_byte dyadic_sign) simp
      then have e: "f32 (x * (1 / 2 + of_int (iq2_nibble b ?g)) * (1 / 4) * ?y * ?sg) = x * (1 / 2 + of_int (iq2_nibble b ?g)) * (1 / 4) * ?y * ?sg"
        by (rule f32_dyadic) simp_all
      have "?y * ?sg * (x * (1 / 2 + of_int (iq2_nibble b ?g)) * (1 / 4)) = x * (1 / 2 + of_int (iq2_nibble b ?g)) * (1 / 4) * ?y * ?sg"
        by (simp only: ac_simps)
      then show ?thesis unfolding ggml_iq2_s_def Let_def iq2_exact_scale_def Some fmul_def option.map by (simp only: e)
    qed (simp add: ggml_iq2_s_def Let_def iq2_exact_scale_def fmul_def)
    finally show "iq2_block_vals b ! j = map (ggml_iq2_s b) [0..<256] ! j" using j by (simp del: upt_Suc)
  qed
qed

lemma iq2_rows:
  assumes "raw_ok raw" "fst raw mod 82 = 0"
  shows "map (\<lambda>row. concat (map iq2_block_vals (chunks 82 row))) (snd raw) = ggml_rows 82 256 ggml_iq2_s (snd raw)"
  unfolding ggml_rows_def
  by (intro map_cong refl arg_cong [where f = concat]) (rule iq2_block_vals_eq, rule block_length [OF assms], simp_all)

subsection \<open>IQ3_XXS\<close>

definition iq3_aux :: "8 word list \<Rightarrow> nat \<Rightarrow> int" where
  "iq3_aux blk ib = le_int (take 4 (drop (66 + 4 * ib) blk))"

definition ggml_iq3_xxs :: "8 word list \<Rightarrow> nat \<Rightarrow> fval" where
  "ggml_iq3_xxs blk j =
     (let aux = iq3_aux blk (j div 32);
          m = KSIGNS_IQ2XS ! nat (drop_bit (7 * (j mod 32 div 8)) aux AND 127)
      in map_option (\<lambda>d. d * (1 / 2 + of_int (drop_bit 28 aux)) * (1 / 2)
             * byte_rat (IQ3XXS_GRID ! unat (blk ! (2 + j div 4)) ! (j mod 4))
             * (if bit m (j mod 8) then - 1 else 1))
           (f16_le (take 2 blk)))"

lemma le_int_bounds: "0 \<le> le_int bs \<and> le_int bs < 256 ^ length bs"
proof (induction bs)
  case (Cons b bs)
  then have "le_int bs + 1 \<le> 256 ^ length bs" by simp
  then have "256 * (le_int bs + 1) \<le> 256 * 256 ^ length bs" by (rule mult_left_mono) simp
  moreover have "0 \<le> uint b" "uint b < 256" using uint_bounded [of b] by simp_all
  ultimately show ?case using Cons by simp
qed simp

lemma iq3_aux_scale: "length b = 98 \<Longrightarrow> ib < 8 \<Longrightarrow> 0 \<le> drop_bit 28 (iq3_aux b ib) \<and> drop_bit 28 (iq3_aux b ib) \<le> 15"
proof -
  assume "length b = 98" "ib < 8"
  then have "0 \<le> iq3_aux b ib" "iq3_aux b ib < 4294967296"
    using le_int_bounds [of "take 4 (drop (66 + 4 * ib) b)"] by (simp_all add: iq3_aux_def)
  moreover have "x div 268435456 \<le> 15" if "x < 4294967296" for x :: int using that by linarith
  ultimately show ?thesis by (simp add: drop_bit_eq_div pos_imp_zdiv_nonneg_iff)
qed

lemma and_127: "0 \<le> (x AND 127 :: int)" "(x AND 127 :: int) < 128"
  using AND_upper2 [of 127 x] by simp_all

lemma unat_signix: "unat (word_of_int (x AND 127) :: 8 word) = nat (x AND 127)"
proof -
  have "take_bit 8 (x AND 127) = x AND 127" by (rule take_bit_int_eq_self) (use and_127 [of x] in simp_all)
  then have "uint (word_of_int (x AND 127) :: 8 word) = x AND 127"
    unfolding uint_word_of_int_eq len_num1 len_bit0 by simp
  then show ?thesis unfolding unat_eq_nat_uint by simp
qed

definition iq3_sgn :: "8 word list \<Rightarrow> 8 word list" where
  "iq3_sgn b = concat (map (\<lambda>ib. map (\<lambda>l. word_of_int (drop_bit (7 * l) (iq3_aux b ib) AND 127)) [0..<4]) [0..<8])"

definition iq3_scales :: "8 word list \<Rightarrow> fval list" where
  "iq3_scales b = map (\<lambda>ib. map_option (\<lambda>x. x * (1 / 2 + of_int (drop_bit 28 (iq3_aux b ib))) * (1 / 2)) (f16_le (take 2 b))) [0..<8]"

lemma iq3_scale_exact:
  assumes "0 \<le> n" "n \<le> 15"
  shows "map_option (\<lambda>x. f32 (f32 (x * f32 (1 / 2 + of_int n)) * (1 / 2))) (f16_le bs) =
    map_option (\<lambda>x. x * (1 / 2 + of_int n) * (1 / 2)) (f16_le bs)"
proof (cases "f16_le bs")
  case (Some x)
  note d = scale_product_dyadic(1) [OF Some assms]
  have "f32 (x * (1 / 2 + of_int n)) = x * (1 / 2 + of_int n)" by (rule f32_dyadic [OF d]) simp_all
  moreover have "f32 (x * (1 / 2 + of_int n) * (1 / 2)) = x * (1 / 2 + of_int n) * (1 / 2)"
    by (rule f32_dyadic [OF dyadic_mult [OF d dyadic_half]]) simp_all
  ultimately show ?thesis using assms by (simp only: Some option.map half_plus_exact)
qed simp

lemma iq3_block_eq:
  assumes "length b = 98"
  shows "fst (iq3_xxs_block b) = take 64 (drop 2 b)" "fst (snd (iq3_xxs_block b)) = iq3_sgn b"
    "snd (snd (iq3_xxs_block b)) = iq3_scales b"
proof -
  have aux: "map le_int (chunks 4 (take 32 (drop 66 b))) = map (iq3_aux b) [0..<8]"
  proof (rule nth_equalityI)
    show "length (map le_int (chunks 4 (take 32 (drop 66 b)))) = length (map (iq3_aux b) [0..<8])"
      using assms by (simp add: length_chunks)
    fix i assume "i < length (map le_int (chunks 4 (take 32 (drop 66 b))))"
    then have i: "i < 8" using assms by (simp add: length_chunks)
    have "chunks 4 (take 32 (drop 66 b)) ! i = take 4 (drop (i * 4) (take 32 (drop 66 b)))"
      using assms i by (intro chunks_nth) auto
    also have "\<dots> = take 4 (drop (66 + 4 * i) b)" using i by (simp add: drop_take mult.commute add.commute)
    finally show "map le_int (chunks 4 (take 32 (drop 66 b))) ! i = map (iq3_aux b) [0..<8] ! i"
      using assms i by (simp add: iq3_aux_def length_chunks del: upt_Suc)
  qed
  show "fst (iq3_xxs_block b) = take 64 (drop 2 b)" by (simp add: iq3_xxs_block_def Let_def)
  show "fst (snd (iq3_xxs_block b)) = iq3_sgn b"
    unfolding iq3_xxs_block_def Let_def snd_conv fst_conv aux iq3_sgn_def map_map o_def ..
  show "snd (snd (iq3_xxs_block b)) = iq3_scales b"
    unfolding iq3_xxs_block_def Let_def snd_conv aux iq3_scales_def map_map o_def
    by (intro map_cong refl iq3_scale_exact) (use iq3_aux_scale [OF assms] in auto)
qed

definition iq3_mag :: "8 word list \<Rightarrow> 8 word list" where
  "iq3_mag b = concat (map (\<lambda>i. IQ3XXS_GRID ! unat i) (take 64 (drop 2 b)))"

definition iq3_sign :: "8 word list \<Rightarrow> rat list" where
  "iq3_sign b = concat (map (\<lambda>i. sign_of_mask (KSIGNS_IQ2XS ! unat i)) (iq3_sgn b))"

lemma length_iq3_row: "length (IQ3XXS_GRID ! unat (i :: 8 word)) = 4"
  using unsigned_less [of i, where ?'a = nat] by (intro length_grid_rows(1)) simp

lemma iq3_lengths:
  assumes "length b = 98"
  shows "length (iq3_mag b) = 256" "length (iq3_sgn b) = 32" "length (iq3_sign b) = 256" "length (iq3_scales b) = 8"
proof -
  show "length (iq3_mag b) = 256" unfolding iq3_mag_def
    by (subst length_concat_map [of _ _ 4]) (simp_all add: length_iq3_row assms)
  show g: "length (iq3_sgn b) = 32" unfolding iq3_sgn_def
    by (subst length_concat_map [of _ _ 4]) simp_all
  show "length (iq3_sign b) = 256" unfolding iq3_sign_def
    by (subst length_concat_map [of _ _ 8]) (simp_all add: g)
qed (simp add: iq3_scales_def)

lemma iq3_mag_nth: "length b = 98 \<Longrightarrow> j < 256 \<Longrightarrow> iq3_mag b ! j = IQ3XXS_GRID ! unat (b ! (2 + j div 4)) ! (j mod 4)"
  unfolding iq3_mag_def by (subst nth_concat_uniform [of _ _ 4]) (auto simp: length_iq3_row)

lemma iq3_sign_nth:
  assumes "length b = 98" "j < 256"
  shows "iq3_sign b ! j =
    (if bit (KSIGNS_IQ2XS ! nat (drop_bit (7 * (j mod 32 div 8)) (iq3_aux b (j div 32)) AND 127)) (j mod 8) then - 1 else 1)"
proof -
  have "iq3_sgn b ! (j div 8) = map (\<lambda>l. word_of_int (drop_bit (7 * l) (iq3_aux b ([0..<8] ! (j div 8 div 4))) AND 127)) [0..<4] ! (j div 8 mod 4)"
    unfolding iq3_sgn_def by (rule nth_concat_uniform) (use assms in simp_all)
  also have "\<dots> = word_of_int (drop_bit (7 * (j div 8 mod 4)) (iq3_aux b (j div 8 div 4)) AND 127)"
    using assms by (simp add: less_mult_imp_div_less del: upt_Suc)
  finally have g: "iq3_sgn b ! (j div 8) = word_of_int (drop_bit (7 * (j mod 32 div 8)) (iq3_aux b (j div 32)) AND 127)"
    using mod_mult2_eq [of j 8 4] by (simp add: div_mult2_eq [symmetric])
  have "iq3_sign b ! j = sign_of_mask (KSIGNS_IQ2XS ! unat (iq3_sgn b ! (j div 8))) ! (j mod 8)"
    unfolding iq3_sign_def by (rule nth_concat_uniform) (use assms iq3_lengths(2) [OF assms(1)] in simp_all)
  then show ?thesis by (simp add: g unat_signix sign_of_mask_nth)
qed

definition iq3_y :: "8 word list \<Rightarrow> rat list" where
  "iq3_y b = map2 (\<lambda>m s. f32 (byte_rat m * s)) (iq3_mag b) (iq3_sign b)"

lemma iq3_block_decode:
  assumes "length b = 98"
  shows "scale_row 32 (iq3_y b) (iq3_scales b) = map (ggml_iq3_xxs b) [0..<256]"
proof (rule nth_equalityI)
  note len = iq3_lengths [OF assms]
  have v: "length (iq3_y b) = 256" using len by (simp add: iq3_y_def)
  then have l: "length (iq3_y b) = 32 * length (iq3_scales b)" using len by simp
  show "length (scale_row 32 (iq3_y b) (iq3_scales b)) = length (map (ggml_iq3_xxs b) [0..<256])"
    using scale_row_nth(1) [OF _ l] v by simp
  fix j assume "j < length (scale_row 32 (iq3_y b) (iq3_scales b))"
  then have j: "j < 256" using scale_row_nth(1) [OF _ l] v by simp
  let ?aux = "iq3_aux b (j div 32)"
  let ?m = "KSIGNS_IQ2XS ! nat (drop_bit (7 * (j mod 32 div 8)) ?aux AND 127)"
  let ?y = "byte_rat (IQ3XXS_GRID ! unat (b ! (2 + j div 4)) ! (j mod 4))" and ?sg = "(if bit ?m (j mod 8) then - 1 else 1) :: rat"
  let ?n = "drop_bit 28 ?aux"
  have yj: "iq3_y b ! j = ?y * ?sg"
    using j len by (simp add: iq3_y_def iq3_mag_nth [OF assms] iq3_sign_nth [OF assms] f32_signed_byte)
  have n: "0 \<le> ?n" "?n \<le> 15" using iq3_aux_scale [OF assms, of "j div 32"] j by simp_all
  have sj: "iq3_scales b ! (j div 32) = map_option (\<lambda>x. x * (1 / 2 + of_int ?n) * (1 / 2)) (f16_le (take 2 b))"
    using j by (simp add: iq3_scales_def less_mult_imp_div_less del: upt_Suc)
  have "fmul (iq3_scales b ! (j div 32)) (iq3_y b ! j) = ggml_iq3_xxs b j"
  proof (cases "f16_le (take 2 b)")
    case (Some x)
    note d = dyadic_mult [OF scale_product_dyadic(1) [OF Some n] dyadic_half]
    have "dyadic (2047 * 31 * 1 * 255 * 1) (- 24 + - 1 + - 1 + 0 + 0) (x * (1 / 2 + of_int ?n) * (1 / 2) * ?y * ?sg)"
      by (intro dyadic_mult [OF dyadic_mult [OF d dyadic_byte] dyadic_sign]) simp
    then have e: "f32 (x * (1 / 2 + of_int ?n) * (1 / 2) * ?y * ?sg) = x * (1 / 2 + of_int ?n) * (1 / 2) * ?y * ?sg"
      by (rule f32_dyadic) simp_all
    have "?y * ?sg * (x * (1 / 2 + of_int ?n) * (1 / 2)) = x * (1 / 2 + of_int ?n) * (1 / 2) * ?y * ?sg"
      by (simp only: ac_simps)
    then show ?thesis unfolding ggml_iq3_xxs_def Let_def sj yj Some fmul_def option.map by (simp only: e)
  qed (simp add: ggml_iq3_xxs_def Let_def sj fmul_def)
  then show "scale_row 32 (iq3_y b) (iq3_scales b) ! j = map (ggml_iq3_xxs b) [0..<256] ! j"
    using scale_row_nth(2) [OF _ l, of j] j v by (simp del: upt_Suc)
qed

lemma unat_iq3_sgn: "i \<in> set (iq3_sgn b) \<Longrightarrow> unat i < 128"
  using and_127 by (auto simp: iq3_sgn_def unat_signix nat_less_iff)

lemma iq3_xxs_exact:
  assumes "raw_ok raw" "fst raw mod 98 = 0"
  shows "rbind (iq3_xxs_split raw) (\<lambda>(g, i, s). iq3_xxs_decode g i s) = Inr (ggml_rows 98 256 ggml_iq3_xxs (snd raw))"
proof -
  let ?rows = "snd raw" and ?nb = "fst raw div 98"
  note bl = block_length [OF assms, simplified]
  have nb: "length (chunks 98 row) = ?nb" if "row \<in> set ?rows" for row
    using that assms by (auto simp: raw_ok_def length_chunks mod_eq_0_iff_dvd)
  let ?G = "\<lambda>row. concat (map (\<lambda>b. take 64 (drop 2 b)) (chunks 98 row))" and ?I = "\<lambda>row. concat (map iq3_sgn (chunks 98 row))"
    and ?S = "\<lambda>row. concat (map iq3_scales (chunks 98 row))" and ?N = "\<lambda>row. concat (map iq3_sign (chunks 98 row))"
    and ?Y = "\<lambda>row. concat (map iq3_y (chunks 98 row))"
  have sp: "iq3_xxs_split raw = Inr (map ?G ?rows, map ?I ?rows, map ?S ?rows)"
    using assms(2) iq3_block_eq [OF bl]
    by (auto simp: iq3_xxs_split_def whole_blocks_def IQ3_XXS_BYTES_def iq3_xxs_row_def Let_def o_def cong: map_cong)
  have mag: "map_res (map_res (\<lambda>i. table_get IQ3XXS_GRID (uint i))) (map ?G ?rows) = Inr (map (map (\<lambda>i. IQ3XXS_GRID ! unat i)) (map ?G ?rows))"
  proof (rule map_res_rows)
    fix i :: "8 word"
    show "table_get IQ3XXS_GRID (uint i) = Inr (IQ3XXS_GRID ! unat i)"
      using unsigned_less [of i, where ?'a = nat] by (intro table_get_uint) simp
  qed
  have masks: "map_res (map_res (\<lambda>i. table_get KSIGNS_IQ2XS (uint i))) (map ?I ?rows) = Inr (map (map (\<lambda>i. KSIGNS_IQ2XS ! unat i)) (map ?I ?rows))"
    by (rule map_res_rows) (auto intro!: table_get_uint dest!: unat_iq3_sgn)
  have inn: "(case map ?G ?rows of [] \<Rightarrow> 0 | r # _ \<Rightarrow> length r * 4) = ?nb * 256" if ne: "?rows \<noteq> []"
  proof -
    obtain r rs where r: "?rows = r # rs" using ne by (cases ?rows) auto
    then have "length (?G r) = length (chunks 98 r) * 64" by (intro length_concat_map) (use bl [of r] r in simp)
    then show ?thesis using nb [of r] r by simp
  qed
  have sgn: "concat (map sign_of_mask (concat (map (map (\<lambda>i. KSIGNS_IQ2XS ! unat i)) (map ?I ?rows)))) = concat (map ?N ?rows)"
    by (simp add: concat_concat map_concat iq3_sign_def [abs_def] o_def)
  have rs: "reshape2 (length (map ?G ?rows)) (case map ?G ?rows of [] \<Rightarrow> 0 | r # _ \<Rightarrow> length r * 4) (concat (map ?N ?rows)) = Inr (map ?N ?rows)"
  proof (cases "?rows = []")
    case False
    have "reshape2 (length (map ?N ?rows)) (?nb * 256) (concat (map ?N ?rows)) = Inr (map ?N ?rows)"
    proof (rule reshape2_concat)
      fix x assume "x \<in> set (map ?N ?rows)"
      then obtain row where row: "x = ?N row" "row \<in> set ?rows" by auto
      then show "length x = ?nb * 256"
        using length_concat_map [of "chunks 98 row" iq3_sign 256] iq3_lengths(3) [OF bl [OF row(2)]] nb [OF row(2)] by simp
    qed
    then show ?thesis using inn [OF False] by simp
  qed (simp add: reshape2_def)
  have y: "map2 (map2 (\<lambda>m s. f32 (byte_rat m * s))) (map concat (map (map (\<lambda>i. IQ3XXS_GRID ! unat i)) (map ?G ?rows))) (map ?N ?rows) = map ?Y ?rows"
  proof -
    have "map2 (\<lambda>m s. f32 (byte_rat m * s)) (concat (map (\<lambda>i. IQ3XXS_GRID ! unat i) (?G row))) (?N row) = ?Y row"
      if row: "row \<in> set ?rows" for row
    proof -
      have "concat (map (\<lambda>i. IQ3XXS_GRID ! unat i) (?G row)) = concat (map iq3_mag (chunks 98 row))"
        by (simp add: concat_map_nested iq3_mag_def [abs_def] o_def)
      then show ?thesis using iq3_lengths [OF bl [OF row]] map2_concat [of "chunks 98 row" iq3_mag iq3_sign]
        by (simp add: iq3_y_def [abs_def])
    qed
    then show ?thesis by (simp add: zip_map_map map2_map_map zip_same_conv_map o_def cong: map_cong)
  qed
  have len: "length (iq3_y b) = 32 * length (iq3_scales b)" if "row \<in> set ?rows" "b \<in> set (chunks 98 row)" for row b
    using iq3_lengths [OF bl [OF that]] by (simp add: iq3_y_def)
  have "scale_rows 32 (map ?Y ?rows) (map ?S ?rows) = Inr (map2 (scale_row 32) (map ?Y ?rows) (map ?S ?rows))"
    by (rule scale_rows_eq [OF _ rows_lengths [OF len]]) simp
  also have "map2 (scale_row 32) (map ?Y ?rows) (map ?S ?rows) = map (\<lambda>row. concat (map (\<lambda>b. map (ggml_iq3_xxs b) [0..<256]) (chunks 98 row))) ?rows"
    by (rule decode_rows [OF _ len]) (use iq3_block_decode bl in auto)
  finally have "iq3_xxs_decode (map ?G ?rows) (map ?I ?rows) (map ?S ?rows) = Inr (ggml_rows 98 256 ggml_iq3_xxs ?rows)"
    unfolding iq3_xxs_decode_def Let_def mag masks rbind.simps sgn rs y ggml_rows_def .
  then show ?thesis by (simp add: sp)
qed

end
