(* ===== verification/Native_Fill.thy ===== *)
theory Native_Fill
  imports Expert_Fill Native_Grid
begin

text \<open>
  \<open>NativeExpertFiller\<close> of \<open>tools/q4e/expert_fill.py\<close>: it serves the checkpoint's own blocks, re-laid
  per role, and keeps the same log as the u4 filler. The feed is an argument of the constructor;
  its two methods \<open>gguf_type\<close> and \<open>raw_rows\<close> are functions that may fail. The raw rows of a tensor
  are its shape with its bytes by expert and row.
\<close>

record raw3 =
  rshape :: fill_shape
  raw_bytes :: "8 word list list list"

record feed_api =
  gguf_type :: "string \<Rightarrow> string res"
  raw_rows :: "string \<Rightarrow> nat \<Rightarrow> raw3 res"

record native_filler = fill_log +
  packed :: bool

definition new_native_filler :: "bool \<Rightarrow> native_filler" where
  "new_native_filler p = \<lparr>served = [], seen = [], packed = p\<rparr>"

definition gguf_name :: "(int \<Rightarrow> int) option \<Rightarrow> fill_key \<Rightarrow> string" where
  "gguf_name layer_of key =
     (let blk = (case layer_of of None \<Rightarrow> fst key | Some f \<Rightarrow> f (fst key))
      in ''blk.'' @ py_str blk @ ''.ffn_'' @ snd key @ ''_exps.weight'')"

definition native_parts ::
    "feed_api \<Rightarrow> bool \<Rightarrow> string \<Rightarrow> fill_shape \<Rightarrow> (string \<times> parts) res" where
  "native_parts feed pk gname shape =
     (case shape of (e, out, inn) \<Rightarrow>
        rbind (gguf_type feed gname) (\<lambda>fmt.
        case map_of SPLIT fmt of
          None \<Rightarrow> Inl UnknownFormat
        | Some split_fmt \<Rightarrow>
            rbind (raw_rows feed gname e) (\<lambda>raw.
            case rshape raw of (re, rout, rbytes) \<Rightarrow>
              if \<not> (re = e \<and> rout = out) then Inl ShapeMismatch
              else rbind (of_option KeyError (map_of BLOCK_BYTES fmt)) (\<lambda>(block, nbytes).
                if rbytes \<noteq> inn div block * nbytes then Inl PayloadSizeMismatch
                else case (if pk then map_of PACKED fmt else None) of
                       Some pack_fmt \<Rightarrow> rbind (pack_fmt (rbytes, concat (raw_bytes raw))) (\<lambda>p. Inr (fmt @ ''_PACKED'', p))
                     | None \<Rightarrow> rbind (split_fmt (rbytes, concat (raw_bytes raw))) (\<lambda>p. Inr (fmt, p))))))"

definition native ::
    "feed_api \<Rightarrow> (int \<Rightarrow> int) option \<Rightarrow> fill_key \<times> fill_shape \<Rightarrow> native_filler \<Rightarrow>
      native_filler \<times> (string \<times> parts) res" where
  "native feed layer_of req f =
     (let (key, shape) = req;
          f1 = note_request key f
      in case native_parts feed (packed f) (gguf_name layer_of key) shape of
           Inl e \<Rightarrow> (f1, Inl e)
         | Inr r \<Rightarrow> (log_served key shape (part_bytes (snd r)) f1, Inr r))"

text \<open>\<open>NativeExpertFiller.census\<close>: the same report, tagged with the format.\<close>

definition native_census :: "native_filler \<Rightarrow> fill_census \<times> string" where
  "native_census f = (census f, ''native'')"

interpretation nat_fill: logged_filler "native feed layer_of" "\<lambda>r. part_bytes (snd r)"
  by unfold_locales
     (auto simp: native_def Let_def note_request_def log_served_def split: sum.splits prod.splits)

subsection \<open>The formats by name\<close>

definition ggml_formats :: "(string, 8 word list \<Rightarrow> nat \<Rightarrow> fval) dict" where
  "ggml_formats = [(''IQ4_NL'', ggml_iq4_nl), (''IQ3_XXS'', ggml_iq3_xxs), (''IQ2_S'', ggml_iq2_s),
     (''IQ4_XS'', ggml_iq4_xs), (''Q8_0'', ggml_q8_0)]"

lemmas block_consts = IQ4_NL_BLOCK_def IQ4_NL_BYTES_def IQ3_XXS_BLOCK_def IQ3_XXS_BYTES_def
  IQ2_S_BLOCK_def IQ2_S_BYTES_def IQ4_XS_BLOCK_def IQ4_XS_BYTES_def Q8_0_BLOCK_def Q8_0_BYTES_def

lemma format_cases:
  assumes "map_of SPLIT fmt = Some sp"
  obtains "fmt = ''IQ4_NL''" | "fmt = ''IQ3_XXS''" | "fmt = ''IQ2_S''" | "fmt = ''IQ4_XS''" | "fmt = ''Q8_0''"
  using assms by (auto simp: SPLIT_def split: if_splits)

text \<open>\<open>DECODE[fmt](*SPLIT[fmt](raw))\<close>\<close>

definition decode_split :: "string \<Rightarrow> raw_rows \<Rightarrow> fval list list res" where
  "decode_split fmt raw =
     rbind (of_option KeyError (map_of SPLIT fmt)) (\<lambda>sp.
     rbind (of_option KeyError (map_of DECODE fmt)) (\<lambda>de. rbind (sp raw) de))"

lemma decode_split_exact:
  assumes "map_of BLOCK_BYTES fmt = Some (n, bytes)" "raw_ok raw" "fst raw mod bytes = 0"
  shows "decode_split fmt raw = Inr (ggml_rows bytes n (the (map_of ggml_formats fmt)) (snd raw))"
proof -
  have two: "rbind (case p of (c, s) \<Rightarrow> Inr (CodeParts c s)) (case_parts f g h) = (case p of (c, s) \<Rightarrow> f c s)" for p f and g h :: "_ \<Rightarrow> _ \<Rightarrow> _ \<Rightarrow> _"
    by (cases p) simp
  have three: "rbind (case p of (a, i, s) \<Rightarrow> Inr (GridParts a i s)) (case_parts f g h) = (case p of (a, i, s) \<Rightarrow> g a i s)" for p f g h
    by (cases p) simp
  have wide: "rbind (case p of (a, i, s) \<Rightarrow> Inr (WideGridParts a i s)) (case_parts f g h) = (case p of (a, i, s) \<Rightarrow> h a i s)" for p f g h
    by (cases p) simp
  consider "fmt = ''IQ4_NL''" "n = 32" "bytes = 18" | "fmt = ''IQ3_XXS''" "n = 256" "bytes = 98"
    | "fmt = ''IQ2_S''" "n = 256" "bytes = 82" | "fmt = ''IQ4_XS''" "n = 256" "bytes = 136" | "fmt = ''Q8_0''" "n = 32" "bytes = 34"
    using assms(1) by (auto simp: BLOCK_BYTES_def block_consts split: if_splits)
  then show ?thesis
  proof cases
    case 1
    then show ?thesis using iq4_nl_exact [of raw] assms
      by (simp add: decode_split_def SPLIT_def DECODE_def ggml_formats_def rbind_assoc two)
  next
    case 2
    then show ?thesis using iq3_xxs_exact [of raw] assms
      by (simp add: decode_split_def SPLIT_def DECODE_def ggml_formats_def rbind_assoc three)
  next
    case 3
    then show ?thesis using iq2_split_decode [of raw] iq2_rows [of raw] assms
      by (simp add: decode_split_def SPLIT_def DECODE_def ggml_formats_def rbind_assoc wide)
  next
    case 4
    then show ?thesis using iq4_xs_exact [of raw] assms
      by (simp add: decode_split_def SPLIT_def DECODE_def ggml_formats_def rbind_assoc two)
  next
    case 5
    then show ?thesis using q8_0_exact [of raw] assms
      by (simp add: decode_split_def SPLIT_def DECODE_def ggml_formats_def rbind_assoc two)
  qed
qed

end
