(* ===== verification/Native_Properties.thy ===== *)
theory Native_Properties
  imports Native_Fill
begin

text \<open>
  The properties of the native expert formats: the re-laid parts of every format decode to the
  numbers of the format's formula, the packed form of IQ2_S to the same numbers as the split one,
  and what the native filler serves is what the checkpoint holds.
\<close>

text \<open>C12. For every format of \<open>SPLIT\<close>, decoding the split parts of a tensor of whole blocks gives, without
  any rounding, the values of the format's block formula in linear element order.\<close>

theorem native_decode_exact:
  assumes "map_of BLOCK_BYTES fmt = Some (n, bytes)" and "raw_ok raw" and "fst raw mod bytes = 0"
  shows "rbind (the (map_of SPLIT fmt) raw) (the (map_of DECODE fmt)) =
    Inr (ggml_rows bytes n (the (map_of ggml_formats fmt)) (snd raw))"
proof -
  have "\<exists>sp de. map_of SPLIT fmt = Some sp \<and> map_of DECODE fmt = Some de"
    using assms(1) by (auto simp: BLOCK_BYTES_def SPLIT_def DECODE_def split: if_splits)
  then obtain sp de where sd: "map_of SPLIT fmt = Some sp" "map_of DECODE fmt = Some de" by blast
  then have "decode_split fmt raw = rbind (sp raw) de" by (simp add: decode_split_def)
  with decode_split_exact [OF assms] sd show ?thesis by simp
qed

theorem native_decode_exact_witness:
  "rbind (the (map_of SPLIT ''Q8_0'') (34, [[0, 60] @ replicate 31 0 @ [255]])) (the (map_of DECODE ''Q8_0'')) =
     Inr (ggml_rows 34 32 ggml_q8_0 [[0, 60] @ replicate 31 0 @ [255]]) \<and>
   ggml_q8_0 ([0, 60] @ replicate 31 0 @ [255]) 31 = Some (- 1)"
proof
  show "rbind (the (map_of SPLIT ''Q8_0'') (34, [[0, 60] @ replicate 31 0 @ [255]])) (the (map_of DECODE ''Q8_0'')) =
     Inr (ggml_rows 34 32 ggml_q8_0 [[0, 60] @ replicate 31 0 @ [255]])"
    using native_decode_exact [of "''Q8_0''" 32 34 "(34, [[0, 60] @ replicate 31 0 @ [255]])"]
    by (simp add: BLOCK_BYTES_def block_consts raw_ok_def ggml_formats_def)
  show "ggml_q8_0 ([0, 60] @ replicate 31 0 @ [255]) 31 = Some (- 1)" by code_simp
qed

text \<open>The packed form of IQ2_S, which keeps the 80 bytes of a block verbatim and lifts out the scale, decodes
  to the same values as the split form, although the two compute the sub-block scales in different
  precisions.\<close>

theorem iq2_s_forms_agree:
  assumes "raw_ok raw" and "fst raw mod 82 = 0"
  shows "rbind (iq2_s_packed_split raw) (\<lambda>(w, d). iq2_s_packed_decode (fst raw div 82 * 80, w) d) =
    rbind (iq2_s_split raw) (\<lambda>(g, i, s). iq2_s_decode g i s)"
  using iq2_packed_decode [OF assms] iq2_split_decode [OF assms] by simp

theorem iq2_s_forms_agree_witness:
  "rbind (iq2_s_packed_split (82, [replicate 82 1])) (\<lambda>(w, d). iq2_s_packed_decode (80, w) d) =
    rbind (iq2_s_split (82, [replicate 82 1])) (\<lambda>(g, i, s). iq2_s_decode g i s)"
  using iq2_s_forms_agree [of "(82, [replicate 82 1])"] by (simp add: raw_ok_def)

subsection \<open>The native filler\<close>

definition raw3_ok :: "raw3 \<Rightarrow> bool" where
  "raw3_ok t = (case rshape t of (e, out, n) \<Rightarrow> length (raw_bytes t) = e \<and>
     (\<forall>m \<in> set (raw_bytes t). length m = out \<and> (\<forall>r \<in> set m. length r = n)))"

text \<open>How the parts of a served body are read: the packed format by its own decoder, the others by \<open>DECODE\<close>.\<close>

definition decode_served :: "string \<Rightarrow> nat \<Rightarrow> parts \<Rightarrow> fval list list res" where
  "decode_served fmt inn p =
     (if fmt = ''IQ2_S_PACKED''
      then (case p of CodeParts w d \<Rightarrow> iq2_s_packed_decode (inn div IQ2_S_BLOCK * 80, w) d | _ \<Rightarrow> Inl TypeErr)
      else rbind (of_option KeyError (map_of DECODE fmt)) (\<lambda>de. de p))"

lemma raw3_rows: "raw3_ok t \<Longrightarrow> rshape t = (e, out, n) \<Longrightarrow> raw_ok (n, concat (raw_bytes t))"
  by (auto simp: raw3_ok_def raw_ok_def)

lemma native_parts_exact:
  assumes "native_parts feed pk gname (e, out, inn) = Inr (fmt, p)"
    and "gguf_type feed gname = Inr g" and "raw_rows feed gname e = Inr raw" and "raw3_ok raw"
  shows "decode_served fmt inn p = Inr (ggml_rows (snd (the (map_of BLOCK_BYTES g))) (fst (the (map_of BLOCK_BYTES g)))
    (the (map_of ggml_formats g)) (concat (raw_bytes raw)))"
proof -
  obtain sp rb n by' where sp: "map_of SPLIT g = Some sp" and bb: "map_of BLOCK_BYTES g = Some (n, by')"
    and rs: "rshape raw = (e, out, rb)" "rb = inn div n * by'"
    and res: "(case (if pk then map_of PACKED g else None) of
        Some pack_fmt \<Rightarrow> rbind (pack_fmt (rb, concat (raw_bytes raw))) (\<lambda>p. Inr (g @ ''_PACKED'', p))
      | None \<Rightarrow> rbind (sp (rb, concat (raw_bytes raw))) (\<lambda>p. Inr (g, p))) = Inr (fmt, p)"
    using assms(1-3) by (auto simp: native_parts_def res_simps split: option.splits prod.splits if_splits)
  have ok: "raw_ok (rb, concat (raw_bytes raw))" using raw3_rows [OF assms(4) rs(1)] .
  have md: "rb mod by' = 0" using rs(2) by simp
  have plain: ?thesis if f: "fmt = g" and sp': "sp (rb, concat (raw_bytes raw)) = Inr p"
  proof -
    obtain de where de: "map_of DECODE g = Some de"
      using sp by (rule format_cases) (auto simp: DECODE_def)
    have "g \<noteq> ''IQ2_S_PACKED''" using sp by (rule format_cases) auto
    then show ?thesis using decode_split_exact [OF bb ok] md sp sp' de f
      by (simp add: decode_served_def decode_split_def bb)
  qed
  show ?thesis
  proof (cases "pk \<and> g = ''IQ2_S''")
    case False
    then have "(if pk then map_of PACKED g else None) = None" by (auto simp: PACKED_def)
    then show ?thesis using res plain by (auto simp: res_simps)
  next
    case True
    then have n: "n = 256" "by' = 82" using bb by (auto simp: BLOCK_BYTES_def block_consts)
    obtain w d where wd: "iq2_s_packed_split (rb, concat (raw_bytes raw)) = Inr (w, d)" "p = CodeParts w d" "fmt = ''IQ2_S_PACKED''"
      using res True by (auto simp: PACKED_def res_simps split: prod.splits)
    have "iq2_s_packed_decode (rb div 82 * 80, w) d = Inr (ggml_rows 82 256 ggml_iq2_s (concat (raw_bytes raw)))"
      using iq2_packed_decode [OF ok] iq2_rows [OF ok] md n wd(1) by simp
    then show ?thesis using True wd n rs(2) by (simp add: decode_served_def BLOCK_BYTES_def ggml_formats_def block_consts)
  qed
qed

text \<open>C13. A body served by the native filler, packed or not, decodes to the values of the checkpoint's own
  blocks in row order, and the log gains exactly one entry with the bytes of the served parts.\<close>

theorem native_serves_checkpoint:
  assumes "native feed layer_of ((l, k), (e, out, inn)) f = (f', Inr (fmt, p))"
    and "gguf_type feed (gguf_name layer_of (l, k)) = Inr g"
    and "raw_rows feed (gguf_name layer_of (l, k)) e = Inr raw" and "raw3_ok raw"
  shows "decode_served fmt inn p = Inr (ggml_rows (snd (the (map_of BLOCK_BYTES g))) (fst (the (map_of BLOCK_BYTES g)))
      (the (map_of ggml_formats g)) (concat (raw_bytes raw))) \<and>
    served f' = served f @ [(l, k, (e, out, inn), part_bytes p)] \<and> seen f' = incr 1 (l, k) (seen f)"
proof -
  have "native_parts feed (packed f) (gguf_name layer_of (l, k)) (e, out, inn) = Inr (fmt, p)"
    and "f' = log_served (l, k) (e, out, inn) (part_bytes p) (note_request (l, k) f)"
    using assms(1) by (auto simp: native_def Let_def split: sum.splits)
  then show ?thesis using native_parts_exact [OF _ assms(2-4)]
    by (simp add: log_served_def note_request_def)
qed

theorem native_serves_checkpoint_witness:
  "decode_served ''Q8_0'' 32 (CodeParts [replicate 31 0 @ [255]] [[Some 1]]) =
     Inr (ggml_rows 34 32 ggml_q8_0 [[0, 60] @ replicate 31 0 @ [255]])"
proof -
  let ?raw = "\<lparr>rshape = (1, 1, 34), raw_bytes = [[[0, 60] @ replicate 31 0 @ [255]]]\<rparr> :: raw3"
  let ?feed = "\<lparr>gguf_type = (\<lambda>_. Inr ''Q8_0''), raw_rows = (\<lambda>_ _. Inr ?raw)\<rparr>"
  let ?n = "native ?feed None ((0, ''down''), (1, 1, 32)) (new_native_filler False)"
  have "f16_le [0, 60] = Some 1" by code_simp
  then have b: "snd ?n = Inr (''Q8_0'', CodeParts [replicate 31 0 @ [255]] [[Some 1]])"
    by (simp add: native_def native_parts_def SPLIT_def BLOCK_BYTES_def block_consts q8_0_split_def whole_blocks_def
        q8_0_row_def chunks_exact new_native_filler_def note_request_def)
  then have "?n = (fst ?n, Inr (''Q8_0'', CodeParts [replicate 31 0 @ [255]] [[Some 1]]))" by (metis prod.collapse)
  moreover have "raw3_ok ?raw" by (simp add: raw3_ok_def)
  ultimately show ?thesis
    using native_serves_checkpoint [of ?feed None 0 "''down''" 1 1 32 "new_native_filler False" "fst ?n" "''Q8_0''" "CodeParts [replicate 31 0 @ [255]] [[Some 1]]" "''Q8_0''" ?raw]
    by (simp add: BLOCK_BYTES_def block_consts ggml_formats_def)
qed

end
