(* ===== verification/Expert_Store.thy ===== *)
theory Expert_Store
  imports Expert_Fill Policy_Compare
begin

unbundle bit_operations_syntax

text \<open>
  The expert store, \<open>tools/q4e/expert_store.py\<close>: one file per pinned expert with its three packed
  weight tensors in device order, an optional sidecar with the transposed scales and zero points,
  the manifest, the two readers of a pinned set, and the command line.

  The disk is a map from paths to bytes. \<open>os.write\<close> may accept fewer bytes than it is given; the
  number it accepts is an argument of the model. The digest function, the JSON encoder and the
  dequantiser of the gguf package are arguments too, and the JSON files are given by their items. An array that a
  function inspects for its rank or element type is an \<open>nd\<close> record.
\<close>

subsection \<open>Geometry\<close>

definition FLASH_NEXT_HIDDEN :: nat where "FLASH_NEXT_HIDDEN = 2560"
definition FLASH_NEXT_FF :: nat where "FLASH_NEXT_FF = 640"
definition ROLE_ORDER :: "string list" where "ROLE_ORDER = [''gate'', ''up'', ''down'']"
definition EXPERT_SLICE_BYTES :: nat where
  "EXPERT_SLICE_BYTES = 3 * FLASH_NEXT_HIDDEN * FLASH_NEXT_FF div 2"
definition DEFAULT_GROUP_SIZE :: nat where "DEFAULT_GROUP_SIZE = 128"

definition ROLE_OUT :: "(string, nat) dict" where
  "ROLE_OUT = [(''gate'', FLASH_NEXT_FF), (''up'', FLASH_NEXT_FF), (''down'', FLASH_NEXT_HIDDEN)]"

definition ROLE_IN :: "(string, nat) dict" where
  "ROLE_IN = [(''gate'', FLASH_NEXT_HIDDEN), (''up'', FLASH_NEXT_HIDDEN), (''down'', FLASH_NEXT_FF)]"

definition role_byte_count :: "string \<Rightarrow> nat res" where
  "role_byte_count r =
     rbind (of_option KeyError (map_of ROLE_OUT r)) (\<lambda>out.
     rbind (of_option KeyError (map_of ROLE_IN r)) (\<lambda>inn. Inr (out * inn div 2)))"

definition slice_byte_count :: "nat res" where
  "slice_byte_count = rbind (map_res role_byte_count ROLE_ORDER) (\<lambda>ns. Inr (sum_list ns))"

definition device_order_weight_record :: "(string, 8 word list) dict \<Rightarrow> 8 word list res" where
  "device_order_weight_record packed_by_role =
     rbind (map_res (\<lambda>r.
         rbind (of_option KeyError (map_of packed_by_role r)) (\<lambda>arr.
         rbind (role_byte_count r) (\<lambda>want.
         if length arr \<noteq> want then Inl WrongRoleSize else Inr arr))) ROLE_ORDER)
       (\<lambda>parts. Inr (concat parts))"

subsection \<open>Device order of scales and zero points\<close>

record 'a nd =
  dims :: "nat list"
  dtype :: string
  flat :: "'a list"

text \<open>\<open>np.transpose(a, (1, 0)).reshape(gc * oc)\<close> for an array of shape \<open>[oc, gc]\<close>.\<close>

definition transpose_flat :: "nat \<Rightarrow> nat \<Rightarrow> 'a list \<Rightarrow> 'a list" where
  "transpose_flat oc gc xs = map (\<lambda>i. xs ! (i mod oc * gc + i div oc)) [0..<gc * oc]"

definition transpose_scale_to_device :: "16 word nd \<Rightarrow> 16 word list res" where
  "transpose_scale_to_device a =
     (case dims a of
        [oc, gc] \<Rightarrow> if dtype a \<noteq> ''uint16'' then Inl TypeErr else Inr (transpose_flat oc gc (flat a))
      | _ \<Rightarrow> Inl NotTwoDimensional)"

definition transpose_zp_to_device :: "int nd \<Rightarrow> 8 word list res" where
  "transpose_zp_to_device codes =
     (case dims codes of
        [oc, gc] \<Rightarrow> pack_u4 (transpose_flat oc gc (flat codes))
      | _ \<Rightarrow> Inl NotTwoDimensional)"

text \<open>
  \<open>astype(np.float16).view(np.uint16)\<close>: the bits of the nearest half. With \<open>n\<close> units of the last
  place \<open>2 powi q\<close>, adding \<open>n\<close> to the exponent field \<open>(q + 24) * 1024\<close> carries into the next
  exponent where the rounding does; beyond the largest half the result is an infinity.
\<close>

definition half_bits :: "rat \<Rightarrow> 16 word" where
  "half_bits x =
     (if x = 0 then 0
      else let q = last_place 11 (- 24) x;
               n = round_half_even (\<bar>x\<bar> / 2 powi q)
           in word_of_int (min 0x7C00 ((q + 24) * 1024 + n) + (if x < 0 then 0x8000 else 0)))"

definition transpose_scale_zp_to_device :: "rat nd \<Rightarrow> int nd \<Rightarrow> (16 word list \<times> 8 word list) res" where
  "transpose_scale_zp_to_device scale zp_codes =
     (if length (dims scale) \<noteq> 2 then Inl NotTwoDimensional
      else
        let s16 = \<lparr>dims = dims scale, dtype = ''uint16'', flat = map (half_bits \<circ> f32) (flat scale)\<rparr>
        in rbind (transpose_scale_to_device s16) (\<lambda>s.
           rbind (transpose_zp_to_device zp_codes) (\<lambda>z. Inr (s, z))))"

subsection \<open>Writing a file\<close>

type_synonym disk = "string \<rightharpoonup> 8 word list"

text \<open>
  The file is truncated, its blocks are allocated (\<open>posix_fallocate\<close> refuses a length of zero) and
  the payload is written over them; what a short write leaves behind stays on the disk.
\<close>

definition write_expert_file ::
    "(nat \<Rightarrow> nat) \<Rightarrow> string \<Rightarrow> 8 word list \<Rightarrow> int option \<Rightarrow> disk \<Rightarrow> disk \<times> string res" where
  "write_expert_file accepted path payload declared fs =
     (let n = (case declared of None \<Rightarrow> int (length payload) | Some s \<Rightarrow> s)
      in if int (length payload) \<noteq> n then (fs, Inl PayloadSizeMismatch)
         else if n = 0 then (fs(path \<mapsto> []), Inl OSErr)
         else
           let k = min (accepted (nat n)) (nat n);
               fs' = fs(path \<mapsto> take k payload @ replicate (nat n - k) 0)
           in if k \<noteq> nat n then (fs', Inl ShortWrite) else (fs', Inr path))"

subsection \<open>The writer\<close>

datatype tensor_data = FloatRows "rat list list list" | BlockRows "8 word list list list"

record gguf_tensor =
  type_name :: string
  data_shape :: "nat \<times> nat"
  data_rows :: tensor_data

type_synonym gguf_index = "(string, gguf_tensor) dict"
type_synonym dequantizer = "string \<Rightarrow> nat \<times> nat \<Rightarrow> tensor_data \<Rightarrow> tensor3 res"

text \<open>
  The experts are gathered on the leading axis before anything is decoded; the float types are read
  as numbers, every other type goes through the package's dequantiser.
\<close>

fun gather :: "tensor_data \<Rightarrow> int list \<Rightarrow> tensor_data res" where
  "gather (FloatRows d) ids = rbind (map_res (py_index d) ids) (\<lambda>raw. Inr (FloatRows raw))"
| "gather (BlockRows d) ids = rbind (map_res (py_index d) ids) (\<lambda>raw. Inr (BlockRows raw))"

fun as_floats :: "tensor_data \<Rightarrow> rat list list list" where
  "as_floats (FloatRows d) = map (map (map f32)) d"
| "as_floats (BlockRows d) = map (map (map (of_int \<circ> uint))) d"

definition dequant_experts ::
    "dequantizer \<Rightarrow> gguf_index \<Rightarrow> string \<Rightarrow> int list \<Rightarrow> tensor3 res" where
  "dequant_experts dequantize index name ids =
     rbind (of_option KeyError (map_of index name)) (\<lambda>t.
     rbind (gather (data_rows t) ids) (\<lambda>raw.
     if type_name t \<in> set [''F32'', ''F16'', ''BF16'']
     then Inr \<lparr>tshape = (length ids, data_shape t), entries = as_floats raw\<rparr>
     else rbind (dequantize (type_name t) (data_shape t) raw) (\<lambda>r.
       Inr (r\<lparr>entries := map (map (map f32)) (entries r)\<rparr>))))"

datatype prov_value = ProvText string | ProvInt int | ProvNone

type_synonym provenance = "(string, prov_value) dict"

record store_writer =
  index :: gguf_index
  store_dir :: string
  pinned :: "(int, int list) dict"
  sw_group_size :: nat
  with_scale_zp :: bool
  sw_expert_chunk :: int
  sw_provenance :: provenance

definition expert_source :: "dequantizer \<Rightarrow> store_writer \<Rightarrow> int \<Rightarrow> string \<Rightarrow> tensor3 res" where
  "expert_source dequantize w layer kind =
     rbind (of_option KeyError (map_of (pinned w) layer)) (\<lambda>ids.
     rbind (of_option KeyError (map_of [(''gate'', ''ffn_gate_exps.weight''),
              (''up'', ''ffn_up_exps.weight''), (''down'', ''ffn_down_exps.weight'')] kind)) (\<lambda>wname.
     dequant_experts dequantize (index w) (''blk.'' @ py_str layer @ ''.'' @ wname) ids))"

text \<open>
  The packed weights by expert, the packed zero points as one stream, the scales by expert. The
  reshape to \<open>[e, out, groups, group_size // 2]\<close> refuses an odd group size.
\<close>

type_synonym role_arrays = "8 word list list \<times> 8 word list \<times> rat list list"

definition role_arrays :: "dequantizer \<Rightarrow> store_writer \<Rightarrow> int \<Rightarrow> string \<Rightarrow> role_arrays res" where
  "role_arrays dequantize w layer kind =
     rbind (of_option KeyError (map_of (pinned w) layer)) (\<lambda>ids.
     rbind (of_option KeyError (map_of ROLE_OUT kind)) (\<lambda>out.
     rbind (of_option KeyError (map_of ROLE_IN kind)) (\<lambda>inn.
     let e = length ids; gs = sw_group_size w in
     rbind (snd (body (expert_source dequantize w) ((layer, kind), (e, out, inn))
                   (new_expert_filler gs (sw_expert_chunk w)))) (\<lambda>(pw, pzp, scales).
     let per = out * (inn div gs) * (gs div 2) in
     if length pw \<noteq> e * per then Inl ValueErr
     else Inr (chunks per pw, pzp, chunks (out * (inn div gs)) scales)))))"

definition sidecar_for ::
    "store_writer \<Rightarrow> string \<Rightarrow> 8 word list \<Rightarrow> rat list list \<Rightarrow> nat \<Rightarrow> (16 word list \<times> 8 word list) res" where
  "sidecar_for w kind pzp scales i =
     rbind (of_option KeyError (map_of ROLE_OUT kind)) (\<lambda>oc.
     rbind (of_option KeyError (map_of ROLE_IN kind)) (\<lambda>inn.
     let gc = inn div sw_group_size w; per = oc * gc div 2 in
     rbind (unpack_u4 (take per (drop (i * per) pzp)) (int (oc * gc))) (\<lambda>codes.
     transpose_scale_zp_to_device \<lparr>dims = [oc, gc], dtype = ''float32'', flat = scales ! i\<rparr>
       \<lparr>dims = [oc, gc], dtype = ''uint8'', flat = map uint codes\<rparr>)))"

definition plan :: "store_writer \<Rightarrow> nat" where
  "plan w = sum_list (map (length \<circ> snd) (pinned w))"

text \<open>\<open>f"expert_{int(ordinal):04d}.bin"\<close>\<close>

definition expert_stem :: "nat \<Rightarrow> string" where
  "expert_stem ordinal =
     (let s = str_nat ordinal in ''expert_'' @ replicate (4 - length s) CHR ''0'' @ s)"

definition expert_file_name :: "nat \<Rightarrow> string" where
  "expert_file_name ordinal = expert_stem ordinal @ ''.bin''"

definition path_join :: "string \<Rightarrow> string \<Rightarrow> string" where
  "path_join dir name =
     (if dir = [] \<or> last dir = CHR ''/'' then dir @ name else dir @ ''/'' @ name)"

record entry =
  en_ordinal :: nat
  en_layer :: int
  en_expert :: int
  en_file :: string
  en_bytes :: nat
  en_sha256 :: string
  en_layout :: string
  en_sidecar :: "string option"

definition LAYOUT :: string where
  "LAYOUT = ''gate|up|down u4 [oc][ic] row-major, even-linear-index low nibble; scales/zp not in slice''"

definition le16 :: "16 word list \<Rightarrow> 8 word list" where
  "le16 ws = concat (map (\<lambda>v. [ucast v, ucast (drop_bit 8 v)]) ws)"

definition sidecar_blob ::
    "store_writer \<Rightarrow> (string, role_arrays) dict \<Rightarrow> nat \<Rightarrow> 8 word list res" where
  "sidecar_blob w roles i =
     rbind (map_res (\<lambda>kind. rbind (of_option KeyError (map_of roles kind)) (\<lambda>(pw, pzp, scales).
         rbind (sidecar_for w kind pzp scales i) (\<lambda>(s, z). Inr (le16 s @ z)))) ROLE_ORDER)
       (\<lambda>bs. Inr (concat bs))"

definition weight_record :: "(string, role_arrays) dict \<Rightarrow> nat \<Rightarrow> 8 word list res" where
  "weight_record roles i =
     rbind (device_order_weight_record (map (\<lambda>(k, r). (k, fst r ! i)) roles)) (\<lambda>rec.
     if length rec \<noteq> EXPERT_SLICE_BYTES then Inl RecordSizeMismatch else Inr rec)"

definition write_one ::
    "(8 word list \<Rightarrow> string) \<Rightarrow> (nat \<Rightarrow> nat) \<Rightarrow> store_writer \<Rightarrow> (string, role_arrays) dict \<Rightarrow>
      nat \<Rightarrow> int \<Rightarrow> nat \<Rightarrow> int \<Rightarrow> disk \<Rightarrow> disk \<times> entry res" where
  "write_one sha accepted w roles ordinal layer i expert fs =
     (case weight_record roles i of
        Inl e \<Rightarrow> (fs, Inl e)
      | Inr rec \<Rightarrow>
          let name = expert_file_name ordinal;
              en = \<lparr>en_ordinal = ordinal, en_layer = layer, en_expert = expert, en_file = name,
                    en_bytes = length rec, en_sha256 = sha rec, en_layout = LAYOUT, en_sidecar = None\<rparr>
          in (case write_expert_file accepted (path_join (store_dir w) name) rec None fs of
                (fs1, Inl e) \<Rightarrow> (fs1, Inl e)
              | (fs1, Inr _) \<Rightarrow>
                  if \<not> with_scale_zp w then (fs1, Inr en)
                  else
                    let side = expert_stem ordinal @ ''.scaleszp'' in
                    (case sidecar_blob w roles i of
                       Inl e \<Rightarrow> (fs1, Inl e)
                     | Inr blob \<Rightarrow>
                         (case write_expert_file accepted (path_join (store_dir w) side) blob None fs1 of
                            (fs2, Inl e) \<Rightarrow> (fs2, Inl e)
                          | (fs2, Inr _) \<Rightarrow> (fs2, Inr (en\<lparr>en_sidecar := Some side\<rparr>))))))"

fun write_experts ::
    "(8 word list \<Rightarrow> string) \<Rightarrow> (nat \<Rightarrow> nat) \<Rightarrow> store_writer \<Rightarrow> (string, role_arrays) dict \<Rightarrow>
      int \<Rightarrow> nat \<Rightarrow> nat \<Rightarrow> int list \<Rightarrow> disk \<times> entry list \<Rightarrow> (disk \<times> entry list) \<times> unit res" where
  "write_experts sha accepted w roles layer ordinal i [] s = (s, Inr ())"
| "write_experts sha accepted w roles layer ordinal i (expert # ids) (fs, manifest) =
     (case write_one sha accepted w roles ordinal layer i expert fs of
        (fs1, Inl e) \<Rightarrow> ((fs1, manifest), Inl e)
      | (fs1, Inr en) \<Rightarrow>
          write_experts sha accepted w roles layer (ordinal + 1) (i + 1) ids (fs1, manifest @ [en]))"

definition layer_roles :: "dequantizer \<Rightarrow> store_writer \<Rightarrow> int \<Rightarrow> (string, role_arrays) dict res" where
  "layer_roles dequantize w layer =
     map_res (\<lambda>kind. rbind (role_arrays dequantize w layer kind) (\<lambda>r. Inr (kind, r))) ROLE_ORDER"

fun write_layers ::
    "dequantizer \<Rightarrow> (8 word list \<Rightarrow> string) \<Rightarrow> (nat \<Rightarrow> nat) \<Rightarrow> store_writer \<Rightarrow> int list \<Rightarrow>
      disk \<times> entry list \<Rightarrow> (disk \<times> entry list) \<times> unit res" where
  "write_layers dequantize sha accepted w [] s = (s, Inr ())"
| "write_layers dequantize sha accepted w (layer # layers) s =
     (case layer_roles dequantize w layer of
        Inl e \<Rightarrow> (s, Inl e)
      | Inr roles \<Rightarrow>
          (case write_experts sha accepted w roles layer (length (snd s)) 0 (dict_get (pinned w) layer []) s of
             (s1, Inl e) \<Rightarrow> (s1, Inl e)
           | (s1, Inr _) \<Rightarrow> write_layers dequantize sha accepted w layers s1))"

record store_manifest =
  sm_layout :: string
  sm_slice_bytes :: nat
  sm_group_size :: nat
  sm_roles :: "string list"
  sm_provenance :: provenance
  sm_experts :: "entry list"

text \<open>The manifest goes to \<open>manifest.json\<close> through the JSON encoder, an argument here.\<close>

definition store_write ::
    "(store_manifest \<Rightarrow> 8 word list) \<Rightarrow> dequantizer \<Rightarrow> (8 word list \<Rightarrow> string) \<Rightarrow> (nat \<Rightarrow> nat) \<Rightarrow>
      store_writer \<Rightarrow> disk \<Rightarrow> disk \<times> store_manifest res" where
  "store_write json_dump dequantize sha accepted w fs =
     (case write_layers dequantize sha accepted w (sort (map fst (pinned w))) (fs, []) of
        ((fs1, _), Inl e) \<Rightarrow> (fs1, Inl e)
      | ((fs1, manifest), Inr _) \<Rightarrow>
          let sm = \<lparr>sm_layout = LAYOUT, sm_slice_bytes = EXPERT_SLICE_BYTES, sm_group_size = sw_group_size w,
                    sm_roles = ROLE_ORDER, sm_provenance = sw_provenance w, sm_experts = manifest\<rparr>
          in (fs1(path_join (store_dir w) ''manifest.json'' \<mapsto> json_dump sm), Inr sm))"

subsection \<open>Pinned sets\<close>

text \<open>The key of a pinned map: a string in a JSON object, an integer from a seed file.\<close>

datatype pin_key = JsonKey string | LayerIndex int

definition invert_layer_keys :: "(string \<times> int) list \<Rightarrow> (int, int) dict res" where
  "invert_layer_keys keys =
     rbind (map_res (\<lambda>(k, v). rbind (of_option ValueErrorInt (py_int k)) (\<lambda>i. Inr (v, i))) keys)
       (\<lambda>kvs. Inr (dict_of kvs))"

fun pinned_lines :: "(int, int) dict \<Rightarrow> string list \<Rightarrow> (int, int list) dict \<Rightarrow> (int, int list) dict res" where
  "pinned_lines by_key [] acc = Inr acc"
| "pinned_lines by_key (line # lines) acc =
     (let t = strip line in
      if t = [] \<or> startswith t ''#'' then pinned_lines by_key lines acc
      else
        let parts = split_ws t in
        rbind (of_option ValueErrorInt (py_int (hd parts))) (\<lambda>lk.
        rbind (of_option KeyError (map_of by_key lk)) (\<lambda>layer.
        rbind (map_res (\<lambda>x. of_option ValueErrorInt (py_int x)) (tl parts)) (\<lambda>experts.
        if layer \<in> set (map fst acc) then Inl (LayerTwice layer)
        else pinned_lines by_key lines (acc @ [(layer, experts)])))))"

definition load_pinned ::
    "(string \<Rightarrow> (string \<times> int list) list res) \<Rightarrow> string \<Rightarrow> (string \<times> int) list option \<Rightarrow>
      (pin_key \<times> int list) list res" where
  "load_pinned json_loads file layer_keys =
     (let txt = newlines file in
      if startswith (lstrip txt) ''{''
      then rbind (json_loads txt) (\<lambda>m. Inr (map (\<lambda>(k, v). (JsonKey k, v)) m))
      else case layer_keys of
             None \<Rightarrow> Inl NeedsLayerKeys
           | Some keys \<Rightarrow>
               rbind (invert_layer_keys keys) (\<lambda>by_key.
               rbind (pinned_lines by_key (splitlines txt) []) (\<lambda>m.
               Inr (map (\<lambda>(k, v). (LayerIndex k, v)) m))))"

text \<open>\<open>{int(k): ... for k, v in pinned.items()}\<close> of the constructor.\<close>

fun key_int :: "pin_key \<Rightarrow> int res" where
  "key_int (JsonKey k) = of_option ValueErrorInt (py_int k)"
| "key_int (LayerIndex i) = Inr i"

definition pinned_of :: "(pin_key \<times> int list) list \<Rightarrow> (int, int list) dict res" where
  "pinned_of m = rbind (map_res (\<lambda>(k, v). rbind (key_int k) (\<lambda>i. Inr (i, v))) m) (\<lambda>kvs. Inr (dict_of kvs))"

definition splitmix64 :: "int \<Rightarrow> int" where
  "splitmix64 x =
     (let m = 2 ^ 64 - 1;
          x = (x + 0x9E3779B97F4A7C15) AND m;
          z = ((x XOR drop_bit 30 x) * 0xBF58476D1CE4E5B9) AND m;
          z' = ((z XOR drop_bit 27 z) * 0x94D049BB133111EB) AND m
      in (z' XOR drop_bit 31 z') AND m)"

definition static_partition_resident_experts :: "int \<Rightarrow> int \<Rightarrow> int \<Rightarrow> int \<Rightarrow> int list" where
  "static_partition_resident_experts seed layer_key num_expert capacity =
     (let m = 2 ^ 64 - 1;
          key = (layer_key * 0xD6E8FEB86659FD93) AND m;
          ranked = sort (map (\<lambda>e. (splitmix64 (splitmix64 ((seed XOR key) AND m) XOR e), e))
                     (map int [0..<nat num_expert]))
      in sort (map snd (take_py (min capacity num_expert) ranked)))"

subsection \<open>The command line\<close>

text \<open>A file argument is its path with its contents.\<close>

record store_args =
  a_pinned :: "(string \<times> string) option"
  a_layer_keys :: "(string \<times> (string \<times> int) list) option"
  a_all :: bool
  a_layers :: int
  a_experts :: int
  a_seed :: int
  a_capacity :: int
  a_group_size :: nat
  a_with_scale_zp :: bool
  a_dry_run :: bool
  a_store :: string

definition choose_pinned ::
    "(string \<Rightarrow> (string \<times> int list) list res) \<Rightarrow> store_args \<Rightarrow> (pin_key \<times> int list) list res" where
  "choose_pinned json_loads a =
     (case a_pinned a of
        Some (_, file) \<Rightarrow> load_pinned json_loads file (map_option snd (a_layer_keys a))
      | None \<Rightarrow>
          (case a_layer_keys a of
             Some (_, keys) \<Rightarrow>
               rbind (map_res (\<lambda>(k, v). rbind (of_option ValueErrorInt (py_int k)) (\<lambda>i.
                        Inr (i, static_partition_resident_experts (a_seed a) v (a_experts a) (a_capacity a)))) keys)
                 (\<lambda>kvs. Inr (map (\<lambda>(k, v). (LayerIndex k, v)) (dict_of kvs)))
           | None \<Rightarrow>
               if a_all a
               then Inr (map (\<lambda>l. (LayerIndex (int l), map int [0..<nat (a_experts a)])) [0..<nat (a_layers a)])
               else Inl UsageError))"

definition path_value :: "(string \<times> 'a) option \<Rightarrow> prov_value" where
  "path_value p = (case p of None \<Rightarrow> ProvNone | Some (path, _) \<Rightarrow> ProvText path)"

definition provenance_of :: "store_args \<Rightarrow> provenance" where
  "provenance_of a =
     [(''source'', ProvText (if a_pinned a \<noteq> None then ''pinned''
                             else if a_layer_keys a \<noteq> None then ''splitmix64'' else ''all'')),
      (''seed'', ProvInt (a_seed a)), (''capacity'', ProvInt (a_capacity a)), (''num_expert'', ProvInt (a_experts a)),
      (''pinned_file'', path_value (a_pinned a)), (''layer_keys_file'', path_value (a_layer_keys a))]"

text \<open>A dry run returns before the writer is made and leaves the disk alone.\<close>

definition store_main ::
    "(string \<Rightarrow> (string \<times> int list) list res) \<Rightarrow> (store_manifest \<Rightarrow> 8 word list) \<Rightarrow> dequantizer \<Rightarrow>
      (8 word list \<Rightarrow> string) \<Rightarrow> (nat \<Rightarrow> nat) \<Rightarrow> gguf_index \<Rightarrow> store_args \<Rightarrow> disk \<Rightarrow> disk \<times> store_manifest option res" where
  "store_main json_loads json_dump dequantize sha accepted ix a fs =
     (case choose_pinned json_loads a of
        Inl e \<Rightarrow> (fs, Inl e)
      | Inr m \<Rightarrow>
          if a_dry_run a then (fs, Inr None)
          else case pinned_of m of
                 Inl e \<Rightarrow> (fs, Inl e)
               | Inr pins \<Rightarrow>
                   (case store_write json_dump dequantize sha accepted
                           \<lparr>index = ix, store_dir = a_store a, pinned = pins, sw_group_size = a_group_size a,
                            with_scale_zp = a_with_scale_zp a, sw_expert_chunk = 32, sw_provenance = provenance_of a\<rparr> fs of
                      (fs1, Inl e) \<Rightarrow> (fs1, Inl e)
                    | (fs1, Inr sm) \<Rightarrow> (fs1, Inr (Some sm))))"

end
