(* ===== verification/Store_Facts.thy ===== *)
theory Store_Facts
  imports Expert_Store Native_Blocks Policy_Facts
begin

unbundle bit_operations_syntax

text \<open>
  Facts of the expert store: the names of its files are distinct, the writer's invariant (every
  manifest entry describes the bytes that are on the disk), the bits of the half floats of a
  sidecar, the device order of scales and zero points, the round trip of a seed file, and the
  conditions under which a write succeeds.
\<close>

subsection \<open>File names\<close>

lemma read_zeros: "s \<noteq> [] \<Longrightarrow> read_digits p 0 (replicate k CHR ''0'' @ s) = read_digits (p \<or> 0 < k) 0 s"
proof (induction k arbitrary: p)
  case (Suc k)
  then show ?case by (simp add: digit_val_def)
qed simp

lemma expert_stem_inject: "expert_stem a = expert_stem b \<longleftrightarrow> a = b"
proof -
  have "read_digits False 0 (drop 7 (expert_stem n)) = Some n" for n
    by (simp add: expert_stem_def Let_def read_zeros text_simps)
  then show ?thesis by (metis option.inject)
qed

lemma expert_file_name_inject [simp]: "expert_file_name a = expert_file_name b \<longleftrightarrow> a = b"
  by (simp add: expert_file_name_def expert_stem_inject)

lemma file_name_not_sidecar: "expert_file_name a \<noteq> expert_stem b @ ''.scaleszp''"
proof
  assume "expert_file_name a = expert_stem b @ ''.scaleszp''"
  then have "last (expert_file_name a) = last (expert_stem b @ ''.scaleszp'')" by simp
  then show False by (simp add: expert_file_name_def)
qed

lemma path_join_inject [simp]: "path_join d a = path_join d b \<longleftrightarrow> a = b"
  by (simp add: path_join_def)

subsection \<open>What is on the disk\<close>

lemma write_expert_file_Inr:
  assumes "write_expert_file acc path payload None fs = (fs', Inr r)"
  shows "fs' = fs(path \<mapsto> payload) \<and> r = path \<and> payload \<noteq> []"
  using assms by (auto simp: write_expert_file_def Let_def split: if_splits)

abbreviation slot :: "store_writer \<Rightarrow> nat \<Rightarrow> string" where
  "slot w n \<equiv> path_join (store_dir w) (expert_file_name n)"

lemma write_one_Inr:
  assumes "write_one sha acc w roles ordinal layer i expert fs = (fs', Inr en)"
  shows "\<exists>rec. weight_record roles i = Inr rec \<and> fs' (slot w ordinal) = Some rec \<and>
    en_ordinal en = ordinal \<and> en_layer en = layer \<and> en_expert en = expert \<and> en_file en = expert_file_name ordinal \<and>
    en_bytes en = length rec \<and> en_sha256 en = sha rec \<and> (\<forall>n. n \<noteq> ordinal \<longrightarrow> fs' (slot w n) = fs (slot w n))"
proof -
  obtain rec fs1 r where rec: "weight_record roles i = Inr rec"
    and w1: "write_expert_file acc (slot w ordinal) rec None fs = (fs1, Inr r)"
    using assms by (auto simp: write_one_def Let_def split: sum.splits prod.splits)
  have fs1: "fs1 = fs(slot w ordinal \<mapsto> rec)" using write_expert_file_Inr [OF w1] by simp
  show ?thesis
  proof (cases "with_scale_zp w")
    case False
    then show ?thesis using assms rec w1 fs1 by (auto simp: write_one_def Let_def)
  next
    case True
    let ?side = "path_join (store_dir w) (expert_stem ordinal @ ''.scaleszp'')"
    obtain blob r2 where w2: "write_expert_file acc ?side blob None fs1 = (fs', Inr r2)"
      and en: "en_ordinal en = ordinal \<and> en_layer en = layer \<and> en_expert en = expert \<and> en_file en = expert_file_name ordinal \<and>
        en_bytes en = length rec \<and> en_sha256 en = sha rec"
      using assms rec w1 True by (auto simp: write_one_def Let_def split: sum.splits prod.splits)
    have "fs' = fs1(?side \<mapsto> blob)" using write_expert_file_Inr [OF w2] by simp
    then show ?thesis using rec fs1 en by (auto simp: file_name_not_sidecar)
  qed
qed

definition stored ::
    "dequantizer \<Rightarrow> (8 word list \<Rightarrow> string) \<Rightarrow> store_writer \<Rightarrow> entry \<Rightarrow> 8 word list \<Rightarrow> bool" where
  "stored dequantize sha w en bytes \<longleftrightarrow>
     en_file en = expert_file_name (en_ordinal en) \<and> en_bytes en = length bytes \<and> en_sha256 en = sha bytes \<and>
     (\<exists>roles i. layer_roles dequantize w (en_layer en) = Inr roles \<and>
        i < length (dict_get (pinned w) (en_layer en) []) \<and>
        dict_get (pinned w) (en_layer en) [] ! i = en_expert en \<and> weight_record roles i = Inr bytes)"

definition store_inv ::
    "dequantizer \<Rightarrow> (8 word list \<Rightarrow> string) \<Rightarrow> store_writer \<Rightarrow> disk \<times> entry list \<Rightarrow> bool" where
  "store_inv dequantize sha w s \<longleftrightarrow>
     map en_ordinal (snd s) = [0..<length (snd s)] \<and>
     (\<forall>en \<in> set (snd s). \<exists>bytes. fst s (slot w (en_ordinal en)) = Some bytes \<and> stored dequantize sha w en bytes)"

lemma ordinal_less: "map en_ordinal m = [0..<length m] \<Longrightarrow> en \<in> set m \<Longrightarrow> en_ordinal en < length m"
proof -
  assume "map en_ordinal m = [0..<length m]" "en \<in> set m"
  then have "en_ordinal en \<in> set [0..<length m]" by (metis image_eqI set_map)
  then show ?thesis by simp
qed

lemma store_inv_step:
  assumes inv: "store_inv dequantize sha w (fs, m)"
    and one: "write_one sha acc w roles (length m) layer i expert fs = (fs', Inr en)"
    and roles: "layer_roles dequantize w layer = Inr roles" "i < length (dict_get (pinned w) layer [])"
      "dict_get (pinned w) layer [] ! i = expert"
  shows "store_inv dequantize sha w (fs', m @ [en])"
proof -
  obtain rec where rec: "weight_record roles i = Inr rec" "fs' (slot w (length m)) = Some rec"
    "en_ordinal en = length m" "en_layer en = layer" "en_expert en = expert" "en_file en = expert_file_name (length m)"
    "en_bytes en = length rec" "en_sha256 en = sha rec" "\<And>n. n \<noteq> length m \<Longrightarrow> fs' (slot w n) = fs (slot w n)"
    using write_one_Inr [OF one] by blast
  have new: "stored dequantize sha w en rec" using rec roles by (auto simp: stored_def)
  have "\<exists>bytes. fs' (slot w (en_ordinal x)) = Some bytes \<and> stored dequantize sha w x bytes" if x: "x \<in> set m" for x
  proof -
    have "en_ordinal x < length m" using ordinal_less x inv by (auto simp: store_inv_def)
    then show ?thesis using inv x rec(9) by (auto simp: store_inv_def)
  qed
  then show ?thesis using inv new rec(2,3) by (auto simp: store_inv_def)
qed

lemma write_experts_inv:
  assumes "write_experts sha acc w roles layer (length m) i ids (fs, m) = (s', Inr ())"
    and "store_inv dequantize sha w (fs, m)" and "layer_roles dequantize w layer = Inr roles"
    and "drop i (dict_get (pinned w) layer []) = ids"
  shows "store_inv dequantize sha w s' \<and>
    map (\<lambda>en. (en_layer en, en_expert en)) (snd s') = map (\<lambda>en. (en_layer en, en_expert en)) m @ map (Pair layer) ids"
  using assms
proof (induction ids arbitrary: i fs m)
  case (Cons expert ids)
  obtain fs1 en where one: "write_one sha acc w roles (length m) layer i expert fs = (fs1, Inr en)"
    and rest: "write_experts sha acc w roles layer (length (m @ [en])) (i + 1) ids (fs1, m @ [en]) = (s', Inr ())"
    using Cons.prems(1) by (auto split: prod.splits sum.splits)
  have i: "i < length (dict_get (pinned w) layer [])" "dict_get (pinned w) layer [] ! i = expert"
    using Cons.prems(4) by (metis drop_all not_less list.distinct(1), metis drop_all hd_drop_conv_nth list.sel(1) list.distinct(1) not_less)
  have "drop (i + 1) (dict_get (pinned w) layer []) = ids"
    using Cons.prems(4) by (metis Suc_eq_plus1 drop_Suc list.sel(3) tl_drop)
  from Cons.IH [OF rest store_inv_step [OF Cons.prems(2) one Cons.prems(3) i] Cons.prems(3) this]
  show ?case using write_one_Inr [OF one] by auto
qed auto

lemma write_layers_inv:
  assumes "write_layers dequantize sha acc w layers s = (s', Inr ())" and "store_inv dequantize sha w s"
  shows "store_inv dequantize sha w s' \<and> map (\<lambda>en. (en_layer en, en_expert en)) (snd s') =
    map (\<lambda>en. (en_layer en, en_expert en)) (snd s) @ concat (map (\<lambda>l. map (Pair l) (dict_get (pinned w) l [])) layers)"
  using assms
proof (induction layers arbitrary: s)
  case (Cons layer layers)
  obtain fs m where s: "s = (fs, m)" by (cases s)
  obtain roles s1 where r: "layer_roles dequantize w layer = Inr roles"
    and e: "write_experts sha acc w roles layer (length m) 0 (dict_get (pinned w) layer []) (fs, m) = (s1, Inr ())"
    and rest: "write_layers dequantize sha acc w layers s1 = (s', Inr ())"
    using Cons.prems(1) s by (auto split: prod.splits sum.splits)
  have "store_inv dequantize sha w s1 \<and> map (\<lambda>en. (en_layer en, en_expert en)) (snd s1) =
      map (\<lambda>en. (en_layer en, en_expert en)) m @ map (Pair layer) (dict_get (pinned w) layer [])"
    using Cons.prems(2) s by (intro write_experts_inv [OF e _ r]) simp_all
  with Cons.IH [OF rest] show ?case by (simp add: s)
qed simp

lemma weight_record_length: "weight_record roles i = Inr bytes \<Longrightarrow> length bytes = EXPERT_SLICE_BYTES"
  by (auto simp: weight_record_def res_simps split: if_splits)

subsection \<open>Half precision\<close>

lemma half_units:
  assumes "x \<noteq> 0"
  defines "q \<equiv> last_place 11 (- 24) x" and "n \<equiv> round_half_even (\<bar>x\<bar> / 2 powi last_place 11 (- 24) x)"
  shows "- 24 \<le> q" "0 \<le> n" "n \<le> 2048" "q \<noteq> - 24 \<Longrightarrow> 1024 \<le> n"
    and "f16 x = of_int ((if x < 0 then - 1 else 1) * n) * 2 powi q"
proof -
  show "- 24 \<le> q" by (simp add: q_def last_place_def)
  have qn: "n = round_half_even (\<bar>x\<bar> / 2 powi q)" by (simp add: n_def q_def)
  show "0 \<le> n" unfolding qn by (rule round_half_even_ge) simp
  have "ilog2 x + 1 \<le> q + 11" by (simp add: q_def last_place_def)
  then have "(2::rat) powi (ilog2 x + 1) \<le> 2 powi (q + 11)" by simp
  then have "\<bar>x\<bar> \<le> 2 powi q * 2048" using ilog2_bounds(2) [OF assms(1)] by (simp add: power_int_add)
  then have "\<bar>x\<bar> / 2 powi q \<le> of_int 2048" by (simp add: divide_le_eq mult.commute)
  then show "n \<le> 2048" unfolding qn by (rule round_half_even_le)
  show "1024 \<le> n" if "q \<noteq> - 24"
  proof -
    have "q + 10 = ilog2 x" using that by (auto simp: q_def last_place_def max_def split: if_splits)
    then have "2 powi (q + 10) \<le> \<bar>x\<bar>" using ilog2_bounds(1) [OF assms(1)] by simp
    then have "2 powi q * 1024 \<le> \<bar>x\<bar>" by (simp add: power_int_add)
    then have "of_int 1024 \<le> \<bar>x\<bar> / 2 powi q" by (simp add: le_divide_eq mult.commute)
    then show ?thesis unfolding qn by (rule round_half_even_ge)
  qed
  show "f16 x = of_int ((if x < 0 then - 1 else 1) * n) * 2 powi q"
  proof (cases "x < 0")
    case True
    then have "\<bar>x\<bar> / 2 powi q = - (x / 2 powi q)" by simp
    then have "n = - round_half_even (x / 2 powi q)" unfolding qn by (simp only: round_half_even_minus)
    then show ?thesis using True assms(1) by (simp add: f16_def fl_def q_def Let_def)
  next
    case False
    then show ?thesis using assms(1) by (simp add: f16_def fl_def n_def q_def Let_def)
  qed
qed

lemma half_bits_value:
  assumes "\<bar>f16 x\<bar> < 65536"
  shows "half_value (uint (half_bits x)) = Some (f16 x)"
proof (cases "x = 0")
  case True
  then show ?thesis by (simp add: half_bits_def half_value_def f16_def)
next
  case False
  define q where "q = last_place 11 (- 24) x"
  define n where "n = round_half_even (\<bar>x\<bar> / 2 powi last_place 11 (- 24) x)"
  note u = half_units [OF False, folded q_def n_def]
  define b where "b = (q + 24) * 1024 + n"
  have v: "\<bar>f16 x\<bar> = of_int n * 2 powi q" using u(2) by (simp add: u(5) abs_mult)
  have b: "b < 31744"
  proof (rule ccontr)
    assume "\<not> b < 31744"
    then consider "6 \<le> q" | "q = 5" "n = 2048" using u(3) by (force simp: b_def)
    then have "65536 \<le> of_int n * (2::rat) powi q"
    proof cases
      case 1
      then have n: "1024 \<le> n" using u(4) by simp
      have "(64::rat) = 2 powi 6" by simp
      also have "\<dots> \<le> 2 powi q" using 1 by (simp only: powi2_le_iff)
      finally have "(1024::rat) * 64 \<le> of_int n * 2 powi q" using n by (intro mult_mono) auto
      then show ?thesis by simp
    qed simp
    then show False using assms v by simp
  qed
  have b0: "0 \<le> b" using u(1,2) by (simp add: b_def)
  let ?s = "if x < 0 then 0x8000 else 0 :: int"
  have "half_bits x = word_of_int (b + ?s)" using False b by (simp add: half_bits_def b_def q_def n_def Let_def)
  moreover have "0 \<le> b + ?s" "b + ?s < 2 ^ 16" using b b0 by simp_all
  moreover have "uint (word_of_int y :: 16 word) = y" if "0 \<le> y" "y < 2 ^ 16" for y
    using that by (simp add: uint_word_of_int_eq take_bit_int_eq_self)
  ultimately have ub: "uint (half_bits x) = b + ?s" by presburger
  have sg: "(b + ?s) div 32768 mod 2 = (if x < 0 then 1 else 0)" using b b0 by (auto simp: div_pos_pos_trivial)
  have e: "(b + ?s) div 1024 mod 32 = b div 1024"
  proof -
    have "b div 1024 < 32" using b by simp
    moreover have "0 \<le> b div 1024" using b0 by (simp add: pos_imp_zdiv_nonneg_iff)
    moreover have "(b + 32768) div 1024 = b div 1024 + 32" using div_mult_self1 [of 1024 b 32] by simp
    ultimately show ?thesis by simp
  qed
  have m: "(b + ?s) mod 1024 = b mod 1024" using mod_mult_self1 [of b 32 1024] by simp
  have hv: "half_value (b + ?s) = (if b div 1024 = 31 then None
      else if b div 1024 = 0 then Some (of_int ((if x < 0 then - 1 else 1) * (b mod 1024)) * 2 powi (- 24))
      else Some (of_int ((if x < 0 then - 1 else 1) * (1024 + b mod 1024)) * 2 powi (b div 1024 - 25)))"
    unfolding half_value_def Let_def sg e m by simp
  have dm: "(k * 1024 + r) div 1024 = k" "(k * 1024 + r) mod 1024 = r" if "0 \<le> r" "r < 1024" for k r :: int
    using that by simp_all
  have ne: "b div 1024 \<noteq> 31" using b by simp
  consider "n < 1024" "q = - 24" | "1024 \<le> n" "n < 2048" | "n = 2048" using u(3,4) by fastforce
  then show ?thesis
  proof cases
    case 1
    then have "b div 1024 = 0" "b mod 1024 = n" using u(2) by (simp_all add: b_def)
    then show ?thesis unfolding ub hv using ne u(5) 1 by simp
  next
    case 2
    then have bb: "b = (q + 25) * 1024 + (n - 1024)" by (simp add: b_def)
    have "b div 1024 = q + 25" "b mod 1024 = n - 1024" unfolding bb by (rule dm; use 2 in simp)+
    then show ?thesis unfolding ub hv using ne u(1,5) by simp
  next
    case 3
    then have bb: "b = (q + 26) * 1024" by (simp add: b_def)
    have "b div 1024 = q + 26" "b mod 1024 = 0" using dm [of 0 "q + 26"] by (simp_all add: bb)
    then show ?thesis unfolding ub hv using ne u(1,5) 3 by (simp add: power_int_add)
  qed
qed

lemma row_major_bound: "a < m \<Longrightarrow> b < n \<Longrightarrow> a * n + b < m * (n::nat)"
  using mult_le_mono1 [of "Suc a" m n] by simp

subsection \<open>Device order\<close>

lemma transpose_flat_nth:
  assumes "g < gc" "oo < oc"
  shows "transpose_flat oc gc xs ! (g * oc + oo) = xs ! (oo * gc + g)"
proof -
  have "g * oc + oo < gc * oc" using assms by (rule row_major_bound)
  moreover have "(g * oc + oo) mod oc = oo" "(g * oc + oo) div oc = g" using assms by simp_all
  ultimately show ?thesis by (simp add: transpose_flat_def)
qed

lemma length_transpose_flat [simp]: "length (transpose_flat oc gc xs) = gc * oc"
  by (simp add: transpose_flat_def)

lemma transpose_flat_list_all:
  assumes "length xs = oc * gc"
  shows "list_all P xs \<Longrightarrow> list_all P (transpose_flat oc gc xs)"
proof -
  assume P: "list_all P xs"
  have "P (xs ! (i mod oc * gc + i div oc))" if i: "i < gc * oc" for i
  proof -
    have "0 < oc" using i by (cases oc) auto
    then have "i mod oc < oc" "i div oc < gc" using i by (simp_all add: less_mult_imp_div_less)
    then have "i mod oc * gc + i div oc < oc * gc" by (rule row_major_bound)
    then show ?thesis using P assms by (simp add: list_all_length)
  qed
  then show ?thesis by (simp add: transpose_flat_def list_all_iff)
qed

subsection \<open>Static partition\<close>

lemma splitmix_eq: "Expert_Store.splitmix64 x = Policy_Compare.splitmix64 x"
  by (simp only: Expert_Store.splitmix64_def Policy_Compare.splitmix64_def MASK64_def Let_def)

lemma static_partition_eq:
  assumes "0 \<le> capacity"
  shows "static_partition_resident_experts seed layer_key num_expert capacity =
    static_set_splitmix64 layer_key capacity num_expert seed"
proof -
  have "Expert_Store.splitmix64 (Expert_Store.splitmix64 ((seed XOR ((layer_key * 0xD6E8FEB86659FD93) AND (2 ^ 64 - 1))) AND (2 ^ 64 - 1)) XOR e) =
      rank_key seed layer_key e" for e
    by (simp only: rank_key_def Let_def splitmix_eq splitmix64_mod LAYER_MIX_def MASK64_def [symmetric])
  then have "static_partition_resident_experts seed layer_key num_expert capacity =
      sort (map snd (take_py (min capacity num_expert) (sort (map (\<lambda>e. (rank_key seed layer_key e, e)) (map int [0..<nat num_expert])))))"
    by (simp only: static_partition_resident_experts_def Let_def)
  moreover have "take_py (min 0 num_expert) (sort (map (\<lambda>e. (rank_key seed layer_key e, e)) (map int [0..<nat num_expert]))) = []"
    by (cases "num_expert \<le> 0") (simp_all add: take_py_def)
  ultimately show ?thesis using assms by (cases "capacity = 0") (simp_all add: static_set_splitmix64_def)
qed

subsection \<open>Reading a seed file back\<close>

definition unbroken :: "string \<Rightarrow> bool" where
  "unbroken s \<longleftrightarrow> list_all (\<lambda>c. \<not> is_break c) s"

lemma break_lines_not_Nil [simp]: "break_lines s \<noteq> []"
  by (induction s) (auto split: list.splits)

lemma break_lines_append: "unbroken s \<Longrightarrow> break_lines (s @ LF # t) = s # break_lines t"
  by (induction s) (auto simp: unbroken_def is_break_def split: list.splits)

lemma break_lines_join: "list_all unbroken ls \<Longrightarrow> ls \<noteq> [] \<Longrightarrow> break_lines (join [LF] ls @ [LF]) = ls @ [[]]"
proof (induction ls rule: induct_list012)
  case (2 x)
  then show ?case by (simp add: break_lines_append)
next
  case (3 x y zs)
  then show ?case using break_lines_append [of x "join [LF] (y # zs) @ [LF]"] by simp
qed simp

lemma splitlines_text_of: "list_all unbroken ls \<Longrightarrow> ls \<noteq> [] \<Longrightarrow> splitlines (text_of ls) = ls"
  by (simp add: splitlines_def text_of_def break_lines_join)

lemma unbroken_join: "unbroken sep \<Longrightarrow> list_all unbroken ts \<Longrightarrow> unbroken (join sep ts)"
  by (induction ts rule: induct_list012) (auto simp: unbroken_def)

lemma unbroken_append [simp]: "unbroken (a @ b) \<longleftrightarrow> unbroken a \<and> unbroken b"
  by (simp add: unbroken_def)

lemma unbroken_py_str [simp]: "unbroken (py_str i)"
proof -
  have "is_digit c \<Longrightarrow> \<not> is_break c" for c by (auto simp: is_digit_def is_break_def Let_def)
  moreover have "\<not> is_break (CHR ''-'')" by (simp add: is_break_def)
  ultimately show ?thesis using py_str_chars [of _ i] by (auto simp: unbroken_def list_all_iff)
qed

lemma unbroken_seed_line: "unbroken (seed_line k es)"
  unfolding seed_line_def by (rule unbroken_join) (simp_all add: list_all_iff, simp add: unbroken_def is_break_def)

lemma unbroken_json: "unbroken (json_int_map m)"
proof -
  have "unbroken (join '', '' (map (\<lambda>(k, v). [CHR 0x22] @ py_str k @ [CHR 0x22] @ '': '' @ py_str v) m))"
    by (rule unbroken_join) (auto simp: list_all_iff unbroken_def [of "'', ''"] unbroken_def [of "[CHR 0x22]"] unbroken_def [of "'': ''"] is_break_def simp del: append.simps)
  then show ?thesis by (simp add: json_int_map_def unbroken_def is_break_def)
qed

lemma pinned_lines_comment: "startswith l ''#'' \<Longrightarrow> strip l = l \<Longrightarrow> pinned_lines bk (l # ls) acc = pinned_lines bk ls acc"
  by simp

lemma seed_line_strip: "strip (seed_line k es) = seed_line k es" "split_ws (seed_line k es) = map py_str (k # es)"
  "seed_line k es \<noteq> []" "\<not> startswith (seed_line k es) ''#''"
proof -
  have t: "list_all is_token (map py_str (k # es))" by (auto simp: list_all_iff text_simps)
  show "strip (seed_line k es) = seed_line k es" unfolding seed_line_def using t by (intro strip_join) auto
  show "split_ws (seed_line k es) = map py_str (k # es)" unfolding seed_line_def using t by (rule split_ws_join)
  have h: "hd (seed_line k es) = hd (py_str k)" unfolding seed_line_def by (subst hd_join) simp_all
  show n: "seed_line k es \<noteq> []" unfolding seed_line_def by (rule join_eq_Nil) simp_all
  have "hd (py_str k) \<in> set (py_str k)" by simp
  then have "is_digit (hd (py_str k)) \<or> hd (py_str k) = CHR ''-''" by (rule py_str_chars)
  then have "hd (py_str k) \<noteq> CHR ''#''" by (auto simp: is_digit_def)
  then show "\<not> startswith (seed_line k es) ''#''" using h by (simp add: startswith_single)
qed

lemma map_res_py_int: "map_res (\<lambda>x. of_option ValueErrorInt (py_int x)) (map py_str es) = Inr es"
  by (induction es) (simp_all add: text_simps)

lemma pinned_lines_seed:
  assumes "\<And>l. l \<in> set layers \<Longrightarrow> map_of bk (key l) = Some l" "distinct (map fst acc @ layers)"
  shows "pinned_lines bk (map (\<lambda>l. seed_line (key l) (ex l)) layers) acc = Inr (acc @ map (\<lambda>l. (l, ex l)) layers)"
  using assms
proof (induction layers arbitrary: acc)
  case (Cons l layers)
  have "pinned_lines bk (map (\<lambda>l. seed_line (key l) (ex l)) layers) (acc @ [(l, ex l)]) =
      Inr ((acc @ [(l, ex l)]) @ map (\<lambda>l. (l, ex l)) layers)"
    by (rule Cons.IH) (use Cons.prems in auto)
  then show ?case using Cons.prems by (simp add: seed_line_strip map_res_py_int text_simps Let_def)
qed simp

lemma invert_layer_keys_eq:
  assumes "distinct (map snd m)"
  shows "invert_layer_keys (map (\<lambda>(i, k). (py_str i, k)) m) = Inr (map (\<lambda>(i, k). (k, i)) m)"
proof -
  have "map_res (\<lambda>(k, v). rbind (of_option ValueErrorInt (py_int k)) (\<lambda>i. Inr (v, i))) (map (\<lambda>(i, k). (py_str i, k)) m) =
      Inr (map (\<lambda>(i, k). (k, i)) m)"
    by (induction m) (auto simp: text_simps)
  moreover have "dict_of (map (\<lambda>(i, k). (k, i)) m) = map (\<lambda>(i, k). (k, i)) m"
    by (rule dict_of_distinct) (use assms in \<open>simp add: case_prod_unfold o_def\<close>)
  ultimately show ?thesis by (simp add: invert_layer_keys_def)
qed

lemma no_return_text_of:
  assumes "list_all unbroken ls"
  shows "CR \<notin> set (text_of ls)"
proof -
  have "is_break CR" by (simp add: is_break_def)
  then have "\<forall>l \<in> set ls. CR \<notin> set l" using assms by (auto simp: unbroken_def list_all_iff)
  then show ?thesis using set_join [of "[LF]" ls] by (auto simp: text_of_def)
qed

lemma load_seed:
  assumes "seed_text hot m = Inr tx" "m \<noteq> []" "distinct (map fst m)" "distinct (map fst hot)"
  shows "load_pinned loads tx (Some (map (\<lambda>(i, k). (py_str i, k)) m)) =
    Inr (map (\<lambda>l. (LayerIndex l, dict_get hot l [])) (sort (map fst hot)))"
proof -
  let ?layers = "sort (map fst hot)" and ?bk = "map (\<lambda>(i, k). (k, i)) m"
  define key where "key l = the (map_of m l)" for l
  have dk: "distinct (map snd m)" using assms(1,2) by (auto simp: seed_text_def split: if_splits)
  obtain ls where ls: "map_res (\<lambda>lay. rbind (of_option LayerKeyMissing (map_of m lay)) (\<lambda>k. Inr (seed_line k (dict_get hot lay [])))) ?layers = Inr ls"
    and tx: "tx = text_of ([''# hot-set seed v2 (frequency rank, id tie-break)'', ''# space=layer_key'', ''# layer_key_by_index='' @ json_int_map (sort_key fst m)] @ ls)"
    using assms(1,2) dk by (auto simp: seed_text_def res_simps)
  have some: "map_of m l = Some (key l)" if "l \<in> set ?layers" for l
    using map_res_Inr_ex [OF ls that] by (auto simp: res_simps key_def)
  have ls': "ls = map (\<lambda>l. seed_line (key l) (dict_get hot l [])) ?layers"
    by (rule map_res_Inr_eq_map [OF ls]) (auto simp: res_simps key_def)
  have bk: "map_of ?bk (key l) = Some l" if "l \<in> set ?layers" for l
  proof -
    have "(l, key l) \<in> set m" using some [OF that] by (rule map_of_SomeD)
    moreover have "distinct (map fst ?bk)" using dk by (simp add: case_prod_unfold o_def)
    ultimately show ?thesis by (intro map_of_is_SomeI) force+
  qed
  let ?h = "[''# hot-set seed v2 (frequency rank, id tie-break)'', ''# space=layer_key'', ''# layer_key_by_index='' @ json_int_map (sort_key fst m)]"
  have ub: "list_all unbroken (?h @ ls)"
    unfolding ls' by (auto simp: list_all_iff unbroken_seed_line unbroken_json simp del: append.simps)
      (simp_all add: unbroken_def is_break_def)
  have sl: "splitlines tx = ?h @ ls" unfolding tx by (rule splitlines_text_of [OF ub]) simp
  have "CR \<notin> set tx" unfolding tx by (rule no_return_text_of [OF ub])
  then have nl: "newlines tx = tx" by (rule newlines_free)
  obtain rest where r: "tx = CHR ''#'' # rest" by (simp add: tx text_of_def)
  then have nb: "\<not> startswith (lstrip tx) ''{''" by (simp add: lstrip_def is_ws_def)
  have "json_int_map x \<noteq> [] \<and> last (json_int_map x) = CHR ''}''" for x by (simp add: json_int_map_def)
  then have js: "strip (''# layer_key_by_index='' @ json_int_map x) = ''# layer_key_by_index='' @ json_int_map x" for x
    by (intro strip_id) (simp add: is_ws_def)
  have hd: "pinned_lines ?bk (?h @ ls) [] = pinned_lines ?bk ls []"
    using js [of "sort_key fst m"] by (simp add: strip_id is_ws_def)
  have "pinned_lines ?bk ls [] = Inr ([] @ map (\<lambda>l. (l, dict_get hot l [])) ?layers)"
    unfolding ls' by (rule pinned_lines_seed) (use bk assms(4) in auto)
  then show ?thesis unfolding load_pinned_def nl Let_def using nb sl hd invert_layer_keys_eq [OF dk] by simp
qed

subsection \<open>When a write succeeds\<close>

lemma role_tables:
  "map_of ROLE_OUT ''gate'' = Some 640" "map_of ROLE_OUT ''up'' = Some 640" "map_of ROLE_OUT ''down'' = Some 2560"
  "map_of ROLE_IN ''gate'' = Some 2560" "map_of ROLE_IN ''up'' = Some 2560" "map_of ROLE_IN ''down'' = Some 640"
  by (simp_all add: ROLE_OUT_def ROLE_IN_def FLASH_NEXT_FF_def FLASH_NEXT_HIDDEN_def)

lemma role_arrays_ok:
  assumes pin: "map_of (pinned w) layer = Some ids" "ids \<noteq> []"
    and geo: "map_of ROLE_OUT kind = Some out" "map_of ROLE_IN kind = Some inn" "0 < out" "0 < inn" "even out"
    and src: "expert_source dq w layer kind = Inr t" "tensor_ok t" "tshape t = (length ids, out, inn)"
    and gs: "0 < sw_group_size w" "even (sw_group_size w)" "sw_group_size w dvd inn" "0 < sw_expert_chunk w"
  shows "\<exists>pws z s. role_arrays dq w layer kind = Inr (pws, z, s) \<and> length pws = length ids \<and> (\<forall>x \<in> set pws. length x = out * inn div 2) \<and>
    length z = length ids * (out * (inn div sw_group_size w) div 2)"
proof -
  let ?f = "new_expert_filler (sw_group_size w) (sw_expert_chunk w)" and ?gs = "sw_group_size w"
  let ?gl = "groups_of ?gs (map (map (map f32)) (entries t))"
  have "fill_rows ?f (length ids, out, inn) t = Inr (packed_groups ?gl)"
    using fill_rows_spec [OF src(2,3), of ?f] pin(2) geo gs by (simp add: new_expert_filler_def mod_eq_0_iff_dvd)
  then obtain b where b: "snd (body (expert_source dq w) ((layer, kind), (length ids, out, inn)) ?f) = Inr b" "b = packed_groups ?gl"
    using src(1) by (simp add: body_def Let_def)
  have rc: "rect out inn (map (map (map f32)) (entries t))" "length (entries t) = length ids"
    using src(2,3) by (auto simp: tensor_ok_def rect_def)
  have per: "out * (inn div ?gs) * (?gs div 2) = out * inn div 2"
  proof -
    obtain h where h: "?gs = 2 * h" using gs(2) by (auto elim: evenE)
    obtain m where m: "inn = ?gs * m" using gs(3) by (auto elim: dvdE)
    show ?thesis using gs(1) by (simp add: m h)
  qed
  have l: "length (fst b) = length ids * (out * inn div 2)"
    using length_codes [OF gs(1,3) rc(1)] rc(2) geo(5) by (auto simp: b(2) packed_groups_def elim!: evenE)
  obtain pw z s where bb: "b = (pw, z, s)" by (cases b)
  have "length (fst (snd b)) = length ids * (out * (inn div ?gs) div 2)"
    using length_groups_of [OF gs(1,3) rc(1)] rc(2) geo(5) by (auto simp: b(2) packed_groups_def elim!: evenE)
  then have lz: "length z = length ids * (out * (inn div ?gs) div 2)" by (simp add: bb)
  have pos: "0 < out * inn div 2" using geo(3-5) by (auto elim!: evenE)
  have "length (chunks (out * inn div 2) pw) = length ids"
    using l bb pos by (simp add: length_chunks)
  moreover have "\<forall>x \<in> set (chunks (out * inn div 2) pw). length x = out * inn div 2"
    using l bb pos length_in_chunks [of "out * inn div 2" pw] by auto
  ultimately show ?thesis
    using pin geo(1,2) b(1) l bb lz by (simp add: role_arrays_def per Let_def)
qed

lemma unpack_whole: "2 * length buf = n \<Longrightarrow> unpack_u4 buf (int n) = Inr (unpack_pairs buf)"
  by (auto simp: unpack_u4_eq)

lemma sidecar_for_ok:
  assumes geo: "map_of ROLE_OUT kind = Some oc" "map_of ROLE_IN kind = Some inn" "even oc" "0 < oc * (inn div sw_group_size w)"
    and z: "length z = n * (oc * (inn div sw_group_size w) div 2)" "i < n"
  shows "\<exists>s pz. sidecar_for w kind z scales i = Inr (s, pz) \<and> pz \<noteq> []"
proof -
  let ?gc = "inn div sw_group_size w"
  let ?per = "oc * ?gc div 2" and ?buf = "take (oc * ?gc div 2) (drop (i * (oc * ?gc div 2)) z)"
  have "Suc i * ?per \<le> n * ?per" using z(2) by (intro mult_le_mono1) simp
  then have b: "length ?buf = ?per" using z(1) by simp
  have ev: "2 * ?per = oc * ?gc" using geo(3) by (auto elim!: evenE)
  then have u: "unpack_u4 ?buf (int (oc * ?gc)) = Inr (unpack_pairs ?buf)"
    using b by (intro unpack_whole) simp
  have l: "length (map uint (unpack_pairs ?buf)) = oc * ?gc" using b ev by simp
  let ?t = "transpose_flat oc ?gc (map uint (unpack_pairs ?buf))"
  have "list_all code_ok ?t" by (rule transpose_flat_list_all [OF l unpack_codes_ok])
  moreover have "even (length ?t)" "?t \<noteq> []" using geo(3,4) by (auto simp flip: length_0_conv)
  ultimately have "pack_u4 ?t = Inr (pack_pairs ?t)" "pack_pairs ?t \<noteq> []"
    by (auto simp: pack_u4_Inr_iff simp flip: length_0_conv elim!: evenE)
  then show ?thesis
    using geo(1,2) u by (simp add: sidecar_for_def Let_def transpose_scale_zp_to_device_def transpose_scale_to_device_def transpose_zp_to_device_def)
qed

text \<open>What the arrays of a role have to give for every expert of a layer: a weight record of the right size and a sidecar.\<close>

definition role_ok :: "store_writer \<Rightarrow> nat \<Rightarrow> string \<Rightarrow> role_arrays \<Rightarrow> bool" where
  "role_ok w n kind r \<longleftrightarrow>
     (\<forall>i < n. length (fst r ! i) = 819200 \<and>
        (\<exists>s pz. sidecar_for w kind (fst (snd r)) (snd (snd r)) i = Inr (s, pz) \<and> pz \<noteq> []))"

definition layer_ready :: "dequantizer \<Rightarrow> store_writer \<Rightarrow> int \<times> int list \<Rightarrow> bool" where
  "layer_ready dequantize w = (\<lambda>(layer, ids). ids \<noteq> [] \<and>
     (\<forall>kind \<in> set ROLE_ORDER. \<exists>t. expert_source dequantize w layer kind = Inr t \<and> tensor_ok t \<and>
        tshape t = (length ids, the (map_of ROLE_OUT kind), the (map_of ROLE_IN kind))))"

definition writer_ready :: "dequantizer \<Rightarrow> store_writer \<Rightarrow> bool" where
  "writer_ready dequantize w \<longleftrightarrow>
     distinct (map fst (pinned w)) \<and> list_all (layer_ready dequantize w) (pinned w) \<and>
     even (sw_group_size w) \<and> sw_group_size w dvd 640 \<and> 0 < sw_expert_chunk w"

lemma layer_roles_ok:
  assumes "writer_ready dq w" "(layer, ids) \<in> set (pinned w)"
  shows "\<exists>g u d. layer_roles dq w layer = Inr [(''gate'', g), (''up'', u), (''down'', d)] \<and>
    role_ok w (length ids) ''gate'' g \<and> role_ok w (length ids) ''up'' u \<and> role_ok w (length ids) ''down'' d"
proof -
  have pin: "map_of (pinned w) layer = Some ids" using assms by (simp add: writer_ready_def)
  have lr: "layer_ready dq w (layer, ids)" using assms by (auto simp: writer_ready_def list_all_iff)
  have gs: "0 < sw_group_size w" "even (sw_group_size w)" "sw_group_size w dvd 640" "sw_group_size w dvd 2560" "0 < sw_expert_chunk w"
    using assms by (auto simp: writer_ready_def intro!: gr0I intro: dvd_trans [of _ 640])
  have one: "\<exists>r. role_arrays dq w layer kind = Inr r \<and> role_ok w (length ids) kind r"
    if k: "kind \<in> set ROLE_ORDER" for kind
  proof -
    obtain out inn where g: "map_of ROLE_OUT kind = Some out" "map_of ROLE_IN kind = Some inn" "out * inn = 1638400"
      "0 < out" "0 < inn" "even out" "sw_group_size w dvd inn"
      using k gs by (auto simp: ROLE_ORDER_def role_tables)
    obtain t where t: "expert_source dq w layer kind = Inr t" "tensor_ok t" "tshape t = (length ids, out, inn)"
      using lr k g by (auto simp: layer_ready_def)
    have ids: "ids \<noteq> []" using lr by (simp add: layer_ready_def)
    obtain pws z s where r: "role_arrays dq w layer kind = Inr (pws, z, s)" "length pws = length ids"
      "\<forall>x \<in> set pws. length x = out * inn div 2" "length z = length ids * (out * (inn div sw_group_size w) div 2)"
      using role_arrays_ok [OF pin ids g(1,2,4-6) t gs(1,2) g(7) gs(5)] by blast
    have "0 < inn div sw_group_size w" using g(5,7) gs(1) by (simp add: dvd_imp_le div_greater_zero_iff)
    then have pos: "0 < out * (inn div sw_group_size w)" using g(4) by simp
    have "role_ok w (length ids) kind (pws, z, s)"
      unfolding role_ok_def using sidecar_for_ok [OF g(1,2,6) pos r(4)] r(2,3) g(3) by simp
    with r(1) show ?thesis by blast
  qed
  obtain g u d where "role_arrays dq w layer ''gate'' = Inr g" "role_ok w (length ids) ''gate'' g"
    "role_arrays dq w layer ''up'' = Inr u" "role_ok w (length ids) ''up'' u"
    "role_arrays dq w layer ''down'' = Inr d" "role_ok w (length ids) ''down'' d"
    using one [of "''gate''"] one [of "''up''"] one [of "''down''"] by (auto simp: ROLE_ORDER_def)
  then show ?thesis by (simp add: layer_roles_def ROLE_ORDER_def)
qed

lemma weight_record_ok:
  assumes "length (fst g ! i) = 819200" "length (fst u ! i) = 819200" "length (fst d ! i) = 819200"
  shows "weight_record [(''gate'', g), (''up'', u), (''down'', d)] i = Inr (fst g ! i @ fst u ! i @ fst d ! i)"
  using assms by (simp add: weight_record_def device_order_weight_record_def ROLE_ORDER_def role_byte_count_def role_tables
      EXPERT_SLICE_BYTES_def FLASH_NEXT_FF_def FLASH_NEXT_HIDDEN_def)

definition expert_ok :: "store_writer \<Rightarrow> (string, role_arrays) dict \<Rightarrow> nat \<Rightarrow> bool" where
  "expert_ok w roles i \<longleftrightarrow>
     (\<exists>rec. weight_record roles i = Inr rec \<and> rec \<noteq> []) \<and> (\<exists>blob. sidecar_blob w roles i = Inr blob \<and> blob \<noteq> [])"

lemma roles_expert_ok:
  assumes "role_ok w n ''gate'' g" "role_ok w n ''up'' u" "role_ok w n ''down'' d" "i < n"
  shows "expert_ok w [(''gate'', g), (''up'', u), (''down'', d)] i"
proof -
  have "\<exists>blob. sidecar_blob w [(''gate'', g), (''up'', u), (''down'', d)] i = Inr blob \<and> blob \<noteq> []"
    using assms by (cases g; cases u; cases d) (fastforce simp: role_ok_def sidecar_blob_def ROLE_ORDER_def)
  moreover have "\<exists>rec. weight_record [(''gate'', g), (''up'', u), (''down'', d)] i = Inr rec \<and> rec \<noteq> []"
    using assms weight_record_ok [of g i u d] by (auto simp: role_ok_def)
  ultimately show ?thesis by (simp add: expert_ok_def)
qed

lemma write_file_ok:
  assumes "payload \<noteq> []" "\<And>n. n \<le> acc n"
  shows "\<exists>fs'. write_expert_file acc path payload None fs = (fs', Inr path)"
  using assms(1) le_antisym [OF _ assms(2) [of "length payload"]] by (auto simp: write_expert_file_def Let_def min_def)

lemma write_one_ok:
  assumes "expert_ok w roles i" "\<And>n. n \<le> acc n"
  shows "\<exists>fs' en. write_one sha acc w roles ordinal layer i expert fs = (fs', Inr en)"
proof -
  obtain rec blob where r: "weight_record roles i = Inr rec" "rec \<noteq> []" "sidecar_blob w roles i = Inr blob" "blob \<noteq> []"
    using assms(1) by (auto simp: expert_ok_def)
  let ?side = "path_join (store_dir w) (expert_stem ordinal @ ''.scaleszp'')"
  obtain fs1 where f1: "write_expert_file acc (slot w ordinal) rec None fs = (fs1, Inr (slot w ordinal))"
    using write_file_ok [OF r(2) assms(2)] by blast
  obtain fs2 where "write_expert_file acc ?side blob None fs1 = (fs2, Inr ?side)"
    using write_file_ok [OF r(4) assms(2)] by blast
  with r f1 show ?thesis by (simp add: write_one_def Let_def)
qed

lemma write_experts_ok:
  assumes "\<And>n. n \<le> acc n" and "\<And>j. i \<le> j \<Longrightarrow> j < i + length ids \<Longrightarrow> expert_ok w roles j"
  shows "\<exists>s'. write_experts sha acc w roles layer ordinal i ids s = (s', Inr ())"
  using assms(2)
proof (induction ids arbitrary: i ordinal s)
  case (Cons x ids)
  obtain fs m where s: "s = (fs, m)" by (cases s)
  obtain fs' en where "write_one sha acc w roles ordinal layer i x fs = (fs', Inr en)"
    using write_one_ok [OF Cons.prems [of i] assms(1)] by (metis le_refl length_Cons less_add_same_cancel1 zero_less_Suc)
  then show ?case using Cons.IH [of "i + 1"] Cons.prems s by simp
qed simp

lemma write_layers_ok:
  assumes "writer_ready dq w" "\<And>n. n \<le> acc n" "set layers \<subseteq> set (map fst (pinned w))"
  shows "\<exists>s'. write_layers dq sha acc w layers s = (s', Inr ())"
  using assms(3)
proof (induction layers arbitrary: s)
  case (Cons l layers)
  obtain ids where ids: "(l, ids) \<in> set (pinned w)" using Cons.prems by auto
  then have get: "dict_get (pinned w) l [] = ids" using assms(1) by (simp add: writer_ready_def dict_get_def)
  obtain g u d where r: "layer_roles dq w l = Inr [(''gate'', g), (''up'', u), (''down'', d)]"
    "role_ok w (length ids) ''gate'' g" "role_ok w (length ids) ''up'' u" "role_ok w (length ids) ''down'' d"
    using layer_roles_ok [OF assms(1) ids] by blast
  have "\<exists>s'. write_experts sha acc w [(''gate'', g), (''up'', u), (''down'', d)] l (length (snd s)) 0 ids s = (s', Inr ())"
    by (rule write_experts_ok [OF assms(2)]) (use roles_expert_ok [OF r(2-4)] in simp)
  then show ?case using Cons r(1) get by auto
qed simp

lemma manifest_not_slot: "''manifest.json'' \<noteq> expert_file_name n" "''manifest.json'' \<noteq> expert_stem n @ ''.scaleszp''"
  by (simp_all add: expert_file_name_def expert_stem_def Let_def)

lemma store_write_spec:
  assumes "store_write jd dq sha acc w fs = (fs', Inr sm)"
  shows "store_inv dq sha w (fs', sm_experts sm) \<and> map (\<lambda>en. (en_layer en, en_expert en)) (sm_experts sm) =
      concat (map (\<lambda>l. map (Pair l) (dict_get (pinned w) l [])) (sort (map fst (pinned w))))"
proof -
  obtain s where s: "write_layers dq sha acc w (sort (map fst (pinned w))) (fs, []) = (s, Inr ())"
    "fs' = (fst s)(path_join (store_dir w) ''manifest.json'' \<mapsto> jd sm)" "sm_experts sm = snd s"
    using assms by (auto simp: store_write_def Let_def split: prod.splits sum.splits)
  have "store_inv dq sha w (fs, [])" by (simp add: store_inv_def)
  from write_layers_inv [OF s(1) this] have inv: "store_inv dq sha w s" by simp
  have "fs' (slot w n) = fst s (slot w n)" for n unfolding s(2) by (simp add: manifest_not_slot(1) [symmetric])
  with inv s(3) have "store_inv dq sha w (fs', sm_experts sm)" by (auto simp: store_inv_def)
  with write_layers_inv [OF s(1) \<open>store_inv dq sha w (fs, [])\<close>] s(3) show ?thesis by simp
qed

definition store_paths :: "store_writer \<Rightarrow> string set" where
  "store_paths w = {path_join (store_dir w) ''manifest.json''} \<union> range (slot w) \<union> range (\<lambda>n. path_join (store_dir w) (expert_stem n @ ''.scaleszp''))"

lemma write_expert_file_frame:
  "write_expert_file acc q payload d fs = (fs', r) \<Longrightarrow> p \<noteq> q \<Longrightarrow> fs' p = fs p"
  by (auto simp: write_expert_file_def Let_def split: if_splits)

lemma write_one_frame:
  assumes "write_one sha acc w roles ordinal layer i expert fs = (fs', r)" "path \<notin> store_paths w"
  shows "fs' path = fs path"
proof -
  have n: "path \<noteq> slot w ordinal" "path \<noteq> path_join (store_dir w) (expert_stem ordinal @ ''.scaleszp'')"
    using assms(2) by (auto simp: store_paths_def)
  show ?thesis using assms(1) n
    by (auto simp: write_one_def Let_def dest!: write_expert_file_frame [OF _ n(1)] write_expert_file_frame [OF _ n(2)] split: sum.splits prod.splits if_splits)
qed

lemma write_experts_frame:
  assumes "write_experts sha acc w roles layer ordinal i ids s = (s', r)" "path \<notin> store_paths w"
  shows "fst s' path = fst s path"
  using assms(1)
proof (induction ids arbitrary: ordinal i s)
  case (Cons x ids)
  obtain fs m where s: "s = (fs, m)" by (cases s)
  obtain fs1 r1 where one: "write_one sha acc w roles ordinal layer i x fs = (fs1, r1)" by force
  then show ?case using Cons write_one_frame [OF one assms(2)] s by (auto split: sum.splits)
qed auto

lemma write_layers_frame:
  assumes "write_layers dq sha acc w layers s = (s', r)" "path \<notin> store_paths w"
  shows "fst s' path = fst s path"
  using assms(1)
proof (induction layers arbitrary: s)
  case (Cons l layers)
  show ?case
  proof (cases "layer_roles dq w l")
    case (Inr roles)
    obtain s1 r1 where e: "write_experts sha acc w roles l (length (snd s)) 0 (dict_get (pinned w) l []) s = (s1, r1)"
      by (rule prod.exhaust)
    then show ?thesis using Cons Inr write_experts_frame [OF e assms(2)] by (auto split: sum.splits)
  qed (use Cons.prems in auto)
qed auto

lemma store_write_ok:
  assumes "writer_ready dq w" "\<And>n. n \<le> acc n"
  shows "\<exists>fs' sm. store_write jd dq sha acc w fs = (fs', Inr sm)"
proof -
  obtain s where "write_layers dq sha acc w (sort (map fst (pinned w))) (fs, []) = (s, Inr ())"
    using write_layers_ok [OF assms, of "sort (map fst (pinned w))" sha "(fs, [])"] by auto
  then show ?thesis by (cases s) (simp add: store_write_def Let_def)
qed

lemma store_write_frame:
  assumes "store_write jd dq sha acc w fs = (fs', r)" "path \<notin> store_paths w"
  shows "fs' path = fs path"
proof -
  obtain s r1 where s: "write_layers dq sha acc w (sort (map fst (pinned w))) (fs, []) = (s, r1)" by (rule prod.exhaust)
  have "path \<noteq> path_join (store_dir w) ''manifest.json''" using assms(2) by (simp add: store_paths_def)
  then have "fs' path = fst s path"
    using assms(1) s by (auto simp: store_write_def Let_def split: prod.splits sum.splits)
  then show ?thesis using write_layers_frame [OF s assms(2)] by simp
qed

lemma pairs_length:
  assumes "distinct (map fst m)"
  shows "sum_list (map (\<lambda>l. length (dict_get m l [])) (sort (map fst m))) = sum_list (map (length \<circ> snd) m)"
proof -
  have "sum_list (map (\<lambda>l. length (dict_get m l [])) (sort (map fst m))) = sum_list (map (\<lambda>l. length (dict_get m l [])) (map fst m))"
    by (simp only: sum_mset_sum_list [symmetric] mset_map mset_sort)
  moreover have "map (\<lambda>l. length (dict_get m l [])) (map fst m) = map (length \<circ> snd) m"
    using assms by (auto simp: dict_get_def)
  ultimately show ?thesis by (simp only:)
qed

end
