(* ===== verification/Store_Properties.thy ===== *)
theory Store_Properties
  imports Store_Facts
begin

text \<open>
  The properties of the expert store: a manifest describes exactly what is on the disk, a
  well-formed request always gets one, nothing outside the store is touched, sidecars hold the
  scales in device order, and the pinned sets of the census and of the incumbent are read and
  rebuilt as their producers meant them.
\<close>

text \<open>A writer for one expert of one layer, over tensors of zeros: the instance of the witnesses below.\<close>

definition zero_tensor :: "nat \<Rightarrow> nat \<Rightarrow> gguf_tensor" where
  "zero_tensor out inn =
     \<lparr>type_name = ''F32'', data_shape = (out, inn), data_rows = FloatRows [replicate out (replicate inn 0)]\<rparr>"

definition zero_writer :: store_writer where
  "zero_writer =
     \<lparr>index = [(''blk.0.ffn_gate_exps.weight'', zero_tensor 640 2560), (''blk.0.ffn_up_exps.weight'', zero_tensor 640 2560),
               (''blk.0.ffn_down_exps.weight'', zero_tensor 2560 640)],
      store_dir = ''/s'', pinned = [(0, [0])], sw_group_size = 128, with_scale_zp = False, sw_expert_chunk = 32, sw_provenance = []\<rparr>"

lemma py_str_0: "py_str 0 = ''0''"
  by code_simp

lemma zero_writer_ready: "writer_ready dq zero_writer"
  by (auto simp: writer_ready_def layer_ready_def zero_writer_def zero_tensor_def expert_source_def dequant_experts_def
      ROLE_ORDER_def role_tables py_str_0 py_index_def tensor_ok_def rect_def of_option_def)

text \<open>C14. A manifest that \<open>write\<close> returns lists every pinned expert of every layer, layers ascending and experts in
  pinned order, under the ordinals 0, 1, 2, \<open>\<dots>\<close> and pairwise different file names; and each entry's file is on
  the disk, holds the gate, up and down records of that expert in this order, and has the recorded digest and
  the recorded length, which is the slice size of the geometry. The manifest itself is in \<open>manifest.json\<close>.\<close>

theorem store_manifest_sound:
  assumes "store_write json_dump dequantize sha accepted w fs = (fs', Inr sm)"
  shows "map (\<lambda>en. (en_layer en, en_expert en)) (sm_experts sm) =
      concat (map (\<lambda>l. map (Pair l) (dict_get (pinned w) l [])) (sort (map fst (pinned w)))) \<and>
    map en_file (sm_experts sm) = map expert_file_name [0..<length (sm_experts sm)] \<and>
    distinct (map en_file (sm_experts sm)) \<and>
    fs' (path_join (store_dir w) ''manifest.json'') = Some (json_dump sm) \<and>
    (\<forall>en \<in> set (sm_experts sm). \<exists>bytes roles i.
      fs' (path_join (store_dir w) (en_file en)) = Some bytes \<and> en_sha256 en = sha bytes \<and>
      en_bytes en = length bytes \<and> length bytes = EXPERT_SLICE_BYTES \<and>
      layer_roles dequantize w (en_layer en) = Inr roles \<and> i < length (dict_get (pinned w) (en_layer en) []) \<and>
      dict_get (pinned w) (en_layer en) [] ! i = en_expert en \<and> weight_record roles i = Inr bytes)"
proof (intro conjI ballI)
  have inv: "store_inv dequantize sha w (fs', sm_experts sm)" using store_write_spec [OF assms] by simp
  show "map (\<lambda>en. (en_layer en, en_expert en)) (sm_experts sm) =
      concat (map (\<lambda>l. map (Pair l) (dict_get (pinned w) l [])) (sort (map fst (pinned w))))"
    using store_write_spec [OF assms] by simp
  have "en_file en = expert_file_name (en_ordinal en)" if "en \<in> set (sm_experts sm)" for en
    using inv that by (auto simp: store_inv_def stored_def)
  then have "map en_file (sm_experts sm) = map expert_file_name (map en_ordinal (sm_experts sm))" by simp
  also have "\<dots> = map expert_file_name [0..<length (sm_experts sm)]" using inv by (simp add: store_inv_def)
  finally show files: "map en_file (sm_experts sm) = map expert_file_name [0..<length (sm_experts sm)]" .
  show "distinct (map en_file (sm_experts sm))" unfolding files by (simp add: distinct_map inj_on_def)
  show "fs' (path_join (store_dir w) ''manifest.json'') = Some (json_dump sm)"
    using assms by (auto simp: store_write_def Let_def split: prod.splits sum.splits)
  show "\<exists>bytes roles i.
      fs' (path_join (store_dir w) (en_file en)) = Some bytes \<and> en_sha256 en = sha bytes \<and>
      en_bytes en = length bytes \<and> length bytes = EXPERT_SLICE_BYTES \<and>
      layer_roles dequantize w (en_layer en) = Inr roles \<and> i < length (dict_get (pinned w) (en_layer en) []) \<and>
      dict_get (pinned w) (en_layer en) [] ! i = en_expert en \<and> weight_record roles i = Inr bytes"
    if "en \<in> set (sm_experts sm)" for en
    using inv that weight_record_length by (fastforce simp: store_inv_def stored_def)
qed

theorem store_manifest_sound_witness:
  "\<exists>fs' sm. store_write (\<lambda>_. []) (\<lambda>_ _ _. Inl ValueErr) (\<lambda>_. ''d'') (\<lambda>n. n) zero_writer Map.empty = (fs', Inr sm) \<and>
     map (\<lambda>en. (en_layer en, en_expert en)) (sm_experts sm) = [(0, 0)]"
proof -
  obtain fs' sm where w: "store_write (\<lambda>_. []) (\<lambda>_ _ _. Inl ValueErr) (\<lambda>_. ''d'') (\<lambda>n. n) zero_writer Map.empty = (fs', Inr sm)"
    using store_write_ok [OF zero_writer_ready, of "\<lambda>n. n"] by blast
  have "map (\<lambda>en. (en_layer en, en_expert en)) (sm_experts sm) = [(0, 0)]"
    using store_manifest_sound [OF w] by (simp add: zero_writer_def dict_get_def)
  with w show ?thesis by (intro exI conjI)
qed

text \<open>C15. Writing, with or without the sidecars of scales and zero points, ends with a manifest of exactly \<open>plan()\<close> experts
  whenever the pinned layers are distinct and each pins at least one expert, the source has for every pinned layer the three tensors
  in the geometry's shape, the group size is even and divides 640, the number of experts per pass is positive, and the file
  system accepts whole records.\<close>

theorem store_write_succeeds:
  assumes "writer_ready dequantize w" and "\<And>n. n \<le> accepted n"
  shows "\<exists>fs' sm. store_write json_dump dequantize sha accepted w fs = (fs', Inr sm) \<and> length (sm_experts sm) = plan w \<and>
    sm_slice_bytes sm = 2457600"
proof -
  obtain fs' sm where w: "store_write json_dump dequantize sha accepted w fs = (fs', Inr sm)"
    using store_write_ok [OF assms] by blast
  have "length (sm_experts sm) = length (map (\<lambda>en. (en_layer en, en_expert en)) (sm_experts sm))" by simp
  also have "\<dots> = sum_list (map (\<lambda>l. length (dict_get (pinned w) l [])) (sort (map fst (pinned w))))"
    using store_write_spec [OF w] by (simp add: length_concat o_def)
  also have "\<dots> = plan w" using assms(1) by (simp add: pairs_length writer_ready_def plan_def)
  finally show ?thesis using w
    by (auto simp: store_write_def Let_def EXPERT_SLICE_BYTES_def FLASH_NEXT_FF_def FLASH_NEXT_HIDDEN_def split: prod.splits sum.splits)
qed

theorem store_write_succeeds_witness:
  "\<exists>fs' sm. store_write (\<lambda>_. []) (\<lambda>_ _ _. Inl ValueErr) (\<lambda>_. ''d'') (\<lambda>n. n) (zero_writer\<lparr>with_scale_zp := True\<rparr>) Map.empty = (fs', Inr sm) \<and>
     length (sm_experts sm) = 1"
proof -
  have "writer_ready (\<lambda>_ _ _. Inl ValueErr) (zero_writer\<lparr>with_scale_zp := True\<rparr>)"
    using zero_writer_ready by (simp add: writer_ready_def layer_ready_def expert_source_def)
  from store_write_succeeds [OF this, of "\<lambda>n. n" "\<lambda>_. []" "\<lambda>_. ''d''" Map.empty]
  show ?thesis by (auto simp: plan_def zero_writer_def)
qed

text \<open>C16. Whatever the outcome of \<open>write\<close>, errors in the middle included, every path other than the manifest, the expert
  files and the sidecars of the store holds what it held before, and a dry run of the command line changes nothing at all.\<close>

theorem store_touches_only_its_files:
  "(path \<notin> store_paths w \<longrightarrow> fst (store_write json_dump dequantize sha accepted w fs) path = fs path) \<and>
   (a_dry_run a \<longrightarrow> fst (store_main json_loads json_dump dequantize sha accepted ix a fs) = fs)"
  using store_write_frame [of json_dump dequantize sha accepted w fs "fst (store_write json_dump dequantize sha accepted w fs)"
      "snd (store_write json_dump dequantize sha accepted w fs)" path]
  by (simp add: store_main_def split: sum.split)

theorem store_touches_only_its_files_witness:
  "fst (store_write (\<lambda>_. []) (\<lambda>_ _ _. Inl ValueErr) (\<lambda>_. ''d'') (\<lambda>n. n) zero_writer [''/t'' \<mapsto> [7]]) ''/t'' = Some [7]"
proof -
  have "''/t'' \<notin> store_paths zero_writer" by (auto simp: store_paths_def zero_writer_def path_join_def)
  with store_touches_only_its_files [of "''/t''" zero_writer _ _ _ _ "[''/t'' \<mapsto> [7]]"] show ?thesis by simp
qed

text \<open>The sidecar form of the scales and zero points of a role of \<open>oc\<close> output channels and \<open>gc\<close> groups is the
  device order, all output channels of a group together: position \<open>g * oc + o\<close> holds the bits of the half float
  nearest to the scale of row \<open>o\<close> and group \<open>g\<close>, and the packed nibbles unpack at the same position to its zero
  point.\<close>

theorem sidecar_device_order:
  assumes "length scales = oc * gc" and "length zps = oc * gc" and "even (oc * gc)" and "0 < oc * gc"
    and "list_all code_ok zps" and "\<forall>x \<in> set scales. \<bar>f16 (f32 x)\<bar> < 65536"
  shows "\<exists>s z codes.
    transpose_scale_zp_to_device \<lparr>dims = [oc, gc], dtype = ''float32'', flat = scales\<rparr> \<lparr>dims = [oc, gc], dtype = ''uint8'', flat = zps\<rparr> =
      Inr (s, z) \<and> unpack_u4 z (int (oc * gc)) = Inr codes \<and> length s = oc * gc \<and>
    (\<forall>g < gc. \<forall>oo < oc. half_value (uint (s ! (g * oc + oo))) = Some (f16 (f32 (scales ! (oo * gc + g)))) \<and>
       codes ! (g * oc + oo) = word_of_int (zps ! (oo * gc + g)))"
proof -
  let ?s = "transpose_flat oc gc (map (half_bits \<circ> f32) scales)" and ?z = "transpose_flat oc gc zps"
  have ok: "list_all code_ok ?z"
    using assms(2,5) by (simp add: transpose_flat_list_all)
  have z: "pack_u4 ?z = Inr (pack_pairs ?z)"
    using ok assms(3,4) by (auto simp: pack_u4_Inr_iff mult.commute [of gc] simp flip: length_0_conv)
  have u: "unpack_u4 (pack_pairs ?z) (int (oc * gc)) = Inr (map word_of_int ?z)"
    using ok assms(3) by (intro unpack_packed) (simp_all add: mult.commute [of gc])
  have at: "g * oc + oo < gc * oc \<and> oo * gc + g < oc * gc" if "g < gc" "oo < oc" for g oo
    using that by (simp add: row_major_bound)
  have "half_value (uint (?s ! (g * oc + oo))) = Some (f16 (f32 (scales ! (oo * gc + g)))) \<and>
       map word_of_int ?z ! (g * oc + oo) = word_of_int (zps ! (oo * gc + g))" if "g < gc" "oo < oc" for g oo
  proof -
    have "\<bar>f16 (f32 (scales ! (oo * gc + g)))\<bar> < 65536" using assms(1,6) at [OF that] by auto
    then show ?thesis using at [OF that] assms(1) that by (simp add: transpose_flat_nth half_bits_value)
  qed
  then show ?thesis using z u
    by (auto simp: transpose_scale_zp_to_device_def transpose_scale_to_device_def transpose_zp_to_device_def Let_def mult.commute [of gc])
qed

theorem sidecar_device_order_witness:
  "\<exists>s z codes.
    transpose_scale_zp_to_device \<lparr>dims = [2, 1], dtype = ''float32'', flat = [0, 0]\<rparr> \<lparr>dims = [2, 1], dtype = ''uint8'', flat = [3, 9]\<rparr> =
      Inr (s, z) \<and> unpack_u4 z 2 = Inr codes \<and> codes ! 1 = 9"
  using sidecar_device_order [of "[0, 0]" 2 1 "[3, 9]"] by (auto simp: f16_def f32_def code_ok_def)

text \<open>C17. A seed file that the census selector writes in layer-key space is read back by \<open>load_pinned\<close>, given the same
  layer keys, as exactly the hot set it was written from, keyed by layer index.\<close>

theorem seed_file_pins_hot_set:
  assumes "seed_text hot keys = Inr seed" and "keys \<noteq> []" and "distinct (map fst keys)" and "distinct (map fst hot)"
  shows "load_pinned json_loads seed (Some (map (\<lambda>(i, k). (py_str i, k)) keys)) =
    Inr (map (\<lambda>l. (LayerIndex l, dict_get hot l [])) (sort (map fst hot)))"
  using assms by (rule load_seed)

theorem seed_file_pins_hot_set_witness:
  "\<exists>seed. seed_text [(2, [7, 3]), (0, [1])] [(0, 11), (2, 13)] = Inr seed \<and>
     load_pinned (\<lambda>_. Inr []) seed (Some (map (\<lambda>(i, k). (py_str i, k)) [(0, 11), (2, 13)])) =
       Inr [(LayerIndex 0, [1]), (LayerIndex 2, [7, 3])]"
proof -
  obtain seed where s: "seed_text [(2, [7, 3]), (0, [1])] [(0, 11), (2, 13)] = Inr seed"
    by (simp add: seed_text_def sort_key_def)
  from seed_file_pins_hot_set [OF s, of "\<lambda>_. Inr []"] s show ?thesis by (simp add: dict_get_def)
qed

text \<open>The static partition that the store rebuilds for pinning is, for every seed, layer key, number of experts and
  capacity that is not negative, the incumbent partition of the policy comparison.\<close>

theorem static_partition_is_incumbent:
  assumes "0 \<le> capacity"
  shows "static_partition_resident_experts seed layer_key num_expert capacity =
    static_set_splitmix64 layer_key capacity num_expert seed"
  using assms by (rule static_partition_eq)

theorem static_partition_is_incumbent_witness:
  "static_partition_resident_experts 5 1 4 2 = static_set_splitmix64 1 2 4 5"
  using static_partition_is_incumbent [of 2 5 1 4] by simp

text \<open>A seed file in layer-index space, which the census writes when it has no layer keys, is accepted by
  \<open>load_pinned\<close> together with layer keys: the layer index 1 is silently taken for the layer key 1, and its hot set is
  pinned to another layer.\<close>

theorem layer_seed_misread:
  "rbind (seed_text [(1, [5])] []) (\<lambda>seed. load_pinned json_loads seed (Some [(''7'', 1)])) = Inr [(LayerIndex 7, [5])]"
  by (subst load_pinned_def) code_simp

end
