(* ===== verification/Ngram_Ids.thy ===== *)
theory Ngram_Ids
  imports Prelude Py_Text "HOL-Library.Word"
begin

unbundle bit_operations_syntax

text \<open>
  The producer of n-gram row ids, \<open>tools/q4e/ngram_ids.py\<close>: the 64-bit mixing of the tokens of a
  window that does not reach across an end-of-sequence token, reduced per head into the head's
  part of one table, and the split of global row ids into chunk and local ids.

  The multipliers and the primes come from the pinned reference package; the two functions are
  arguments of \<open>derive\<close>.
\<close>

definition MASK64 :: int where "MASK64 = 2 ^ 64 - 1"

definition s64 :: "int \<Rightarrow> int" where
  "s64 x = (let y = x AND MASK64 in if y \<ge> 2 ^ 63 then y - 2 ^ 64 else y)"

subsection \<open>Hash constants\<close>

text \<open>One head after the other: its size, and the rows of the heads before it as its offset.\<close>

fun derive_heads :: "(int \<Rightarrow> int \<Rightarrow> int res) \<Rightarrow> int \<Rightarrow> int \<Rightarrow> int \<Rightarrow> nat list \<Rightarrow> int list \<times> int list \<times> int \<Rightarrow>
    (int list \<times> int list) res" where
  "derive_heads find_nth_prime_after base ple_idx nh [] (sizes, offs, tot) = Inr (sizes, offs)"
| "derive_heads find_nth_prime_after base ple_idx nh (h # hs) (sizes, offs, tot) =
     rbind (find_nth_prime_after (base - 1) (ple_idx * nh + int h + 1)) (\<lambda>sz.
     derive_heads find_nth_prime_after base ple_idx nh hs (sizes @ [sz], offs @ [tot], tot + sz))"

definition derive ::
    "(int \<Rightarrow> int \<Rightarrow> int \<Rightarrow> int \<Rightarrow> int list res) \<Rightarrow> (int \<Rightarrow> int \<Rightarrow> int res) \<Rightarrow>
      int \<Rightarrow> int \<Rightarrow> int \<Rightarrow> int \<Rightarrow> int \<Rightarrow> int \<Rightarrow> (int list \<times> int list \<times> int list) res" where
  "derive build_layer_multipliers find_nth_prime_after vocab_size ngram_size heads_per_ngram base ple_idx seed =
     (let nh = (ngram_size - 1) * heads_per_ngram in
      rbind (build_layer_multipliers vocab_size ngram_size ple_idx seed) (\<lambda>mults.
      rbind (derive_heads find_nth_prime_after base ple_idx nh [0..<nat nh] ([], [], 0)) (\<lambda>(sizes, offs).
      Inr (mults, sizes, offs))))"

subsection \<open>Row ids\<close>

text \<open>\<open>prev[p]\<close>: the last position before \<open>p\<close> that holds the end-of-sequence token, or -1.\<close>

fun prev_eos :: "int \<Rightarrow> nat \<Rightarrow> int \<Rightarrow> int list \<Rightarrow> int list" where
  "prev_eos eos p lst [] = []"
| "prev_eos eos p lst (t # ts) = lst # prev_eos eos (p + 1) (if t = eos then int p else lst) ts"

definition in_seg :: "int \<Rightarrow> int list \<Rightarrow> int list" where
  "in_seg eos packed =
     map2 (\<lambda>p prev. int p - prev - 1) [0..<length packed] (prev_eos eos 0 (- 1) packed)"

definition shift_row :: "int \<Rightarrow> int list \<Rightarrow> nat \<Rightarrow> int list" where
  "shift_row eos packed s =
     (let seg = in_seg eos packed
      in map (\<lambda>p. if s \<le> p \<and> int s \<le> seg ! p then packed ! (p - s) else eos) [0..<length packed])"

definition shifted :: "int \<Rightarrow> int \<Rightarrow> int list \<Rightarrow> int list list" where
  "shifted ng eos packed = packed # map (shift_row eos packed) [1..<nat ng]"

fun mix_loop :: "int list \<Rightarrow> int list list \<Rightarrow> nat \<Rightarrow> int list \<Rightarrow> int \<Rightarrow> int res" where
  "mix_loop mults per i [] mixed = Inr mixed"
| "mix_loop mults per i (pos # ps) mixed =
     rbind (py_index per pos) (\<lambda>r.
     rbind (py_index r (int i)) (\<lambda>t.
     rbind (py_index mults pos) (\<lambda>k.
     mix_loop mults per i ps (s64 ((mixed AND MASK64) XOR (s64 (t * k) AND MASK64))))))"

definition mixed_of :: "int list \<Rightarrow> int list list \<Rightarrow> nat \<Rightarrow> int \<Rightarrow> int res" where
  "mixed_of mults per i n =
     rbind (py_index per 0) (\<lambda>r.
     rbind (py_index r (int i)) (\<lambda>t.
     rbind (py_index mults 0) (\<lambda>k.
     mix_loop mults per i [1..n - 1] (s64 (t * k)))))"

definition head_id :: "int list \<Rightarrow> int list \<Rightarrow> int \<Rightarrow> int \<Rightarrow> int res" where
  "head_id sizes offs mixed h =
     rbind (py_index sizes h) (\<lambda>sz.
     if sz = 0 then Inl ZeroDivision
     else rbind (py_index offs h) (\<lambda>off. Inr (mixed mod sz + off)))"

definition ngram_heads ::
    "int list \<Rightarrow> int list \<Rightarrow> int list \<Rightarrow> int \<Rightarrow> int list list \<Rightarrow> nat \<Rightarrow> int \<Rightarrow> int list res" where
  "ngram_heads mults sizes offs hpn per i n =
     (let st = (n - 2) * hpn in
      rbind (mixed_of mults per i n) (\<lambda>mixed. map_res (head_id sizes offs mixed) [st..st + hpn - 1]))"

definition token_heads ::
    "int list \<Rightarrow> int list \<Rightarrow> int list \<Rightarrow> int \<Rightarrow> int \<Rightarrow> int list list \<Rightarrow> nat \<Rightarrow> int list res" where
  "token_heads mults sizes offs ng hpn per i =
     rbind (map_res (ngram_heads mults sizes offs hpn per i) [2..ng]) (\<lambda>hs. Inr (concat hs))"

definition row_ids ::
    "int list \<Rightarrow> int list \<Rightarrow> int list \<Rightarrow> int \<Rightarrow> int \<Rightarrow> int \<Rightarrow> int list \<Rightarrow> int list \<Rightarrow> int list list res" where
  "row_ids mults sizes offs ng hpn eos context tokens =
     (let ctx = ng - 1; packed = context @ tokens in
      rbind (map_res (\<lambda>r. map_res (\<lambda>i. py_index r (ctx + int i)) [0..<length tokens]) (shifted ng eos packed)) (\<lambda>per.
      map_res (token_heads mults sizes offs ng hpn per) [0..<length tokens]))"

record ngram_config =
  cfg_vocab_size :: int
  cfg_ngram_size :: int
  cfg_heads_per_ngram :: int
  cfg_ngram_vocab_size_base :: int
  cfg_eos_token_id :: int
  cfg_ple_layer_ids :: "int list option"

definition is_i64 :: "int \<Rightarrow> bool" where
  "is_i64 x = (- (2 ^ 63) \<le> x \<and> x < 2 ^ 63)"

text \<open>The seed is the default of \<open>derive\<close>; the ids become an int64 array.\<close>

definition gen_row_ids ::
    "(int \<Rightarrow> int \<Rightarrow> int \<Rightarrow> int \<Rightarrow> int list res) \<Rightarrow> (int \<Rightarrow> int \<Rightarrow> int res) \<Rightarrow>
      ngram_config \<Rightarrow> int \<Rightarrow> int list \<Rightarrow> int list list res" where
  "gen_row_ids build_layer_multipliers find_nth_prime_after config ple_idx tokens =
     rbind (derive build_layer_multipliers find_nth_prime_after (cfg_vocab_size config) (cfg_ngram_size config)
              (cfg_heads_per_ngram config) (cfg_ngram_vocab_size_base config) ple_idx 1234) (\<lambda>(mults, sizes, offs).
     let eos = cfg_eos_token_id config; ctx = replicate (nat (cfg_ngram_size config - 1)) eos in
     rbind (row_ids mults sizes offs (cfg_ngram_size config) (cfg_heads_per_ngram config) eos ctx tokens) (\<lambda>rows.
     if list_all (list_all is_i64) rows then Inr rows else Inl OverflowErr))"

definition ple_ordinal :: "ngram_config \<Rightarrow> int \<Rightarrow> nat res" where
  "ple_ordinal config layer_idx =
     (let ids = (case cfg_ple_layer_ids config of None \<Rightarrow> [] | Some l \<Rightarrow> l)
      in if ids = [] then Inl ValueErr
         else if layer_idx + 1 \<in> set ids then Inr (length (takeWhile (\<lambda>x. x \<noteq> layer_idx + 1) ids))
         else Inl ValueErr)"

text \<open>
  numpy's integer division: zero where the divisor is zero, and wrapped into the element type. The
  chunk ids are then cut to 32 bits.
\<close>

definition np_div :: "int \<Rightarrow> int \<Rightarrow> int" where
  "np_div a b = (if b = 0 then 0 else s64 (a div b))"

definition np_mod :: "int \<Rightarrow> int \<Rightarrow> int" where
  "np_mod a b = (if b = 0 then 0 else a mod b)"

definition as_i32 :: "int \<Rightarrow> int" where
  "as_i32 x = (let y = x AND (2 ^ 32 - 1) in if y \<ge> 2 ^ 31 then y - 2 ^ 32 else y)"

definition split_by_partition :: "int list \<Rightarrow> int \<Rightarrow> (int list \<times> int list) res" where
  "split_by_partition global_ids per =
     (if \<not> list_all is_i64 (per # global_ids) then Inl OverflowErr
      else Inr (map (\<lambda>g. as_i32 (np_div g per)) global_ids, map (\<lambda>g. np_mod g per) global_ids))"

end
