(* ===== verification/Ngram_Facts.thy ===== *)
theory Ngram_Facts
  imports Ngram_Ids
begin

unbundle bit_operations_syntax

text \<open>
  Facts of the row-id producer: the token that a shifted row shows, the closed form of the row ids
  over it, its locality, the offsets and bounds of the heads, 64-bit wrap-around, and the partition
  of the table into chunks.
\<close>

subsection \<open>The shift\<close>

lemma length_prev_eos [simp]: "length (prev_eos eos p lst ts) = length ts"
  by (induction ts arbitrary: p lst) auto

lemma prev_eos_stay: "i < length ts \<Longrightarrow> eos \<notin> set (take i ts) \<Longrightarrow> prev_eos eos p lst ts ! i = lst"
proof (induction ts arbitrary: p lst i)
  case (Cons t ts)
  then show ?case by (cases i) auto
qed simp

lemma prev_eos_le_iff:
  assumes "i < length ts" "lst < int p" "d \<le> i"
  shows "prev_eos eos p lst ts ! i < int (p + d) \<longleftrightarrow> eos \<notin> set (take (i - d) (drop d ts)) "
  using assms
proof (induction ts arbitrary: p lst i d)
  case (Cons t ts)
  show ?case
  proof (cases i)
    case (Suc j)
    let ?l = "if t = eos then int p else lst"
    show ?thesis
    proof (cases d)
      case 0
      have j: "j < length ts" "?l < int (p + 1)" using Cons.prems Suc by auto
      show ?thesis
      proof (cases "eos \<in> set (take j ts)")
        case True
        then have "\<not> prev_eos eos (p + 1) ?l ts ! j < int (p + 1 + 0)" using Cons.IH [OF j, of 0] by auto
        then show ?thesis using 0 Suc True by auto
      next
        case False
        have "prev_eos eos (p + 1) ?l ts ! j = ?l" using False j(1)
          by (rule prev_eos_stay [rotated])
        then show ?thesis using 0 Suc False Cons.prems(2) by auto
      qed
    next
      case (Suc d')
      then show ?thesis using Cons.IH [of j ?l "p + 1" d'] Cons.prems \<open>i = Suc j\<close> by auto
    qed
  qed (use Cons.prems in auto)
qed simp

definition window_token :: "int \<Rightarrow> int list \<Rightarrow> nat \<Rightarrow> nat \<Rightarrow> int" where
  "window_token eos packed s p =
     (if s \<le> p \<and> eos \<notin> set (take s (drop (p - s) packed)) then packed ! (p - s) else eos)"

lemma shift_row_eq:
  assumes "p < length packed"
  shows "shift_row eos packed s ! p = window_token eos packed s p"
proof -
  have "int s \<le> in_seg eos packed ! p \<longleftrightarrow> eos \<notin> set (take s (drop (p - s) packed))" if "s \<le> p"
    using prev_eos_le_iff [of p packed "- 1" 0 "p - s" eos] assms that by (auto simp: in_seg_def)
  then show ?thesis using assms by (auto simp: shift_row_def window_token_def)
qed

lemma shifted_eq:
  assumes "s < max 1 (nat ng)" "p < length packed"
  shows "shifted ng eos packed ! s ! p = window_token eos packed s p"
proof (cases s)
  case 0
  then show ?thesis by (simp add: shifted_def window_token_def)
next
  case (Suc k)
  then have "shifted ng eos packed ! s = shift_row eos packed s" using assms(1) by (simp add: shifted_def)
  then show ?thesis using assms(2) by (simp add: shift_row_eq)
qed

lemma length_shifted: "length (shifted ng eos packed) = max 1 (nat ng)"
  by (simp add: shifted_def)

subsection \<open>Closed form\<close>

definition mix_step :: "int list \<Rightarrow> int \<Rightarrow> int list \<Rightarrow> nat \<Rightarrow> int \<Rightarrow> nat \<Rightarrow> int" where
  "mix_step mults eos packed p m s =
     s64 ((m AND MASK64) XOR (s64 (window_token eos packed s p * mults ! s) AND MASK64))"

definition mix :: "int list \<Rightarrow> int \<Rightarrow> int list \<Rightarrow> nat \<Rightarrow> nat \<Rightarrow> int" where
  "mix mults eos packed n p = foldl (mix_step mults eos packed p) (s64 (packed ! p * mults ! 0)) [1..<n]"

definition ids_at :: "int list \<Rightarrow> int list \<Rightarrow> int list \<Rightarrow> nat \<Rightarrow> nat \<Rightarrow> int \<Rightarrow> int list \<Rightarrow> nat \<Rightarrow> int list" where
  "ids_at mults sizes offs ng hpn eos packed p =
     concat (map (\<lambda>n. map (\<lambda>h. mix mults eos packed n p mod sizes ! h + offs ! h) [(n - 2) * hpn..<(n - 1) * hpn]) [2..<Suc ng])"

definition hash_ok :: "nat \<Rightarrow> nat \<Rightarrow> int list \<Rightarrow> int list \<Rightarrow> int list \<Rightarrow> bool" where
  "hash_ok ng hpn mults sizes offs \<longleftrightarrow>
     ng \<le> length mults \<and> length sizes = (ng - 1) * hpn \<and> length offs = (ng - 1) * hpn \<and> list_all (\<lambda>x. 0 < x) sizes"

lemma py_index_nat: "i < length xs \<Longrightarrow> py_index xs (int i) = Inr (xs ! i)"
  by (simp add: py_index_def)

lemma upto_map_int: "[int a..int b - 1] = map int [a..<b]"
proof (cases "a \<le> b")
  case True
  then show ?thesis
    by (induction b rule: dec_induct) (simp_all add: upto_rec2 [of "int a"])
qed simp

lemma map_res_map: "map_res f (map g xs) = map_res (f \<circ> g) xs"
  by (induction xs) simp_all

definition per_rows :: "nat \<Rightarrow> int \<Rightarrow> int list \<Rightarrow> nat \<Rightarrow> int list list" where
  "per_rows ng eos packed k = map (\<lambda>s. map (\<lambda>i. window_token eos packed s (ng - 1 + i)) [0..<k]) [0..<ng]"

lemma per_rows_eq:
  assumes "1 \<le> ng" "ng - 1 + k \<le> length packed"
  shows "map_res (\<lambda>r. map_res (\<lambda>i. py_index r (int ng - 1 + int i)) [0..<k]) (shifted (int ng) eos packed) =
    Inr (per_rows ng eos packed k)"
proof -
  have row: "map_res (\<lambda>i. py_index r (int ng - 1 + int i)) [0..<k] = Inr (map (\<lambda>i. r ! (ng - 1 + i)) [0..<k])"
    if len: "length r = length packed" for r
  proof (rule map_res_Inr_map)
    show "py_index r (int ng - 1 + int i) = Inr (r ! (ng - 1 + i))" if "i \<in> set [0..<k]" for i
    proof -
      have "int ng - 1 + int i = int (ng - 1 + i)" using assms(1) by simp
      moreover have "ng - 1 + i < length r" using that assms len by simp
      ultimately show ?thesis by (metis py_index_nat)
    qed
  qed
  have len: "length r = length packed" if "r \<in> set (shifted (int ng) eos packed)" for r
    using that by (auto simp: shifted_def shift_row_def)
  have "map_res (\<lambda>r. map_res (\<lambda>i. py_index r (int ng - 1 + int i)) [0..<k]) (shifted (int ng) eos packed) =
      Inr (map (\<lambda>r. map (\<lambda>i. r ! (ng - 1 + i)) [0..<k]) (shifted (int ng) eos packed))"
    by (rule map_res_Inr_map) (simp add: row len)
  also have "map (\<lambda>r. map (\<lambda>i. r ! (ng - 1 + i)) [0..<k]) (shifted (int ng) eos packed) = per_rows ng eos packed k"
    using assms by (intro nth_equalityI) (simp_all add: per_rows_def length_shifted shifted_eq)
  finally show ?thesis .
qed

lemma per_rows_at:
  assumes "s < ng" "i < k"
  shows "py_index (per_rows ng eos packed k) (int s) = Inr (per_rows ng eos packed k ! s)"
    "py_index (per_rows ng eos packed k ! s) (int i) = Inr (window_token eos packed s (ng - 1 + i))"
  using assms by (simp_all add: per_rows_def py_index_nat)

lemma mix_loop_eq:
  assumes "list_all (\<lambda>s. s < ng) ps" "i < k" "ng \<le> length mults"
  shows "mix_loop mults (per_rows ng eos packed k) i (map int ps) m =
    Inr (foldl (mix_step mults eos packed (ng - 1 + i)) m ps)"
  using assms(1)
proof (induction ps arbitrary: m)
  case (Cons s ps)
  then show ?case using assms(2,3) by (simp add: per_rows_at py_index_nat mix_step_def)
qed simp

lemma mixed_of_eq:
  assumes "1 \<le> n" "n \<le> ng" "i < k" "ng \<le> length mults"
  shows "mixed_of mults (per_rows ng eos packed k) i (int n) = Inr (mix mults eos packed n (ng - 1 + i))"
proof -
  have u: "[1..int n - 1] = map int [1..<n]" using upto_map_int [of 1 n] by simp
  have "py_index mults 0 = Inr (mults ! 0)" using assms py_index_nat [of 0 mults] by (cases mults) auto
  then show ?thesis
    using assms per_rows_at [of 0 ng i k eos packed] mix_loop_eq [of ng "[1..<n]" i k mults eos packed]
    by (simp add: mixed_of_def u mix_def list_all_iff  window_token_def)
qed

lemma head_id_eq:
  assumes "h < length sizes" "length offs = length sizes" "list_all (\<lambda>x. 0 < x) sizes"
  shows "head_id sizes offs m (int h) = Inr (m mod sizes ! h + offs ! h)"
proof -
  have "0 < sizes ! h" using assms by (simp add: list_all_length)
  then show ?thesis using assms by (simp add: head_id_def py_index_nat)
qed

lemma ngram_heads_eq:
  assumes ok: "hash_ok ng hpn mults sizes offs" and n: "2 \<le> n" "n \<le> ng" and i: "i < k"
  shows "ngram_heads mults sizes offs (int hpn) (per_rows ng eos packed k) i (int n) =
    Inr (map (\<lambda>h. mix mults eos packed n (ng - 1 + i) mod sizes ! h + offs ! h) [(n - 2) * hpn..<(n - 1) * hpn])"
proof -
  have m: "mixed_of mults (per_rows ng eos packed k) i (int n) = Inr (mix mults eos packed n (ng - 1 + i))"
    by (rule mixed_of_eq) (use assms in \<open>auto simp: hash_ok_def\<close>)
  have st: "(int n - 2) * int hpn = int ((n - 2) * hpn)" using n by (simp add: of_nat_diff)
  have "(n - 1) * hpn = (n - 2) * hpn + hpn" using n by (metis Suc_diff_le add.commute diff_Suc_Suc mult_Suc numeral_2_eq_2 One_nat_def)
  then have u: "[(int n - 2) * int hpn..(int n - 2) * int hpn + int hpn - 1] = map int [(n - 2) * hpn..<(n - 1) * hpn]"
    using upto_map_int [of "(n - 2) * hpn" "(n - 1) * hpn"] unfolding st by simp
  have "(n - 1) * hpn \<le> (ng - 1) * hpn" using n by (intro mult_right_mono) auto
  then have "h < length sizes" if "h < (n - 1) * hpn" for h
    using ok that unfolding hash_ok_def by linarith
  then show ?thesis using ok m
    by (simp add: ngram_heads_def Let_def u map_res_map) (rule map_res_Inr_map, auto simp: head_id_eq hash_ok_def)
qed

lemma row_ids_eq:
  assumes ok: "hash_ok ng hpn mults sizes offs" and ng: "1 \<le> ng" "ng - 1 \<le> length context"
  shows "row_ids mults sizes offs (int ng) (int hpn) eos context tokens =
    Inr (map (\<lambda>i. ids_at mults sizes offs ng hpn eos (context @ tokens) (ng - 1 + i)) [0..<length tokens])"
proof -
  let ?per = "per_rows ng eos (context @ tokens) (length tokens)"
  have u: "[2..int ng] = map int [2..<Suc ng]" using upto_map_int [of 2 "Suc ng"] by simp
  have "token_heads mults sizes offs (int ng) (int hpn) ?per i = Inr (ids_at mults sizes offs ng hpn eos (context @ tokens) (ng - 1 + i))"
    if i: "i < length tokens" for i
  proof -
    have "map_res (ngram_heads mults sizes offs (int hpn) ?per i) [2..int ng] =
      Inr (map (\<lambda>n. map (\<lambda>h. mix mults eos (context @ tokens) n (ng - 1 + i) mod sizes ! h + offs ! h) [(n - 2) * hpn..<(n - 1) * hpn]) [2..<Suc ng])"
      unfolding u map_res_map by (rule map_res_Inr_map) (use ok i ngram_heads_eq in auto)
    then show ?thesis by (simp add: token_heads_def ids_at_def)
  qed
  then show ?thesis using per_rows_eq [OF ng(1), of "length tokens" "context @ tokens" eos] ng
    by (simp add: row_ids_def Let_def) (rule map_res_Inr_map, simp)
qed

subsection \<open>Consequences\<close>

lemma window_token_append:
  assumes "p < length packed"
  shows "window_token eos (packed @ rest) s p = window_token eos packed s p"
  using assms by (auto simp: window_token_def nth_append)

lemma window_token_drop:
  assumes "s \<le> p" "a + p < length packed"
  shows "window_token eos (drop a packed) s p = window_token eos packed s (a + p)"
  using assms by (auto simp: window_token_def add.commute)

lemma mix_cong:
  assumes "packed ! p = packed' ! p'" "\<And>s. s < n \<Longrightarrow> window_token eos packed s p = window_token eos packed' s p'"
  shows "mix mults eos packed n p = mix mults eos packed' n p'"
  unfolding mix_def assms(1) by (rule foldl_cong) (auto simp: mix_step_def assms(2))

lemma ids_at_cong:
  assumes "packed ! p = packed' ! p'" "\<And>s. s < ng \<Longrightarrow> window_token eos packed s p = window_token eos packed' s p'"
  shows "ids_at mults sizes offs ng hpn eos packed p = ids_at mults sizes offs ng hpn eos packed' p'"
  unfolding ids_at_def
  by (intro arg_cong [where f = concat] map_cong refl) (auto intro!: arg_cong2 [where f = "(mod)"] arg_cong2 [where f = "(+)"] mix_cong assms)

lemma row_ids_append:
  assumes ok: "hash_ok ng hpn mults sizes offs" and ng: "1 \<le> ng" "length context = ng - 1"
  shows "row_ids mults sizes offs (int ng) (int hpn) eos context (a @ b) =
    rbind (row_ids mults sizes offs (int ng) (int hpn) eos context a) (\<lambda>x.
    rbind (row_ids mults sizes offs (int ng) (int hpn) eos (drop (length a) (context @ a)) b) (\<lambda>y. Inr (x @ y)))"
proof -
  let ?ids = "ids_at mults sizes offs ng hpn eos"
  have l: "length (drop (length a) (context @ a)) = ng - 1" using ng by simp
  have up: "map f [0..<length a + length b] = map f [0..<length a] @ map (\<lambda>j. f (length a + j)) [0..<length b]" for f :: "nat \<Rightarrow> int list"
    by (rule nth_equalityI) (auto simp: nth_append)
  have first: "?ids (context @ a @ b) (ng - 1 + i) = ?ids (context @ a) (ng - 1 + i)" if "i < length a" for i
  proof (rule ids_at_cong)
    have p: "ng - 1 + i < length (context @ a)" using that ng by simp
    then show "(context @ a @ b) ! (ng - 1 + i) = (context @ a) ! (ng - 1 + i)" by (metis append_assoc nth_append)
    show "window_token eos (context @ a @ b) s (ng - 1 + i) = window_token eos (context @ a) s (ng - 1 + i)" for s
      using window_token_append [OF p, of eos b] by simp
  qed
  have second: "?ids (context @ a @ b) (ng - 1 + (length a + j)) = ?ids (drop (length a) (context @ a) @ b) (ng - 1 + j)"
    if "j < length b" for j
  proof -
    have d: "drop (length a) (context @ a) @ b = drop (length a) (context @ a @ b)" by simp
    have p: "ng - 1 + (length a + j) = length a + (ng - 1 + j)" by simp
    show ?thesis unfolding d p
      using that ng window_token_drop [of _ "ng - 1 + j" "length a" "context @ a @ b" eos]
      by (intro ids_at_cong) (simp_all del: drop_append)
  qed
  show ?thesis unfolding row_ids_eq [OF ok ng(1) eq_refl [OF ng(2) [symmetric]]] row_ids_eq [OF ok ng(1) eq_refl [OF l [symmetric]]]
    using first second by (simp add: up)
qed

subsection \<open>Offsets and bounds\<close>

definition offsets_of :: "int list \<Rightarrow> int list" where
  "offsets_of sizes = map (\<lambda>h. sum_list (take h sizes)) [0..<length sizes]"

lemma offsets_of_snoc: "offsets_of (sizes @ [x]) = offsets_of sizes @ [sum_list sizes]"
  by (simp add: offsets_of_def)

lemma derive_heads_spec:
  assumes "derive_heads prime base ple nh hs (sizes, offs, tot) = Inr (sizes', offs')"
    and "offs = offsets_of sizes" "tot = sum_list sizes"
  shows "offs' = offsets_of sizes' \<and> length sizes' = length sizes + length hs"
  using assms
proof (induction hs arbitrary: sizes offs tot)
  case (Cons h hs)
  then obtain sz where "derive_heads prime base ple nh hs (sizes @ [sz], offs @ [tot], tot + sz) = Inr (sizes', offs')"
    by (auto simp: res_simps)
  from Cons.IH [OF this] Cons.prems show ?case by (simp add: offsets_of_snoc)
qed simp

lemma derive_spec:
  assumes "derive muls prime v ng hpn base ple seed = Inr (mults, sizes, offs)"
  shows "offs = offsets_of sizes \<and> length sizes = nat ((ng - 1) * hpn)"
proof -
  have "derive_heads prime base ple ((ng - 1) * hpn) [0..<nat ((ng - 1) * hpn)] ([], [], 0) = Inr (sizes, offs)"
    using assms by (auto simp: derive_def Let_def res_simps)
  from derive_heads_spec [OF this] show ?thesis by (simp add: offsets_of_def)
qed

lemma sum_list_nonneg_list: "list_all (\<lambda>x. 0 < x) xs \<Longrightarrow> 0 \<le> sum_list (xs :: int list)"
  by (induction xs) auto

lemma offsets_bounds:
  assumes "list_all (\<lambda>x. 0 < x) sizes" "h < length sizes"
  shows "0 \<le> offsets_of sizes ! h \<and> offsets_of sizes ! h + sizes ! h \<le> sum_list sizes"
proof -
  have all: "list_all (\<lambda>x. 0 < x) (take h sizes)" "list_all (\<lambda>x. 0 < x) (drop (Suc h) sizes)"
    using assms(1) by (auto simp: list_all_iff dest: in_set_takeD in_set_dropD)
  have "sum_list sizes = sum_list (take h sizes @ sizes ! h # drop (Suc h) sizes)"
    using id_take_nth_drop [OF assms(2)] by simp
  then show ?thesis using assms(2) all [THEN sum_list_nonneg_list] by (simp add: offsets_of_def)
qed

lemma length_ids_at: "length (ids_at mults sizes offs ng hpn eos packed p) = (ng - 1) * hpn"
proof -
  have "sum_list (map (\<lambda>n. (n - 1) * hpn - (n - 2) * hpn) [2..<Suc ng]) = (ng - 1) * hpn"
  proof (induction ng)
    case (Suc k)
    then show ?case by (cases "k = 0"; cases "k = 1") (auto simp: algebra_simps simp flip: diff_mult_distrib)
  qed simp
  then show ?thesis by (simp add: ids_at_def length_concat o_def)
qed

lemma ids_at_Suc:
  "2 \<le> Suc ng \<Longrightarrow> ids_at mults sizes offs (Suc ng) hpn eos packed p = ids_at mults sizes offs ng hpn eos packed p @
     map (\<lambda>h. mix mults eos packed (Suc ng) p mod sizes ! h + offs ! h) [(ng - 1) * hpn..<ng * hpn]"
  by (simp add: ids_at_def)

lemma ids_at_nth:
  assumes "h < (ng - 1) * hpn"
  shows "\<exists>m. ids_at mults sizes offs ng hpn eos packed p ! h = m mod sizes ! h + offs ! h"
  using assms
proof (induction ng)
  case (Suc ng)
  then have "2 \<le> Suc ng" by (cases ng) auto
  note s = ids_at_Suc [OF this]
  show ?case
  proof (cases "h < (ng - 1) * hpn")
    case True
    then show ?thesis using Suc.IH by (simp add: s nth_append length_ids_at)
  next
    case False
    then have "(ng - 1) * hpn + (h - (ng - 1) * hpn) = h" by simp
    then show ?thesis using False Suc.prems by (auto simp: s nth_append length_ids_at)
  qed
qed simp

lemma ids_in_head:
  assumes "hash_ok ng hpn mults sizes offs" "offs = offsets_of sizes" "h < (ng - 1) * hpn"
  shows "let v = ids_at mults sizes offs ng hpn eos packed p ! h
    in 0 \<le> v \<and> offs ! h \<le> v \<and> v < offs ! h + sizes ! h \<and> offs ! h + sizes ! h \<le> sum_list sizes"
proof -
  obtain m where m: "ids_at mults sizes offs ng hpn eos packed p ! h = m mod sizes ! h + offs ! h"
    using ids_at_nth [OF assms(3)] by blast
  have h: "h < length sizes" "list_all (\<lambda>x. 0 < x) sizes" using assms by (auto simp: hash_ok_def)
  then have "0 < sizes ! h" by (simp add: list_all_length)
  then have "0 \<le> m mod sizes ! h" "m mod sizes ! h < sizes ! h" by simp_all
  then show ?thesis using offsets_bounds [OF h(2,1)] assms(2) m by (simp add: Let_def)
qed

subsection \<open>Words\<close>

lemma MASK64_take_bit: "x AND MASK64 = take_bit 64 x"
  by (simp add: MASK64_def take_bit_eq_mask mask_eq_exp_minus_1)

lemma s64_small: "0 \<le> x \<Longrightarrow> x < 2 ^ 63 \<Longrightarrow> s64 x = x"
  by (simp add: s64_def MASK64_take_bit take_bit_int_eq_self Let_def)

lemma s64_signed: "s64 x = signed_take_bit 63 x"
proof -
  define y where "y = x mod 2 ^ 64"
  have y: "0 \<le> y" "y < 2 ^ 64" by (simp_all add: y_def)
  have "(x + 2 ^ 63) mod 2 ^ 64 = (y + 2 ^ 63) mod 2 ^ 64" by (simp only: y_def mod_add_left_eq)
  also have "\<dots> = (if y \<ge> 2 ^ 63 then y - 2 ^ 63 else y + 2 ^ 63)"
  proof (cases "y \<ge> 2 ^ 63")
    case True
    have "y + 2 ^ 63 = (y - 2 ^ 63) + 2 ^ 64" by simp
    then have "(y + 2 ^ 63) mod 2 ^ 64 = (y - 2 ^ 63) mod 2 ^ 64" by (simp only: mod_add_self2)
    also have "\<dots> = y - 2 ^ 63" using True y by (intro mod_pos_pos_trivial) auto
    finally show ?thesis using True by simp
  next
    case False
    then show ?thesis using y by (simp add: mod_pos_pos_trivial)
  qed
  finally have "signed_take_bit 63 x = (if y \<ge> 2 ^ 63 then y - 2 ^ 63 else y + 2 ^ 63) - 2 ^ 63"
    by (simp add: signed_take_bit_eq_take_bit_shift take_bit_eq_mod)
  then show ?thesis by (simp add: s64_def MASK64_take_bit take_bit_eq_mod y_def Let_def)
qed

lemma s64_word: "s64 x = sint (word_of_int x :: 64 word)"
  by (simp add: s64_signed sint_sbintrunc')

lemma mix_word: "s64 ((s64 a AND MASK64) XOR (s64 b AND MASK64)) = sint ((word_of_int a :: 64 word) XOR word_of_int b)"
proof -
  have "word_of_int (take_bit 64 (sint w)) = w" for w :: "64 word"
    by (simp add: of_int_take_bit take_bit_word_eq_self)
  then show ?thesis by (simp add: s64_word MASK64_take_bit of_int_xor_eq)
qed

lemma xor_small:
  fixes a b :: int
  assumes "0 \<le> a" "a < 2 ^ 63" "0 \<le> b" "b < 2 ^ 63"
  shows "0 \<le> a XOR b \<and> a XOR b < 2 ^ 63"
  using assms XOR_upper [of a 63 b] by simp

lemma mix_loop_small:
  assumes "mix_loop mults per i ps m = Inr m'" "0 \<le> m" "m < 2 ^ 63"
    and "\<And>r t k. r \<in> set per \<Longrightarrow> t \<in> set r \<Longrightarrow> k \<in> set mults \<Longrightarrow> 0 \<le> t * k \<and> t * k < 2 ^ 63"
  shows "0 \<le> m' \<and> m' < 2 ^ 63"
  using assms(1-3)
proof (induction ps arbitrary: m)
  case (Cons pos ps)
  obtain r t k where x: "py_index per pos = Inr r" "py_index r (int i) = Inr t" "py_index mults pos = Inr k"
    "mix_loop mults per i ps (s64 ((m AND MASK64) XOR (s64 (t * k) AND MASK64))) = Inr m'"
    using Cons.prems(1) by (auto simp: res_simps)
  have "r \<in> set per" "t \<in> set r" "k \<in> set mults"
    using x(1-3) by (auto simp: py_index_def split: if_splits)
  then have tk: "0 \<le> t * k" "t * k < 2 ^ 63" using assms(4) by auto
  then have "(m AND MASK64) XOR (s64 (t * k) AND MASK64) = m XOR (t * k)"
    using Cons.prems by (simp add: s64_small MASK64_take_bit take_bit_int_eq_self)
  moreover have "0 \<le> m XOR (t * k)" "m XOR (t * k) < 2 ^ 63"
    using xor_small [OF Cons.prems(2,3) tk] by auto
  ultimately show ?case using Cons.IH [OF x(4)] by (simp add: s64_small)
qed simp

subsection \<open>The partition\<close>

lemma as_i32_small: "0 \<le> x \<Longrightarrow> x < 2 ^ 31 \<Longrightarrow> as_i32 x = x"
proof -
  assume x: "0 \<le> x" "x < 2 ^ 31"
  have "x AND (2 ^ 32 - 1) = take_bit 32 x" by (simp add: take_bit_eq_mask mask_eq_exp_minus_1)
  then show ?thesis using x by (simp add: as_i32_def take_bit_int_eq_self Let_def)
qed

lemma np_div_small:
  assumes "0 < b" "0 \<le> a" "a < 2 ^ 31 * b" "is_i64 b"
  shows "as_i32 (np_div a b) = a div b \<and> 0 \<le> a div b \<and> a div b < 2 ^ 31"
proof -
  have "\<not> 2 ^ 31 \<le> a div b"
  proof
    assume "2 ^ 31 \<le> a div b"
    then have "2 ^ 31 * b \<le> a div b * b" using assms(1) by (intro mult_right_mono) auto
    moreover have "a div b * b \<le> a" using assms(1) div_mult_mod_eq [of a b] pos_mod_sign [of b a] by linarith
    ultimately show False using assms(3) by linarith
  qed
  then have q: "0 \<le> a div b" "a div b < 2 ^ 31"
    using assms by (simp_all add: pos_imp_zdiv_nonneg_iff)
  then show ?thesis using assms by (simp add: np_div_def s64_small as_i32_small)
qed

subsection \<open>The hash ordinal\<close>

lemma first_index:
  "x \<in> set ids \<Longrightarrow> length (takeWhile (\<lambda>y. y \<noteq> x) ids) = k \<longleftrightarrow> k < length ids \<and> ids ! k = x \<and> (\<forall>j < k. ids ! j \<noteq> x)"
proof (induction ids arbitrary: k)
  case (Cons y ids)
  show ?case
  proof (cases "y = x")
    case True
    then show ?thesis by (cases k) auto
  next
    case False
    then show ?thesis using Cons by (cases k) (simp_all add: All_less_Suc2)
  qed
qed simp

lemma ple_ordinal_spec:
  "ple_ordinal config l = Inr k \<longleftrightarrow>
     (\<exists>ids. cfg_ple_layer_ids config = Some ids \<and> k < length ids \<and> ids ! k = l + 1 \<and> (\<forall>j < k. ids ! j \<noteq> l + 1))"
proof (cases "cfg_ple_layer_ids config")
  case (Some ids)
  show ?thesis
  proof (cases "l + 1 \<in> set ids")
    case True
    then show ?thesis using Some first_index [OF True, of k] by (cases ids) (simp_all add: ple_ordinal_def Let_def)
  next
    case False
    then have "ids ! k \<noteq> l + 1" if "k < length ids" using that by (metis nth_mem)
    then show ?thesis using Some False by (auto simp: ple_ordinal_def Let_def)
  qed
qed (simp add: ple_ordinal_def)

end
