(* ===== verification/Ngram_Vectors.thy ===== *)
theory Ngram_Vectors
  imports Ngram_Ids
begin

unbundle bit_operations_syntax

text \<open>
  The generator of the row-id test vectors, \<open>tools/gen_ngram_vectors.py\<close>: its own transcription of
  the row ids, the fixtures, the C++ header it renders and the drift check of the committed header.

  Executing the sliced source text of the reference is an argument of the model; the slicing and
  the guards in front of it are modelled. A file is its text, or None when it does not exist.
\<close>

definition REF_COMMIT :: string where "REF_COMMIT = ''505477ab4429579e552adedd165f3cd6dbd40200''"

subsection \<open>The sliced reference\<close>

definition text_slice :: "string \<Rightarrow> nat \<Rightarrow> nat \<Rightarrow> string" where
  "text_slice s a b = take (b - a) (drop a s)"

type_synonym hash_derive = "int \<Rightarrow> int \<Rightarrow> int \<Rightarrow> int \<Rightarrow> int \<Rightarrow> (int list \<times> int list \<times> int list) res"

definition reference_region :: "string \<Rightarrow> string res" where
  "reference_region text =
     rbind (of_option ValueErr (index_of text ''_MASK64 = '')) (\<lambda>a.
     rbind (of_option ValueErr (index_of text ''_PLE_LAYER_PRIME = 10007'')) (\<lambda>b.
     rbind (of_option ValueErr (index_of text ''def _splitmix64'')) (\<lambda>c.
     rbind (of_option ValueErr (index_of text (''@dataclass'' @ [LF] @ ''class PLEMetadata''))) (\<lambda>d.
     let region = text_slice text a (b + length ''_PLE_LAYER_PRIME = 10007'') @ [LF, LF, LF] @ text_slice text c d in
     if \<not> list_all (contains region)
            [''_splitmix64'', ''_is_prime'', ''_nth_prime_after'', ''derive_ngram_hash_constants'']
     then Inl SystemExitErr
     else if contains region ''torch'' \<or> contains region ''Protocol'' then Inl SystemExitErr
     else Inr region))))"

definition load_reference_derive :: "(string \<Rightarrow> hash_derive res) \<Rightarrow> string option \<Rightarrow> hash_derive res" where
  "load_reference_derive exec_region ref_ple =
     (case ref_ple of
        None \<Rightarrow> Inl SystemExitErr
      | Some file \<Rightarrow> rbind (reference_region (newlines file)) exec_region)"

subsection \<open>Row ids\<close>

definition MASK64 :: int where "MASK64 = 2 ^ 64 - 1"

definition s64 :: "int \<Rightarrow> int" where
  "s64 x = (let y = x AND MASK64 in if y \<ge> 2 ^ 63 then y - 2 ^ 64 else y)"

fun prev_eos_loop :: "int \<Rightarrow> nat \<Rightarrow> int \<Rightarrow> int list \<Rightarrow> int list" where
  "prev_eos_loop eos p lst [] = []"
| "prev_eos_loop eos p lst (t # ts) = lst # prev_eos_loop eos (p + 1) (if t = eos then int p else lst) ts"

definition shift_ignore_eos :: "int list \<Rightarrow> int \<Rightarrow> int \<Rightarrow> int list list" where
  "shift_ignore_eos packed ngram_size eos =
     (let width = length packed;
          prev = prev_eos_loop eos 0 (- 1) packed;
          in_segment = map (\<lambda>p. int p - prev ! p - 1) [0..<width]
      in packed # map (\<lambda>s. map (\<lambda>p. if int p - int s \<ge> 0 \<and> in_segment ! p \<ge> int s then packed ! (p - s) else eos)
                        [0..<width]) [1..<nat ngram_size])"

fun mix_positions :: "int list \<Rightarrow> int list list \<Rightarrow> nat \<Rightarrow> int list \<Rightarrow> int \<Rightarrow> int res" where
  "mix_positions multipliers per_shift i [] mixed = Inr mixed"
| "mix_positions multipliers per_shift i (position # ps) mixed =
     rbind (rbind (py_index per_shift position) (\<lambda>r. py_index r (int i))) (\<lambda>t.
     rbind (py_index multipliers position) (\<lambda>k.
     let term' = s64 (t * k)
     in mix_positions multipliers per_shift i ps (s64 ((mixed AND MASK64) XOR (term' AND MASK64)))))"

definition ngram_row ::
    "int list \<Rightarrow> int list \<Rightarrow> int list \<Rightarrow> int \<Rightarrow> int list list \<Rightarrow> nat \<Rightarrow> int \<Rightarrow> int list res" where
  "ngram_row multipliers sizes offsets heads_per_ngram per_shift i ngram =
     (let start = (ngram - 2) * heads_per_ngram in
      rbind (rbind (py_index per_shift 0) (\<lambda>r. py_index r (int i))) (\<lambda>t.
      rbind (py_index multipliers 0) (\<lambda>k.
      rbind (mix_positions multipliers per_shift i [1..ngram - 1] (s64 (t * k))) (\<lambda>mixed.
      map_res (\<lambda>h.
        rbind (py_index sizes h) (\<lambda>size_h.
        if size_h = 0 then Inl ZeroDivision
        else rbind (py_index offsets h) (\<lambda>off. Inr (mixed mod size_h + off))))
        [start..start + heads_per_ngram - 1]))))"

definition row_ids ::
    "int list \<Rightarrow> int list \<Rightarrow> int list \<Rightarrow> int \<Rightarrow> int \<Rightarrow> int \<Rightarrow> int list \<Rightarrow> int list \<Rightarrow> int list list res" where
  "row_ids multipliers sizes offsets ngram_size heads_per_ngram eos context tokens =
     (let ctx_len = ngram_size - 1; packed = context @ tokens in
      if int (length context) \<noteq> ctx_len then Inl AssertionErr
      else
        rbind (map_res (\<lambda>row. map_res (\<lambda>i. py_index row (ctx_len + int i)) [0..<length tokens])
                 (shift_ignore_eos packed ngram_size eos)) (\<lambda>per_shift.
        map_res (\<lambda>i.
            rbind (map_res (ngram_row multipliers sizes offsets heads_per_ngram per_shift i) [2..ngram_size])
              (\<lambda>hs. Inr (concat hs))) [0..<length tokens]))"

subsection \<open>Fixtures\<close>

record fixture =
  fx_name :: string
  fx_vocab_size :: int
  fx_ngram_size :: int
  fx_heads_per_ngram :: int
  fx_base :: int
  fx_ple_layer_index :: int
  fx_eos :: int
  fx_context :: "int list"
  fx_tokens :: "int list"

definition FIXTURES :: "fixture list" where
  "FIXTURES =
     [\<lparr>fx_name = ''basic_2gram_only'', fx_vocab_size = 257, fx_ngram_size = 2, fx_heads_per_ngram = 3, fx_base = 17,
       fx_ple_layer_index = 1, fx_eos = 0, fx_context = [5], fx_tokens = [11, 12, 13, 14]\<rparr>,
      \<lparr>fx_name = ''trigram_no_eos'', fx_vocab_size = 257, fx_ngram_size = 3, fx_heads_per_ngram = 2, fx_base = 17,
       fx_ple_layer_index = 1, fx_eos = 0, fx_context = [7, 9], fx_tokens = [21, 22, 23, 24, 25]\<rparr>,
      \<lparr>fx_name = ''trigram_eos_midseq'', fx_vocab_size = 257, fx_ngram_size = 3, fx_heads_per_ngram = 2, fx_base = 17,
       fx_ple_layer_index = 2, fx_eos = 0, fx_context = [3, 4], fx_tokens = [31, 0, 33, 34]\<rparr>,
      \<lparr>fx_name = ''trigram_fresh_context'', fx_vocab_size = 257, fx_ngram_size = 3, fx_heads_per_ngram = 2, fx_base = 17,
       fx_ple_layer_index = 0, fx_eos = 0, fx_context = [0, 0], fx_tokens = [41, 42, 43]\<rparr>,
      \<lparr>fx_name = ''decode_single_token'', fx_vocab_size = 257, fx_ngram_size = 3, fx_heads_per_ngram = 4, fx_base = 17,
       fx_ple_layer_index = 1, fx_eos = 0, fx_context = [51, 52], fx_tokens = [53]\<rparr>,
      \<lparr>fx_name = ''qwen_scale_16head'', fx_vocab_size = 151936, fx_ngram_size = 3, fx_heads_per_ngram = 8, fx_base = 8209,
       fx_ple_layer_index = 3, fx_eos = 151643, fx_context = [151935, 151934], fx_tokens = [151935, 100000, 1]\<rparr>]"

record built =
  b_fx :: fixture
  b_num_heads :: int
  b_mult :: "int list"
  b_sizes :: "int list"
  b_offsets :: "int list"
  b_rows :: "int list list"
  b_total_rows :: int

definition build_one :: "hash_derive \<Rightarrow> fixture \<Rightarrow> built res" where
  "build_one derive_fn fx =
     (let num_heads = (fx_ngram_size fx - 1) * fx_heads_per_ngram fx in
      rbind (derive_fn (fx_vocab_size fx) (fx_ngram_size fx) num_heads (fx_base fx) (fx_ple_layer_index fx)) (\<lambda>(ms, sizes, offsets).
      rbind (row_ids ms sizes offsets (fx_ngram_size fx) (fx_heads_per_ngram fx) (fx_eos fx) (fx_context fx) (fx_tokens fx)) (\<lambda>rows.
      rbind (py_index offsets (- 1)) (\<lambda>lo.
      rbind (py_index sizes (- 1)) (\<lambda>ls.
      let total_rows = lo + ls in
      if \<not> list_all (list_all (\<lambda>v. 0 \<le> v \<and> v < total_rows)) rows then Inl AssertionErr
      else Inr \<lparr>b_fx = fx, b_num_heads = num_heads, b_mult = ms, b_sizes = sizes, b_offsets = offsets,
                b_rows = rows, b_total_rows = total_rows\<rparr>)))))"

definition build_fixtures :: "hash_derive \<Rightarrow> built list res" where
  "build_fixtures derive_fn = map_res (build_one derive_fn) FIXTURES"

subsection \<open>The header\<close>

definition comma_list :: "int list \<Rightarrow> string" where
  "comma_list xs = join '', '' (map py_str xs)"

definition i64_list :: "string \<Rightarrow> int list \<Rightarrow> string" where
  "i64_list name xs = ''    {'' @ comma_list xs @ ''}, // '' @ name"

definition header_start :: "string list" where
  "header_start =
     [''// GENERATED by tools/gen_ngram_vectors.py -- DO NOT EDIT BY HAND.'',
      ''//'',
      ''// FIX D Link 3 (docs/design-qwen-flash-next.md): ground-truth row_ids()'',
      ''// vectors for tests/test_ngram_row_ids.cpp. The per-head hash constants'',
      ''// (multipliers / vocab sizes / offsets) are produced by the FreeToken'',
      ''// reference's own derive_ngram_hash_constants (Apache-2.0, pinned commit'',
      ''// '' @ REF_COMMIT @ ''); the expected row ids are the'',
      ''// documented XOR-multiply mixing transcribed in the generator. Neither'',
      ''// is copied from the reference test suite (see the generator's header).'',
      ''//'',
      ''// Regenerate: python3 tools/gen_ngram_vectors.py   (needs the pinned'',
      ''// reference checkout; --check diffs without writing).'',
      ''#pragma once'',
      ''#include <cstdint>'',
      ''#include <vector>'',
      [],
      ''namespace lgc::ngram::test_vectors {'',
      [],
      ''struct RowIdsVector {'',
      ''    const char*          name;'',
      ''    int                  ngram_size;'',
      ''    int                  heads_per_ngram;'',
      ''    int64_t              eos_token_id;'',
      ''    std::vector<int64_t> layer_multipliers;       // [ngram_size]'',
      ''    std::vector<int64_t> ngram_heads_vocab_sizes;  // [num_ngram_heads]'',
      ''    std::vector<int64_t> ngram_heads_offsets;      // [num_ngram_heads]'',
      ''    std::vector<int64_t> context;                  // [ngram_size-1]'',
      ''    std::vector<int64_t> tokens;                   // [T]'',
      ''    int64_t              total_rows;               // global row-space size'',
      ''    std::vector<int64_t> expected_row_ids;         // row-major [T * num_ngram_heads]'',
      ''};'',
      [],
      ''inline std::vector<RowIdsVector> row_ids_vectors() {'',
      ''    return {'']"

definition header_end :: "string list" where
  "header_end =
     [''    };'',
      ''}'',
      [],
      ''}  // namespace lgc::ngram::test_vectors'',
      []]"

definition braced :: "int list \<Rightarrow> string" where
  "braced xs = ''            {'' @ comma_list xs @ ''},''"

definition render_built :: "built \<Rightarrow> string list" where
  "render_built b =
     (let fx = b_fx b in
      [''        RowIdsVector{'',
       ''            '' @ [CHR 0x22] @ fx_name fx @ [CHR 0x22] @ '','',
       ''            '' @ py_str (fx_ngram_size fx) @ '', '' @ py_str (fx_heads_per_ngram fx) @ '', '' @ py_str (fx_eos fx) @ '','',
       braced (b_mult b), braced (b_sizes b), braced (b_offsets b), braced (fx_context fx), braced (fx_tokens fx),
       ''            '' @ py_str (b_total_rows b) @ '','',
       braced (concat (b_rows b)),
       ''        },''])"

definition render_header :: "built list \<Rightarrow> string" where
  "render_header bs = join [LF] (header_start @ concat (map render_built bs) @ header_end)"

text \<open>The committed header after the run, and the exit code.\<close>

definition vectors_main ::
    "(string \<Rightarrow> hash_derive res) \<Rightarrow> string option \<Rightarrow> bool \<Rightarrow> string option \<Rightarrow> string option \<times> nat res" where
  "vectors_main exec_region ref_ple check out =
     (case rbind (load_reference_derive exec_region ref_ple) build_fixtures of
        Inl e \<Rightarrow> (out, Inl e)
      | Inr bs \<Rightarrow>
          let header = render_header bs in
          if check then
            (out, Inr (case out of
                         None \<Rightarrow> 1
                       | Some current \<Rightarrow> if newlines current \<noteq> header then 1 else 0))
          else (Some header, Inr 0))"

end
