(* ===== verification/Ngram_Vector_Facts.thy ===== *)
theory Ngram_Vector_Facts
  imports Ngram_Facts Ngram_Vectors
begin

unbundle bit_operations_syntax

text \<open>
  Facts of the vector generator: its transcription of the row ids is the other one behind an
  assertion, the mixing is an XOR of 64-bit products, the assertion of the fixtures, and the text of
  the generated header.
\<close>

subsection \<open>The two transcriptions\<close>

lemma same_mask: "Ngram_Vectors.MASK64 = Ngram_Ids.MASK64" "Ngram_Vectors.s64 = Ngram_Ids.s64"
  by (simp_all add: Ngram_Vectors.MASK64_def Ngram_Ids.MASK64_def Ngram_Vectors.s64_def Ngram_Ids.s64_def fun_eq_iff)

lemma same_prev: "prev_eos_loop eos p lst ts = prev_eos eos p lst ts"
  by (induction ts arbitrary: p lst) auto

lemma same_shift: "shift_ignore_eos packed ng eos = shifted ng eos packed"
  unfolding shift_ignore_eos_def shifted_def shift_row_def in_seg_def Let_def same_prev
  by (intro arg_cong2 [where f = Cons] map_cong refl) auto

lemma same_mix: "mix_positions ms per i ps m = mix_loop ms per i ps m"
  by (induction ps arbitrary: m) (simp_all add: same_mask rbind_assoc Let_def)

lemma same_ngram_row: "ngram_row ms sizes offs hpn per i n = ngram_heads ms sizes offs hpn per i n"
  by (simp add: ngram_row_def ngram_heads_def mixed_of_def same_mix same_mask rbind_assoc Let_def head_id_def [abs_def])

lemma same_row_ids:
  "Ngram_Vectors.row_ids ms sizes offs ng hpn eos context tokens =
     (if int (length context) = ng - 1 then Ngram_Ids.row_ids ms sizes offs ng hpn eos context tokens else Inl AssertionErr)"
  by (simp add: Ngram_Vectors.row_ids_def Ngram_Ids.row_ids_def same_shift same_ngram_row [abs_def] token_heads_def [abs_def] Let_def)

subsection \<open>Mixing on words\<close>

definition word_mix :: "int list \<Rightarrow> int \<Rightarrow> int list \<Rightarrow> nat \<Rightarrow> nat \<Rightarrow> 64 word" where
  "word_mix ms eos packed n p =
     foldl (XOR) 0 (map (\<lambda>s. word_of_int (window_token eos packed s p) * word_of_int (ms ! s)) [0..<n])"

lemma mix_foldl_word:
  fixes w :: "64 word"
  shows "foldl (mix_step ms eos packed p) (sint w) ss =
    sint (foldl (XOR) w (map (\<lambda>s. word_of_int (window_token eos packed s p) * word_of_int (ms ! s)) ss))"
proof (induction ss arbitrary: w)
  case (Cons s ss)
  have "mix_step ms eos packed p (sint w) s = sint (w XOR (word_of_int (window_token eos packed s p) * word_of_int (ms ! s)))"
    using mix_word [of "sint w" "window_token eos packed s p * ms ! s"] by (simp add: mix_step_def s64_word)
  then show ?case using Cons by simp
qed simp

lemma mix_is_word: "1 \<le> n \<Longrightarrow> mix ms eos packed n p = sint (word_mix ms eos packed n p)"
proof -
  assume "1 \<le> n"
  then have u: "[0..<n] = 0 # [1..<n]" by (simp add: upt_conv_Cons)
  show ?thesis unfolding mix_def word_mix_def u using mix_foldl_word [of ms eos packed p "word_of_int (packed ! p) * word_of_int (ms ! 0)" "[1..<n]"]
    by (simp add: s64_word window_token_def)
qed

lemma ids_at_value:
  assumes "1 < n" "n \<le> ng" "j < hpn"
  shows "ids_at ms sizes offs ng hpn eos packed p ! ((n - 2) * hpn + j) =
    sint (word_mix ms eos packed n p) mod sizes ! ((n - 2) * hpn + j) + offs ! ((n - 2) * hpn + j)"
  using assms(2)
proof (induction ng)
  case (Suc ng)
  then have s: "2 \<le> Suc ng" using assms(1) by simp
  have nh: "(n - 1) * hpn = (n - 2) * hpn + hpn" using assms(1) by (metis Suc_1 Suc_diff_Suc add.commute mult_Suc numeral_1_eq_Suc_0 numerals(1))
  show ?case
  proof (cases "n = Suc ng")
    case True
    have "ng * hpn = (ng - 1) * hpn + hpn" using nh True by simp
    then show ?thesis using True assms s by (simp add: ids_at_Suc nth_append length_ids_at mix_is_word)
  next
    case False
    then have n: "n \<le> ng" using Suc.prems by simp
    then have "(n - 1) * hpn \<le> (ng - 1) * hpn" by (intro mult_right_mono) auto
    then have "(n - 2) * hpn + j < (ng - 1) * hpn" using assms(3) nh by linarith
    then show ?thesis using Suc.IH [OF n] s by (simp add: ids_at_Suc nth_append length_ids_at)
  qed
qed (use assms in simp)

subsection \<open>Fixtures\<close>

lemma FIXTURES_shape: "list_all (\<lambda>fx. 2 \<le> fx_ngram_size fx \<and> 1 \<le> fx_heads_per_ngram fx \<and>
    int (length (fx_context fx)) = fx_ngram_size fx - 1) FIXTURES"
  by (simp add: FIXTURES_def)

lemma py_index_last: "xs \<noteq> [] \<Longrightarrow> py_index xs (- 1) = Inr (last xs)"
  by (cases xs) (auto simp: py_index_def last_conv_nth nat_diff_distrib')

lemma offsets_last:
  "sizes \<noteq> [] \<Longrightarrow> last (offsets_of sizes) + last sizes = sum_list sizes"
  by (induction sizes rule: rev_induct) (simp_all add: offsets_of_snoc)

definition constants_ok :: "fixture \<Rightarrow> int list \<times> int list \<times> int list \<Rightarrow> bool" where
  "constants_ok fx = (\<lambda>(ms, sizes, offsets).
     hash_ok (nat (fx_ngram_size fx)) (nat (fx_heads_per_ngram fx)) ms sizes offsets \<and> offsets = offsets_of sizes)"

lemma build_one_ok:
  assumes fx: "2 \<le> fx_ngram_size fx" "1 \<le> fx_heads_per_ngram fx" "int (length (fx_context fx)) = fx_ngram_size fx - 1"
    and d: "derive_fn (fx_vocab_size fx) (fx_ngram_size fx) ((fx_ngram_size fx - 1) * fx_heads_per_ngram fx) (fx_base fx)
        (fx_ple_layer_index fx) = Inr c" "constants_ok fx c"
  shows "\<exists>b. build_one derive_fn fx = Inr b \<and> length (b_rows b) = length (fx_tokens fx) \<and> b_fx b = fx"
proof -
  obtain ms sizes offs where c: "c = (ms, sizes, offs)" by (cases c)
  define ng hpn where "ng = nat (fx_ngram_size fx)" and "hpn = nat (fx_heads_per_ngram fx)"
  have n: "fx_ngram_size fx = int ng" "fx_heads_per_ngram fx = int hpn" "1 \<le> ng" "ng - 1 \<le> length (fx_context fx)"
    using fx by (auto simp: ng_def hpn_def)
  have ok: "hash_ok ng hpn ms sizes offs" "offs = offsets_of sizes" using d(2) c by (auto simp: constants_ok_def ng_def hpn_def)
  define rows where "rows = map (\<lambda>i. ids_at ms sizes offs ng hpn (fx_eos fx) (fx_context fx @ fx_tokens fx) (ng - 1 + i)) [0..<length (fx_tokens fx)]"
  have r: "Ngram_Vectors.row_ids ms sizes offs (fx_ngram_size fx) (fx_heads_per_ngram fx) (fx_eos fx) (fx_context fx) (fx_tokens fx) = Inr rows"
    using row_ids_eq [OF ok(1) n(3,4)] fx(3) by (simp add: same_row_ids rows_def flip: n(1,2))
  have "sizes \<noteq> []" using ok(1) fx by (auto simp: hash_ok_def ng_def hpn_def)
  then have "offs \<noteq> []" "last offs + last sizes = sum_list sizes" using ok(2) by (auto simp: offsets_last, simp add: offsets_of_def)
  moreover have "list_all (list_all (\<lambda>v. 0 \<le> v \<and> v < sum_list sizes)) rows"
  proof -
    have "0 \<le> ids_at ms sizes offs ng hpn e pk p ! h \<and> ids_at ms sizes offs ng hpn e pk p ! h < sum_list sizes"
      if "h < (ng - 1) * hpn" for h e pk p
      using ids_in_head [OF ok that, of e pk p] unfolding Let_def by linarith
    then show ?thesis by (simp add: rows_def list_all_length length_ids_at)
  qed
  ultimately show ?thesis using d(1) c r \<open>sizes \<noteq> []\<close>
    by (simp add: build_one_def Let_def py_index_last) (simp add: rows_def)
qed


lemma fixtures_built:
  assumes "\<And>fx. fx \<in> set FIXTURES \<Longrightarrow> \<exists>c. derive_fn (fx_vocab_size fx) (fx_ngram_size fx)
      ((fx_ngram_size fx - 1) * fx_heads_per_ngram fx) (fx_base fx) (fx_ple_layer_index fx) = Inr c \<and> constants_ok fx c"
  shows "\<exists>bs. build_fixtures derive_fn = Inr bs \<and> map b_fx bs = FIXTURES \<and>
    map (length \<circ> b_rows) bs = map (length \<circ> fx_tokens) FIXTURES"
proof -
  have "\<exists>b. build_one derive_fn fx = Inr b \<and> length (b_rows b) = length (fx_tokens fx) \<and> b_fx b = fx" if "fx \<in> set FIXTURES" for fx
    using assms [OF that] FIXTURES_shape that by (auto simp: list_all_iff intro: build_one_ok)
  then obtain g where g: "\<And>fx. fx \<in> set FIXTURES \<Longrightarrow> build_one derive_fn fx = Inr (g fx) \<and> length (b_rows (g fx)) = length (fx_tokens fx) \<and> b_fx (g fx) = fx"
    by metis
  then have "build_fixtures derive_fn = Inr (map g FIXTURES)"
    unfolding build_fixtures_def by (intro map_res_Inr_map) blast
  moreover have "map b_fx (map g FIXTURES) = map (\<lambda>x. x) FIXTURES" unfolding map_map by (rule map_cong) (simp_all add: g)
  moreover have "map (length \<circ> b_rows) (map g FIXTURES) = map (length \<circ> fx_tokens) FIXTURES"
    unfolding map_map by (rule map_cong) (simp_all add: g)
  ultimately show ?thesis by auto
qed

lemma unit_constants:
  assumes "fx \<in> set FIXTURES"
  shows "constants_ok fx (replicate (nat (fx_ngram_size fx)) 1, replicate (nat ((fx_ngram_size fx - 1) * fx_heads_per_ngram fx)) 1,
    offsets_of (replicate (nat ((fx_ngram_size fx - 1) * fx_heads_per_ngram fx)) 1))"
  using FIXTURES_shape assms by (auto simp: constants_ok_def hash_ok_def offsets_of_def list_all_iff nat_mult_distrib nat_diff_distrib')

definition unit_derive :: hash_derive where
  "unit_derive v ng nh base idx =
     Inr (replicate (nat ng) 1, replicate (nat nh) 1, offsets_of (replicate (nat nh) 1))"

lemma unit_built: "\<exists>bs. build_fixtures unit_derive = Inr bs"
  using fixtures_built [of unit_derive] unit_constants by (auto simp: unit_derive_def)

subsection \<open>The header text\<close>

lemma no_return_py_str: "CR \<notin> set (py_str i)"
  using py_str_chars [of CR i] by (auto simp: is_digit_def)

lemma no_return_comma_list: "CR \<notin> set (comma_list xs)"
  using set_join [of "'', ''" "map py_str xs"] no_return_py_str by (auto simp: comma_list_def)

lemma no_return_built: "CR \<notin> set (fx_name (b_fx b)) \<Longrightarrow> l \<in> set (render_built b) \<Longrightarrow> CR \<notin> set l"
  by (auto simp: render_built_def Let_def braced_def no_return_py_str no_return_comma_list)

lemma no_return_join: "\<forall>l \<in> set ls. CR \<notin> set l \<Longrightarrow> CR \<notin> set (join [LF] ls)"
  using set_join [of "[LF]" ls] by auto

lemma no_return_header:
  assumes "\<And>b. b \<in> set bs \<Longrightarrow> CR \<notin> set (fx_name (b_fx b))"
  shows "CR \<notin> set (render_header bs)"
proof -
  have "list_all (\<lambda>l. CR \<notin> set l) header_start" by (simp add: header_start_def REF_COMMIT_def)
  moreover have "list_all (\<lambda>l. CR \<notin> set l) header_end" by (simp add: header_end_def)
  moreover have "CR \<notin> set l" if "l \<in> set (concat (map render_built bs))" for l
    using that assms no_return_built by auto
  ultimately have "\<forall>l \<in> set (header_start @ concat (map render_built bs) @ header_end). CR \<notin> set l" by (auto simp: list_all_iff)
  then show ?thesis unfolding render_header_def by (rule no_return_join)
qed

lemma build_one_fx: "build_one derive_fn fx = Inr b \<Longrightarrow> b_fx b = fx"
  unfolding build_one_def Let_def case_prod_unfold by (auto simp: res_simps split: if_splits)

lemma list_all2_in2: "list_all2 P xs ys \<Longrightarrow> y \<in> set ys \<Longrightarrow> \<exists>x \<in> set xs. P x y"
  by (induction rule: list_all2_induct) auto

lemma build_fixtures_names:
  assumes "build_fixtures derive_fn = Inr bs" "b \<in> set bs"
  shows "CR \<notin> set (fx_name (b_fx b))"
proof -
  have "list_all2 (\<lambda>fx b. build_one derive_fn fx = Inr b) FIXTURES bs"
    using assms(1) by (simp add: build_fixtures_def map_res_Inr_iff)
  then obtain fx where fx: "fx \<in> set FIXTURES" and b: "build_one derive_fn fx = Inr b"
    using list_all2_in2 [OF _ assms(2)] by blast
  have "b_fx b = fx" using b by (rule build_one_fx)
  moreover have "list_all (\<lambda>fx. CR \<notin> set (fx_name fx)) FIXTURES" by (simp add: FIXTURES_def)
  ultimately show ?thesis using fx by (simp add: list_all_iff)
qed

end
