(* ===== verification/Ngram_Properties.thy ===== *)
theory Ngram_Properties
  imports Ngram_Vector_Facts
begin

unbundle bit_operations_syntax

text \<open>
  The properties of the n-gram row ids and of their test vectors.
\<close>

text \<open>C37. Row ids may be produced in pieces: for well-formed hash constants, the ids of a sequence are the ids of its
  first part followed by the ids of the rest, computed with the last \<open>ngram_size - 1\<close> tokens seen so far as its
  context. End-of-sequence tokens on either side of the cut change nothing.\<close>

theorem row_ids_incremental:
  assumes "hash_ok ng hpn mults sizes offs" and "1 \<le> ng" and "length context = ng - 1"
  shows "Ngram_Ids.row_ids mults sizes offs (int ng) (int hpn) eos context (a @ b) =
    rbind (Ngram_Ids.row_ids mults sizes offs (int ng) (int hpn) eos context a) (\<lambda>x.
    rbind (Ngram_Ids.row_ids mults sizes offs (int ng) (int hpn) eos (drop (length a) (context @ a)) b) (\<lambda>y. Inr (x @ y)))"
  using assms by (rule row_ids_append)

theorem row_ids_incremental_witness:
  "Ngram_Ids.row_ids [3, 5, 7] [11, 13] [0, 11] (int 3) (int 1) 0 [1, 2] ([4, 0] @ [5]) =
    rbind (Ngram_Ids.row_ids [3, 5, 7] [11, 13] [0, 11] (int 3) (int 1) 0 [1, 2] [4, 0]) (\<lambda>x.
    rbind (Ngram_Ids.row_ids [3, 5, 7] [11, 13] [0, 11] (int 3) (int 1) 0 [4, 0] [5]) (\<lambda>y. Inr (x @ y)))"
  using row_ids_incremental [of 3 1 "[3, 5, 7]" "[11, 13]" "[0, 11]" "[1, 2]" 0 "[4, 0]" "[5]"]
  by (simp add: hash_ok_def)

text \<open>C38. With positive head sizes from the reference that fit an int64 table, \<open>gen_row_ids\<close> always returns, one row of
  \<open>(ngram_size - 1) * heads_per_ngram\<close> ids per token, and the id of head \<open>h\<close> lies in the part of the table that
  belongs to head \<open>h\<close>, so inside the table and apart from the ids of every other head.\<close>

theorem gen_row_ids_in_table:
  assumes "derive build prime (cfg_vocab_size config) (cfg_ngram_size config) (cfg_heads_per_ngram config)
      (cfg_ngram_vocab_size_base config) ple_idx 1234 = Inr (mults, sizes, offs)"
    and "1 \<le> cfg_ngram_size config" and "0 \<le> cfg_heads_per_ngram config" and "cfg_ngram_size config \<le> int (length mults)"
    and "list_all (\<lambda>x. 0 < x) sizes" and "sum_list sizes \<le> 2 ^ 63"
  shows "\<exists>rows. gen_row_ids build prime config ple_idx tokens = Inr rows \<and> length rows = length tokens \<and>
    (\<forall>row \<in> set rows. length row = nat ((cfg_ngram_size config - 1) * cfg_heads_per_ngram config) \<and>
      (\<forall>h < length row. 0 \<le> offs ! h \<and> offs ! h \<le> row ! h \<and> row ! h < offs ! h + sizes ! h \<and>
         offs ! h + sizes ! h \<le> sum_list sizes))"
proof -
  define ng hpn where "ng = nat (cfg_ngram_size config)" and "hpn = nat (cfg_heads_per_ngram config)"
  have n: "cfg_ngram_size config = int ng" "cfg_heads_per_ngram config = int hpn" "1 \<le> ng"
    using assms(2,3) by (auto simp: ng_def hpn_def)
  have nh: "nat ((cfg_ngram_size config - 1) * cfg_heads_per_ngram config) = (ng - 1) * hpn"
    using n(3) by (simp add: n(1,2) nat_mult_distrib nat_diff_distrib')
  have o: "offs = offsets_of sizes" "length sizes = (ng - 1) * hpn" using derive_spec [OF assms(1)] nh by simp_all
  have ok: "hash_ok ng hpn mults sizes offs"
    using o assms(4,5) n(1) by (simp add: hash_ok_def) (simp add: offsets_of_def)
  let ?e = "cfg_eos_token_id config"
  let ?p = "replicate (ng - 1) ?e @ tokens"
  define rows where "rows = map (\<lambda>i. ids_at mults sizes offs ng hpn ?e ?p (ng - 1 + i)) [0..<length tokens]"
  have at: "0 \<le> offs ! h \<and> offs ! h \<le> row ! h \<and> row ! h < offs ! h + sizes ! h \<and> offs ! h + sizes ! h \<le> sum_list sizes"
    and len: "length row = (ng - 1) * hpn"
    if "row \<in> set rows" "h < (ng - 1) * hpn" for row h
    using ids_in_head [OF ok o(1)] offsets_bounds [OF assms(5), of h] o that by (auto simp: rows_def Let_def length_ids_at)
  have i64: "list_all (list_all is_i64) rows"
  proof -
    have "is_i64 (row ! h)" if "row \<in> set rows" "h < length row" for row h
    proof -
      have "h < (ng - 1) * hpn" using that by (auto simp: rows_def length_ids_at)
      from at [OF that(1) this] show ?thesis using assms(6) unfolding is_i64_def by linarith
    qed
    then show ?thesis by (auto simp: list_all_iff in_set_conv_nth [of _ "_ :: int list"])
  qed
  have "Ngram_Ids.row_ids mults sizes offs (int ng) (int hpn) ?e (replicate (ng - 1) ?e) tokens = Inr rows"
    using row_ids_eq [OF ok n(3), of "replicate (ng - 1) ?e"] by (simp add: rows_def)
  moreover have "nat (int ng - 1) = ng - 1" by simp
  ultimately have "gen_row_ids build prime config ple_idx tokens = Inr rows"
    using assms(1) i64 by (simp add: gen_row_ids_def n(1,2) Let_def)
  moreover have "length rows = length tokens" by (simp add: rows_def)
  moreover have "\<forall>row \<in> set rows. length row = (ng - 1) * hpn" by (auto simp: rows_def length_ids_at)
  ultimately show ?thesis unfolding nh using at by (intro exI [of _ rows]) auto
qed

theorem gen_row_ids_in_table_witness:
  "\<exists>rows. gen_row_ids (\<lambda>_ _ _ _. Inr [3, 5]) (\<lambda>_ n. Inr (n + 10))
     \<lparr>cfg_vocab_size = 10, cfg_ngram_size = 2, cfg_heads_per_ngram = 2, cfg_ngram_vocab_size_base = 17, cfg_eos_token_id = 0,
      cfg_ple_layer_ids = None\<rparr> 0 [4, 5] = Inr rows \<and> length rows = 2"
proof -
  let ?c = "\<lparr>cfg_vocab_size = 10, cfg_ngram_size = 2, cfg_heads_per_ngram = 2, cfg_ngram_vocab_size_base = 17,
    cfg_eos_token_id = 0, cfg_ple_layer_ids = None\<rparr>"
  have d: "derive (\<lambda>_ _ _ _. Inr [3, 5]) (\<lambda>_ n. Inr (n + 10)) (cfg_vocab_size ?c) (cfg_ngram_size ?c) (cfg_heads_per_ngram ?c)
      (cfg_ngram_vocab_size_base ?c) 0 1234 = Inr ([3, 5], [11, 12], [0, 11])"
    by (simp add: derive_def Let_def upt_rec)
  from gen_row_ids_in_table [OF d, of "[4, 5]"] show ?thesis by auto
qed

text \<open>The id of the \<open>j\<close>-th head of the \<open>n\<close>-grams is the signed value of the XOR of the products token times
  multiplier over the \<open>n\<close> tokens of the window, all taken in 64-bit words, reduced modulo the head size and moved to
  the head's offset; a window position at or before an end-of-sequence token counts as that token.\<close>

theorem row_ids_word_mixing:
  assumes "hash_ok ng hpn mults sizes offs" and "length context = ng - 1" and "i < length tokens"
    and "2 \<le> n" and "n \<le> ng" and "j < hpn"
  shows "\<exists>rows. Ngram_Ids.row_ids mults sizes offs (int ng) (int hpn) eos context tokens = Inr rows \<and>
    rows ! i ! ((n - 2) * hpn + j) =
      sint (word_mix mults eos (context @ tokens) n (ng - 1 + i)) mod sizes ! ((n - 2) * hpn + j) + offs ! ((n - 2) * hpn + j)"
  using row_ids_eq [OF assms(1), of "context" eos tokens] ids_at_value [of n ng j hpn mults sizes offs eos] assms(2-6) by auto

theorem row_ids_word_mixing_witness:
  "\<exists>rows. Ngram_Ids.row_ids [3, 5] [11, 13] [0, 11] (int 2) (int 2) 0 [7] [4, 6] = Inr rows \<and>
    rows ! 1 ! ((2 - 2) * 2 + 1) = sint (word_mix [3, 5] 0 ([7] @ [4, 6]) 2 (2 - 1 + 1)) mod [11, 13] ! ((2 - 2) * 2 + 1) + [0, 11] ! ((2 - 2) * 2 + 1)"
  using row_ids_word_mixing [of 2 2 "[3, 5]" "[11, 13]" "[0, 11]" "[7]" 1 "[4, 6]" 2 1 0] by (simp add: hash_ok_def)

text \<open>The generator of the test vectors and the producer compute the same row ids, errors included, for every input
  whose context has the required length; for any other context the generator refuses.\<close>

theorem transcriptions_agree:
  "Ngram_Vectors.row_ids mults sizes offs ng hpn eos context tokens =
     (if int (length context) = ng - 1 then Ngram_Ids.row_ids mults sizes offs ng hpn eos context tokens
      else Inl AssertionErr)"
  by (rule same_row_ids)

text \<open>Where every token times every multiplier stays below \<open>2 ^ 63\<close>, the mixed value is never negative, whatever
  the inputs.\<close>

theorem mixed_never_negative:
  assumes "mixed_of mults per i n = Inr m"
    and "\<And>r t k. r \<in> set per \<Longrightarrow> t \<in> set r \<Longrightarrow> k \<in> set mults \<Longrightarrow> 0 \<le> t * k \<and> t * k < 2 ^ 63"
  shows "0 \<le> m \<and> m < 2 ^ 63"
proof -
  obtain r t k where x: "py_index per 0 = Inr r" "py_index r (int i) = Inr t" "py_index mults 0 = Inr k"
    "mix_loop mults per i [1..n - 1] (Ngram_Ids.s64 (t * k)) = Inr m"
    using assms(1) unfolding mixed_of_def by (auto simp: res_simps)
  then have "r \<in> set per" "t \<in> set r" "k \<in> set mults" by (auto simp: py_index_def split: if_splits)
  then have tk: "0 \<le> t * k" "t * k < 2 ^ 63" using assms(2) by auto
  then show ?thesis using mix_loop_small [OF x(4) _ _ assms(2)] by (simp add: s64_small)
qed

theorem mixed_never_negative_witness:
  "\<exists>m. mixed_of [3, 5] [[7], [9]] 0 2 = Inr m \<and> 0 \<le> m"
proof -
  have m: "mixed_of [3, 5] [[7], [9]] 0 2 = Inr 56" by code_simp
  from mixed_never_negative [OF m] m show ?thesis by auto
qed

text \<open>Chunk id and local id of every row id put together give the row id back, the local id is a row of a chunk and
  the chunk id is not negative, as long as there are at most \<open>2 ^ 31\<close> chunks.\<close>

theorem split_by_partition_reassembles:
  assumes "0 < per" and "list_all is_i64 (per # ids)" and "list_all (\<lambda>g. 0 \<le> g \<and> g < 2 ^ 31 * per) ids"
  shows "\<exists>cs ls. split_by_partition ids per = Inr (cs, ls) \<and> map2 (\<lambda>c l. c * per + l) cs ls = ids \<and>
    list_all (\<lambda>c. 0 \<le> c \<and> c < 2 ^ 31) cs \<and> list_all (\<lambda>l. 0 \<le> l \<and> l < per) ls"
proof -
  have s: "as_i32 (np_div g per) = g div per \<and> 0 \<le> g div per \<and> g div per < 2 ^ 31" if "g \<in> set ids" for g
    using np_div_small [of per g] assms that by (auto simp: list_all_iff)
  have "map2 (\<lambda>c l. c * per + l) (map (\<lambda>g. as_i32 (np_div g per)) ids) (map (\<lambda>g. np_mod g per) ids) = map (\<lambda>g. g) ids"
    unfolding map2_map_map using s assms(1) by (intro map_cong refl) (simp add: np_mod_def)
  then show ?thesis using assms s by (simp add: split_by_partition_def list_all_iff np_mod_def)
qed

theorem split_by_partition_reassembles_witness:
  "\<exists>cs ls. split_by_partition [0, 7, 23] 8 = Inr (cs, ls) \<and> map2 (\<lambda>c l. c * 8 + l) cs ls = [0, 7, 23]"
  using split_by_partition_reassembles [of 8 "[0, 7, 23]"] by (auto simp: is_i64_def)

text \<open>If the reference returns constants of the right shape, positive sizes and the sums of the sizes before each
  head as offsets, then every fixture is built with one row per token: the assertion that all ids are inside the table
  never fails.\<close>

theorem fixtures_always_built:
  assumes "\<And>fx. fx \<in> set FIXTURES \<Longrightarrow> \<exists>c. derive_fn (fx_vocab_size fx) (fx_ngram_size fx)
      ((fx_ngram_size fx - 1) * fx_heads_per_ngram fx) (fx_base fx) (fx_ple_layer_index fx) = Inr c \<and> constants_ok fx c"
  shows "\<exists>bs. build_fixtures derive_fn = Inr bs \<and> map b_fx bs = FIXTURES \<and>
    map (length \<circ> b_rows) bs = map (length \<circ> fx_tokens) FIXTURES"
  using assms by (rule fixtures_built)

theorem fixtures_always_built_witness:
  "\<exists>bs. build_fixtures unit_derive = Inr bs \<and>
     map b_fx bs = FIXTURES"
  using fixtures_always_built [of unit_derive]
    unit_constants by (auto simp: unit_derive_def)

text \<open>After a run that wrote the header, the drift check with the same reference passes, and it fails on a missing
  header and on every header that differs in more than its line ends.\<close>

theorem header_check_after_write:
  assumes "vectors_main exec_region ref False out = (Some header, Inr 0)"
  shows "vectors_main exec_region ref True (Some header) = (Some header, Inr 0) \<and>
    vectors_main exec_region ref True None = (None, Inr 1) \<and>
    (\<forall>other. newlines other \<noteq> header \<longrightarrow> vectors_main exec_region ref True (Some other) = (Some other, Inr 1))"
proof -
  obtain d bs where d: "load_reference_derive exec_region ref = Inr d" "build_fixtures d = Inr bs" "header = render_header bs"
    using assms by (auto simp: vectors_main_def Let_def res_simps split: sum.splits)
  have "CR \<notin> set header" unfolding d(3) by (rule no_return_header) (rule build_fixtures_names [OF d(2)])
  then have "newlines header = header" by (rule newlines_free)
  then show ?thesis using d by (simp add: vectors_main_def)
qed

text \<open>A reference text with the four functions and the markers, and nothing else.\<close>

definition small_reference :: string where
  "small_reference = ''_MASK64 = _PLE_LAYER_PRIME = 10007 def _splitmix64 _is_prime _nth_prime_after derive_ngram_hash_constants@dataclass''
     @ [LF] @ ''class PLEMetadata''"

theorem header_check_after_write_witness:
  "\<exists>header. vectors_main (\<lambda>_. Inr unit_derive) (Some small_reference) True (Some header) = (Some header, Inr 0)"
proof -
  have "is_ok (reference_region (newlines small_reference))" by code_simp
  then have l: "load_reference_derive (\<lambda>_. Inr unit_derive) (Some small_reference) = Inr unit_derive"
    by (auto simp: load_reference_derive_def is_ok_def split: sum.splits)
  obtain bs where "build_fixtures unit_derive = Inr bs" using unit_built by blast
  then have "vectors_main (\<lambda>_. Inr unit_derive) (Some small_reference) False None = (Some (render_header bs), Inr 0)"
    using l by (simp add: vectors_main_def)
  from header_check_after_write [OF this] show ?thesis by blast
qed

end
