(* ===== verification/Synthetic_Table.thy ===== *)
theory Synthetic_Table
  imports Py_Float "HOL-Library.Word"
begin

unbundle bit_operations_syntax

text \<open>
  The generator of synthetic n-gram tables, \<open>tools/synthetic_ngram_table.py\<close>: the row values, the
  three block quantisers of ggml, the half-float conversion on the bits of a float32, the header and
  its parser, and the file that is written.

  Numbers are finite floats; a zero has no sign here, which no value of \<open>_row_floats\<close> shows.
\<close>

definition BLOCK_ELEMENTS :: nat where "BLOCK_ELEMENTS = 32"
definition BYTES_PER_BLOCK :: "(int, nat) dict" where "BYTES_PER_BLOCK = [(2, 18), (3, 20), (8, 34)]"
definition FORMAT_NAMES :: "(string, int) dict" where "FORMAT_NAMES = [(''q4_0'', 2), (''q4_1'', 3), (''q8_0'', 8)]"
definition HEADER_MAGIC :: "8 word list" where "HEADER_MAGIC = [65, 82, 67, 73, 78, 71, 82, 77]"
definition HEADER_BYTES :: nat where "HEADER_BYTES = 24"

subsection \<open>Numbers\<close>

definition iround :: "rat \<Rightarrow> int" where
  "iround x = (if x \<ge> 0 then \<lfloor>f64 (x + 1 / 2)\<rfloor> else - \<lfloor>f64 (- x + 1 / 2)\<rfloor>)"

text \<open>\<open>struct.unpack("<I", struct.pack("<f", x))\<close>: the bits of the nearest float32.\<close>

definition f32_bits :: "rat \<Rightarrow> int res" where
  "f32_bits x =
     (if x = 0 then Inr 0
      else let q = last_place 24 (- 149) x;
               n = round_half_even (\<bar>x\<bar> / 2 powi q);
               m = (q + 149) * 2 ^ 23 + n
           in if m \<ge> 0x7F800000 then Inl OverflowErr
              else Inr (m + (if x < 0 then 2 ^ 31 else 0)))"

definition f16_of_f32 :: "int \<Rightarrow> int" where
  "f16_of_f32 b =
     (let sign = drop_bit 31 b AND 0x1;
          ex = drop_bit 23 b AND 0xFF;
          mant = b AND 0x7FFFFF
      in if ex = 0xFF then push_bit 15 sign OR 0x7C00 OR (if mant \<noteq> 0 then 1 else 0)
         else if ex = 0 \<or> ex < 0x71 then push_bit 15 sign
         else if ex > 0x8E then push_bit 15 sign OR 0x7BFF
         else
           let exp16 = ex - 0x70;
               mant16 = drop_bit 13 mant;
               round_bits = mant AND 0x1FFF
           in if round_bits > 0x1000 \<or> round_bits = 0x1000 \<and> mant16 AND 1 \<noteq> 0 then
                let mant16 = mant16 + 1 in
                if drop_bit 10 mant16 \<noteq> 0 then
                  let exp16 = exp16 + 1 in
                  if exp16 \<ge> 0x1F then push_bit 15 sign OR 0x7BFF
                  else push_bit 15 sign OR push_bit 10 exp16 OR 0
                else push_bit 15 sign OR push_bit 10 exp16 OR mant16
              else push_bit 15 sign OR push_bit 10 exp16 OR mant16)"

definition f32_to_f16_bits :: "rat \<Rightarrow> int res" where
  "f32_to_f16_bits x = rbind (f32_bits x) (\<lambda>b. Inr (f16_of_f32 b))"

definition hash_row_seed :: "int \<Rightarrow> int \<Rightarrow> int" where
  "hash_row_seed row seed =
     (let m = 2 ^ 64 - 1;
          x = ((row * 0x9E3779B97F4A7C15) XOR (seed * 0xBF58476D1CE4E5B9)) AND m;
          x = x XOR drop_bit 30 x;
          x = (x * 0xBF58476D1CE4E5B9) AND m;
          x = x XOR drop_bit 27 x;
          x = (x * 0x94D049BB133111EB) AND m
      in x XOR drop_bit 31 x)"

definition row_value :: "rat \<Rightarrow> rat \<Rightarrow> int \<Rightarrow> int \<Rightarrow> rat" where
  "row_value a b n_cols c =
     (let t = py_div c (max 1 (n_cols - 1));
          v = f64 (f64 (a * f64 (t - 1 / 2)) + f64 (f64 (b * of_int (c mod 3 - 1)) * f64 (1 / 10)))
      in f64 (v * (1 / 2)))"

definition row_floats :: "int \<Rightarrow> int \<Rightarrow> int \<Rightarrow> rat list" where
  "row_floats row n_cols seed =
     (let h = hash_row_seed row seed;
          a = f64 (f64 (f64 (of_int (h AND 0xFFFF) / 65535) * (1 / 2)) + 1 / 2);
          b = f64 (of_int (drop_bit 16 h AND 0xFFFF) / 65535)
      in map (row_value a b n_cols) (map int [0..<nat n_cols]))"

subsection \<open>Quantisers\<close>

definition pack_H :: "int \<Rightarrow> 8 word list" where
  "pack_H v = [word_of_int v, word_of_int (drop_bit 8 v)]"

definition inverse_of :: "rat \<Rightarrow> rat" where
  "inverse_of d = (if d \<noteq> 0 then f64 (1 / d) else 0)"

definition q8_0_block :: "rat list \<Rightarrow> 8 word list res" where
  "q8_0_block block =
     (let amax = Max (set (map abs block));
          d = (if amax > 0 then f64 (amax / 127) else 0)
      in rbind (f32_to_f16_bits d) (\<lambda>bits.
         Inr (pack_H bits @ map (\<lambda>v. word_of_int (max (- 127) (min 127 (iround (f64 (v * inverse_of d)))))) block)))"

definition quantize_q8_0 :: "rat list \<Rightarrow> 8 word list res" where
  "quantize_q8_0 row = rbind (map_res q8_0_block (chunks BLOCK_ELEMENTS row)) (\<lambda>bs. Inr (concat bs))"

text \<open>\<open>max(block, key=abs)\<close>: the first element of largest absolute value.\<close>

definition max_by_abs :: "rat list \<Rightarrow> rat" where
  "max_by_abs block = foldl (\<lambda>m v. if \<bar>m\<bar> < \<bar>v\<bar> then v else m) (hd block) (tl block)"

text \<open>The nibbles of elements \<open>l\<close> and \<open>l + 16\<close> in one byte.\<close>

definition nibble_pairs :: "(rat \<Rightarrow> int) \<Rightarrow> rat list \<Rightarrow> 8 word list res" where
  "nibble_pairs code block =
     map_res (\<lambda>l. rbind (py_index block (int l)) (\<lambda>v0. rbind (py_index block (int l + 16)) (\<lambda>v1.
       Inr (word_of_int (push_bit 4 (max 0 (min 15 (code v1))) OR max 0 (min 15 (code v0)))))))
       [0..<BLOCK_ELEMENTS div 2]"

definition q4_0_block :: "rat list \<Rightarrow> 8 word list res" where
  "q4_0_block block =
     (let amax_signed = (if block \<noteq> [] then max_by_abs block else 0);
          d = (if amax_signed \<noteq> 0 then f64 (amax_signed / - 8) else 0)
      in rbind (f32_to_f16_bits d) (\<lambda>bits.
         rbind (nibble_pairs (\<lambda>v. iround (f64 (v * inverse_of d)) + 8) block) (\<lambda>qs.
         Inr (pack_H bits @ qs))))"

definition quantize_q4_0 :: "rat list \<Rightarrow> 8 word list res" where
  "quantize_q4_0 row = rbind (map_res q4_0_block (chunks BLOCK_ELEMENTS row)) (\<lambda>bs. Inr (concat bs))"

definition q4_1_block :: "rat list \<Rightarrow> 8 word list res" where
  "q4_1_block block =
     (let vmin = Min (set block); vmax = Max (set block);
          d = (if vmax > vmin then f64 (f64 (vmax - vmin) / 15) else 0); m = vmin
      in rbind (f32_to_f16_bits d) (\<lambda>dbits.
         rbind (f32_to_f16_bits m) (\<lambda>mbits.
         rbind (nibble_pairs (\<lambda>v. iround (f64 (f64 (v - m) * inverse_of d))) block) (\<lambda>qs.
         Inr (pack_H dbits @ pack_H mbits @ qs)))))"

definition quantize_q4_1 :: "rat list \<Rightarrow> 8 word list res" where
  "quantize_q4_1 row = rbind (map_res q4_1_block (chunks BLOCK_ELEMENTS row)) (\<lambda>bs. Inr (concat bs))"

definition QUANTIZERS :: "(string, rat list \<Rightarrow> 8 word list res) dict" where
  "QUANTIZERS = [(''q4_0'', quantize_q4_0), (''q4_1'', quantize_q4_1), (''q8_0'', quantize_q8_0)]"

subsection \<open>The file\<close>

definition le32 :: "int \<Rightarrow> 8 word list res" where
  "le32 v =
     (if 0 \<le> v \<and> v < 2 ^ 32
      then Inr (map (\<lambda>i. word_of_int (drop_bit (8 * i) v)) [0..<4])
      else Inl StructErr)"

definition unpack32 :: "8 word list \<Rightarrow> int" where
  "unpack32 b = foldr (\<lambda>w acc. uint w + 256 * acc) b 0"

definition build_header :: "string \<Rightarrow> int \<Rightarrow> int \<Rightarrow> 8 word list res" where
  "build_header fmt n_cols n_rows =
     (case map_of FORMAT_NAMES fmt of
        None \<Rightarrow> Inl ValueErr
      | Some t \<Rightarrow> rbind (map_res le32 [t, n_cols, n_rows, 0]) (\<lambda>fs. Inr (HEADER_MAGIC @ concat fs)))"

definition parse_header :: "8 word list \<Rightarrow> (int \<times> int \<times> int) res" where
  "parse_header buf =
     (let fld = (\<lambda>i. unpack32 (take 4 (drop (8 + 4 * i) buf)));
          ggml_type = fld 0; n_cols = fld 1; n_rows = fld 2; reserved = fld 3
      in if length buf < HEADER_BYTES then Inl ValueErr
         else if take 8 buf \<noteq> HEADER_MAGIC then Inl ValueErr
         else if ggml_type \<notin> set (map fst BYTES_PER_BLOCK) then Inl ValueErr
         else if n_cols = 0 \<or> n_cols mod int BLOCK_ELEMENTS \<noteq> 0 then Inl ValueErr
         else if n_rows = 0 then Inl ValueErr
         else if reserved \<noteq> 0 then Inl ValueErr
         else Inr (ggml_type, n_cols, n_rows))"

text \<open>What the file holds when a row fails is what was written before it.\<close>

fun write_rows :: "(rat list \<Rightarrow> 8 word list res) \<Rightarrow> int \<Rightarrow> int \<Rightarrow> nat list \<Rightarrow> 8 word list \<Rightarrow> 8 word list \<times> unit res" where
  "write_rows quantizer n_cols seed [] file = (file, Inr ())"
| "write_rows quantizer n_cols seed (row # rows) file =
     (case quantizer (row_floats (int row) n_cols seed) of
        Inl e \<Rightarrow> (file, Inl e)
      | Inr bs \<Rightarrow> write_rows quantizer n_cols seed rows (file @ bs))"

definition emit_synthetic_ngram_table ::
    "int \<Rightarrow> int \<Rightarrow> string \<Rightarrow> int \<Rightarrow> 8 word list option \<Rightarrow> 8 word list option \<times> (int \<times> int) res" where
  "emit_synthetic_ngram_table n_rows n_cols fmt seed file =
     (case map_of QUANTIZERS fmt of
        None \<Rightarrow> (file, Inl ValueErr)
      | Some quantizer \<Rightarrow>
          if n_rows \<le> 0 \<or> n_cols \<le> 0 then (file, Inl ValueErr)
          else if n_cols mod int BLOCK_ELEMENTS \<noteq> 0 then (file, Inl ValueErr)
          else
            let blocks_per_row = n_cols div int BLOCK_ELEMENTS;
                bytes_per_row = blocks_per_row * int (the (map_of BYTES_PER_BLOCK (the (map_of FORMAT_NAMES fmt))))
            in (case build_header fmt n_cols n_rows of
                  Inl e \<Rightarrow> (Some [], Inl e)
                | Inr header \<Rightarrow>
                    (case write_rows quantizer n_cols seed [0..<nat n_rows] header of
                       (out, Inl e) \<Rightarrow> (Some out, Inl e)
                     | (out, Inr _) \<Rightarrow> (Some out, Inr (n_rows * bytes_per_row, blocks_per_row)))))"

end
