(* ===== verification/Table_Facts.thy ===== *)
theory Table_Facts
  imports Synthetic_Table Store_Facts
begin

unbundle bit_operations_syntax

text \<open>
  Facts of the synthetic table: the header and its parser are inverse, the values of a row are
  bounded, so every block format turns each row into the same number of bytes, and the half-float
  conversion on bits is the rounding of the store apart from its flush and its clamp.
\<close>

subsection \<open>The header\<close>

lemma uint_byte: "uint (word_of_int (drop_bit k v) :: 8 word) = v div 2 ^ k mod 256"
  by (simp add: uint_word_of_int_eq take_bit_eq_mod drop_bit_eq_div)

lemma unpack32_le32:
  assumes "le32 v = Inr b"
  shows "unpack32 b = v \<and> length b = 4"
proof -
  have v: "0 \<le> v" "v < 2 ^ 32" and b: "b = map (\<lambda>i. word_of_int (drop_bit (8 * i) v)) [0..<4]"
    using assms by (auto simp: le32_def split: if_splits)
  have u: "[0..<4] = [0, 1, 2, 3::nat]" by (simp add: upt_rec)
  have dm: "x mod 256 + 256 * (x div 256) = x" for x :: int by (simp add: mult.commute)
  have q: "v div 65536 = v div 256 div 256" "v div 16777216 = v div 256 div 256 div 256" by (simp_all add: zdiv_zmult2_eq [symmetric])
  have "v div 16777216 < 256" "0 \<le> v div 16777216" using v by simp_all
  then have top: "v div 256 div 256 div 256 mod 256 = v div 256 div 256 div 256" by (simp add: q(2))
  have "unpack32 b = v mod 256 + 256 * (v div 256 mod 256 + 256 * (v div 256 div 256 mod 256 + 256 * (v div 256 div 256 div 256 mod 256)))"
    using uint_byte [of 0 v] by (simp add: b u unpack32_def uint_byte q)
  also have "\<dots> = v" unfolding top by (simp only: dm)
  finally show ?thesis by (simp add: b)
qed

lemma unpack32_range: "length b = 4 \<Longrightarrow> 0 \<le> unpack32 b \<and> unpack32 b < 2 ^ 32"
proof -
  assume "length b = 4"
  then obtain b0 b1 b2 b3 where b: "b = [b0, b1, b2, b3]" by (auto simp: length_Suc_conv eval_nat_numeral)
  have "0 \<le> uint w \<and> uint w < 256" for w :: "8 word" using uint_range_size [of w] by (simp add: word_size)
  from this [of b0] this [of b1] this [of b2] this [of b3] show ?thesis by (simp add: b unpack32_def)
qed

lemma le32_unpack32:
  assumes "length b = 4"
  shows "le32 (unpack32 b) = Inr b"
proof -
  obtain b0 b1 b2 b3 where b: "b = [b0, b1, b2, b3]" using assms by (auto simp: length_Suc_conv eval_nat_numeral)
  have r: "0 \<le> uint w \<and> uint w < 256" for w :: "8 word" using uint_range_size [of w] by (simp add: word_size)
  have byte: "(word_of_int (drop_bit k v) :: 8 word) = w" if "v div 2 ^ k mod 256 = uint w" for k v w
    using that by (metis uint_byte word_uint_eq_iff)
  have dm: "(uint w + 256 * x) mod 256 = uint w" "(uint w + 256 * x) div 256 = x" for w :: "8 word" and x
    using r [of w] by simp_all
  define v where "v = unpack32 b"
  have v: "v = uint b0 + 256 * (uint b1 + 256 * (uint b2 + 256 * (uint b3 + 256 * 0)))" by (simp add: v_def b unpack32_def)
  have q: "v div 65536 = v div 256 div 256" "v div 16777216 = v div 256 div 256 div 256" by (simp_all add: zdiv_zmult2_eq [symmetric])
  have u: "[0..<4] = [0, 1, 2, 3::nat]" by (simp add: upt_rec)
  have "v mod 256 = uint b0" "v div 256 mod 256 = uint b1" "v div 65536 mod 256 = uint b2" "v div 16777216 mod 256 = uint b3"
    unfolding q unfolding v by (simp_all only: dm)
  then have "map (\<lambda>i. word_of_int (drop_bit (8 * i) v)) [0..<4] = b"
    unfolding u b using byte [of v 0 b0] by (simp add: byte)
  then show ?thesis using unpack32_range [OF assms] by (simp add: le32_def v_def)
qed

definition valid_header :: "int \<Rightarrow> int \<Rightarrow> int \<Rightarrow> bool" where
  "valid_header t c r \<longleftrightarrow> t \<in> {2, 3, 8} \<and> 0 < c \<and> c mod 32 = 0 \<and> 0 < r"

lemma format_type: "map_of FORMAT_NAMES fmt = Some t \<Longrightarrow> t \<in> {2, 3, 8}"
  by (auto simp: FORMAT_NAMES_def split: if_splits)

lemma parse_build:
  assumes "build_header fmt c r = Inr h" "map_of FORMAT_NAMES fmt = Some t" "0 < c" "c mod 32 = 0" "0 < r"
  shows "parse_header (h @ rest) = Inr (t, c, r) \<and> length h = 24"
proof -
  obtain b0 b1 b2 b3 where b: "le32 t = Inr b0" "le32 c = Inr b1" "le32 r = Inr b2" "le32 0 = Inr b3" "h = HEADER_MAGIC @ b0 @ b1 @ b2 @ b3"
    using assms(1,2) by (auto simp: build_header_def res_simps)
  note u = unpack32_le32 [OF b(1)] unpack32_le32 [OF b(2)] unpack32_le32 [OF b(3)] unpack32_le32 [OF b(4)]
  have "length HEADER_MAGIC = 8" by (simp add: HEADER_MAGIC_def)
  then show ?thesis using u assms(3-5) format_type [OF assms(2)]
    by (auto simp: parse_header_def b(5) HEADER_BYTES_def BYTES_PER_BLOCK_def BLOCK_ELEMENTS_def Let_def)
qed

lemma parse_sound:
  assumes "parse_header buf = Inr (t, c, r)"
  shows "\<exists>fmt rest h. map_of FORMAT_NAMES fmt = Some t \<and> build_header fmt c r = Inr h \<and> buf = h @ rest \<and> valid_header t c r"
proof -
  define f where "f i = take 4 (drop (8 + 4 * i) buf)" for i :: nat
  have p: "24 \<le> length buf" "take 8 buf = HEADER_MAGIC" "t = unpack32 (f 0)" "c = unpack32 (f 1)" "r = unpack32 (f 2)" "unpack32 (f 3) = 0"
    "t \<in> {2, 3, 8}" "c \<noteq> 0" "c mod 32 = 0" "r \<noteq> 0"
    using assms by (auto simp: parse_header_def HEADER_BYTES_def BYTES_PER_BLOCK_def BLOCK_ELEMENTS_def Let_def f_def split: if_splits)
  have l: "length (f i) = 4" if "i < 4" for i using p(1) that by (simp add: f_def)
  have "buf = take 8 buf @ f 0 @ f 1 @ f 2 @ f 3 @ drop 24 buf"
  proof -
    have s: "drop k buf = take 4 (drop k buf) @ drop (k + 4) buf" for k by (metis append_take_drop_id drop_drop add.commute)
    show ?thesis using append_take_drop_id [of 8 buf] s [of 8] s [of 12] s [of 16] s [of 20] by (simp add: f_def)
  qed
  moreover obtain fmt where fmt: "map_of FORMAT_NAMES fmt = Some t"
  proof -
    have "map_of FORMAT_NAMES ''q4_0'' = Some 2" "map_of FORMAT_NAMES ''q4_1'' = Some 3" "map_of FORMAT_NAMES ''q8_0'' = Some 8"
      by (simp_all add: FORMAT_NAMES_def)
    then show thesis using p(7) that by blast
  qed
  moreover have "build_header fmt c r = Inr (HEADER_MAGIC @ f 0 @ f 1 @ f 2 @ f 3)"
    using fmt le32_unpack32 [OF l, of 0] le32_unpack32 [OF l, of 1] le32_unpack32 [OF l, of 2] le32_unpack32 [OF l, of 3] p(3-6)
    by (simp add: build_header_def)
  ultimately show ?thesis using p unpack32_range [OF l, of 1] unpack32_range [OF l, of 2] unfolding valid_header_def
    by (metis append.assoc less_le one_less_numeral_iff numeral_less_iff semiring_norm(76,78))
qed

subsection \<open>The values of a row\<close>

definition bounded :: "rat \<Rightarrow> rat \<Rightarrow> bool" where
  "bounded k x \<longleftrightarrow> \<bar>x\<bar> \<le> k"

lemma bounded_f64: "bounded (of_int n) x \<Longrightarrow> \<bar>n\<bar> < 2 ^ 53 \<Longrightarrow> bounded (of_int n) (f64 x)"
proof -
  assume x: "bounded (of_int n) x" "\<bar>n\<bar> < 2 ^ 53"
  have e: "f64 (of_int n) = of_int n" "f64 (- of_int n) = - of_int n"
    using x(2) fl_exact_int [of 53 "- 1074" n] by (simp_all add: f64_def fl_minus)
  have "f64 x \<le> f64 (of_int n)" "f64 (- of_int n) \<le> f64 x"
    using x(1) by (auto simp: bounded_def intro!: r64.rnd_mono)
  then show ?thesis unfolding e by (simp add: bounded_def abs_le_iff)
qed

lemma bounded_1: "bounded 1 x \<Longrightarrow> bounded 1 (f64 x)" and bounded_2: "bounded 2 x \<Longrightarrow> bounded 2 (f64 x)"
  and bounded_3: "bounded 3 x \<Longrightarrow> bounded 3 (f64 x)"
  using bounded_f64 [of 1 x] bounded_f64 [of 2 x] bounded_f64 [of 3 x] by simp_all

lemma bounded_add: "bounded j x \<Longrightarrow> bounded k y \<Longrightarrow> bounded (j + k) (x + y)"
  unfolding bounded_def by linarith

lemma bounded_mult: "bounded j x \<Longrightarrow> bounded k y \<Longrightarrow> bounded (j * k) (x * y)"
  unfolding bounded_def by (simp add: abs_mult mult_mono')

lemma row_value_bounded:
  assumes "bounded 2 a" "bounded 1 b" "0 \<le> c" "c < n_cols"
  shows "bounded 3 (row_value a b n_cols c)"
proof -
  define t where "t = py_div c (max 1 (n_cols - 1))"
  have "0 \<le> (of_int c :: rat) / of_int (max 1 (n_cols - 1))" "(of_int c :: rat) / of_int (max 1 (n_cols - 1)) \<le> 1"
    using assms(3,4) by (auto simp: divide_le_eq max_def)
  then have "0 \<le> t \<and> t \<le> 1" unfolding t_def py_div_def by (rule r64.rnd_unit)
  then have "bounded 1 (t - 1 / 2)" unfolding bounded_def by linarith
  then have x: "bounded 2 (f64 (a * f64 (t - 1 / 2)))"
    using bounded_mult [OF assms(1) bounded_1] bounded_2 by force
  have "bounded 1 (of_int (c mod 3 - 1))"
  proof -
    have "0 \<le> c mod 3" "c mod 3 < 3" by simp_all
    then have "c mod 3 - 1 = - 1 \<or> c mod 3 - 1 = 0 \<or> c mod 3 - 1 = 1" by linarith
    then show ?thesis by (auto simp: bounded_def)
  qed
  then have "bounded 1 (f64 (b * of_int (c mod 3 - 1)))" using bounded_mult [OF assms(2)] bounded_1 by force
  moreover have "bounded 1 (f64 (1 / 10))" by (rule bounded_1) (simp add: bounded_def)
  ultimately have y: "bounded 1 (f64 (f64 (b * of_int (c mod 3 - 1)) * f64 (1 / 10)))"
    using bounded_mult bounded_1 by force
  have "bounded 3 (f64 (f64 (a * f64 (t - 1 / 2)) + f64 (f64 (b * of_int (c mod 3 - 1)) * f64 (1 / 10))))"
    using bounded_add [OF x y] bounded_3 by force
  then have "bounded 3 (f64 (f64 (a * f64 (t - 1 / 2)) + f64 (f64 (b * of_int (c mod 3 - 1)) * f64 (1 / 10))) * (1 / 2))"
    by (auto simp: bounded_def)
  then show ?thesis unfolding row_value_def Let_def t_def [symmetric] by (rule bounded_3)
qed

lemma row_floats_bounded: "list_all (bounded 3) (row_floats row n_cols seed)"
  and length_row_floats: "length (row_floats row n_cols seed) = nat n_cols"
proof -
  define h where "h = hash_row_seed row seed"
  have m: "0 \<le> x AND 0xFFFF \<and> x AND 0xFFFF \<le> 65535" for x :: int
    using AND_upper2 [of 65535 x] by simp
  have u: "0 \<le> f64 (of_int (x AND 0xFFFF) / 65535) \<and> f64 (of_int (x AND 0xFFFF) / 65535) \<le> 1" for x :: int
  proof (rule r64.rnd_unit)
    have "(of_int (x AND 0xFFFF) :: rat) \<le> of_int 65535" using m [of x] by (simp only: of_int_le_iff)
    then show "of_int (x AND 0xFFFF) / 65535 \<le> (1 :: rat)" by simp
    show "(0 :: rat) \<le> of_int (x AND 0xFFFF) / 65535" using m [of x] by simp
  qed
  have b: "bounded 1 (f64 (of_int (drop_bit 16 h AND 0xFFFF) / 65535))" using u by (simp add: bounded_def)
  have "bounded 1 (f64 (of_int (h AND 0xFFFF) / 65535) * (1 / 2))" using u [of h] by (simp add: bounded_def abs_mult)
  then have "bounded 1 (f64 (f64 (of_int (h AND 0xFFFF) / 65535) * (1 / 2)))" by (rule bounded_1)
  then have "bounded 2 (f64 (f64 (of_int (h AND 0xFFFF) / 65535) * (1 / 2)) + 1 / 2)" unfolding bounded_def by linarith
  then have a: "bounded 2 (f64 (f64 (f64 (of_int (h AND 0xFFFF) / 65535) * (1 / 2)) + 1 / 2))" by (rule bounded_2)
  show "list_all (bounded 3) (row_floats row n_cols seed)"
    using row_value_bounded [OF a b] by (auto simp: row_floats_def Let_def list_all_iff h_def)
  show "length (row_floats row n_cols seed) = nat n_cols" by (simp add: row_floats_def Let_def)
qed

lemma f32_bits_ok: "bounded 3 x \<Longrightarrow> \<exists>b. f32_bits x = Inr b"
proof (cases "x = 0")
  case False
  assume x: "bounded 3 x"
  let ?q = "last_place 24 (- 149) x"
  have "\<bar>x\<bar> < 2 powi 2" using x by (simp add: bounded_def)
  then have i: "ilog2 x < 2" by (rule ilog2_less_of_bound [OF False])
  then have q: "?q \<le> - 22" by (simp add: last_place_def)
  have "ilog2 x + 1 \<le> ?q + 24" by (simp add: last_place_def)
  then have "(2::rat) powi (ilog2 x + 1) \<le> 2 powi (?q + 24)" by simp
  then have "\<bar>x\<bar> \<le> 2 powi ?q * 16777216" using ilog2_bounds(2) [OF False] by (simp add: power_int_add)
  then have "\<bar>x\<bar> / 2 powi ?q \<le> of_int 16777216" by (simp add: divide_le_eq mult.commute)
  then have "round_half_even (\<bar>x\<bar> / 2 powi ?q) \<le> 16777216" by (rule round_half_even_le)
  then show ?thesis using q False by (simp add: f32_bits_def Let_def)
qed (simp add: f32_bits_def)

lemma f16_bits_ok: "bounded 3 x \<Longrightarrow> \<exists>b. f32_to_f16_bits x = Inr b"
  using f32_bits_ok by (fastforce simp: f32_to_f16_bits_def)

subsection \<open>Block formats\<close>

text \<open>What the writer of a table needs of a block format: a block of 32 moderate values becomes \<open>n\<close> bytes.\<close>

locale block_format =
  fixes block_bytes :: "rat list \<Rightarrow> 8 word list res" and n :: nat
  assumes block_ok: "length block = 32 \<Longrightarrow> list_all (bounded 3) block \<Longrightarrow> \<exists>bs. block_bytes block = Inr bs \<and> length bs = n"
begin

lemma row_ok:
  assumes "32 dvd length row" "list_all (bounded 3) row"
  shows "\<exists>bs. rbind (map_res block_bytes (chunks 32 row)) (\<lambda>bs. Inr (concat bs)) = Inr bs \<and> length bs = length row div 32 * n"
proof -
  have "\<exists>bs. block_bytes c = Inr bs \<and> length bs = n" if "c \<in> set (chunks 32 row)" for c
  proof (rule block_ok)
    show "length c = 32" using length_in_chunks [of 32 row c] assms(1) that by simp
    show "list_all (bounded 3) c" using set_chunk [of 32 c row] that assms(2) by (auto simp: list_all_iff)
  qed
  then obtain g where g: "\<And>c. c \<in> set (chunks 32 row) \<Longrightarrow> block_bytes c = Inr (g c) \<and> length (g c) = n" by metis
  then have "map_res block_bytes (chunks 32 row) = Inr (map g (chunks 32 row))" by (intro map_res_Inr_map) blast
  moreover have "length (concat (map g (chunks 32 row))) = length row div 32 * n"
    using length_concat_map [of "chunks 32 row" g n] g assms(1) by (simp add: length_chunks)
  ultimately show ?thesis by simp
qed

end

lemma nibble_pairs_ok: "length block = 32 \<Longrightarrow> \<exists>bs. nibble_pairs code block = Inr bs \<and> length bs = 16"
proof -
  assume l: "length block = 32"
  have "py_index block (int i) = Inr (block ! i)" "py_index block (int i + 16) = Inr (block ! (i + 16))" if "i < 16" for i
    using that l by (auto simp: py_index_def nat_add_distrib)
  then have "nibble_pairs code block = Inr (map (\<lambda>i. word_of_int (push_bit 4 (max 0 (min 15 (code (block ! (i + 16))))) OR max 0 (min 15 (code (block ! i))))) [0..<16])"
    unfolding nibble_pairs_def BLOCK_ELEMENTS_def by (simp del: upt.simps) (rule map_res_Inr_map, simp)
  then show ?thesis by simp
qed

lemma f64_div_bounded: "bounded 3 x \<Longrightarrow> 1 \<le> \<bar>k\<bar> \<Longrightarrow> bounded 3 (f64 (x / k))"
proof (rule bounded_3)
  assume "bounded 3 x" "1 \<le> \<bar>k\<bar>"
  then have "\<bar>x\<bar> / \<bar>k\<bar> \<le> 3 / 1" unfolding bounded_def by (intro frac_le) auto
  then show "bounded 3 (x / k)" by (simp add: bounded_def)
qed

interpretation q8_0: block_format q8_0_block 34
proof
  fix block :: "rat list"
  assume l: "length block = 32" "list_all (bounded 3) block"
  define d where "d = (let amax = Max (set (map abs block)) in if amax > 0 then f64 (amax / 127) else 0)"
  have "Max (set (map abs block)) \<in> set (map abs block)" using l(1) by (intro Max_in) auto
  then have "bounded 3 (Max (set (map abs block)))" using l(2) by (auto simp: list_all_iff bounded_def)
  then have "bounded 3 d" using f64_div_bounded [of _ 127] by (simp add: d_def Let_def bounded_def)
  then obtain b where "f32_to_f16_bits d = Inr b" using f16_bits_ok by blast
  then show "\<exists>bs. q8_0_block block = Inr bs \<and> length bs = 34"
    using l(1) unfolding q8_0_block_def Let_def d_def by (simp add: pack_H_def)
qed

lemma max_by_abs_in: "block \<noteq> [] \<Longrightarrow> max_by_abs block \<in> set block"
proof -
  have "foldl (\<lambda>m v. if \<bar>m\<bar> < \<bar>v\<bar> then v else m) a xs \<in> insert a (set xs)" for a :: rat and xs
    by (induction xs arbitrary: a) (auto split: if_splits)
  then show "block \<noteq> [] \<Longrightarrow> ?thesis" unfolding max_by_abs_def by (cases block) force+
qed

interpretation q4_0: block_format q4_0_block 18
proof
  fix block :: "rat list"
  assume l: "length block = 32" "list_all (bounded 3) block"
  define d where "d = (if max_by_abs block \<noteq> 0 then f64 (max_by_abs block / - 8) else 0)"
  have ne: "block \<noteq> []" using l(1) by auto
  have "bounded 3 (max_by_abs block)" using max_by_abs_in [OF ne] l(2) by (auto simp: list_all_iff)
  then have "bounded 3 d" using f64_div_bounded [of _ "- 8"] by (simp add: d_def bounded_def)
  then obtain b where b: "f32_to_f16_bits d = Inr b" using f16_bits_ok by blast
  obtain qs where "nibble_pairs (\<lambda>v. iround (f64 (v * inverse_of d)) + 8) block = Inr qs" "length qs = 16"
    using nibble_pairs_ok [OF l(1)] by blast
  moreover have "q4_0_block block = rbind (f32_to_f16_bits d) (\<lambda>bits.
      rbind (nibble_pairs (\<lambda>v. iround (f64 (v * inverse_of d)) + 8) block) (\<lambda>qs. Inr (pack_H bits @ qs)))"
    unfolding q4_0_block_def Let_def d_def by (simp only: ne not_False_eq_True if_True)
  ultimately show "\<exists>bs. q4_0_block block = Inr bs \<and> length bs = 18" using b by (simp add: pack_H_def)
qed

interpretation q4_1: block_format q4_1_block 20
proof
  fix block :: "rat list"
  assume l: "length block = 32" "list_all (bounded 3) block"
  let ?lo = "Min (set block)" and ?hi = "Max (set block)"
  define d where "d = (if ?hi > ?lo then f64 (f64 (?hi - ?lo) / 15) else 0)"
  have "?lo \<in> set block" "?hi \<in> set block" using l(1) by (auto intro!: Min_in Max_in)
  then have w: "bounded 3 ?lo" "bounded 3 ?hi" using l(2) by (auto simp: list_all_iff)
  then have "bounded (of_int 6) (?hi - ?lo)" unfolding bounded_def by simp
  then have "bounded 6 (f64 (?hi - ?lo))" using bounded_f64 [of 6] by simp
  then have "bounded 1 (f64 (?hi - ?lo) / 15)" unfolding bounded_def by (simp add: abs_divide)
  then have "bounded 3 d" using bounded_1 unfolding d_def bounded_def by fastforce
  then obtain b where b: "f32_to_f16_bits d = Inr b" using f16_bits_ok by blast
  obtain mb where mb: "f32_to_f16_bits ?lo = Inr mb" using f16_bits_ok [OF w(1)] by blast
  obtain qs where "nibble_pairs (\<lambda>v. iround (f64 (f64 (v - ?lo) * inverse_of d))) block = Inr qs" "length qs = 16"
    using nibble_pairs_ok [OF l(1)] by blast
  moreover have "q4_1_block block = rbind (f32_to_f16_bits d) (\<lambda>dbits. rbind (f32_to_f16_bits ?lo) (\<lambda>mbits.
      rbind (nibble_pairs (\<lambda>v. iround (f64 (f64 (v - ?lo) * inverse_of d))) block) (\<lambda>qs.
      Inr (pack_H dbits @ pack_H mbits @ qs))))"
    unfolding q4_1_block_def Let_def d_def by (rule refl)
  ultimately show "\<exists>bs. q4_1_block block = Inr bs \<and> length bs = 20" using b mb by (simp add: pack_H_def)
qed

subsection \<open>The written file\<close>

lemma quantizer_row:
  assumes "map_of QUANTIZERS fmt = Some quant" "0 < n_cols" "n_cols mod 32 = 0"
  shows "\<exists>bs. quant (row_floats row n_cols seed) = Inr bs \<and>
    length bs = nat n_cols div 32 * the (map_of BYTES_PER_BLOCK (the (map_of FORMAT_NAMES fmt)))"
proof -
  have "32 dvd length (row_floats row n_cols seed)"
  proof -
    obtain k where "n_cols = 32 * k" using assms(3) by auto
    then have "nat n_cols = 32 * nat k" by (simp add: nat_mult_distrib)
    then show ?thesis by (simp add: length_row_floats)
  qed
  from q4_0.row_ok [OF this row_floats_bounded] q4_1.row_ok [OF this row_floats_bounded] q8_0.row_ok [OF this row_floats_bounded]
  show ?thesis using assms(1)
    by (auto simp: QUANTIZERS_def FORMAT_NAMES_def BYTES_PER_BLOCK_def quantize_q4_0_def quantize_q4_1_def quantize_q8_0_def
        BLOCK_ELEMENTS_def length_row_floats split: if_splits)
qed

lemma write_rows_ok:
  assumes "\<And>row. \<exists>bs. quant (row_floats row n_cols seed) = Inr bs \<and> length bs = k"
  shows "\<exists>out. write_rows quant n_cols seed rows pre = (pre @ out, Inr ()) \<and> length out = length rows * k"
proof (induction rows arbitrary: pre)
  case (Cons r rows)
  obtain bs where bs: "quant (row_floats (int r) n_cols seed) = Inr bs" "length bs = k" using assms by blast
  obtain out where "write_rows quant n_cols seed rows (pre @ bs) = (pre @ bs @ out, Inr ())" "length out = length rows * k"
    using Cons [of "pre @ bs"] by auto
  then show ?case using bs by auto
qed simp

lemma build_header_ok:
  assumes "map_of FORMAT_NAMES fmt = Some t" "0 \<le> c" "c < 2 ^ 32" "0 \<le> r" "r < 2 ^ 32"
  shows "\<exists>h. build_header fmt c r = Inr h"
  using assms format_type [OF assms(1)] by (auto simp: build_header_def le32_def)

lemma quantizer_format: "map_of QUANTIZERS fmt = Some quant \<Longrightarrow> \<exists>t. map_of FORMAT_NAMES fmt = Some t"
  by (auto simp: QUANTIZERS_def FORMAT_NAMES_def split: if_splits)

subsection \<open>Half floats from the bits of a float32\<close>

lemma or_add: "0 \<le> b \<Longrightarrow> b < 2 ^ n \<Longrightarrow> push_bit n a OR b = a * 2 ^ n + (b :: int)"
proof -
  assume b: "0 \<le> b" "b < 2 ^ n"
  have "push_bit n a OR b = concat_bit n b a" using b by (simp add: concat_bit_def take_bit_int_eq_self or.commute)
  also have "\<dots> = a * 2 ^ n + b" using b by (simp add: concat_bit_eq take_bit_int_eq_self push_bit_eq_mult)
  finally show ?thesis .
qed

text \<open>The magnitude \<open>m\<close> of a float32 is its exponent field and its fraction.\<close>

lemma f32_fields:
  assumes "x \<noteq> 0" "f32_bits x = Inr b"
  shows "\<exists>m. 0 \<le> m \<and> m < 0x7F800000 \<and> b = m + (if x < 0 then 2 ^ 31 else 0) \<and>
    (2 ^ 23 \<le> m \<longrightarrow> \<bar>f32 x\<bar> = of_int (2 ^ 23 + m mod 2 ^ 23) * 2 powi (m div 2 ^ 23 - 150)) \<and>
    (m < 2 ^ 23 \<longrightarrow> \<bar>f32 x\<bar> = of_int m * 2 powi (- 149))"
proof -
  define q where "q = last_place 24 (- 149) x"
  define n where "n = round_half_even (\<bar>x\<bar> / 2 powi q)"
  define m where "m = (q + 149) * 2 ^ 23 + n"
  have q0: "- 149 \<le> q" by (simp add: q_def last_place_def)
  have n0: "0 \<le> n" unfolding n_def by (rule round_half_even_ge) simp
  have "ilog2 x + 1 \<le> q + 24" by (simp add: q_def last_place_def)
  then have "(2::rat) powi (ilog2 x + 1) \<le> 2 powi (q + 24)" by simp
  then have "\<bar>x\<bar> \<le> 2 powi q * 16777216" using ilog2_bounds(2) [OF assms(1)] by (simp add: power_int_add)
  then have "\<bar>x\<bar> / 2 powi q \<le> of_int 16777216" by (simp add: divide_le_eq mult.commute)
  then have n1: "n \<le> 16777216" unfolding n_def by (rule round_half_even_le)
  have n2: "8388608 \<le> n" if "q \<noteq> - 149"
  proof -
    have "q + 23 = ilog2 x" using that by (auto simp: q_def last_place_def max_def split: if_splits)
    then have "2 powi (q + 23) \<le> \<bar>x\<bar>" using ilog2_bounds(1) [OF assms(1)] by simp
    then have "2 powi q * 8388608 \<le> \<bar>x\<bar>" by (simp add: power_int_add)
    then have "of_int 8388608 \<le> \<bar>x\<bar> / 2 powi q" by (simp add: le_divide_eq mult.commute)
    then show ?thesis unfolding n_def by (rule round_half_even_ge)
  qed
  have "\<bar>f32 x\<bar> = of_int n * 2 powi q"
  proof (cases "x < 0")
    case True
    then have "\<bar>x\<bar> / 2 powi q = - (x / 2 powi q)" by simp
    then have "n = - round_half_even (x / 2 powi q)" unfolding n_def by (simp only: round_half_even_minus)
    then have "f32 x = - (of_int n * 2 powi q)" using assms(1) by (simp add: f32_def fl_def q_def Let_def)
    then show ?thesis using n0 by (simp add: abs_mult)
  next
    case False
    then have "f32 x = of_int n * 2 powi q" using assms(1) by (simp add: f32_def fl_def n_def q_def Let_def)
    then show ?thesis using n0 by (simp add: abs_mult)
  qed
  moreover have "of_int n * (2::rat) powi q = of_int (2 ^ 23 + m mod 2 ^ 23) * 2 powi (m div 2 ^ 23 - 150)" if "2 ^ 23 \<le> m"
  proof (cases "n = 16777216")
    case True
    then have m: "m = (q + 151) * 2 ^ 23 + 0" by (simp add: m_def)
    have "m mod 2 ^ 23 = 0" "m div 2 ^ 23 = q + 151" by (simp_all add: m)
    moreover have "(2::rat) powi (q + 151 - 150) = 2 powi q * 2" by (simp add: power_int_add flip: add_diff_eq)
    ultimately show ?thesis by (simp add: True)
  next
    case False
    then have n: "8388608 \<le> n" "n < 16777216" using n1 n2 that by (cases "q = - 149", auto simp: m_def)
    then have m: "m = (n - 8388608) + (q + 150) * 2 ^ 23" "0 \<le> n - 8388608" "n - 8388608 < 2 ^ 23" by (simp_all add: m_def)
    have "m mod 2 ^ 23 = n - 8388608" unfolding m(1) mod_mult_self1 using m(2,3) by (rule mod_pos_pos_trivial)
    moreover have "m div 2 ^ 23 = q + 150" unfolding m(1) using m(2,3) by (subst div_mult_self1) (simp_all add: div_pos_pos_trivial)
    ultimately show ?thesis by simp
  qed
  moreover have "n = m \<and> q = - 149" if "m < 2 ^ 23"
  proof (rule ccontr)
    assume c: "\<not> (n = m \<and> q = - 149)"
    then have "q \<noteq> - 149" by (auto simp: m_def)
    then show False using n2 q0 that by (simp add: m_def)
  qed
  moreover have "0 \<le> m" using q0 n0 by (simp add: m_def)
  moreover have "m < 0x7F800000 \<and> b = m + (if x < 0 then 2 ^ 31 else 0)"
    using assms by (auto simp: f32_bits_def Let_def m_def n_def q_def split: if_splits)
  ultimately show ?thesis by (intro exI [of _ m]) auto
qed

lemma rhe_fraction:
  assumes "0 \<le> c"
  shows "round_half_even (of_int c / 8192) =
    c div 8192 + (if c mod 8192 > 4096 \<or> c mod 8192 = 4096 \<and> odd (c div 8192) then 1 else 0)"
proof -
  have c: "(of_int c :: rat) = of_int (c div 8192) * 8192 + of_int (c mod 8192)"
    by (metis div_mult_mod_eq of_int_add of_int_mult of_int_numeral)
  have r: "0 \<le> c mod 8192" "c mod 8192 < 8192" by simp_all
  have f: "\<lfloor>(of_int c :: rat) / 8192\<rfloor> = c div 8192" by (metis floor_divide_of_int_eq of_int_numeral)
  have d: "(of_int c :: rat) / 8192 - of_int (c div 8192) = of_int (c mod 8192) / 8192" by (simp add: c field_simps)
  have "(of_int (c mod 8192) :: rat) / 8192 < 1 / 2 \<longleftrightarrow> c mod 8192 < 4096" "(1::rat) / 2 < of_int (c mod 8192) / 8192 \<longleftrightarrow> 4096 < c mod 8192"
    by (simp_all add: divide_less_eq less_divide_eq)
  then show ?thesis unfolding round_half_even_def Let_def f d by auto
qed

definition half_magnitude :: "int \<Rightarrow> int" where
  "half_magnitude m = (m div 2 ^ 23 - 112) * 1024 + m mod 2 ^ 23 div 8192 +
     (if m mod 8192 > 4096 \<or> m mod 8192 = 4096 \<and> odd (m div 8192) then 1 else 0)"

lemma f16_of_f32_eq:
  assumes "0 \<le> m" "m < 0x7F800000" "s \<in> {0, 1}"
  shows "f16_of_f32 (m + s * 2 ^ 31) = s * 32768 + (if m div 2 ^ 23 < 113 then 0 else min 0x7BFF (half_magnitude m))"
proof -
  define ex where "ex = m div 2 ^ 23"
  define mant where "mant = m mod 2 ^ 23"
  have ex: "0 \<le> ex" "ex < 255" using assms(1,2) by (auto simp: ex_def pos_imp_zdiv_nonneg_iff)
  have mant: "0 \<le> mant" "mant < 8388608" by (simp_all add: mant_def)
  have b: "drop_bit 31 (m + s * 2 ^ 31) AND 1 = s"
    using assms by (auto simp: drop_bit_eq_div and_one_eq)
  have e: "drop_bit 23 (m + s * 2 ^ 31) AND 255 = ex"
  proof -
    have "(m + s * 2 ^ 31) div 2 ^ 23 = ex + s * 256" using div_mult_self1 [of "2 ^ 23" m "s * 256"] by (simp add: ex_def)
    then have "drop_bit 23 (m + s * 2 ^ 31) AND 255 = (ex + s * 256) mod 256"
      using take_bit_eq_mask [of 8 "ex + s * 256"] by (simp add: drop_bit_eq_div take_bit_eq_mod mask_eq_exp_minus_1)
    then show ?thesis using ex by simp
  qed
  have a: "(m + s * 2 ^ 31) AND 8388607 = mant"
  proof -
    have "(m + s * 2 ^ 31) AND 8388607 = (m + s * 2 ^ 31) mod 2 ^ 23"
      using take_bit_eq_mask [of 23 "m + s * 2 ^ 31"] by (simp add: take_bit_eq_mod mask_eq_exp_minus_1)
    also have "\<dots> = m mod 2 ^ 23" using mod_mult_self1 [of m "s * 256" "2 ^ 23"] by (simp add: mult.commute)
    finally show ?thesis by (simp add: mant_def)
  qed
  have rb: "mant AND 8191 = m mod 8192"
  proof -
    have "mant AND 8191 = mant mod 8192" using take_bit_eq_mask [of 13 mant] by (simp add: take_bit_eq_mod mask_eq_exp_minus_1)
    also have "\<dots> = m mod 8192" unfolding mant_def by (rule mod_mod_cancel) simp
    finally show ?thesis .
  qed
  define k where "k = mant div 8192"
  have k: "0 \<le> k" "k < 1024" using mant by (auto simp: k_def pos_imp_zdiv_nonneg_iff)
  have od: "odd (m div 8192) \<longleftrightarrow> odd k"
  proof -
    have "m = ex * 8388608 + mant" by (simp add: ex_def mant_def)
    then have "m div 8192 = ex * 1024 + k" using div_mult_self3 [of 8192 "ex * 1024" mant] by (simp add: k_def)
    then show ?thesis by simp
  qed
  have dk: "drop_bit 13 mant = k" by (simp add: k_def drop_bit_eq_div)
  have put: "push_bit 15 s OR (push_bit 10 E OR M) = s * 32768 + (E * 1024 + M)" if "0 \<le> E" "E < 32" "0 \<le> M" "M < 1024" for E M
    using that or_add [of M 10 E] or_add [of "E * 1024 + M" 15 s] by simp
  have put': "push_bit 15 s OR 31743 = s * 32768 + 31743" "push_bit 15 s = s * 32768"
    using or_add [of 31743 15 s] by (simp_all add: push_bit_eq_mult)
  have k1: "drop_bit 10 (k + 1) \<noteq> 0 \<longleftrightarrow> k = 1023" using k by (auto simp: drop_bit_eq_div)
  have hm: "half_magnitude m = (ex - 112) * 1024 + k + (if m mod 8192 > 4096 \<or> m mod 8192 = 4096 \<and> odd k then 1 else 0)"
    by (simp add: half_magnitude_def ex_def mant_def k_def od)
  have ko: "k AND 1 \<noteq> 0 \<longleftrightarrow> odd k" by (simp add: and_one_eq odd_iff_mod_2_eq_one)
  show ?thesis
    unfolding f16_of_f32_def Let_def b e a rb dk k1 ko ex_def [symmetric] hm
    using ex k put [of "ex - 112" k] put [of "ex - 112" "k + 1"] put [of "ex - 111" 0] put' by (auto simp: min_def)
qed

lemma normal_ilog2:
  assumes "\<bar>y\<bar> = of_int (2 ^ 23 + t) * 2 powi (ex - 150)" "0 \<le> t" "t < 2 ^ 23"
  shows "2 powi (ex - 127) \<le> \<bar>y\<bar>" "\<bar>y\<bar> < 2 powi (ex - 126)" "ilog2 y = ex - 127"
proof -
  have p: "(2::rat) powi (ex - 127) = 8388608 * 2 powi (ex - 150)" "(2::rat) powi (ex - 126) = 16777216 * 2 powi (ex - 150)"
    using power_int_add [of "2::rat" 23 "ex - 150"] power_int_add [of "2::rat" 24 "ex - 150"] by simp_all
  have "(8388608::rat) \<le> of_int (2 ^ 23 + t)" "of_int (2 ^ 23 + t) < (16777216::rat)" using assms(2,3) by simp_all
  then show lo: "2 powi (ex - 127) \<le> \<bar>y\<bar>" and hi: "\<bar>y\<bar> < 2 powi (ex - 126)"
    unfolding p assms(1) by (simp_all only: mult_right_mono mult_strict_right_mono powi2_pos less_imp_le)
  have "ex - 127 + 1 = ex - 126" by simp
  then show "ilog2 y = ex - 127" using lo hi by (intro ilog2_eqI) simp_all
qed

lemma half_bits_normal:
  assumes m: "2 ^ 23 \<le> m" "113 \<le> m div 2 ^ 23" "\<bar>y\<bar> = of_int (2 ^ 23 + m mod 2 ^ 23) * 2 powi (m div 2 ^ 23 - 150)"
  shows "uint (half_bits y) = (if y < 0 then 32768 else 0) + min 0x7C00 (half_magnitude m)"
proof -
  let ?ex = "m div 2 ^ 23" and ?t = "m mod 2 ^ 23"
  have t: "0 \<le> ?t" "?t < 2 ^ 23" by simp_all
  note i = normal_ilog2 [OF m(3) t]
  have y0: "y \<noteq> 0" using less_le_trans [OF powi2_pos i(1)] by auto
  have q: "last_place 11 (- 24) y = ?ex - 137" using m(2) i(3) by (simp add: last_place_def)
  have "(2::rat) powi (?ex - 137) = 8192 * 2 powi (?ex - 150)" using power_int_add [of "2::rat" 13 "?ex - 150"] by simp
  then have yq: "\<bar>y\<bar> / 2 powi (?ex - 137) = of_int (2 ^ 23 + ?t) / 8192" unfolding m(3) by (simp add: field_simps)
  have "round_half_even (\<bar>y\<bar> / 2 powi (?ex - 137)) = (2 ^ 23 + ?t) div 8192 +
      (if (2 ^ 23 + ?t) mod 8192 > 4096 \<or> (2 ^ 23 + ?t) mod 8192 = 4096 \<and> odd ((2 ^ 23 + ?t) div 8192) then 1 else 0)"
    unfolding yq using t by (intro rhe_fraction) simp
  also have "(2 ^ 23 + ?t) div 8192 = 1024 + ?t div 8192" using div_mult_self3 [of 8192 1024 ?t] by simp
  also have "(2 ^ 23 + ?t) mod 8192 = m mod 8192"
  proof -
    have "(2 ^ 23 + ?t) mod 8192 = ?t mod 8192" using mod_mult_self3 [of 1024 8192 ?t] by simp
    also have "\<dots> = m mod 8192" by (rule mod_mod_cancel) simp
    finally show ?thesis .
  qed
  finally have n: "round_half_even (\<bar>y\<bar> / 2 powi (?ex - 137)) = 1024 + ?t div 8192 +
      (if m mod 8192 > 4096 \<or> m mod 8192 = 4096 \<and> odd (1024 + ?t div 8192) then 1 else 0)" .
  have od: "odd (1024 + ?t div 8192) \<longleftrightarrow> odd (m div 8192)"
  proof -
    have "m = ?ex * 1024 * 8192 + ?t" by simp
    then have "m div 8192 = ?ex * 1024 + ?t div 8192" by (metis div_mult_self3 add.commute zero_neq_numeral)
    then show ?thesis by simp
  qed
  have hm: "(?ex - 137 + 24) * 1024 + round_half_even (\<bar>y\<bar> / 2 powi (?ex - 137)) = half_magnitude m"
    unfolding n od half_magnitude_def by simp
  have hm0: "0 \<le> half_magnitude m" using m(2) t by (auto simp: half_magnitude_def)
  have "half_bits y = word_of_int (min 0x7C00 (half_magnitude m) + (if y < 0 then 0x8000 else 0))"
    unfolding half_bits_def Let_def q hm using y0 by (simp only: if_False)
  moreover have "uint (word_of_int z :: 16 word) = z" if "0 \<le> z" "z < 2 ^ 16" for z
    using that by (simp add: uint_word_of_int_eq take_bit_int_eq_self)
  moreover have "0 \<le> min 0x7C00 (half_magnitude m) + (if y < 0 then 0x8000 else 0)"
    "min 0x7C00 (half_magnitude m) + (if y < 0 then 0x8000 else 0) < 2 ^ 16" using hm0 by (simp_all add: min_def)
  ultimately show ?thesis by (simp only: add.commute)
qed

lemma f32_sign: "f32 x \<noteq> 0 \<Longrightarrow> f32 x < 0 \<longleftrightarrow> x < 0"
  using r32.rnd_nonneg [of x] r32.rnd_mono [of x 0] by (cases "x < 0") (auto simp: r32.rnd_0)

lemma f16_bits_spec:
  assumes "f32_bits x = Inr b"
  shows "f32_to_f16_bits x = Inr ((if x < 0 then 0x8000 else 0) +
    (if \<bar>f32 x\<bar> < 1 / 2 ^ 14 then 0 else min 0x7BFF (uint (half_bits (f32 x)) mod 0x8000)))"
proof (cases "x = 0")
  case True
  have "f16_of_f32 0 = 0" by (simp add: f16_of_f32_def)
  then show ?thesis using True by (simp add: f32_to_f16_bits_def f32_bits_def)
next
  case False
  obtain m where m: "0 \<le> m" "m < 0x7F800000" "b = m + (if x < 0 then 2 ^ 31 else 0)"
    "2 ^ 23 \<le> m \<Longrightarrow> \<bar>f32 x\<bar> = of_int (2 ^ 23 + m mod 2 ^ 23) * 2 powi (m div 2 ^ 23 - 150)"
    "m < 2 ^ 23 \<Longrightarrow> \<bar>f32 x\<bar> = of_int m * 2 powi (- 149)"
    using f32_fields [OF False assms] by blast
  let ?s = "if x < 0 then 1 else 0 :: int"
  have r: "f32_to_f16_bits x = Inr (?s * 32768 + (if m div 2 ^ 23 < 113 then 0 else min 0x7BFF (half_magnitude m)))"
  proof -
    have "b = m + ?s * 2 ^ 31" using m(3) by simp
    moreover have "?s \<in> {0, 1}" by simp
    ultimately show ?thesis using f16_of_f32_eq [OF m(1,2), of ?s] assms by (simp only: f32_to_f16_bits_def rbind.simps)
  qed
  have t: "0 \<le> m mod 2 ^ 23" "m mod 2 ^ 23 < 2 ^ 23" by simp_all
  have e14: "(1::rat) / 2 ^ 14 = 2 powi (- 14)" by (simp add: power_int_minus)
  consider (sub) "m < 2 ^ 23" | (small) "2 ^ 23 \<le> m" "m div 2 ^ 23 < 113" | (normal) "2 ^ 23 \<le> m" "113 \<le> m div 2 ^ 23" by linarith
  then show ?thesis
  proof cases
    case sub
    have "\<bar>f32 x\<bar> < 8388608 * (2::rat) powi (- 149)" using m(1) sub unfolding m(5) [OF sub] by (intro mult_strict_right_mono) simp_all
    also have "\<dots> \<le> 1 / 2 ^ 14" by (simp add: power_int_minus)
    finally show ?thesis using r sub m(1) by (simp add: div_pos_pos_trivial)
  next
    case small
    have "\<bar>f32 x\<bar> < 2 powi (m div 2 ^ 23 - 126)" by (rule normal_ilog2(2) [OF m(4) [OF small(1)] t])
    also have "\<dots> \<le> 2 powi (- 14)" unfolding powi2_le_iff using small(2) by simp
    finally show ?thesis using r small(2) by (simp add: e14)
  next
    case normal
    have "(2::rat) powi (- 14) \<le> 2 powi (m div 2 ^ 23 - 127)" unfolding powi2_le_iff using normal(2) by simp
    also have "\<dots> \<le> \<bar>f32 x\<bar>" by (rule normal_ilog2(1) [OF m(4) [OF normal(1)] t])
    finally have ge: "\<not> \<bar>f32 x\<bar> < 1 / 2 ^ 14" by (simp add: e14)
    then have "f32 x \<noteq> 0" by auto
    have hm: "0 \<le> half_magnitude m" using normal(2) t by (auto simp: half_magnitude_def)
    have "uint (half_bits (f32 x)) mod 0x8000 = min 0x7C00 (half_magnitude m)"
      using half_bits_normal [OF normal m(4) [OF normal(1)]] hm by (auto simp: min_def)
    then show ?thesis using r normal(2) ge by (auto simp: min_def)
  qed
qed

end
