(* ===== verification/Table_Properties.thy ===== *)
theory Table_Properties
  imports Table_Facts
begin

text \<open>
  The properties of the synthetic n-gram table.
\<close>

text \<open>\<open>parse_header\<close> accepts exactly the buffers that begin with a header \<open>build_header\<close> makes for a positive number
  of rows and a positive multiple of 32 columns, and returns the type, the columns and the rows of that header.\<close>

theorem header_roundtrip:
  "parse_header buf = Inr (t, c, r) \<longleftrightarrow>
     (\<exists>fmt h rest. map_of FORMAT_NAMES fmt = Some t \<and> build_header fmt c r = Inr h \<and> buf = h @ rest \<and>
        0 < c \<and> c mod 32 = 0 \<and> 0 < r)"
  using parse_sound [of buf t c r] parse_build by (fastforce simp: valid_header_def)

text \<open>C39. Emitting a table of a known format with a positive number of rows and a positive multiple of 32 columns, both
  below \<open>2 ^ 32\<close>, always succeeds: the file is the header, which parses back to the request, followed by exactly the
  announced number of payload bytes.\<close>

theorem emit_writes_table:
  assumes "map_of QUANTIZERS fmt = Some quantizer" and "0 < n_rows" and "n_rows < 2 ^ 32"
    and "0 < n_cols" and "n_cols < 2 ^ 32" and "n_cols mod 32 = 0"
  shows "\<exists>out payload t n. emit_synthetic_ngram_table n_rows n_cols fmt seed file = (Some out, Inr (payload, n_cols div 32)) \<and>
    int (length out) = 24 + payload \<and> map_of FORMAT_NAMES fmt = Some t \<and> parse_header out = Inr (t, n_cols, n_rows) \<and>
    map_of BYTES_PER_BLOCK t = Some n \<and> payload = n_rows * (n_cols div 32 * int n)"
proof -
  obtain t where t: "map_of FORMAT_NAMES fmt = Some t" using quantizer_format [OF assms(1)] by blast
  obtain n where n: "map_of BYTES_PER_BLOCK t = Some n"
    using format_type [OF t] by (auto simp: BYTES_PER_BLOCK_def)
  obtain h where h: "build_header fmt n_cols n_rows = Inr h" using build_header_ok [OF t] assms by force
  define k where "k = nat n_cols div 32 * n"
  have row: "\<exists>bs. quantizer (row_floats row n_cols seed) = Inr bs \<and> length bs = k" for row
    using quantizer_row [OF assms(1,4,6), of row seed] t n by (simp add: k_def)
  obtain out where out: "write_rows quantizer n_cols seed [0..<nat n_rows] h = (h @ out, Inr ())" "length out = nat n_rows * k"
    using write_rows_ok [of quantizer n_cols seed k "[0..<nat n_rows]" h] row by auto
  have "parse_header (h @ out) = Inr (t, n_cols, n_rows) \<and> length h = 24"
    using parse_build [OF h t assms(4,6,2)] by blast
  moreover have "emit_synthetic_ngram_table n_rows n_cols fmt seed file =
      (Some (h @ out), Inr (n_rows * (n_cols div 32 * int n), n_cols div 32))"
    using assms t n h out(1) by (simp add: emit_synthetic_ngram_table_def BLOCK_ELEMENTS_def Let_def)
  moreover have "int (length out) = n_rows * (n_cols div 32 * int n)"
    using assms(2,4) by (simp add: out(2) k_def of_nat_div)
  ultimately show ?thesis using t n by (intro exI [of _ "h @ out"]) auto
qed

theorem emit_writes_table_witness:
  "\<exists>out. emit_synthetic_ngram_table 3 160 ''q4_0'' 7 None = (Some out, Inr (270, 5)) \<and> length out = 294"
  using emit_writes_table [of "''q4_0''" quantize_q4_0 3 160 7 None]
  by (auto simp: QUANTIZERS_def FORMAT_NAMES_def BYTES_PER_BLOCK_def)

text \<open>C40. The half-float conversion on the bits of a float32 gives, for every finite value, the sign and the magnitude of
  the nearest half with ties to even, except that it flushes every value below the smallest normal half to zero and
  clamps at the largest finite half instead of giving an infinity.\<close>

theorem half_conversion_rounds:
  assumes "f32_bits x = Inr b"
  shows "f32_to_f16_bits x = Inr ((if x < 0 then 0x8000 else 0) +
    (if \<bar>f32 x\<bar> < 1 / 2 ^ 14 then 0 else min 0x7BFF (uint (half_bits (f32 x)) mod 0x8000)))"
  using assms by (rule f16_bits_spec)

theorem half_conversion_rounds_witness:
  "f32_to_f16_bits (- 3) = Inr (0x8000 + (if \<bar>f32 (- 3)\<bar> < 1 / 2 ^ 14 then 0 else min 0x7BFF (uint (half_bits (f32 (- 3))) mod 0x8000)))"
proof -
  obtain b where "f32_bits (- 3) = Inr b" using f32_bits_ok [of "- 3"] by (auto simp: bounded_def)
  from half_conversion_rounds [OF this] show ?thesis by simp
qed

end
