(* ===== verification/Cache_Sim.thy ===== *)
theory Cache_Sim
  imports Py_Float
begin

text \<open>
  The replay of the prefix cache, \<open>tools/cachesim.py\<close>: the walk from an assistant message up to the
  root of its session tree, and the cache itself, one snapshot per request, looked up by the deepest
  entry inside the common prefix, evicted in LRU order under the page pool and the entry budget.

  The estimated token counts of the messages (a least-squares fit over private transcripts) are the
  input of the simulation: a turn carries its session, its chain of message ids, their token counts
  and the tokens of the system prompt.
\<close>

subsection \<open>Session trees\<close>

datatype ev_kind = Message | Compaction | OtherEvent

record event =
  ev_id :: string
  ev_kind_of :: ev_kind
  ev_parent :: "string option"

definition parent_of :: "(string, event) dict \<Rightarrow> event \<Rightarrow> event option" where
  "parent_of by_id e = (case ev_parent e of None \<Rightarrow> None | Some p \<Rightarrow> map_of by_id p)"

text \<open>
  The chain of message ids up to the root or to the nearest compaction, nearest first. Parent ids
  are data of the file: a cycle is walked for ever, which is the value None.
\<close>

partial_function (option) walk_up :: "(string, event) dict \<Rightarrow> event option \<Rightarrow> string list \<Rightarrow> string list option" where
  "walk_up by_id cur chain =
     (case cur of
        None \<Rightarrow> Some chain
      | Some e \<Rightarrow>
          (case ev_kind_of e of
             Message \<Rightarrow> walk_up by_id (parent_of by_id e) (chain @ [ev_id e])
           | Compaction \<Rightarrow> Some (chain @ [ev_id e])
           | OtherEvent \<Rightarrow> walk_up by_id (parent_of by_id e) chain))"

definition chain_of :: "(string, event) dict \<Rightarrow> event \<Rightarrow> string list option" where
  "chain_of by_id e = map_option rev (walk_up by_id (parent_of by_id e) [])"

subsection \<open>The simulation\<close>

record turn =
  t_session :: string
  t_chain :: "string list"
  t_toks :: "int list"
  t_system :: int

record config =
  grid :: int
  entries_max :: nat
  pool_tok :: int
  n_ctx :: int

definition CFG :: "(string, config) dict" where
  "CFG =
     [(''coder'', \<lparr>grid = 128, entries_max = 21, pool_tok = 8357 * 16, n_ctx = 98304\<rparr>),
      (''agent'', \<lparr>grid = 2048, entries_max = 85, pool_tok = 23593 * 16, n_ctx = 262144\<rparr>)]"

record snapshot =
  s_len :: int
  s_path :: "string list"
  s_toklens :: "int list"

datatype miss_class = First | Front | Mid | Append

record sim_state =
  live :: "snapshot list"
  requests :: int
  unservable :: int
  hits :: int
  superseded :: int
  evict_pool :: int
  evict_budget :: int
  max_live :: int
  prefilled :: "int list"
  hits_tok :: int
  prompt_tok :: int
  classes :: "(miss_class, int) dict"
  class_tok :: "(miss_class, int) dict"
  front_why :: "(string, int) dict"
  front_tok :: "(string, int) dict"
  last_len :: "(string, int) dict"
  lost_reason :: "(string, string) dict"

definition sim_init :: sim_state where
  "sim_init =
     \<lparr>live = [], requests = 0, unservable = 0, hits = 0, superseded = 0, evict_pool = 0, evict_budget = 0,
      max_live = 0, prefilled = [], hits_tok = 0, prompt_tok = 0, classes = [], class_tok = [], front_why = [],
      front_tok = [], last_len = [], lost_reason = []\<rparr>"

fun union_loop :: "(string \<times> int) list \<Rightarrow> string list \<Rightarrow> int \<Rightarrow> int" where
  "union_loop [] seen tot = tot"
| "union_loop ((mid, tk) # ps) seen tot =
     (if mid \<notin> set seen then union_loop ps (mid # seen) (tot + tk) else union_loop ps seen tot)"

definition union_tokens :: "snapshot list \<Rightarrow> int" where
  "union_tokens es = union_loop (concat (map (\<lambda>e. zip (s_path e) (s_toklens e)) es)) [] 0"

fun common_tokens :: "string list \<Rightarrow> string list \<Rightarrow> int list \<Rightarrow> int" where
  "common_tokens (a # as) (b # bs) (tk # tks) = (if a \<noteq> b then 0 else tk + common_tokens as bs tks)"
| "common_tokens _ _ _ = 0"

fun best_entry :: "string list \<Rightarrow> int list \<Rightarrow> snapshot list \<Rightarrow> snapshot option \<times> int \<Rightarrow> snapshot option \<times> int" where
  "best_entry path toklens [] acc = acc"
| "best_entry path toklens (e # es) (best, best_len) =
     (if s_len e \<le> common_tokens path (s_path e) toklens \<and> s_len e > best_len
      then best_entry path toklens es (Some e, s_len e)
      else best_entry path toklens es (best, best_len))"

text \<open>\<open>path[0][4:]\<close>, the session of an entry.\<close>

definition session_of :: "snapshot \<Rightarrow> string" where
  "session_of e = drop 4 (hd (s_path e))"

definition snap_point :: "int \<Rightarrow> int \<Rightarrow> int" where
  "snap_point g l = (l - 1) div g * g"

definition miss_class_of :: "config \<Rightarrow> int option \<Rightarrow> int \<Rightarrow> miss_class" where
  "miss_class_of c prev best_len =
     (let seen = (case prev of None \<Rightarrow> False | Some p \<Rightarrow> p \<noteq> 0) in
      if best_len = 0 then if seen then Front else First
      else if seen \<and> best_len < snap_point (grid c) (the prev) then Mid
      else Append)"

definition is_ancestor :: "string list \<Rightarrow> int \<Rightarrow> snapshot \<Rightarrow> bool" where
  "is_ancestor path snap e =
     (hd (s_path e) = hd path \<and> length (s_path e) \<le> length path \<and> take (length (s_path e)) path = s_path e \<and>
      s_len e \<le> snap)"

definition drop_ancestors :: "string list \<Rightarrow> int \<Rightarrow> sim_state \<Rightarrow> sim_state" where
  "drop_ancestors path snap st =
     st\<lparr>live := filter (\<lambda>e. \<not> is_ancestor path snap e) (live st),
        superseded := superseded st + int (length (filter (is_ancestor path snap) (live st)))\<rparr>"

function evict_for_pool :: "int \<Rightarrow> snapshot \<Rightarrow> sim_state \<Rightarrow> sim_state" where
  "evict_for_pool pool new st =
     (if live st \<noteq> [] \<and> union_tokens (live st @ [new]) > pool
      then evict_for_pool pool new
             (st\<lparr>live := butlast (live st), evict_pool := evict_pool st + 1,
                 lost_reason := AList.update (session_of (last (live st))) ''pool'' (lost_reason st)\<rparr>)
      else st)"
  by pat_completeness auto
termination
  by (relation "measure (\<lambda>(pool, new, st). length (live st))") auto

declare evict_for_pool.simps [simp del]

function evict_for_budget :: "nat \<Rightarrow> sim_state \<Rightarrow> sim_state" where
  "evict_for_budget limit st =
     (if length (live st) > limit
      then let s = session_of (last (live st)) in
           evict_for_budget limit
             (st\<lparr>live := butlast (live st), evict_budget := evict_budget st + 1,
                 lost_reason := (if s \<in> set (map fst (lost_reason st)) then lost_reason st
                                 else lost_reason st @ [(s, ''budget'')])\<rparr>)
      else st)"
  by pat_completeness auto
termination
  by (relation "measure (\<lambda>(limit, st). length (live st))") auto

declare evict_for_budget.simps [simp del]

definition insert_snapshot :: "config \<Rightarrow> bool \<Rightarrow> string list \<Rightarrow> int list \<Rightarrow> sim_state \<Rightarrow> sim_state" where
  "insert_snapshot c frontier_only path toklens st =
     (let snap = snap_point (grid c) (sum_list toklens);
          new = \<lparr>s_len = snap, s_path = path, s_toklens = toklens\<rparr>;
          st1 = (if frontier_only then drop_ancestors path snap st else st);
          st2 = evict_for_pool (pool_tok c) new st1
      in evict_for_budget (entries_max c) (st2\<lparr>live := new # live st2\<rparr>))"

definition front_cause :: "string list \<Rightarrow> turn \<Rightarrow> sim_state \<Rightarrow> string" where
  "front_cause compacted t st =
     (if t_chain t \<noteq> [] \<and> hd (t_chain t) \<in> set compacted then ''compaction''
      else if list_ex (\<lambda>e. hd (s_path e) = ''sys:'' @ t_session t) (live st) then ''front-changed''
      else dict_get (lost_reason st) (t_session t) ''evicted-unknown'')"

text \<open>The part of a request before its snapshot is taken: look-up, statistics, the session's length.\<close>

definition lookup_turn :: "string list \<Rightarrow> config \<Rightarrow> turn \<Rightarrow> sim_state \<Rightarrow> sim_state" where
  "lookup_turn compacted c t st =
     (let path = (''sys:'' @ t_session t) # t_chain t;
          toklens = t_system t # t_toks t;
          total = sum_list toklens;
          (best, best_len) = best_entry path toklens (live st) (None, 0);
          st1 = (case best of
                   None \<Rightarrow> st
                 | Some e \<Rightarrow> st\<lparr>live := e # remove1 e (live st), hits := hits st + 1, hits_tok := hits_tok st + best_len\<rparr>);
          pre = total - best_len;
          cls = miss_class_of c (map_of (last_len st) (t_session t)) best_len;
          st2 = st1\<lparr>requests := requests st + 1, prompt_tok := prompt_tok st + total, prefilled := prefilled st @ [pre],
                    classes := incr 1 cls (classes st), class_tok := incr pre cls (class_tok st)\<rparr>;
          st3 = (if cls = Front
                 then let why = front_cause compacted t st2
                      in st2\<lparr>front_why := incr 1 why (front_why st2), front_tok := incr pre why (front_tok st2)\<rparr>
                 else st2);
          st4 = (if best \<noteq> None then st3\<lparr>lost_reason := AList.delete (t_session t) (lost_reason st3)\<rparr> else st3)
      in st4\<lparr>last_len := AList.update (t_session t) total (last_len st4)\<rparr>)"

definition serve_turn :: "string list \<Rightarrow> config \<Rightarrow> bool \<Rightarrow> sim_state \<Rightarrow> turn \<Rightarrow> sim_state" where
  "serve_turn compacted c frontier_only st t =
     (let path = (''sys:'' @ t_session t) # t_chain t;
          toklens = t_system t # t_toks t
      in if sum_list toklens > n_ctx c then st\<lparr>unservable := unservable st + 1\<rparr>
         else
           let st1 = lookup_turn compacted c t st;
               st2 = (if snap_point (grid c) (sum_list toklens) > 0
                      then insert_snapshot c frontier_only path toklens st1 else st1)
           in st2\<lparr>max_live := max (max_live st2) (int (length (live st2)))\<rparr>)"

definition simulate :: "string list \<Rightarrow> config \<Rightarrow> bool \<Rightarrow> turn list \<Rightarrow> sim_state" where
  "simulate compacted c frontier_only turns = foldl (serve_turn compacted c frontier_only) sim_init turns"

text \<open>The reported percentile: \<open>sorted(prefilled)[min(len - 1, int(p * len))]\<close>.\<close>

definition percentile :: "rat \<Rightarrow> int list \<Rightarrow> int" where
  "percentile p xs =
     (if xs = [] then 0
      else sort xs ! nat (min (int (length xs) - 1) \<lfloor>f64 (p * of_nat (length xs))\<rfloor>))"

text \<open>The configurations that are replayed: the two of \<open>CFG\<close>, then the levers.\<close>

definition runs :: "(config \<times> bool) list" where
  "runs =
     (let coder = the (map_of CFG ''coder''); agent = the (map_of CFG ''agent'')
      in map (\<lambda>(_, c). (c, False)) CFG @
         map (\<lambda>g. (agent\<lparr>grid := g\<rparr>, False)) [256, 128] @
         [(agent, True), (agent\<lparr>grid := 128\<rparr>, True), (coder, True)])"

end
