(* ===== verification/Cache_Facts.thy ===== *)
theory Cache_Facts
  imports Cache_Sim
begin

text \<open>
  Facts of the prefix-cache replay: what the look-up returns, what the two evictions keep, the tokens
  in use as a sum over messages, and the invariants of a request, carried to every reachable state by
  rule induction.
\<close>

subsection \<open>Look-up\<close>

lemma best_entry_spec:
  assumes "best_entry path tk es (b0, l0) = (b, l)" "b0 = None \<and> l0 = 0 \<or> (\<exists>e0. b0 = Some e0 \<and> s_len e0 = l0 \<and> P e0)" "0 \<le> l0"
    and "\<And>e. e \<in> set es \<Longrightarrow> s_len e \<le> common_tokens path (s_path e) tk \<Longrightarrow> P e"
  shows "l0 \<le> l \<and> (b = None \<and> l = 0 \<or> (\<exists>e. b = Some e \<and> s_len e = l \<and> P e)) \<and> (b \<noteq> b0 \<longrightarrow> the b \<in> set es) \<and>
    (\<forall>e \<in> set es. s_len e \<le> common_tokens path (s_path e) tk \<longrightarrow> s_len e \<le> l)"
  using assms
proof (induction es arbitrary: b0 l0)
  case (Cons e es)
  show ?case
  proof (cases "s_len e \<le> common_tokens path (s_path e) tk \<and> s_len e > l0")
    case True
    then have n: "best_entry path tk es (Some e, s_len e) = (b, l)" using Cons.prems(1) by simp
    have "P e" using Cons.prems(4) True by simp
    from Cons.IH [OF n] this True Cons.prems(3,4) have
      ih: "s_len e \<le> l \<and> (b = None \<and> l = 0 \<or> (\<exists>e. b = Some e \<and> s_len e = l \<and> P e)) \<and> (b \<noteq> Some e \<longrightarrow> the b \<in> set es) \<and>
        (\<forall>e \<in> set es. s_len e \<le> common_tokens path (s_path e) tk \<longrightarrow> s_len e \<le> l)" by auto
    then show ?thesis using True by (cases "b = Some e") auto
  next
    case False
    then have "best_entry path tk es (b0, l0) = (b, l)" using Cons.prems(1) by auto
    from Cons.IH [OF this Cons.prems(2,3)] Cons.prems(4) False show ?thesis by force
  qed
qed auto

lemma best_entry_cases:
  assumes "best_entry path tk es (None, 0) = (b, l)"
  shows "0 \<le> l" "b = None \<Longrightarrow> l = 0" "b = Some e \<Longrightarrow> e \<in> set es \<and> s_len e = l \<and> l \<le> common_tokens path (s_path e) tk"
    "e \<in> set es \<Longrightarrow> s_len e \<le> common_tokens path (s_path e) tk \<Longrightarrow> s_len e \<le> l"
  using best_entry_spec [OF assms, of "\<lambda>e. s_len e \<le> common_tokens path (s_path e) tk"] by auto

lemma common_le:
  "list_all (\<lambda>x. 0 \<le> x) tk \<Longrightarrow> common_tokens path p tk \<le> sum_list tk \<and> 0 \<le> common_tokens path p tk"
proof (induction path p tk rule: common_tokens.induct)
  case (1 a as b bs t ts)
  have "0 \<le> sum_list ts" using 1(2) by (simp add: sum_list_nonneg list_all_iff)
  then show ?case using 1 by auto
qed (auto simp: sum_list_nonneg list_all_iff)

subsection \<open>Counters\<close>

lemma sum_incr: "sum_list (map snd (incr x k d)) = sum_list (map snd d) + (x :: int)"
proof -
  have u: "sum_list (map snd (AList.update k v d)) = sum_list (map snd d) + v - dict_get d k 0" for v
    by (induction d) (auto simp: dict_get_def)
  show ?thesis by (simp add: incr_def u)
qed

subsection \<open>Eviction\<close>

text \<open>What the two evictions leave alone.\<close>

definition same_stats :: "sim_state \<Rightarrow> sim_state \<Rightarrow> bool" where
  "same_stats s t \<longleftrightarrow> requests s = requests t \<and> unservable s = unservable t \<and> hits s = hits t \<and> max_live s = max_live t \<and>
     prefilled s = prefilled t \<and> hits_tok s = hits_tok t \<and> prompt_tok s = prompt_tok t \<and> classes s = classes t \<and>
     class_tok s = class_tok t"

definition dropped :: "sim_state \<Rightarrow> int" where
  "dropped s = superseded s + evict_pool s + evict_budget s"

lemma pool_step:
  "same_stats (evict_for_pool pool new st) st \<and>
   int (length (live (evict_for_pool pool new st))) + dropped (evict_for_pool pool new st) = int (length (live st)) + dropped st \<and>
   (\<exists>k. live (evict_for_pool pool new st) = take k (live st)) \<and>
   (live (evict_for_pool pool new st) = [] \<or> union_tokens (live (evict_for_pool pool new st) @ [new]) \<le> pool)"
proof (induction pool new st rule: evict_for_pool.induct)
  case (1 pool new st)
  show ?case
  proof (cases "live st \<noteq> [] \<and> union_tokens (live st @ [new]) > pool")
    case True
    define s where "s = st\<lparr>live := butlast (live st), evict_pool := evict_pool st + 1,
      lost_reason := AList.update (session_of (last (live st))) ''pool'' (lost_reason st)\<rparr>"
    have e: "evict_for_pool pool new st = evict_for_pool pool new s"
      using True by (subst evict_for_pool.simps) (simp add: s_def)
    have s: "live s = butlast (live st)" "same_stats s st" "dropped s = dropped st + 1"
      by (simp_all add: s_def same_stats_def dropped_def)
    note ih = "1.IH" [OF True, folded s_def]
    have l: "int (length (live s)) + 1 = int (length (live st))" using True by (cases "live st") (auto simp: s(1))
    have t: "\<exists>k'. take k (live s) = take k' (live st)" for k by (metis butlast_conv_take take_take s(1))
    then have "\<exists>k. live (evict_for_pool pool new s) = take k (live st)" using ih by metis
    then show ?thesis unfolding e using ih s(2,3) l by (simp add: same_stats_def)
  next
    case False
    then have e: "evict_for_pool pool new st = st" by (subst evict_for_pool.simps) auto
    show ?thesis using False unfolding e by (auto simp: same_stats_def intro: exI [of _ "length (live st)"])
  qed
qed

lemma budget_step:
  "same_stats (evict_for_budget limit st) st \<and>
   int (length (live (evict_for_budget limit st))) + dropped (evict_for_budget limit st) = int (length (live st)) + dropped st \<and>
   live (evict_for_budget limit st) = take limit (live st)"
proof (induction limit st rule: evict_for_budget.induct)
  case (1 limit st)
  show ?case
  proof (cases "length (live st) > limit")
    case True
    define r where "r = session_of (last (live st))"
    define s where "s = st\<lparr>live := butlast (live st), evict_budget := evict_budget st + 1,
      lost_reason := (if r \<in> set (map fst (lost_reason st)) then lost_reason st else lost_reason st @ [(r, ''budget'')])\<rparr>"
    have e: "evict_for_budget limit st = evict_for_budget limit s"
      using True by (subst evict_for_budget.simps) (simp add: Let_def s_def r_def)
    have s: "live s = butlast (live st)" "same_stats s st" "dropped s = dropped st + 1"
      by (simp_all add: s_def same_stats_def dropped_def)
    have ih: "same_stats (evict_for_budget limit s) s \<and>
       int (length (live (evict_for_budget limit s))) + dropped (evict_for_budget limit s) = int (length (live s)) + dropped s \<and>
       live (evict_for_budget limit s) = take limit (live s)"
      unfolding s_def r_def using "1.IH" [OF True refl] .
    have l: "int (length (live s)) + 1 = int (length (live st))" using True by (cases "live st") (auto simp: s(1))
    have t: "take limit (live s) = take limit (live st)" using True by (simp add: take_butlast s(1))
    have "same_stats (evict_for_budget limit s) st" using ih s(2) by (simp add: same_stats_def)
    moreover have "int (length (live (evict_for_budget limit s))) + dropped (evict_for_budget limit s) = int (length (live st)) + dropped st"
      using ih s(3) l by linarith
    ultimately show ?thesis unfolding e using ih t by simp
  next
    case False
    then have e: "evict_for_budget limit st = st" by (subst evict_for_budget.simps) auto
    show ?thesis using False unfolding e by (auto simp: same_stats_def)
  qed
qed


subsection \<open>Tokens in use\<close>

text \<open>Where the token count is a function of the message, the union is the sum over the messages seen.\<close>

lemma union_loop_sum:
  assumes "list_all (\<lambda>(mid, tk). tk = w mid) ps"
  shows "union_loop ps seen tot = tot + (\<Sum>mid \<in> set (map fst ps) - set seen. w mid)"
  using assms
proof (induction ps seen tot rule: union_loop.induct)
  case (2 mid tk ps seen tot)
  let ?A = "set (map fst ps)"
  show ?case
  proof (cases "mid \<in> set seen")
    case True
    then have "set (map fst ((mid, tk) # ps)) - set seen = ?A - set seen" by auto
    then show ?thesis using True 2 by simp
  next
    case False
    then have "set (map fst ((mid, tk) # ps)) - set seen = insert mid (?A - set (mid # seen))" by auto
    then show ?thesis using False 2 by (simp add: add.assoc)
  qed
qed simp

definition counted :: "(string \<Rightarrow> int) \<Rightarrow> snapshot \<Rightarrow> bool" where
  "counted w e \<longleftrightarrow> s_toklens e = map w (s_path e)"

lemma union_tokens_sum:
  assumes "list_all (counted w) es"
  shows "union_tokens es = (\<Sum>mid \<in> \<Union> (set ` s_path ` set es). w mid)"
proof -
  have p: "zip (s_path e) (s_toklens e) = map (\<lambda>m. (m, w m)) (s_path e)" if "e \<in> set es" for e
    using assms that by (simp add: list_all_iff counted_def zip_map2 zip_same_conv_map)
  have c: "concat (map (\<lambda>e. zip (s_path e) (s_toklens e)) es) = concat (map (\<lambda>e. map (\<lambda>m. (m, w m)) (s_path e)) es)"
    using p by (intro arg_cong [where f = concat] map_cong) auto
  have "set (map fst (concat (map (\<lambda>e. map (\<lambda>m. (m, w m)) (s_path e)) es))) = \<Union> (set ` s_path ` set es)" by force
  then show ?thesis unfolding union_tokens_def c by (subst union_loop_sum [where w = w]) (auto simp: list_all_iff)
qed

lemma union_tokens_mono:
  assumes "list_all (counted w) es" "set ds \<subseteq> set es" "\<And>m. 0 \<le> w m"
  shows "union_tokens ds \<le> union_tokens es"
proof -
  have "list_all (counted w) ds" using assms(1,2) by (auto simp: list_all_iff)
  then show ?thesis unfolding union_tokens_sum [OF assms(1)] using assms(2,3)
    by (subst union_tokens_sum [where w = w]) (auto intro!: sum_mono2)
qed

subsection \<open>One request\<close>

abbreviation turn_path :: "turn \<Rightarrow> string list" where
  "turn_path t \<equiv> (''sys:'' @ t_session t) # t_chain t"

abbreviation turn_tokens :: "turn \<Rightarrow> int list" where
  "turn_tokens t \<equiv> t_system t # t_toks t"

definition hit_len :: "turn \<Rightarrow> sim_state \<Rightarrow> int" where
  "hit_len t st = snd (best_entry (turn_path t) (turn_tokens t) (live st) (None, 0))"

lemma lookup_turn_fields:
  "mset (live (lookup_turn cs c t st)) = mset (live st) \<and> dropped (lookup_turn cs c t st) = dropped st \<and>
   max_live (lookup_turn cs c t st) = max_live st \<and> unservable (lookup_turn cs c t st) = unservable st \<and>
   requests (lookup_turn cs c t st) = requests st + 1 \<and> prompt_tok (lookup_turn cs c t st) = prompt_tok st + sum_list (turn_tokens t) \<and>
   prefilled (lookup_turn cs c t st) = prefilled st @ [sum_list (turn_tokens t) - hit_len t st] \<and>
   hits_tok (lookup_turn cs c t st) = hits_tok st + hit_len t st \<and>
   hits (lookup_turn cs c t st) = hits st + (if hit_len t st > 0 then 1 else 0) \<and>
   sum_list (map snd (classes (lookup_turn cs c t st))) = sum_list (map snd (classes st)) + 1 \<and>
   sum_list (map snd (class_tok (lookup_turn cs c t st))) = sum_list (map snd (class_tok st)) + (sum_list (turn_tokens t) - hit_len t st)"
  if pos: "list_all (\<lambda>e. 0 < s_len e) (live st)"
proof -
  obtain b l where b: "best_entry (turn_path t) (turn_tokens t) (live st) (None, 0) = (b, l)" by (rule prod.exhaust)
  note bc = best_entry_cases [OF b]
  show ?thesis
  proof (cases b)
    case None
    then show ?thesis using b bc(2) by (simp add: lookup_turn_def hit_len_def Let_def sum_incr dropped_def)
  next
    case (Some e)
    then have "0 < l" "e \<in> set (live st)" using bc(3) pos by (auto simp: list_all_iff)
    then show ?thesis using b Some by (simp add: lookup_turn_def hit_len_def Let_def sum_incr dropped_def)
  qed
qed

lemma hit_len_bounds:
  assumes "list_all (\<lambda>x. 0 \<le> x) (turn_tokens t)"
  shows "0 \<le> hit_len t st \<and> hit_len t st \<le> sum_list (turn_tokens t)"
proof -
  obtain b l where b: "best_entry (turn_path t) (turn_tokens t) (live st) (None, 0) = (b, l)" by (rule prod.exhaust)
  note bc = best_entry_cases [OF b]
  have s: "0 \<le> sum_list (turn_tokens t)" using assms by (intro sum_list_nonneg) (auto simp: list_all_iff)
  show ?thesis
  proof (cases b)
    case None
    then show ?thesis using bc(2) b s by (simp add: hit_len_def)
  next
    case (Some e)
    then have "l \<le> common_tokens (turn_path t) (s_path e) (turn_tokens t)" using bc(3) by blast
    also have "\<dots> \<le> sum_list (turn_tokens t)" using common_le [OF assms] by blast
    finally show ?thesis using bc(1) b by (simp add: hit_len_def)
  qed
qed

text \<open>The snapshot that a request leaves behind.\<close>

definition snap_of :: "config \<Rightarrow> turn \<Rightarrow> snapshot" where
  "snap_of c t = \<lparr>s_len = snap_point (grid c) (sum_list (turn_tokens t)), s_path = turn_path t, s_toklens = turn_tokens t\<rparr>"

lemma drop_ancestors_fields:
  "same_stats (drop_ancestors path snap st) st \<and>
   int (length (live (drop_ancestors path snap st))) + dropped (drop_ancestors path snap st) = int (length (live st)) + dropped st \<and>
   set (live (drop_ancestors path snap st)) \<subseteq> set (live st) \<and> length (live (drop_ancestors path snap st)) \<le> length (live st)"
  using sum_length_filter_compl [of "is_ancestor path snap" "live st"]
  by (auto simp: drop_ancestors_def same_stats_def dropped_def)

lemma insert_snapshot_fields:
  fixes t c fo st
  defines "st' \<equiv> insert_snapshot c fo (turn_path t) (turn_tokens t) st"
  shows "same_stats st' st \<and> int (length (live st')) + dropped st' = int (length (live st)) + dropped st + 1 \<and>
    length (live st') \<le> entries_max c \<and> set (live st') \<subseteq> insert (snap_of c t) (set (live st)) \<and>
    (length (live st') \<le> 1 \<or> (\<exists>es. union_tokens (es @ [snap_of c t]) \<le> pool_tok c \<and> set es \<subseteq> set (live st) \<and>
       set (live st') \<subseteq> insert (snap_of c t) (set es)))"
proof -
  let ?new = "snap_of c t"
  define s1 where "s1 = (if fo then drop_ancestors (turn_path t) (s_len ?new) st else st)"
  define s2 where "s2 = evict_for_pool (pool_tok c) ?new s1"
  define s3 where "s3 = s2\<lparr>live := ?new # live s2\<rparr>"
  have st': "st' = evict_for_budget (entries_max c) s3"
    by (simp add: st'_def insert_snapshot_def Let_def s1_def s2_def s3_def snap_of_def)
  have f1: "same_stats s1 st \<and> int (length (live s1)) + dropped s1 = int (length (live st)) + dropped st \<and> set (live s1) \<subseteq> set (live st)"
    using drop_ancestors_fields [of "turn_path t" "s_len ?new" st] by (auto simp: s1_def same_stats_def)
  have f2: "same_stats s2 s1 \<and> int (length (live s2)) + dropped s2 = int (length (live s1)) + dropped s1"
    "set (live s2) \<subseteq> set (live s1)" "live s2 = [] \<or> union_tokens (live s2 @ [?new]) \<le> pool_tok c"
    using pool_step [of "pool_tok c" ?new s1] by (auto simp: s2_def dest: in_set_takeD)
  have f3: "same_stats s3 s2" "int (length (live s3)) + dropped s3 = int (length (live s2)) + dropped s2 + 1"
    by (simp_all add: s3_def same_stats_def dropped_def)
  have f4: "same_stats st' s3 \<and> int (length (live st')) + dropped st' = int (length (live s3)) + dropped s3" "live st' = take (entries_max c) (live s3)"
    using budget_step [of "entries_max c" s3] unfolding st' by blast+
  have "same_stats st' st" using f1 f2(1) f3(1) f4(1) by (simp add: same_stats_def)
  moreover have "int (length (live st')) + dropped st' = int (length (live st)) + dropped st + 1" using f1 f2(1) f3(2) f4(1) by linarith
  moreover have "length (live st') \<le> entries_max c" by (simp add: f4(2))
  moreover have sub: "set (live st') \<subseteq> insert ?new (set (live s2))" using f4(2) by (auto simp: s3_def dest: in_set_takeD)
  moreover have "length (live st') \<le> 1 \<or> (\<exists>es. union_tokens (es @ [?new]) \<le> pool_tok c \<and> set es \<subseteq> set (live st) \<and> set (live st') \<subseteq> insert ?new (set es))"
  proof (cases "live s2 = []")
    case True
    then show ?thesis by (simp add: f4(2) s3_def)
  next
    case False
    then show ?thesis using f1 f2 sub by (intro disjI2 exI [of _ "live s2"]) auto
  qed
  ultimately show ?thesis using f1 f2(2) by auto
qed

subsection \<open>Invariants of the replay\<close>

definition accounts :: "sim_state \<Rightarrow> bool" where
  "accounts st \<longleftrightarrow> hits_tok st + sum_list (prefilled st) = prompt_tok st \<and> int (length (prefilled st)) = requests st \<and>
     sum_list (map snd (classes st)) = requests st \<and> sum_list (map snd (class_tok st)) = sum_list (prefilled st) \<and>
     0 \<le> hits st \<and> hits st \<le> requests st \<and> list_all (\<lambda>x. 0 \<le> x) (prefilled st)"

definition snap_ok :: "config \<Rightarrow> snapshot \<Rightarrow> bool" where
  "snap_ok c e \<longleftrightarrow> 0 < s_len e \<and> s_len e = snap_point (grid c) (sum_list (s_toklens e)) \<and> sum_list (s_toklens e) \<le> n_ctx c"

definition entries_ok :: "config \<Rightarrow> sim_state \<Rightarrow> bool" where
  "entries_ok c st \<longleftrightarrow> length (live st) \<le> entries_max c \<and> max_live st \<le> int (entries_max c) \<and>
     list_all (snap_ok c) (live st)"

definition in_pool :: "(string \<Rightarrow> int) \<Rightarrow> config \<Rightarrow> sim_state \<Rightarrow> bool" where
  "in_pool w c st \<longleftrightarrow> list_all (counted w) (live st) \<and> (union_tokens (live st) \<le> pool_tok c \<or> length (live st) \<le> 1)"

lemma entries_pos: "entries_ok c st \<Longrightarrow> list_all (\<lambda>e. 0 < s_len e) (live st)"
  by (auto simp: entries_ok_def list_all_iff snap_ok_def)

definition served :: "config \<Rightarrow> turn \<Rightarrow> bool" where
  "served c t \<longleftrightarrow> sum_list (turn_tokens t) \<le> n_ctx c"

definition snapped :: "config \<Rightarrow> turn \<Rightarrow> bool" where
  "snapped c t \<longleftrightarrow> served c t \<and> 0 < snap_point (grid c) (sum_list (turn_tokens t))"

lemma serve_turn_cases:
  fixes cs c fo st t
  defines "st' \<equiv> serve_turn cs c fo st t" and "st1 \<equiv> lookup_turn cs c t st"
  shows "\<not> served c t \<Longrightarrow> st' = st\<lparr>unservable := unservable st + 1\<rparr>"
    and "served c t \<Longrightarrow> \<not> snapped c t \<Longrightarrow> st' = st1\<lparr>max_live := max (max_live st1) (int (length (live st1)))\<rparr>"
    and "snapped c t \<Longrightarrow> st' = (let st2 = insert_snapshot c fo (turn_path t) (turn_tokens t) st1 in
       st2\<lparr>max_live := max (max_live st2) (int (length (live st2)))\<rparr>)"
  by (auto simp: st'_def st1_def serve_turn_def served_def snapped_def Let_def)

lemma serve_entries_ok:
  assumes "entries_ok c st"
  shows "entries_ok c (serve_turn cs c fo st t)"
proof -
  define st1 where "st1 = lookup_turn cs c t st"
  have lk: "mset (live st1) = mset (live st)" "max_live st1 = max_live st"
    using lookup_turn_fields [OF entries_pos [OF assms], of cs c t] by (simp_all add: st1_def)
  then have sl: "set (live st1) = set (live st)" "length (live st1) = length (live st)" by (metis set_mset_mset, metis size_mset)
  consider "\<not> served c t" | "served c t" "\<not> snapped c t" | "snapped c t" by (auto simp: snapped_def)
  then show ?thesis
  proof cases
    case 1
    then show ?thesis using assms by (simp add: serve_turn_cases entries_ok_def)
  next
    case 2
    then show ?thesis using assms lk sl by (auto simp: serve_turn_cases st1_def [symmetric] entries_ok_def list_all_iff)
  next
    case 3
    let ?s = "insert_snapshot c fo (turn_path t) (turn_tokens t) st1"
    note i = insert_snapshot_fields [of c fo t st1]
    have "snap_ok c (snap_of c t)" using 3 by (simp add: snap_ok_def snap_of_def snapped_def served_def)
    moreover have "\<forall>e \<in> set (live st1). snap_ok c e" using assms unfolding sl(1) entries_ok_def list_all_iff by blast
    moreover have "set (live ?s) \<subseteq> insert (snap_of c t) (set (live st1))" using i by blast
    ultimately have "\<forall>e \<in> set (live ?s). snap_ok c e" by blast
    moreover have "max_live ?s = max_live st" using i lk(2) by (simp add: same_stats_def)
    moreover have "length (live ?s) \<le> entries_max c" using i by blast
    ultimately show ?thesis using assms
      unfolding serve_turn_cases(3) [OF 3] st1_def [symmetric] Let_def entries_ok_def list_all_iff by simp
  qed
qed

lemma serve_accounts:
  assumes "entries_ok c st" "accounts st" "list_all (\<lambda>x. 0 \<le> x) (turn_tokens t)"
  shows "accounts (serve_turn cs c fo st t)"
proof -
  define st1 where "st1 = lookup_turn cs c t st"
  have a1: "accounts st1"
    using lookup_turn_fields [OF entries_pos [OF assms(1)], of cs c t] hit_len_bounds [OF assms(3), of st] assms(2)
    by (auto simp: accounts_def st1_def [symmetric])
  have cong: "accounts s" if "same_stats s u" "accounts u" for s u using that by (simp add: accounts_def same_stats_def)
  consider "\<not> served c t" | "served c t" "\<not> snapped c t" | "snapped c t" by (auto simp: snapped_def)
  then show ?thesis
  proof cases
    case 1
    then show ?thesis using assms(2) by (simp add: serve_turn_cases accounts_def)
  next
    case 2
    then show ?thesis using a1 by (simp add: serve_turn_cases st1_def [symmetric] accounts_def)
  next
    case 3
    have "accounts (insert_snapshot c fo (turn_path t) (turn_tokens t) st1)"
      using insert_snapshot_fields [of c fo t st1] a1 cong by blast
    then show ?thesis using 3 by (simp add: serve_turn_cases st1_def [symmetric] Let_def accounts_def)
  qed
qed

lemma serve_conserves:
  assumes "entries_ok c st"
  shows "int (length (live (serve_turn cs c fo st t))) + dropped (serve_turn cs c fo st t) =
    int (length (live st)) + dropped st + (if snapped c t then 1 else 0)"
    and "requests (serve_turn cs c fo st t) + unservable (serve_turn cs c fo st t) = requests st + unservable st + 1"
proof -
  define st1 where "st1 = lookup_turn cs c t st"
  note lk = lookup_turn_fields [OF entries_pos [OF assms], of cs c t, folded st1_def]
  then have sl: "length (live st1) = length (live st)" by (metis size_mset)
  note i = insert_snapshot_fields [of c fo t st1]
  consider "\<not> served c t" | "served c t" "\<not> snapped c t" | "snapped c t" by (auto simp: snapped_def)
  then show "int (length (live (serve_turn cs c fo st t))) + dropped (serve_turn cs c fo st t) =
      int (length (live st)) + dropped st + (if snapped c t then 1 else 0)"
    by cases (use lk sl i in \<open>auto simp: serve_turn_cases st1_def [symmetric] Let_def dropped_def snapped_def\<close>)
  consider "\<not> served c t" | "served c t" "\<not> snapped c t" | "snapped c t" by (auto simp: snapped_def)
  then show "requests (serve_turn cs c fo st t) + unservable (serve_turn cs c fo st t) = requests st + unservable st + 1"
    by cases (use lk i in \<open>auto simp: serve_turn_cases st1_def [symmetric] Let_def same_stats_def\<close>)
qed

definition turn_counted :: "(string \<Rightarrow> int) \<Rightarrow> turn \<Rightarrow> bool" where
  "turn_counted w t \<longleftrightarrow> turn_tokens t = map w (turn_path t)"

lemma serve_in_pool:
  assumes ok: "entries_ok c st" and pool: "in_pool w c st" and t: "turn_counted w t" and w: "\<And>m. 0 \<le> w m"
  shows "in_pool w c (serve_turn cs c fo st t)"
proof -
  define st1 where "st1 = lookup_turn cs c t st"
  have "mset (live st1) = mset (live st)"
    using lookup_turn_fields [OF entries_pos [OF ok], of cs c t] by (simp add: st1_def)
  then have sl: "set (live st1) = set (live st)" "length (live st1) = length (live st)" by (metis set_mset_mset, metis size_mset)
  have c1: "list_all (counted w) (live st1)" using pool sl(1) by (simp add: in_pool_def list_all_iff)
  have p1: "in_pool w c st1"
    using pool c1 sl union_tokens_mono [of w "live st" "live st1"] w by (auto simp: in_pool_def)
  consider "\<not> served c t" | "served c t" "\<not> snapped c t" | "snapped c t" by (auto simp: snapped_def)
  then show ?thesis
  proof cases
    case 1
    then show ?thesis using pool by (simp add: serve_turn_cases in_pool_def)
  next
    case 2
    then show ?thesis using p1 by (simp add: serve_turn_cases st1_def [symmetric] in_pool_def)
  next
    case 3
    let ?s = "insert_snapshot c fo (turn_path t) (turn_tokens t) st1"
    note i = insert_snapshot_fields [of c fo t st1]
    have new: "counted w (snap_of c t)" using t by (simp add: counted_def snap_of_def turn_counted_def)
    have "list_all (counted w) (live ?s)" using i new c1 by (auto simp: list_all_iff)
    moreover have "union_tokens (live ?s) \<le> pool_tok c \<or> length (live ?s) \<le> 1"
    proof (cases "length (live ?s) \<le> 1")
      case False
      then obtain es where es: "union_tokens (es @ [snap_of c t]) \<le> pool_tok c" "set es \<subseteq> set (live st1)"
        "set (live ?s) \<subseteq> insert (snap_of c t) (set es)" using i by auto
      have "union_tokens (live ?s) \<le> union_tokens (es @ [snap_of c t])"
        by (rule union_tokens_mono [where w = w]) (use es c1 new w in \<open>auto simp: list_all_iff\<close>)
      then show ?thesis using es(1) by linarith
    qed simp
    ultimately show ?thesis using 3 by (simp add: serve_turn_cases st1_def [symmetric] Let_def in_pool_def)
  qed
qed

text \<open>The states of a replay, with the turns that led there.\<close>

inductive reached :: "string list \<Rightarrow> config \<Rightarrow> bool \<Rightarrow> turn list \<Rightarrow> sim_state \<Rightarrow> bool" for cs c fo where
  start: "reached cs c fo [] sim_init"
| request: "reached cs c fo ts st \<Longrightarrow> reached cs c fo (ts @ [t]) (serve_turn cs c fo st t)"

inductive_cases reached_snocE: "reached cs c fo (ts @ [t]) st"

lemma simulate_reached: "reached cs c fo ts (simulate cs c fo ts)"
  unfolding simulate_def by (induction ts rule: rev_induct) (auto intro: reached.intros)

lemma reached_entries_ok: "reached cs c fo ts st \<Longrightarrow> entries_ok c st"
proof (induction rule: reached.induct)
  case start
  then show ?case by (simp add: entries_ok_def sim_init_def)
qed (rule serve_entries_ok)

lemma reached_accounts:
  "reached cs c fo ts st \<Longrightarrow> list_all (\<lambda>t. list_all (\<lambda>x. 0 \<le> x) (turn_tokens t)) ts \<Longrightarrow> accounts st"
proof (induction rule: reached.induct)
  case start
  then show ?case by (simp add: accounts_def sim_init_def)
next
  case (request ts st t)
  then show ?case using reached_entries_ok by (intro serve_accounts) auto
qed

lemma reached_conserves:
  "reached cs c fo ts st \<Longrightarrow> int (length (live st)) + dropped st = int (length (filter (snapped c) ts)) \<and>
    requests st + unservable st = int (length ts)"
proof (induction rule: reached.induct)
  case start
  then show ?case by (simp add: sim_init_def dropped_def)
next
  case (request ts st t)
  then show ?case using serve_conserves [OF reached_entries_ok [OF request.hyps], of cs fo t] by auto
qed

lemma reached_in_pool:
  "reached cs c fo ts st \<Longrightarrow> list_all (turn_counted w) ts \<Longrightarrow> (\<And>m. 0 \<le> w m) \<Longrightarrow> in_pool w c st"
proof (induction rule: reached.induct)
  case start
  then show ?case by (simp add: in_pool_def sim_init_def)
next
  case (request ts st t)
  then show ?case using reached_entries_ok by (intro serve_in_pool) auto
qed

lemma snap_point_bounds: "0 < g \<Longrightarrow> snap_point g l mod g = 0 \<and> snap_point g l < l \<and> l - 1 - g < snap_point g l"
proof -
  assume g: "0 < g"
  have "(l - 1) div g * g + (l - 1) mod g = l - 1" by simp
  moreover have "0 \<le> (l - 1) mod g" "(l - 1) mod g < g" using g by simp_all
  ultimately have "(l - 1) div g * g < l" "l - 1 - g < (l - 1) div g * g" by linarith+
  then show ?thesis by (simp add: snap_point_def)
qed

subsection \<open>The walk\<close>

lemma walk_up_returns:
  assumes "\<And>e e'. parent_of by_id e = Some e' \<Longrightarrow> rank e' < (rank e :: nat)"
  shows "\<exists>chain. walk_up by_id cur acc = Some chain"
proof (cases cur)
  case None
  then show ?thesis by (simp add: walk_up.simps)
next
  case (Some e)
  have "\<exists>chain. walk_up by_id (Some e) acc = Some chain"
  proof (induction "rank e" arbitrary: e acc rule: less_induct)
    case less
    have "\<exists>chain. walk_up by_id (parent_of by_id e) acc = Some chain" for acc
    proof (cases "parent_of by_id e")
      case None
      then show ?thesis by (simp add: walk_up.simps)
    next
      case (Some e')
      then show ?thesis using less [OF assms [OF Some]] by simp
    qed
    then show ?case by (subst walk_up.simps) (auto split: ev_kind.splits)
  qed
  then show ?thesis using Some by simp
qed

lemma walk_up_leaves_loop:
  assumes "walk_up b cur acc = Some r"
  shows "parent_of b e = Some e \<longrightarrow> ev_kind_of e \<noteq> Compaction \<longrightarrow> cur \<noteq> Some e"
proof (rule walk_up.raw_induct [where P = "\<lambda>b cur acc r. parent_of b e = Some e \<longrightarrow> ev_kind_of e \<noteq> Compaction \<longrightarrow> cur \<noteq> Some e", OF _ assms])
  fix w b cur acc r
  assume "\<And>b cur acc r. w b cur acc = Some r \<Longrightarrow> parent_of b e = Some e \<longrightarrow> ev_kind_of e \<noteq> Compaction \<longrightarrow> cur \<noteq> Some e"
    and "(case cur of None \<Rightarrow> Some acc | Some e \<Rightarrow> (case ev_kind_of e of Message \<Rightarrow> w b (parent_of b e) (acc @ [ev_id e])
      | Compaction \<Rightarrow> Some (acc @ [ev_id e]) | OtherEvent \<Rightarrow> w b (parent_of b e) acc)) = Some r"
  then show "parent_of b e = Some e \<longrightarrow> ev_kind_of e \<noteq> Compaction \<longrightarrow> cur \<noteq> Some e"
    by (fastforce split: ev_kind.splits)
qed

lemma walk_up_self_loop:
  "parent_of by_id e = Some e \<Longrightarrow> ev_kind_of e \<noteq> Compaction \<Longrightarrow> walk_up by_id (Some e) acc = None"
  using walk_up_leaves_loop [of by_id "Some e" acc _ e] by (cases "walk_up by_id (Some e) acc") auto

end
