(* ===== verification/Cache_Properties.thy ===== *)
theory Cache_Properties
  imports Cache_Facts
begin

text \<open>
  The properties of the prefix-cache replay.
\<close>

text \<open>Two requests of one session, the second continuing the first: the instance of the witnesses.\<close>

definition two_turns :: "turn list" where
  "two_turns = [\<lparr>t_session = ''s'', t_chain = [''a''], t_toks = [3], t_system = 2\<rparr>,
     \<lparr>t_session = ''s'', t_chain = [''a'', ''b''], t_toks = [3, 4], t_system = 2\<rparr>]"

definition small_config :: config where
  "small_config = \<lparr>grid = 2, entries_max = 3, pool_tok = 100, n_ctx = 50\<rparr>"

text \<open>C18. Every prompt token of the replay is either read from the cache or prefilled, every request has exactly one class
  whose token counts add up to the prefilled tokens, no request prefills a negative number of tokens, there are at most
  as many hits as requests, and every turn is a request or unservable.\<close>

theorem replay_accounts:
  assumes "list_all (\<lambda>t. list_all (\<lambda>x. 0 \<le> x) (t_system t # t_toks t)) turns"
  shows "let st = simulate compacted c frontier_only turns in
    hits_tok st + sum_list (prefilled st) = prompt_tok st \<and> int (length (prefilled st)) = requests st \<and>
    sum_list (map snd (classes st)) = requests st \<and> sum_list (map snd (class_tok st)) = sum_list (prefilled st) \<and>
    list_all (\<lambda>x. 0 \<le> x) (prefilled st) \<and> 0 \<le> hits st \<and> hits st \<le> requests st \<and>
    requests st + unservable st = int (length turns)"
  using reached_accounts [OF simulate_reached assms, of compacted c frontier_only]
    reached_conserves [OF simulate_reached, of compacted c frontier_only turns]
  unfolding accounts_def Let_def by blast

theorem replay_accounts_witness:
  "let st = simulate [] small_config False two_turns in hits_tok st = 4 \<and> prefilled st = [5, 5] \<and> prompt_tok st = 14 \<and>
     requests st + unservable st = 2"
proof -
  have v: "hits_tok (simulate [] small_config False two_turns) = 4 \<and> prefilled (simulate [] small_config False two_turns) = [5, 5]"
    by code_simp
  then show ?thesis using replay_accounts [of two_turns "[]" small_config False] by (simp add: two_turns_def Let_def)
qed

text \<open>C19. The cache never holds more snapshots than its budget, and each of them lies on the grid, at most one grid step
  below the end of its prompt, and strictly inside it.\<close>

theorem replay_within_budget:
  assumes "0 < grid c"
  shows "let st = simulate compacted c frontier_only turns in
    length (live st) \<le> entries_max c \<and> max_live st \<le> int (entries_max c) \<and>
    (\<forall>e \<in> set (live st). 0 < s_len e \<and> s_len e mod grid c = 0 \<and> s_len e < sum_list (s_toklens e) \<and>
       sum_list (s_toklens e) - 1 - grid c < s_len e \<and> sum_list (s_toklens e) \<le> n_ctx c)"
proof -
  define st where "st = simulate compacted c frontier_only turns"
  have ok: "entries_ok c st" unfolding st_def by (rule reached_entries_ok [OF simulate_reached])
  have "0 < s_len e \<and> s_len e mod grid c = 0 \<and> s_len e < sum_list (s_toklens e) \<and>
      sum_list (s_toklens e) - 1 - grid c < s_len e \<and> sum_list (s_toklens e) \<le> n_ctx c" if "e \<in> set (live st)" for e
  proof -
    have s: "snap_ok c e" using ok that by (simp add: entries_ok_def list_all_iff)
    then have "s_len e = snap_point (grid c) (sum_list (s_toklens e))" by (simp add: snap_ok_def)
    with snap_point_bounds [OF assms, of "sum_list (s_toklens e)"] s show ?thesis by (simp add: snap_ok_def)
  qed
  then show ?thesis using ok unfolding st_def [symmetric] Let_def entries_ok_def by blast
qed

theorem replay_within_budget_witness:
  "let st = simulate [] small_config False two_turns in map s_len (live st) = [8, 4] \<and> max_live st \<le> 3"
proof -
  have "map s_len (live (simulate [] small_config False two_turns)) = [8, 4]" by code_simp
  then show ?thesis using replay_within_budget [of small_config "[]" False two_turns] by (simp add: small_config_def Let_def)
qed

text \<open>C20. Where the token count is a function of the message, the snapshots that are kept together never need more pages than
  the pool holds, each shared message counted once; only a single snapshot may be larger than the pool.\<close>

theorem replay_within_pool:
  assumes "list_all (\<lambda>t. t_system t # t_toks t = map w ((''sys:'' @ t_session t) # t_chain t)) turns" and "\<And>m. 0 \<le> w m"
  shows "let st = simulate compacted c frontier_only turns in
    (\<Sum>m \<in> \<Union> (set ` s_path ` set (live st)). w m) \<le> pool_tok c \<or> length (live st) \<le> 1"
proof -
  have "list_all (turn_counted w) turns" using assms(1) by (simp add: list_all_iff turn_counted_def)
  then have "in_pool w c (simulate compacted c frontier_only turns)"
    using assms(2) by (rule reached_in_pool [OF simulate_reached])
  then show ?thesis using union_tokens_sum [of w] by (auto simp: in_pool_def Let_def)
qed

definition two_turn_tokens :: "string \<Rightarrow> int" where
  "two_turn_tokens m = (if m = ''sys:s'' then 2 else if m = ''a'' then 3 else if m = ''b'' then 4 else 0)"

theorem replay_within_pool_witness:
  "let st = simulate [] small_config False two_turns in
    (\<Sum>m \<in> \<Union> (set ` s_path ` set (live st)). two_turn_tokens m) \<le> 100"
proof -
  have "length (live (simulate [] small_config False two_turns)) = 2" by code_simp
  then show ?thesis using replay_within_pool [of two_turn_tokens two_turns "[]" small_config False]
    by (simp add: two_turns_def two_turn_tokens_def small_config_def Let_def)
qed

text \<open>Snapshots are conserved: those still held, those superseded and those evicted for either reason are together
  exactly the served requests that were long enough to leave one.\<close>

theorem replay_conserves_snapshots:
  "let st = simulate compacted c frontier_only turns in
    int (length (live st)) + superseded st + evict_pool st + evict_budget st =
      int (length (filter (\<lambda>t. sum_list (t_system t # t_toks t) \<le> n_ctx c \<and>
        0 < snap_point (grid c) (sum_list (t_system t # t_toks t))) turns))"
  using reached_conserves [OF simulate_reached, of compacted c frontier_only turns]
  by (simp add: Let_def dropped_def snapped_def [abs_def] served_def)

text \<open>The look-up finds the deepest usable snapshot: what it returns is an entry of the cache whose length lies inside
  the common prefix of the two paths, no usable entry is longer, and it returns nothing exactly when the best length
  is zero, for entries of positive length.\<close>

theorem lookup_finds_deepest:
  assumes "best_entry path toklens es (None, 0) = (best, best_len)" and "\<forall>e \<in> set es. 0 < s_len e"
  shows "(best = None \<longleftrightarrow> best_len = 0) \<and>
    (\<forall>e. best = Some e \<longrightarrow> e \<in> set es \<and> s_len e = best_len \<and> best_len \<le> common_tokens path (s_path e) toklens) \<and>
    (\<forall>e \<in> set es. s_len e \<le> common_tokens path (s_path e) toklens \<longrightarrow> s_len e \<le> best_len)"
proof -
  note bc = best_entry_cases [OF assms(1)]
  have "best \<noteq> None" if "best_len \<noteq> 0" using bc(2) that by auto
  moreover have "best_len \<noteq> 0" if "best = Some e" for e using bc(3) [OF that] assms(2) by auto
  ultimately have "best = None \<longleftrightarrow> best_len = 0" by (cases best) auto
  then show ?thesis using bc(3,4) by auto
qed

theorem lookup_finds_deepest_witness:
  "best_entry [''x'', ''y''] [4, 4] [\<lparr>s_len = 2, s_path = [''x''], s_toklens = [4]\<rparr>, \<lparr>s_len = 6, s_path = [''x'', ''y''], s_toklens = [4, 4]\<rparr>]
     (None, 0) = (Some \<lparr>s_len = 6, s_path = [''x'', ''y''], s_toklens = [4, 4]\<rparr>, 6) \<and>
   6 \<le> common_tokens [''x'', ''y''] [''x'', ''y''] [4, 4]"
proof -
  have b: "best_entry [''x'', ''y''] [4, 4] [\<lparr>s_len = 2, s_path = [''x''], s_toklens = [4]\<rparr>, \<lparr>s_len = 6, s_path = [''x'', ''y''], s_toklens = [4, 4]\<rparr>]
     (None, 0) = (Some \<lparr>s_len = 6, s_path = [''x'', ''y''], s_toklens = [4, 4]\<rparr>, 6)" by code_simp
  from lookup_finds_deepest [OF b] b show ?thesis by simp
qed

text \<open>C21. The walk from a message to the root returns whenever the parent links are well-founded; an event that is its own
  parent and is not a compaction makes it run for ever.\<close>

theorem chain_walk_ends:
  "((\<exists>rank :: event \<Rightarrow> nat. \<forall>e e'. parent_of by_id e = Some e' \<longrightarrow> rank e' < rank e) \<longrightarrow> (\<exists>chain. chain_of by_id m = Some chain)) \<and>
   (parent_of by_id m = Some e \<and> parent_of by_id e = Some e \<and> ev_kind_of e \<noteq> Compaction \<longrightarrow> chain_of by_id m = None)"
  using walk_up_returns [of by_id _ "parent_of by_id m" "[]"] walk_up_self_loop [of by_id e "[]"] by (auto simp: chain_of_def)

text \<open>A session of two events below a message, and one in which the event above it is its own parent.\<close>

definition root_event :: event where "root_event = \<lparr>ev_id = ''a'', ev_kind_of = Message, ev_parent = None\<rparr>"
definition child_event :: event where "child_event = \<lparr>ev_id = ''b'', ev_kind_of = Message, ev_parent = Some ''a''\<rparr>"
definition loop_event :: event where "loop_event = \<lparr>ev_id = ''l'', ev_kind_of = Message, ev_parent = Some ''l''\<rparr>"

theorem chain_walk_ends_witness:
  "(\<exists>chain. chain_of [(''a'', root_event), (''b'', child_event)] \<lparr>ev_id = ''m'', ev_kind_of = Message, ev_parent = Some ''b''\<rparr> = Some chain) \<and>
   chain_of [(''l'', loop_event)] \<lparr>ev_id = ''m'', ev_kind_of = Message, ev_parent = Some ''l''\<rparr> = None"
proof
  let ?by = "[(''a'', root_event), (''b'', child_event)]"
  define rank :: "event \<Rightarrow> nat" where
    "rank e = (case ev_parent e of None \<Rightarrow> 0 | Some p \<Rightarrow> if p = ''a'' then 1 else 2)" for e
  have "\<forall>e e'. parent_of ?by e = Some e' \<longrightarrow> rank e' < rank e"
    by (auto simp: parent_of_def rank_def root_event_def child_event_def split: option.splits if_splits)
  then show "\<exists>chain. chain_of ?by \<lparr>ev_id = ''m'', ev_kind_of = Message, ev_parent = Some ''b''\<rparr> = Some chain"
    using chain_walk_ends [of ?by "\<lparr>ev_id = ''m'', ev_kind_of = Message, ev_parent = Some ''b''\<rparr>"] by blast
  let ?m = "\<lparr>ev_id = ''m'', ev_kind_of = Message, ev_parent = Some ''l''\<rparr>"
  have "parent_of [(''l'', loop_event)] ?m = Some loop_event \<and> parent_of [(''l'', loop_event)] loop_event = Some loop_event \<and>
      ev_kind_of loop_event \<noteq> Compaction"
    by (simp add: parent_of_def loop_event_def)
  then show "chain_of [(''l'', loop_event)] ?m = None"
    using chain_walk_ends [of "[(''l'', loop_event)]" ?m loop_event] by blast
qed

end
