(* ===== verification/Acceptance_Manifest.thy ===== *)
theory Acceptance_Manifest
  imports Py_Text
begin

text \<open>
  The acceptance enumeration, \<open>tools/acceptance_manifest.py\<close>: the schema check of the cells, the two
  texts rendered from them, the splice between the generated markers, and the command with its
  drift check.

  A JSON value is a \<open>json\<close> term; a float carries its value and its printed form, and is finite.
  Texts are UTF-8 bytes; only ASCII characters count as blank or as unprintable. An
  error of the schema check is one constructor for each message. Python's dynamic typing is kept:
  an attribute, item or membership test on a value of the wrong kind is an error value.
\<close>

datatype json =
    JNull | JBool bool | JInt int | JFloat rat string | JStr string
  | JArr "json list" | JObj "(string \<times> json) list"

subsection \<open>Python values\<close>

fun truthy :: "json \<Rightarrow> bool" where
  "truthy JNull = False"
| "truthy (JBool b) = b"
| "truthy (JInt i) = (i \<noteq> 0)"
| "truthy (JFloat r _) = (r \<noteq> 0)"
| "truthy (JStr s) = (s \<noteq> [])"
| "truthy (JArr xs) = (xs \<noteq> [])"
| "truthy (JObj kvs) = (kvs \<noteq> [])"

fun jget :: "json \<Rightarrow> string \<Rightarrow> json option res" where
  "jget (JObj kvs) k = Inr (map_of kvs k)"
| "jget _ k = Inl AttributeErr"

text \<open>\<open>v.get(k)\<close>, with None for a missing key.\<close>

definition jget_or :: "json \<Rightarrow> string \<Rightarrow> json \<Rightarrow> json res" where
  "jget_or v k d = rbind (jget v k) (\<lambda>r. Inr (case r of None \<Rightarrow> d | Some x \<Rightarrow> x))"

fun jitem :: "json \<Rightarrow> string \<Rightarrow> json res" where
  "jitem (JObj kvs) k = of_option KeyError (map_of kvs k)"
| "jitem _ k = Inl TypeErr"

text \<open>\<open>s in v\<close> for a string \<open>s\<close>.\<close>

fun jin :: "string \<Rightarrow> json \<Rightarrow> bool res" where
  "jin s (JObj kvs) = Inr (s \<in> set (map fst kvs))"
| "jin s (JStr t) = Inr (contains t s)"
| "jin s (JArr xs) = Inr (JStr s \<in> set xs)"
| "jin s _ = Inl TypeErr"

fun jiter :: "json \<Rightarrow> json list res" where
  "jiter (JArr xs) = Inr xs"
| "jiter (JStr s) = Inr (map (\<lambda>c. JStr [c]) s)"
| "jiter (JObj kvs) = Inr (map (JStr \<circ> fst) kvs)"
| "jiter _ = Inl TypeErr"

fun hashable :: "json \<Rightarrow> bool" where
  "hashable (JArr _) = False"
| "hashable (JObj _) = False"
| "hashable _ = True"

fun jnum :: "json \<Rightarrow> rat option" where
  "jnum (JBool b) = Some (if b then 1 else 0)"
| "jnum (JInt i) = Some (of_int i)"
| "jnum (JFloat r _) = Some r"
| "jnum _ = None"

definition jeq :: "json \<Rightarrow> json \<Rightarrow> bool" where
  "jeq a b = (case (jnum a, jnum b) of (Some x, Some y) \<Rightarrow> x = y | _ \<Rightarrow> a = b)"

text \<open>Membership in a Python set, which hashes its operand.\<close>

definition in_seen :: "json \<Rightarrow> json list \<Rightarrow> bool res" where
  "in_seen x seen = (if hashable x then Inr (list_ex (jeq x) seen) else Inl TypeErr)"

subsection \<open>The schema\<close>

definition REFERENCE_FIELDS :: "string list" where
  "REFERENCE_FIELDS = [''metric'', ''value'', ''gate_at'', ''unit'', ''direction'', ''samples'', ''spread_pct'', ''config'',
     ''prompt_tokens'', ''design'', ''measured'', ''binary'']"

definition DIRECTIONS :: "string list" where
  "DIRECTIONS = [''lower-is-worse'', ''higher-is-worse'']"

definition is_number :: "json \<Rightarrow> bool" where
  "is_number x = (case x of JInt _ \<Rightarrow> True | JFloat _ _ \<Rightarrow> True | _ \<Rightarrow> False)"

datatype schema_error =
    SkipMissing json "string list" | SkipDuplicate json json
  | QualifiersShape json | QualifierGroup json json
  | ExternalNotObject json | ExternalNoKey json | ExternalAndRunner json
  | ReferencesMissing json | ReferencesNotList json
  | RefMissing json json "string list" | RefDirection json json json | RefValue json json json
  | RefGate json json json | RefDuplicate json json | RefUnqualified json json json

fun missing_fields :: "string list \<Rightarrow> json \<Rightarrow> string list res" where
  "missing_fields [] v = Inr []"
| "missing_fields (f # fs) v =
     rbind (jin f v) (\<lambda>b. rbind (missing_fields fs v) (\<lambda>ms. Inr (if b then ms else f # ms)))"

fun check_skips :: "json \<Rightarrow> json list \<Rightarrow> json list \<Rightarrow> schema_error list res" where
  "check_skips name [] seen = Inr []"
| "check_skips name (es # rest) seen =
     rbind (missing_fields [''check'', ''reason''] es) (\<lambda>missing.
     if missing \<noteq> [] then rbind (check_skips name rest seen) (\<lambda>errs. Inr (SkipMissing name missing # errs))
     else
       rbind (jitem es ''check'') (\<lambda>c.
       rbind (in_seen c seen) (\<lambda>dup.
       rbind (check_skips name rest (c # seen)) (\<lambda>errs.
       Inr ((if dup then [SkipDuplicate name c] else []) @ errs)))))"

definition good_group :: "json \<Rightarrow> bool" where
  "good_group g =
     (case g of JArr ts \<Rightarrow> ts \<noteq> [] \<and> list_all (\<lambda>t. case t of JStr s \<Rightarrow> s \<noteq> [] | _ \<Rightarrow> False) ts | _ \<Rightarrow> False)"

definition check_qualifiers :: "json \<Rightarrow> json \<Rightarrow> schema_error list" where
  "check_qualifiers name qualifiers =
     (case qualifiers of
        JNull \<Rightarrow> []
      | JArr gs \<Rightarrow> if gs = [] then [QualifiersShape name]
                    else map (QualifierGroup name) (filter (\<lambda>g. \<not> good_group g) gs)
      | _ \<Rightarrow> [QualifiersShape name])"

definition check_external :: "json \<Rightarrow> json \<Rightarrow> json \<Rightarrow> schema_error list res" where
  "check_external name cell external =
     (if external = JNull then Inr []
      else
        rbind (case external of
                 JObj kvs \<Rightarrow> Inr (case map_of kvs ''manifest_key'' of
                                     Some (JStr k) \<Rightarrow> if k = [] then [ExternalNoKey name] else []
                                   | _ \<Rightarrow> [ExternalNoKey name])
               | _ \<Rightarrow> Inr [ExternalNotObject name]) (\<lambda>e1.
        rbind (jget_or cell ''runner'' JNull) (\<lambda>runner.
        Inr (e1 @ (if truthy runner then [ExternalAndRunner name] else [])))))"

text \<open>\<open>any(t in metric_tokens for t in group)\<close>, which stops at the first hit.\<close>

fun any_token :: "string list \<Rightarrow> json list \<Rightarrow> bool res" where
  "any_token tokens [] = Inr False"
| "any_token tokens (t # ts) =
     (if \<not> hashable t then Inl TypeErr
      else if (case t of JStr s \<Rightarrow> s \<in> set tokens | _ \<Rightarrow> False) then Inr True
      else any_token tokens ts)"

fun check_groups :: "json \<Rightarrow> json \<Rightarrow> string list \<Rightarrow> json list \<Rightarrow> schema_error list res" where
  "check_groups name metric tokens [] = Inr []"
| "check_groups name metric tokens (g # gs) =
     rbind (case g of JArr ts \<Rightarrow> any_token tokens ts | _ \<Rightarrow> Inr False) (\<lambda>hit.
     rbind (check_groups name metric tokens gs) (\<lambda>errs.
     Inr ((if hit then [] else [RefUnqualified name metric g]) @ errs)))"

definition check_naming :: "json \<Rightarrow> json \<Rightarrow> json \<Rightarrow> schema_error list res" where
  "check_naming name qualifiers metric =
     (case qualifiers of
        JArr gs \<Rightarrow>
          if gs = [] then Inr []
          else (case metric of
                  JStr m \<Rightarrow> check_groups name metric (split_on CHR ''-'' m) gs
                | _ \<Rightarrow> Inl AttributeErr)
      | _ \<Rightarrow> Inr [])"

definition check_reference :: "json \<Rightarrow> json \<Rightarrow> json list \<Rightarrow> json \<Rightarrow> (schema_error list \<times> json list) res" where
  "check_reference name qualifiers seen ref =
     rbind (jget_or ref ''metric'' (JStr ''<unnamed metric>'')) (\<lambda>metric.
     rbind (missing_fields REFERENCE_FIELDS ref) (\<lambda>missing.
     if missing \<noteq> [] then Inr ([RefMissing name metric missing], seen)
     else
       rbind (jitem ref ''direction'') (\<lambda>direction.
       rbind (jitem ref ''value'') (\<lambda>val.
       rbind (jitem ref ''gate_at'') (\<lambda>gate.
       let e1 = (if direction \<notin> JStr ` set DIRECTIONS then [RefDirection name metric direction] else []);
           e2 = (if \<not> is_number val then [RefValue name metric val] else []);
           e3 = (if gate \<noteq> JNull \<and> \<not> is_number gate then [RefGate name metric gate] else [])
       in rbind (in_seen metric seen) (\<lambda>dup.
          rbind (check_naming name qualifiers metric) (\<lambda>e5.
          Inr (e1 @ e2 @ e3 @ (if dup then [RefDuplicate name metric] else []) @ e5, metric # seen))))))))"

fun check_references :: "json \<Rightarrow> json \<Rightarrow> json list \<Rightarrow> json list \<Rightarrow> schema_error list res" where
  "check_references name qualifiers seen [] = Inr []"
| "check_references name qualifiers seen (ref # refs) =
     rbind (check_reference name qualifiers seen ref) (\<lambda>(errs, seen').
     rbind (check_references name qualifiers seen' refs) (\<lambda>more. Inr (errs @ more)))"

definition validate_cell :: "json \<Rightarrow> schema_error list res" where
  "validate_cell cell =
     rbind (jget_or cell ''name'' (JStr ''<unnamed>'')) (\<lambda>name.
     rbind (jget_or cell ''expected_skips'' JNull) (\<lambda>skips.
     rbind (if truthy skips then jiter skips else Inr []) (\<lambda>ess.
     rbind (check_skips name ess []) (\<lambda>e1.
     rbind (jget_or cell ''metric_qualifiers'' JNull) (\<lambda>qualifiers.
     rbind (jget_or cell ''external'' JNull) (\<lambda>external.
     rbind (check_external name cell external) (\<lambda>e3.
     rbind (jget cell ''references'') (\<lambda>references.
     rbind (case references of
              None \<Rightarrow> Inr [ReferencesMissing name]
            | Some JNull \<Rightarrow> Inr []
            | Some (JArr refs) \<Rightarrow> check_references name qualifiers [] refs
            | Some _ \<Rightarrow> Inr [ReferencesNotList name]) (\<lambda>e4.
     Inr (e1 @ check_qualifiers name qualifiers @ e3 @ e4))))))))))"

definition validate_cells :: "json list \<Rightarrow> schema_error list res" where
  "validate_cells cells = rbind (map_res validate_cell cells) (\<lambda>es. Inr (concat es))"

subsection \<open>Printing a value\<close>

definition hex_digit :: "nat \<Rightarrow> char" where
  "hex_digit n = (if n < 10 then char_of (48 + n) else char_of (87 + n))"

definition repr_char :: "char \<Rightarrow> char \<Rightarrow> string" where
  "repr_char q c =
     (let n = (of_char c :: nat) in
      if c = q \<or> c = CHR 0x5C then [CHR 0x5C, c]
      else if c = LF then [CHR 0x5C, CHR ''n'']
      else if c = CR then [CHR 0x5C, CHR ''r'']
      else if n = 9 then [CHR 0x5C, CHR ''t'']
      else if n < 32 \<or> n = 127 then [CHR 0x5C, CHR ''x'', hex_digit (n div 16), hex_digit (n mod 16)]
      else [c])"

definition repr_str :: "string \<Rightarrow> string" where
  "repr_str s =
     (let q = (if CHR 0x27 \<in> set s \<and> CHR 0x22 \<notin> set s then CHR 0x22 else CHR 0x27)
      in [q] @ concat (map (repr_char q) s) @ [q])"

fun py_repr :: "json \<Rightarrow> string" where
  "py_repr JNull = ''None''"
| "py_repr (JBool b) = (if b then ''True'' else ''False'')"
| "py_repr (JInt i) = py_str i"
| "py_repr (JFloat _ s) = s"
| "py_repr (JStr s) = repr_str s"
| "py_repr (JArr xs) = ''['' @ join '', '' (map py_repr xs) @ '']''"
| "py_repr (JObj kvs) = ''{'' @ join '', '' (map (\<lambda>kv. repr_str (fst kv) @ '': '' @ py_repr (snd kv)) kvs) @ ''}''"

definition fmt :: "json \<Rightarrow> string" where
  "fmt v = (case v of JStr s \<Rightarrow> s | _ \<Rightarrow> py_repr v)"

definition item_text :: "json \<Rightarrow> string \<Rightarrow> string res" where
  "item_text v k = rbind (jitem v k) (\<lambda>x. Inr (fmt x))"

subsection \<open>Rendering\<close>

definition gate_phrase :: "json \<Rightarrow> string res" where
  "gate_phrase ref =
     rbind (jitem ref ''gate_at'') (\<lambda>g.
     if g = JNull then Inr ''report only, not gated''
     else rbind (item_text ref ''direction'') (\<lambda>d.
          rbind (item_text ref ''unit'') (\<lambda>u. Inr (''gate '' @ d @ '' at '' @ fmt g @ '' '' @ u))))"

definition reference_phrase :: "json \<Rightarrow> string res" where
  "reference_phrase r =
     rbind (item_text r ''metric'') (\<lambda>m. rbind (item_text r ''value'') (\<lambda>v. rbind (item_text r ''unit'') (\<lambda>u.
     rbind (gate_phrase r) (\<lambda>g. Inr (m @ '' '' @ v @ '' '' @ u @ '' ('' @ g @ '')'')))))"

definition skip_phrase :: "json \<Rightarrow> string res" where
  "skip_phrase es =
     rbind (item_text es ''check'') (\<lambda>c. rbind (item_text es ''reason'') (\<lambda>r. Inr (c @ '' ('' @ r @ '')'')))"

text \<open>The parts of a cell that are only rendered when they are present.\<close>

definition when_truthy :: "json \<Rightarrow> string \<Rightarrow> (json \<Rightarrow> 'a list res) \<Rightarrow> 'a list res" where
  "when_truthy cell k f = rbind (jget_or cell k JNull) (\<lambda>v. if truthy v then f v else Inr [])"

definition cell_phrase :: "json \<Rightarrow> string res" where
  "cell_phrase cell =
     rbind (item_text cell ''name'') (\<lambda>name.
     rbind (item_text cell ''gates'') (\<lambda>gates.
     rbind (when_truthy cell ''reports'' (\<lambda>v. Inr ('' (reports '' @ fmt v @ '')''))) (\<lambda>reports.
     rbind (jget_or cell ''references'' JNull) (\<lambda>references.
     rbind (if references = JNull then Inr '' (references: not yet filled)''
            else if truthy references
            then rbind (jiter references) (\<lambda>rs. rbind (map_res reference_phrase rs) (\<lambda>ps.
                   Inr ('' (references: '' @ join ''; '' ps @ '')'')))
            else Inr []) (\<lambda>refs.
     rbind (when_truthy cell ''expected_skips'' (\<lambda>v. rbind (jiter v) (\<lambda>ess. rbind (map_res skip_phrase ess) (\<lambda>ps.
              Inr ('' (expected skip: '' @ join ''; '' ps @ '')''))))) (\<lambda>skips.
     rbind (when_truthy cell ''increment'' (\<lambda>v. Inr ('' [runner lands in Increment '' @ fmt v @ '']''))) (\<lambda>inc.
     Inr (''`'' @ name @ ''` gates '' @ gates @ reports @ refs @ skips @ inc))))))))"

definition render_design_span :: "json list \<Rightarrow> string res" where
  "render_design_span cells = rbind (map_res cell_phrase cells) (\<lambda>ps. Inr (join ''; '' ps))"

definition SECTION_SIGN :: string where "SECTION_SIGN = [CHR 0xC2, CHR 0xA7]"

definition checklist_head :: "string list" where
  "checklist_head =
     [''# Release checklist'', [],
      ''Generated from `tests/acceptance/cells.json` by `tools/acceptance_manifest.py`. Do not hand-edit the '' @
      ''generated span; regenerate it and commit the result. `--check` regenerates and diffs, failing '' @
      ''`acceptance-enumeration` when this file has drifted from the enumeration.'', [],
      ''Run the acceptance target before tagging a release:'', [],
      ''    tests/acceptance/run.py --all --allow-skip <cell> ...'', [],
      ''Every 77 (skip) must be named on that command line, or the run does not count as a release gate '' @
      ''(docs/design-0.3.1-test-ladder.md '' @ SECTION_SIGN @ ''2).'', [],
      ''## Cells'', []]"

definition text_items :: "json \<Rightarrow> string list res" where
  "text_items v =
     rbind (jiter v) (\<lambda>xs. map_res (\<lambda>x. case x of JStr s \<Rightarrow> Inr s | _ \<Rightarrow> Inl TypeErr) xs)"

definition runner_text :: "json \<Rightarrow> string res" where
  "runner_text c =
     rbind (jget_or c ''external'' JNull) (\<lambda>ext.
     if truthy ext then Inr ''external''
     else rbind (jget_or c ''runner'' (JObj [])) (\<lambda>r. rbind (jget_or r ''cmd'' (JStr ''?'')) (\<lambda>cmd. Inr (fmt cmd))))"

definition reference_line :: "json \<Rightarrow> string res" where
  "reference_line r =
     rbind (map_res (item_text r) [''metric'', ''value'', ''unit'']) (\<lambda>a.
     rbind (gate_phrase r) (\<lambda>g.
     rbind (map_res (item_text r) [''samples'', ''spread_pct'', ''config'', ''prompt_tokens'', ''design'', ''measured'', ''binary'']) (\<lambda>b.
     Inr (''      reference: '' @ a ! 0 @ '' = '' @ a ! 1 @ '' '' @ a ! 2 @ '' ('' @ g @ '', '' @ b ! 0 @ '' sample(s), '' @ b ! 1 @
          ''% spread) -- '' @ b ! 2 @ '', '' @ b ! 3 @ '' prompt tokens, '' @ b ! 4 @ '', measured '' @ b ! 5 @ '', '' @ b ! 6))))"

definition skip_line :: "json \<Rightarrow> string res" where
  "skip_line es =
     rbind (item_text es ''check'') (\<lambda>c. rbind (item_text es ''reason'') (\<lambda>r.
     Inr (''      expected skip: '' @ c @ '' (declared: '' @ r @ ''; pre-named -- --allow-skip naming it is an error)'')))"

definition external_line :: "json \<Rightarrow> json \<Rightarrow> string res" where
  "external_line c ext =
     rbind (jget_or c ''references'' JNull) (\<lambda>refs.
     rbind (if truthy refs then jiter refs else Inr []) (\<lambda>rs.
     rbind (map_res (\<lambda>r. rbind (item_text r ''metric'') (\<lambda>m. rbind (item_text r ''unit'') (\<lambda>u.
              Inr (''`ACCEPTANCE-METRIC '' @ m @ '' <n> '' @ u @ ''`'')))) rs) (\<lambda>es.
     rbind (jget_or ext ''manifest_key'' (JStr ''?'')) (\<lambda>key.
     let expected = join ''; '' es;
         contract = (if expected \<noteq> [] then ''the wrapper prints '' @ expected @ '', gated by the reference above''
                     else ''the cell declares no reference, so any metric line the wrapper prints is a hard fail'')
     in Inr (''      external: the run manifest's `'' @ fmt key @
             ''` command (an ARCINT_ACCEPTANCE_* cache variable at configure time); empty -> SKIPPED external-harness-not-configured; '' @
             contract)))))"

definition cell_lines :: "json \<Rightarrow> string list res" where
  "cell_lines c =
     rbind (jget_or c ''design'' (JArr [])) (\<lambda>d. rbind (text_items d) (\<lambda>ds.
     rbind (runner_text c) (\<lambda>runner.
     rbind (item_text c ''name'') (\<lambda>name.
     rbind (when_truthy c ''flags'' (\<lambda>v. Inr [''      flags: '' @ fmt v])) (\<lambda>flags.
     rbind (item_text c ''gates'') (\<lambda>gates.
     rbind (when_truthy c ''reports'' (\<lambda>v. Inr [''      reports: '' @ fmt v])) (\<lambda>reports.
     rbind (jget_or c ''references'' JNull) (\<lambda>references.
     rbind (if references = JNull then Inr [''      references: not yet filled'']
            else if truthy references then rbind (jiter references) (map_res reference_line) else Inr []) (\<lambda>refs.
     rbind (when_truthy c ''expected_skips'' (\<lambda>v. rbind (jiter v) (map_res skip_line))) (\<lambda>skips.
     rbind (when_truthy c ''timeout_seconds'' (\<lambda>v. Inr [''      timeout: '' @ fmt v @
              ''s (the generated per-cell ctest test's own TIMEOUT; run.py --all enforces the same figure itself)''])) (\<lambda>timeout.
     rbind (when_truthy c ''increment'' (\<lambda>v. Inr [''      runner: not yet in the tree (Increment '' @ fmt v @ ''); the cell cannot run''])) (\<lambda>inc.
     rbind (when_truthy c ''external'' (\<lambda>ext. rbind (external_line c ext) (\<lambda>l. Inr [l]))) (\<lambda>ext.
     Inr ([''- [ ] `'' @ name @ ''` -- '' @ runner @ '' ('' @ join '', '' ds @ '')''] @ flags @ [''      gates: '' @ gates] @
          reports @ refs @ skips @ timeout @ inc @ ext @ [[]]))))))))))))))"

definition render_checklist :: "json list \<Rightarrow> string res" where
  "render_checklist cells =
     rbind (map_res cell_lines cells) (\<lambda>ls. Inr (rstrip (join [LF] (checklist_head @ concat ls)) @ [LF]))"

subsection \<open>The generated files\<close>

definition MARK_BEGIN :: string where
  "MARK_BEGIN = ''<!-- BEGIN GENERATED by tools/acceptance_manifest.py; verify with its check mode -->''"

definition MARK_END :: string where
  "MARK_END = ''<!-- END GENERATED by tools/acceptance_manifest.py -->''"

definition splice :: "string \<Rightarrow> string \<Rightarrow> string res" where
  "splice doc gen =
     (case (index_of doc MARK_BEGIN, index_of doc MARK_END) of
        (Some b, Some e) \<Rightarrow>
          if e < b then Inl SystemExitErr
          else Inr (take (b + length MARK_BEGIN) doc @ gen @ drop e doc)
      | _ \<Rightarrow> Inl SystemExitErr)"

definition whole_generated_file :: "string \<Rightarrow> string" where
  "whole_generated_file gen = MARK_BEGIN @ [LF] @ gen @ MARK_END @ [LF]"

definition read_file :: "string option \<Rightarrow> string" where
  "read_file f = (case f of None \<Rightarrow> [] | Some s \<Rightarrow> newlines s)"

record manifest_files =
  design_md :: "string option"
  checklist_md :: "string option"

definition load_cells :: "json \<Rightarrow> json list res" where
  "load_cells cells = (case cells of JArr xs \<Rightarrow> Inr xs | _ \<Rightarrow> Inl SystemExitErr)"

text \<open>The two texts the command wants to see, and the old ones it read.\<close>

definition regenerate :: "json list \<Rightarrow> manifest_files \<Rightarrow> (string \<times> string) res" where
  "regenerate cells files =
     rbind (render_design_span cells) (\<lambda>gen.
     rbind (render_checklist cells) (\<lambda>checklist.
     let before = read_file (design_md files) in
     if \<not> contains before MARK_BEGIN then Inl SystemExitErr
     else rbind (splice before (gen @ '' '')) (\<lambda>after. Inr (after, whole_generated_file checklist))))"

definition manifest_main :: "bool \<Rightarrow> json \<Rightarrow> manifest_files \<Rightarrow> manifest_files \<times> nat res" where
  "manifest_main check doc files =
     (case rbind (load_cells doc) (\<lambda>cells. rbind (validate_cells cells) (\<lambda>errs. Inr (cells, errs))) of
        Inl e \<Rightarrow> (files, Inl e)
      | Inr (cells, errs) \<Rightarrow>
          if errs \<noteq> [] then (files, Inr 1)
          else (case regenerate cells files of
                  Inl e \<Rightarrow> (files, Inl e)
                | Inr (design, checklist) \<Rightarrow>
                    if check
                    then (files, Inr (if read_file (design_md files) = design \<and> read_file (checklist_md files) = checklist
                                      then 0 else 1))
                    else (\<lparr>design_md = Some design, checklist_md = Some checklist\<rparr>, Inr 0)))"

end
