(* ===== verification/Acceptance_Facts.thy ===== *)
theory Acceptance_Facts
  imports Acceptance_Manifest
begin

text \<open>
  What the schema check accepts, as a predicate on the cells that mentions no error value and no
  order of checks, and the facts about the markers that make splicing repeatable.
\<close>

subsection \<open>The accepted cells\<close>

definition key_or_null :: "(string \<times> json) list \<Rightarrow> string \<Rightarrow> json" where
  "key_or_null kvs k = (case map_of kvs k of None \<Rightarrow> JNull | Some v \<Rightarrow> v)"

definition skip_ok :: "json \<Rightarrow> bool" where
  "skip_ok es = (case es of
     JObj kvs \<Rightarrow> (\<exists>c. map_of kvs ''check'' = Some c \<and> hashable c) \<and> map_of kvs ''reason'' \<noteq> None
   | _ \<Rightarrow> False)"

fun field_of :: "string \<Rightarrow> json \<Rightarrow> json" where
  "field_of k (JObj kvs) = key_or_null kvs k"
| "field_of k _ = JNull"

text \<open>No value equals an earlier one, as Python compares them.\<close>

fun unrepeated :: "json list \<Rightarrow> json list \<Rightarrow> bool" where
  "unrepeated seen [] = True"
| "unrepeated seen (x # xs) = (\<not> list_ex (jeq x) seen \<and> unrepeated (x # seen) xs)"

definition skips_ok :: "json \<Rightarrow> bool" where
  "skips_ok v = (\<not> truthy v \<or>
     (\<exists>xs. v = JArr xs \<and> list_all skip_ok xs \<and> unrepeated [] (map (field_of ''check'') xs)))"

definition qualifiers_ok :: "json \<Rightarrow> bool" where
  "qualifiers_ok q = (q = JNull \<or> (\<exists>gs. q = JArr gs \<and> gs \<noteq> [] \<and> list_all good_group gs))"

definition external_ok :: "json \<Rightarrow> json \<Rightarrow> bool" where
  "external_ok external runner = (external = JNull \<or>
     (\<exists>kvs k. external = JObj kvs \<and> map_of kvs ''manifest_key'' = Some (JStr k) \<and> k \<noteq> []) \<and> \<not> truthy runner)"

definition naming_ok :: "json \<Rightarrow> json \<Rightarrow> bool" where
  "naming_ok q metric = (case q of
     JArr gs \<Rightarrow> (\<exists>m. metric = JStr m \<and>
       (\<forall>g \<in> set gs. \<exists>ts s. g = JArr ts \<and> JStr s \<in> set ts \<and> s \<in> set (split_on CHR ''-'' m)))
   | _ \<Rightarrow> True)"

definition reference_ok :: "json \<Rightarrow> json \<Rightarrow> bool" where
  "reference_ok q ref = (case ref of
     JObj kvs \<Rightarrow>
       list_all (\<lambda>f. map_of kvs f \<noteq> None) REFERENCE_FIELDS
       \<and> key_or_null kvs ''direction'' \<in> JStr ` set DIRECTIONS
       \<and> is_number (key_or_null kvs ''value'')
       \<and> (key_or_null kvs ''gate_at'' = JNull \<or> is_number (key_or_null kvs ''gate_at''))
       \<and> hashable (key_or_null kvs ''metric'')
       \<and> naming_ok q (key_or_null kvs ''metric'')
   | _ \<Rightarrow> False)"

definition cell_ok :: "json \<Rightarrow> bool" where
  "cell_ok cell = (case cell of
     JObj kvs \<Rightarrow>
       skips_ok (key_or_null kvs ''expected_skips'')
       \<and> qualifiers_ok (key_or_null kvs ''metric_qualifiers'')
       \<and> external_ok (key_or_null kvs ''external'') (key_or_null kvs ''runner'')
       \<and> (case map_of kvs ''references'' of
            Some JNull \<Rightarrow> True
          | Some (JArr refs) \<Rightarrow> list_all (reference_ok (key_or_null kvs ''metric_qualifiers'')) refs
                                 \<and> unrepeated [] (map (field_of ''metric'') refs)
          | _ \<Rightarrow> False)
   | _ \<Rightarrow> False)"

subsection \<open>The checks against the predicate\<close>

lemma jget_or_obj [simp]: "jget_or (JObj kvs) k JNull = Inr (key_or_null kvs k)"
  by (simp add: jget_or_def key_or_null_def)

lemma jget_Inr: "jget v k = Inr r \<longleftrightarrow> (\<exists>kvs. v = JObj kvs \<and> r = map_of kvs k)"
  by (cases v) auto

lemma jget_or_Inr: "jget_or v k d = Inr r \<longleftrightarrow> (\<exists>kvs. v = JObj kvs \<and> r = (case map_of kvs k of None \<Rightarrow> d | Some x \<Rightarrow> x))"
  by (auto simp: jget_or_def res_simps jget_Inr)

lemma jitem_Inr: "jitem v k = Inr x \<longleftrightarrow> (\<exists>kvs. v = JObj kvs \<and> map_of kvs k = Some x)"
  by (cases v) (auto simp: of_option_Inr)

lemma missing_fields_obj:
  "missing_fields fs (JObj kvs) = Inr (filter (\<lambda>f. map_of kvs f = None) fs)"
  by (induction fs) (auto simp: map_of_eq_None_iff)

lemma missing_fields_none:
  "missing_fields fs (JObj kvs) = Inr [] \<longleftrightarrow> list_all (\<lambda>f. map_of kvs f \<noteq> None) fs"
  by (auto simp: missing_fields_obj filter_empty_conv list_all_iff)

lemma missing_fields_Inr_obj: "missing_fields fs (JObj kvs) = Inr [] \<Longrightarrow> f \<in> set fs \<Longrightarrow> \<exists>x. map_of kvs f = Some x"
  by (auto simp: missing_fields_none list_all_iff)

lemma check_skips_iff:
  "check_skips name xs seen = Inr [] \<longleftrightarrow> list_all skip_ok xs \<and> unrepeated seen (map (field_of ''check'') xs)"
proof (induction xs arbitrary: seen)
  case (Cons es xs)
  show ?case
  proof (cases es)
    case (JObj kvs)
    show ?thesis
      using Cons.IH
      by (cases "map_of kvs ''check''"; cases "map_of kvs ''reason''")
        (auto simp: JObj missing_fields_obj skip_ok_def in_seen_def key_or_null_def res_simps split: if_splits)
  qed (auto simp: skip_ok_def res_simps)
qed simp

lemma check_skips_str: "check_skips name (map (JStr \<circ> f) xs) [] = Inr [] \<Longrightarrow> xs = []"
  by (cases xs) (auto simp: check_skips_iff skip_ok_def simp del: check_skips.simps)

lemma skips_checked:
  "rbind (if truthy v then jiter v else Inr []) (\<lambda>ess. check_skips name ess []) = Inr [] \<longleftrightarrow> skips_ok v"
proof (cases v)
  case (JStr s)
  then show ?thesis using check_skips_str [of name "\<lambda>c. [c]" s] by (auto simp: skips_ok_def comp_def)
next
  case (JObj kvs)
  then show ?thesis using check_skips_str [of name fst kvs] by (auto simp: skips_ok_def)
qed (auto simp: skips_ok_def check_skips_iff)

lemma check_qualifiers_iff: "check_qualifiers name q = [] \<longleftrightarrow> qualifiers_ok q"
  by (cases q) (auto simp: check_qualifiers_def qualifiers_ok_def filter_empty_conv list_all_iff)

lemma check_external_iff:
  "check_external name (JObj kvs) x = Inr [] \<longleftrightarrow> external_ok x (key_or_null kvs ''runner'')"
  by (cases x) (auto simp: check_external_def external_ok_def res_simps split: option.splits json.splits)

lemma any_token_good:
  assumes "list_all (\<lambda>t. case t of JStr s \<Rightarrow> s \<noteq> [] | _ \<Rightarrow> False) ts"
  shows "any_token tokens ts = Inr (\<exists>s. JStr s \<in> set ts \<and> s \<in> set tokens)"
  using assms by (induction ts) (auto split: json.splits)

lemma check_groups_iff:
  assumes "list_all good_group gs"
  shows "check_groups name metric tokens gs = Inr [] \<longleftrightarrow>
    (\<forall>g \<in> set gs. \<exists>ts s. g = JArr ts \<and> JStr s \<in> set ts \<and> s \<in> set tokens)"
  using assms
proof (induction gs)
  case (Cons g gs)
  from Cons.prems obtain ts where g: "g = JArr ts" and
    ts: "list_all (\<lambda>t. case t of JStr s \<Rightarrow> s \<noteq> [] | _ \<Rightarrow> False) ts"
    by (auto simp: good_group_def split: json.splits)
  show ?case using Cons by (auto simp: g any_token_good [OF ts] res_simps)
qed simp

lemma check_naming_iff:
  "qualifiers_ok q \<Longrightarrow> check_naming name q metric = Inr [] \<longleftrightarrow> naming_ok q metric"
  by (auto simp: qualifiers_ok_def check_naming_def naming_ok_def check_groups_iff split: json.splits)

lemma check_reference_iff:
  assumes "qualifiers_ok q"
  shows "check_reference name q seen ref = Inr ([], seen') \<longleftrightarrow>
    reference_ok q ref \<and> \<not> list_ex (jeq (field_of ''metric'' ref)) seen \<and> seen' = field_of ''metric'' ref # seen"
proof (cases ref)
  case (JObj kvs)
  show ?thesis
  proof (cases "list_all (\<lambda>f. map_of kvs f \<noteq> None) REFERENCE_FIELDS")
    case True
    then obtain m v g d where
      *: "map_of kvs ''metric'' = Some m" "map_of kvs ''value'' = Some v" "map_of kvs ''gate_at'' = Some g"
        "map_of kvs ''direction'' = Some d"
      by (auto simp: REFERENCE_FIELDS_def)
    have mf: "missing_fields REFERENCE_FIELDS (JObj kvs) = Inr []" using True by (simp add: missing_fields_none)
    show ?thesis
      using True
      by (auto simp: JObj check_reference_def reference_ok_def mf * key_or_null_def in_seen_def jget_or_def res_simps
          check_naming_iff [OF assms] Let_def split: if_splits)
  next
    case False
    then have "missing_fields REFERENCE_FIELDS (JObj kvs) \<noteq> Inr []" by (simp add: missing_fields_none)
    with False show ?thesis
      by (auto simp: JObj check_reference_def reference_ok_def res_simps jget_or_def)
  qed
qed (auto simp: check_reference_def reference_ok_def jget_or_def)

lemma check_references_iff:
  assumes "qualifiers_ok q"
  shows "check_references name q seen refs = Inr [] \<longleftrightarrow>
    list_all (reference_ok q) refs \<and> unrepeated seen (map (field_of ''metric'') refs)"
  by (induction refs arbitrary: seen) (auto simp: res_simps check_reference_iff [OF assms])

lemma validate_cell_iff: "validate_cell cell = Inr [] \<longleftrightarrow> cell_ok cell"
proof (cases cell)
  case (JObj kvs)
  let ?q = "key_or_null kvs ''metric_qualifiers''"
  define name where "name = (case map_of kvs ''name'' of None \<Rightarrow> JStr ''<unnamed>'' | Some x \<Rightarrow> x)"
  have name: "jget_or (JObj kvs) ''name'' (JStr ''<unnamed>'') = Inr name"
    by (simp add: jget_or_def name_def)
  have refs: "(case map_of kvs ''references'' of
              None \<Rightarrow> Inr [ReferencesMissing name]
            | Some JNull \<Rightarrow> Inr []
            | Some (JArr refs) \<Rightarrow> check_references name ?q [] refs
            | Some _ \<Rightarrow> Inr [ReferencesNotList name]) = Inr [] \<longleftrightarrow>
     (case map_of kvs ''references'' of
            Some JNull \<Rightarrow> True
          | Some (JArr refs) \<Rightarrow> list_all (reference_ok ?q) refs \<and> unrepeated [] (map (field_of ''metric'') refs)
          | _ \<Rightarrow> False)" if "qualifiers_ok ?q"
    using that by (auto simp: check_references_iff split: option.splits json.splits)
  have "validate_cell cell = Inr [] \<longleftrightarrow>
     rbind (if truthy (key_or_null kvs ''expected_skips'') then jiter (key_or_null kvs ''expected_skips'') else Inr [])
       (\<lambda>ess. check_skips name ess []) = Inr []
     \<and> check_qualifiers name ?q = []
     \<and> check_external name (JObj kvs) (key_or_null kvs ''external'') = Inr []
     \<and> (case map_of kvs ''references'' of
              None \<Rightarrow> Inr [ReferencesMissing name]
            | Some JNull \<Rightarrow> Inr []
            | Some (JArr refs) \<Rightarrow> check_references name ?q [] refs
            | Some _ \<Rightarrow> Inr [ReferencesNotList name]) = Inr []"
    unfolding JObj validate_cell_def name by (simp add: res_simps del: rbind.simps) (auto simp: res_simps)
  then show ?thesis
    unfolding skips_checked check_qualifiers_iff check_external_iff
    by (auto simp: JObj cell_ok_def refs)
qed (auto simp: validate_cell_def jget_or_def cell_ok_def)

lemma validate_cells_iff: "validate_cells cells = Inr [] \<longleftrightarrow> list_all cell_ok cells"
proof -
  have "(\<exists>es. map_res validate_cell cells = Inr es \<and> concat es = []) \<longleftrightarrow> list_all (\<lambda>c. validate_cell c = Inr []) cells"
    by (induction cells) (auto simp: res_simps)
  then show ?thesis by (simp add: validate_cells_def res_simps validate_cell_iff)
qed

subsection \<open>The markers\<close>

lemma startswith_self [simp]: "startswith (p @ t) p"
  by (induction p) auto

lemma startswith_split: "startswith s p \<longleftrightarrow> (\<exists>t. s = p @ t)"
  by (induction s p rule: startswith.induct) auto

lemma contains_split: "contains s p \<longleftrightarrow> (\<exists>a b. s = a @ p @ b)"
proof (induction s)
  case (Cons c s)
  have "(\<exists>a b. c # s = a @ p @ b) \<longleftrightarrow> (\<exists>b. c # s = p @ b) \<or> (\<exists>a b. s = a @ p @ b)"
    by (metis append_Cons append_Nil list.inject neq_Nil_conv)
  then show ?case using Cons by (simp add: startswith_split)
qed simp

lemma index_of_Some: "index_of s p = Some i \<Longrightarrow> s = take i s @ p @ drop (i + length p) s"
proof (induction s arbitrary: i)
  case Nil
  then show ?case by (auto split: if_splits)
next
  case (Cons c s)
  show ?case
  proof (cases "startswith (c # s) p")
    case True
    then show ?thesis using Cons.prems by (auto simp: startswith_split)
  next
    case False
    then obtain j where "index_of s p = Some j" "i = Suc j" using Cons.prems by auto
    with Cons.IH show ?thesis by simp
  qed
qed

lemma index_of_None: "index_of s p = None \<longleftrightarrow> \<not> contains s p"
  by (induction s) auto

lemma index_of_least: "index_of s p = Some i \<Longrightarrow> j < i \<Longrightarrow> \<not> startswith (drop j s) p"
proof (induction s arbitrary: i j)
  case (Cons c s)
  then show ?case by (cases j) (auto split: if_splits)
qed (auto split: if_splits)

text \<open>
  A marker is a pattern whose first character occurs nowhere else in it, so no occurrence of it
  straddles that character.
\<close>

lemma startswith_cut: "c \<notin> set q \<Longrightarrow> startswith (s @ c # t) q \<Longrightarrow> startswith s q"
proof (induction s q rule: startswith.induct)
  case (2 p ps)
  then show ?case by (cases "p = c") auto
qed auto

lemma index_of_skip:
  assumes "c \<notin> set q" "\<not> contains s (c # q)"
  shows "index_of (s @ c # t) (c # q) = map_option ((+) (length s)) (index_of (c # t) (c # q))"
  using assms(2)
proof (induction s)
  case Nil
  then show ?case by (simp only: append_Nil list.size(3)) (cases "index_of (c # t) (c # q)"; simp)
next
  case (Cons x s)
  then have "\<not> startswith (x # s @ c # t) (c # q)" using startswith_cut [OF assms(1), of s t] by auto
  with Cons show ?case by (auto simp: option.map_comp comp_def)
qed

lemma not_contains_before: "index_of s p = Some i \<Longrightarrow> j \<le> i \<Longrightarrow> p \<noteq> [] \<Longrightarrow> \<not> contains (take j s) p"
proof
  assume i: "index_of s p = Some i" and j: "j \<le> i" and p: "p \<noteq> []" and "contains (take j s) p"
  then obtain a b where ab: "take j s = a @ p @ b" by (auto simp: contains_split)
  then have "length a + length p + length b \<le> j" by (metis add.assoc length_append length_take min.cobounded2)
  then have "length a < i" using j p by (cases p) auto
  moreover have "startswith (drop (length a) s) p"
    using ab append_take_drop_id [of j s] by (metis append.assoc append_eq_conv_conj startswith_self)
  ultimately show False using index_of_least [OF i] by blast
qed

subsection \<open>Splicing\<close>

lemma MARK_END_shape: "MARK_END = CHR ''<'' # tl MARK_END" "CHR ''<'' \<notin> set (tl MARK_END)"
  by (simp_all add: MARK_END_def)

lemma MARK_BEGIN_shape: "MARK_BEGIN = CHR ''<'' # tl MARK_BEGIN" "CHR ''<'' \<notin> set (tl MARK_BEGIN)"
  by (simp_all add: MARK_BEGIN_def)

lemmas skip_to_begin = index_of_skip [OF MARK_BEGIN_shape(2), folded MARK_BEGIN_shape(1)]

lemmas skip_to_end = index_of_skip [OF MARK_END_shape(2), folded MARK_END_shape(1)]

lemma marks_nonempty [simp]: "MARK_BEGIN \<noteq> []" "MARK_END \<noteq> []"
  by (simp_all add: MARK_BEGIN_def MARK_END_def)

lemma end_after_begin: "index_of (MARK_BEGIN @ s) MARK_END = map_option ((+) (length MARK_BEGIN)) (index_of s MARK_END)"
  by (cases "index_of s MARK_END") (simp_all add: MARK_BEGIN_def MARK_END_def)

lemma index_of_here: "p \<noteq> [] \<Longrightarrow> index_of (p @ s) p = Some 0"
  by (cases p) (auto simp: startswith_split)

lemma find_begin: "\<not> contains pre MARK_BEGIN \<Longrightarrow> index_of (pre @ MARK_BEGIN @ s) MARK_BEGIN = Some (length pre)"
  using skip_to_begin [of pre "tl MARK_BEGIN @ s"] index_of_here [of MARK_BEGIN s]
  by (simp flip: append_Cons add: MARK_BEGIN_shape(1) [symmetric])

lemma find_end:
  assumes "\<not> contains pre MARK_END" "\<not> contains gen MARK_END"
  shows "index_of (pre @ MARK_BEGIN @ gen @ MARK_END @ post) MARK_END = Some (length pre + length MARK_BEGIN + length gen)"
proof -
  have "index_of (gen @ MARK_END @ post) MARK_END = Some (length gen)"
    using skip_to_end [OF assms(2), of "tl MARK_END @ post"] index_of_here [of MARK_END post]
    by (simp flip: append_Cons add: MARK_END_shape(1) [symmetric])
  then have "index_of (MARK_BEGIN @ gen @ MARK_END @ post) MARK_END = Some (length MARK_BEGIN + length gen)"
    by (simp add: end_after_begin)
  then show ?thesis
    using skip_to_end [OF assms(1), of "tl MARK_BEGIN @ gen @ MARK_END @ post"]
    by (simp flip: append_Cons add: MARK_BEGIN_shape(1) [symmetric])
qed

lemma splice_framed:
  assumes "\<not> contains pre MARK_BEGIN" "\<not> contains pre MARK_END" "\<not> contains old MARK_END"
  shows "splice (pre @ MARK_BEGIN @ old @ MARK_END @ post) gen = Inr (pre @ MARK_BEGIN @ gen @ MARK_END @ post)"
  using find_begin [OF assms(1), of "old @ MARK_END @ post"] find_end [OF assms(2,3), of post]
  by (simp add: splice_def)

lemma splice_frame:
  assumes "splice doc gen = Inr out"
  obtains pre old post where "doc = pre @ MARK_BEGIN @ old @ MARK_END @ post"
    "\<not> contains pre MARK_BEGIN" "\<not> contains pre MARK_END" "\<not> contains old MARK_END"
proof -
  from assms obtain b e where b: "index_of doc MARK_BEGIN = Some b" and e: "index_of doc MARK_END = Some e"
    and be: "b \<le> e"
    by (auto simp: splice_def split: option.splits if_splits)
  define pre s where "pre = take b doc" and "s = drop (b + length MARK_BEGIN) doc"
  have doc: "doc = pre @ MARK_BEGIN @ s" using index_of_Some [OF b] by (simp add: pre_def s_def)
  have nb: "\<not> contains pre MARK_BEGIN" "\<not> contains pre MARK_END"
    using not_contains_before [OF b] not_contains_before [OF e be] by (auto simp: pre_def)
  have "index_of doc MARK_END = map_option ((+) (length pre)) (index_of (MARK_BEGIN @ s) MARK_END)"
    using skip_to_end [OF nb(2), of "tl MARK_BEGIN @ s"]
    by (simp flip: append_Cons add: doc MARK_BEGIN_shape(1) [symmetric])
  then obtain k where k: "index_of s MARK_END = Some k"
    using e by (cases "index_of s MARK_END") (auto simp: end_after_begin)
  show thesis
    using that [of pre "take k s" "drop (k + length MARK_END) s"] doc nb index_of_Some [OF k]
      not_contains_before [OF k, of k] by simp
qed

subsection \<open>Rendering accepted cells\<close>

text \<open>
  What the renderers read of a cell beyond what the schema check looks at: the name, the gates, a list
  of texts under \<open>design\<close> and, unless the cell is external, an object under \<open>runner\<close>.
\<close>

definition printable :: "json \<Rightarrow> bool" where
  "printable cell = (case cell of
     JObj kvs \<Rightarrow>
       map_of kvs ''name'' \<noteq> None \<and> map_of kvs ''gates'' \<noteq> None
       \<and> (case map_of kvs ''design'' of
            None \<Rightarrow> True
          | Some (JArr xs) \<Rightarrow> list_all (\<lambda>x. case x of JStr _ \<Rightarrow> True | _ \<Rightarrow> False) xs
          | _ \<Rightarrow> False)
       \<and> (truthy (key_or_null kvs ''external'') \<or>
          (case map_of kvs ''runner'' of None \<Rightarrow> True | Some (JObj _) \<Rightarrow> True | _ \<Rightarrow> False))
   | _ \<Rightarrow> False)"

definition returns :: "'a res \<Rightarrow> bool" where
  "returns x = (\<exists>y. x = Inr y)"

lemma returns_Inr [simp]: "returns (Inr x)"
  by (simp add: returns_def)

lemma returns_rbind [intro]: "returns m \<Longrightarrow> (\<And>x. m = Inr x \<Longrightarrow> returns (f x)) \<Longrightarrow> returns (rbind m f)"
  by (auto simp: returns_def)

lemma returns_map_res: "(\<And>x. x \<in> set xs \<Longrightarrow> returns (f x)) \<Longrightarrow> returns (map_res f xs)"
  by (induction xs) (auto intro!: returns_rbind)

lemma item_text_obj: "map_of kvs k \<noteq> None \<Longrightarrow> returns (item_text (JObj kvs) k)"
  by (auto simp: item_text_def returns_def)

definition filled :: "json \<Rightarrow> bool" where
  "filled r = (case r of JObj kvs \<Rightarrow> list_all (\<lambda>f. map_of kvs f \<noteq> None) REFERENCE_FIELDS | _ \<Rightarrow> False)"

lemma reference_ok_filled: "reference_ok q r \<Longrightarrow> filled r"
  by (auto simp: reference_ok_def filled_def split: json.splits)

lemma reference_item: "filled r \<Longrightarrow> f \<in> set REFERENCE_FIELDS \<Longrightarrow> returns (item_text r f)"
  by (auto simp: filled_def list_all_iff split: json.splits intro!: item_text_obj)

lemma reference_gate: "filled r \<Longrightarrow> returns (gate_phrase r)"
proof -
  assume ok: "filled r"
  then obtain kvs where r: "r = JObj kvs" and f: "\<And>f. f \<in> set REFERENCE_FIELDS \<Longrightarrow> map_of kvs f \<noteq> None"
    by (auto simp: filled_def list_all_iff split: json.splits)
  from f [of "''gate_at''"] obtain g where "jitem r ''gate_at'' = Inr g" by (auto simp: r REFERENCE_FIELDS_def)
  moreover have "returns (item_text r ''direction'')" "returns (item_text r ''unit'')"
    using ok by (auto intro!: reference_item simp: REFERENCE_FIELDS_def)
  ultimately show ?thesis by (auto simp: gate_phrase_def intro!: returns_rbind)
qed

lemma reference_phrase_returns: "filled r \<Longrightarrow> returns (reference_phrase r)"
  unfolding reference_phrase_def
  by (intro returns_rbind reference_item reference_gate returns_Inr) (auto simp: REFERENCE_FIELDS_def)

lemma reference_line_returns: "filled r \<Longrightarrow> returns (reference_line r)"
  unfolding reference_line_def
  by (intro returns_rbind returns_map_res reference_gate returns_Inr)
    (auto intro!: reference_item simp: REFERENCE_FIELDS_def)

lemma skip_returns: "skip_ok es \<Longrightarrow> returns (skip_phrase es)" "skip_ok es \<Longrightarrow> returns (skip_line es)"
  unfolding skip_phrase_def skip_line_def
  by (auto simp: skip_ok_def split: json.splits intro!: returns_rbind item_text_obj)

lemma when_truthy_obj:
  "(truthy (key_or_null kvs k) \<Longrightarrow> returns (f (key_or_null kvs k))) \<Longrightarrow> returns (when_truthy (JObj kvs) k f)"
  by (auto simp: when_truthy_def)

lemma skips_okD: "skips_ok v \<Longrightarrow> truthy v \<Longrightarrow> \<exists>xs. v = JArr xs \<and> (\<forall>x \<in> set xs. skip_ok x)"
  by (auto simp: skips_ok_def list_all_iff)

text \<open>An accepted and printable cell, opened up.\<close>

lemma accepted_cellE:
  assumes "cell_ok cell" "printable cell"
  obtains kvs where "cell = JObj kvs" "map_of kvs ''name'' \<noteq> None" "map_of kvs ''gates'' \<noteq> None"
    "key_or_null kvs ''references'' = JNull \<or>
       (\<exists>refs. key_or_null kvs ''references'' = JArr refs \<and> (\<forall>r \<in> set refs. filled r))"
    "skips_ok (key_or_null kvs ''expected_skips'')"
    "external_ok (key_or_null kvs ''external'') (key_or_null kvs ''runner'')"
    "printable (JObj kvs)"
proof -
  from assms(1) obtain kvs where cell: "cell = JObj kvs" by (auto simp: cell_ok_def split: json.splits)
  from assms(2) have names: "map_of kvs ''name'' \<noteq> None" "map_of kvs ''gates'' \<noteq> None"
    by (auto simp: cell printable_def)
  from assms(1) have "key_or_null kvs ''references'' = JNull \<or>
       (\<exists>refs. key_or_null kvs ''references'' = JArr refs \<and> (\<forall>r \<in> set refs. filled r))"
    by (cases "map_of kvs ''references''")
      (auto simp: cell cell_ok_def key_or_null_def list_all_iff dest: reference_ok_filled split: json.splits)
  with assms names show thesis by (intro that) (auto simp: cell cell_ok_def)
qed

lemma cell_phrase_returns: "cell_ok cell \<Longrightarrow> printable cell \<Longrightarrow> returns (cell_phrase cell)"
proof (erule (1) accepted_cellE)
  fix kvs
  assume cell: "cell = JObj kvs" and names: "map_of kvs ''name'' \<noteq> None" "map_of kvs ''gates'' \<noteq> None"
    and refs: "key_or_null kvs ''references'' = JNull \<or>
       (\<exists>refs. key_or_null kvs ''references'' = JArr refs \<and> (\<forall>r \<in> set refs. filled r))"
    and skips: "skips_ok (key_or_null kvs ''expected_skips'')"
  have r: "returns (if key_or_null kvs ''references'' = JNull then Inr '' (references: not yet filled)''
            else if truthy (key_or_null kvs ''references'')
            then rbind (jiter (key_or_null kvs ''references'')) (\<lambda>rs. rbind (map_res reference_phrase rs) (\<lambda>ps.
                   Inr ('' (references: '' @ join ''; '' ps @ '')'')))
            else Inr [])"
    using refs by (auto intro!: returns_rbind returns_map_res reference_phrase_returns)
  have s: "returns (when_truthy (JObj kvs) ''expected_skips'' (\<lambda>v. rbind (jiter v) (\<lambda>ess. rbind (map_res skip_phrase ess) (\<lambda>ps.
              Inr ('' (expected skip: '' @ join ''; '' ps @ '')'')))))"
    by (rule when_truthy_obj, drule skips_okD [OF skips]) (auto intro!: returns_rbind returns_map_res skip_returns)
  show "returns (cell_phrase cell)"
    unfolding cell cell_phrase_def jget_or_obj rbind.simps
    by (intro returns_rbind item_text_obj names when_truthy_obj r s returns_Inr)
qed

lemma external_line_returns:
  assumes "external_ok ext runner" "ext \<noteq> JNull"
    and "key_or_null kvs ''references'' = JNull \<or>
       (\<exists>refs. key_or_null kvs ''references'' = JArr refs \<and> (\<forall>r \<in> set refs. filled r))"
  shows "returns (external_line (JObj kvs) ext)"
proof -
  have it: "filled r \<Longrightarrow> returns (item_text r ''metric'')" "filled r \<Longrightarrow> returns (item_text r ''unit'')" for r
    by (auto intro!: reference_item simp: REFERENCE_FIELDS_def)
  have key: "returns (jget_or ext ''manifest_key'' (JStr ''?''))"
    using assms(1,2) by (auto simp: external_ok_def jget_or_def)
  show ?thesis
    unfolding external_line_def jget_or_obj rbind.simps Let_def
    using assms(3) by (auto intro!: returns_rbind returns_map_res key it split: if_splits)
qed

lemma printable_parts:
  assumes "printable (JObj kvs)"
  shows "returns (rbind (jget_or (JObj kvs) ''design'' (JArr [])) text_items)" "returns (runner_text (JObj kvs))"
  using assms
  by (auto simp: printable_def jget_or_def text_items_def runner_text_def key_or_null_def list_all_iff
      split: option.splits json.splits intro!: returns_map_res)

lemma cell_lines_returns: "cell_ok cell \<Longrightarrow> printable cell \<Longrightarrow> returns (cell_lines cell)"
proof (erule (1) accepted_cellE)
  fix kvs
  assume cell: "cell = JObj kvs" and names: "map_of kvs ''name'' \<noteq> None" "map_of kvs ''gates'' \<noteq> None"
    and refs: "key_or_null kvs ''references'' = JNull \<or>
       (\<exists>refs. key_or_null kvs ''references'' = JArr refs \<and> (\<forall>r \<in> set refs. filled r))"
    and skips: "skips_ok (key_or_null kvs ''expected_skips'')"
    and ext: "external_ok (key_or_null kvs ''external'') (key_or_null kvs ''runner'')" and pr: "printable (JObj kvs)"
  have d: "returns (jget_or (JObj kvs) ''design'' (JArr []))"
    "jget_or (JObj kvs) ''design'' (JArr []) = Inr x \<Longrightarrow> returns (text_items x)" for x
    using printable_parts(1) [OF pr] by (auto simp: jget_or_def)
  have r: "returns (if key_or_null kvs ''references'' = JNull then Inr [''      references: not yet filled'']
            else if truthy (key_or_null kvs ''references'')
            then rbind (jiter (key_or_null kvs ''references'')) (map_res reference_line) else Inr [])"
    using refs by (auto intro!: returns_rbind returns_map_res reference_line_returns)
  have s: "returns (when_truthy (JObj kvs) ''expected_skips'' (\<lambda>v. rbind (jiter v) (map_res skip_line)))"
    by (rule when_truthy_obj, drule skips_okD [OF skips]) (auto intro!: returns_rbind returns_map_res skip_returns)
  have e: "returns (when_truthy (JObj kvs) ''external'' (\<lambda>ext. rbind (external_line (JObj kvs) ext) (\<lambda>l. Inr [l])))"
    by (rule when_truthy_obj) (auto intro!: returns_rbind external_line_returns [OF ext _ refs])
  show "returns (cell_lines cell)"
    unfolding cell cell_lines_def jget_or_obj rbind.simps
    by (intro returns_rbind d item_text_obj names when_truthy_obj r s e printable_parts(2) [OF pr] returns_Inr)
qed

end
