(* ===== verification/Acceptance_Properties.thy ===== *)
theory Acceptance_Properties
  imports Acceptance_Facts
begin

text \<open>
  The properties of the acceptance enumeration: the schema check accepts exactly the well-formed
  cells, accepted cells can be rendered, splicing touches only the text between the markers and can
  be repeated, and the drift check passes right after the files were regenerated.
\<close>

lemma regenerate_reads_back:
  assumes ren: "render_design_span cells = Inr gen" "\<not> contains (gen @ '' '') MARK_END"
    and reg: "regenerate cells files = Inr (design, checklist)" and cr: "CR \<notin> set design"
  shows "regenerate cells \<lparr>design_md = Some design, checklist_md = c\<rparr> = Inr (design, checklist)"
proof -
  from reg ren obtain ch where ch: "render_checklist cells = Inr ch" "checklist = whole_generated_file ch"
    and sp: "splice (read_file (design_md files)) (gen @ '' '') = Inr design"
    by (auto simp: regenerate_def res_simps Let_def split: if_splits)
  obtain pre old post where fr: "read_file (design_md files) = pre @ MARK_BEGIN @ old @ MARK_END @ post"
    "\<not> contains pre MARK_BEGIN" "\<not> contains pre MARK_END" "\<not> contains old MARK_END"
    by (rule splice_frame [OF sp])
  then have d: "design = pre @ MARK_BEGIN @ (gen @ '' '') @ MARK_END @ post"
    using sp splice_framed [OF fr(2-4)] by (metis Inr_inject)
  have "splice design (gen @ '' '') = Inr design"
    unfolding d by (rule splice_framed [OF fr(2,3) ren(2)])
  moreover have "contains design MARK_BEGIN" unfolding d contains_split by blast
  ultimately show ?thesis
    using ren(1) ch cr by (simp add: regenerate_def read_file_def newlines_free)
qed

text \<open>
  C22. The schema check of the acceptance enumeration accepts exactly the well-formed cells: it returns
  no error if and only if every cell is an object whose expected skips are distinct and complete,
  whose qualifier groups are non-empty lists of non-empty texts, whose external block names a manifest
  key and stands without a runner, and whose references are null or a list in which every
  reference has all mandatory fields, a known direction, a numeric value, a numeric or null gate, a metric
  that carries a token of every qualifier group, and no metric is recorded twice.
\<close>

theorem validate_cells_spec: "validate_cells cells = Inr [] \<longleftrightarrow> list_all cell_ok cells"
  by (rule validate_cells_iff)

text \<open>
  C24. Cells the schema check accepts, and that have a name, a gates text, a list of design texts and a
  runner object, are rendered without an exception, both into the design span and into the checklist.
\<close>

theorem accepted_cells_render:
  assumes "validate_cells cells = Inr []" "list_all printable cells"
  shows "(\<exists>s. render_design_span cells = Inr s) \<and> (\<exists>s. render_checklist cells = Inr s)"
proof -
  have ok: "cell_ok c" "printable c" if "c \<in> set cells" for c
    using assms that by (auto simp: validate_cells_iff list_all_iff)
  have "returns (map_res cell_phrase cells)" "returns (map_res cell_lines cells)"
    by (auto intro!: returns_map_res cell_phrase_returns cell_lines_returns ok)
  then show ?thesis by (auto simp: returns_def render_design_span_def render_checklist_def)
qed

text \<open>
  A splice replaces exactly the text between the first pair of markers and keeps everything before
  and after it; and when the spliced text holds no end marker, splicing again into the result does
  what splicing into the original would have done, so regenerating is not sensitive to what
  was generated before.
\<close>

theorem splice_repeatable:
  assumes "splice doc gen = Inr out" "\<not> contains gen MARK_END"
  shows "(\<exists>pre old post. doc = pre @ MARK_BEGIN @ old @ MARK_END @ post \<and>
            out = pre @ MARK_BEGIN @ gen @ MARK_END @ post \<and> \<not> contains old MARK_END)
       \<and> splice out gen' = splice doc gen'"
proof -
  obtain pre old post where fr: "doc = pre @ MARK_BEGIN @ old @ MARK_END @ post"
    "\<not> contains pre MARK_BEGIN" "\<not> contains pre MARK_END" "\<not> contains old MARK_END"
    by (rule splice_frame [OF assms(1)])
  have out: "out = pre @ MARK_BEGIN @ gen @ MARK_END @ post"
    using assms(1) splice_framed [OF fr(2-4), of post gen] by (simp add: fr(1))
  have "splice out gen' = splice doc gen'"
    unfolding out fr(1) splice_framed [OF fr(2-4)] by (rule splice_framed [OF fr(2,3) assms(2)])
  with fr(1,4) out show ?thesis by blast
qed

text \<open>
  C23. The drift check passes right after a regeneration: when the command without \<open>--check\<close> returned 0,
  running it with \<open>--check\<close> on the files it wrote returns 0 and writes nothing, provided the rendered
  span holds no end marker and the written files no carriage return.
\<close>

theorem regenerate_then_check:
  assumes "manifest_main False (JArr cells) files = (files', Inr 0)"
    and "render_design_span cells = Inr gen" "\<not> contains (gen @ '' '') MARK_END"
    and "files' = \<lparr>design_md = Some design, checklist_md = Some checklist\<rparr>"
    and "CR \<notin> set design" "CR \<notin> set checklist"
  shows "manifest_main True (JArr cells) files' = (files', Inr 0)"
proof -
  from assms(1,4) have v: "validate_cells cells = Inr []" and reg: "regenerate cells files = Inr (design, checklist)"
    by (auto simp: manifest_main_def load_cells_def res_simps split: sum.splits if_splits)
  have "regenerate cells files' = Inr (design, checklist)"
    unfolding assms(4) by (rule regenerate_reads_back [OF assms(2,3) reg assms(5)])
  then show ?thesis
    using v assms(5,6) by (simp add: manifest_main_def load_cells_def assms(4) read_file_def newlines_free)
qed

subsection \<open>Witnesses\<close>

definition sample_cells :: "json list" where
  "sample_cells =
    [JObj [(''name'', JStr ''decode''), (''gates'', JStr ''speed''), (''references'', JNull),
           (''expected_skips'', JArr [JObj [(''check'', JStr ''c''), (''reason'', JStr ''r'')]])]]"

lemma sample_accepted: "validate_cells sample_cells = Inr []" "list_all printable sample_cells"
  unfolding validate_cells_iff
  by (simp_all add: sample_cells_def cell_ok_def printable_def key_or_null_def skips_ok_def skip_ok_def
      qualifiers_ok_def external_ok_def)

theorem accepted_cells_render_witness:
  "(\<exists>s. render_design_span sample_cells = Inr s) \<and> (\<exists>s. render_checklist sample_cells = Inr s)"
  by (rule accepted_cells_render [OF sample_accepted])

theorem splice_repeatable_witness:
  "splice (MARK_BEGIN @ ''new'' @ MARK_END) ''x'' = splice (MARK_BEGIN @ ''old'' @ MARK_END) ''x''"
proof -
  have "splice ([] @ MARK_BEGIN @ ''old'' @ MARK_END @ []) ''new'' = Inr ([] @ MARK_BEGIN @ ''new'' @ MARK_END @ [])"
    by (rule splice_framed) (simp_all add: MARK_BEGIN_def MARK_END_def)
  from conjunct2 [OF splice_repeatable [OF this, of "''x''"]] show ?thesis by (simp add: MARK_END_def)
qed

definition sample_files :: manifest_files where
  "sample_files = \<lparr>design_md = Some (MARK_BEGIN @ ''old'' @ MARK_END), checklist_md = None\<rparr>"

lemma sample_span:
  "render_design_span sample_cells = Inr ''`decode` gates speed (references: not yet filled) (expected skip: c (r))''"
  by (simp add: render_design_span_def sample_cells_def cell_phrase_def item_text_def when_truthy_def jget_or_def fmt_def
      skip_phrase_def)

lemma sample_checklist: "\<exists>c. render_checklist sample_cells = Inr c \<and> CR \<notin> set c"
proof -
  have "render_checklist sample_cells = Inr (rstrip (join [LF] (checklist_head @
     [''- [ ] `decode` -- ? ()'', ''      gates: speed'', ''      references: not yet filled'',
      ''      expected skip: c (declared: r; pre-named -- --allow-skip naming it is an error)'', []])) @ [LF])" (is "_ = Inr (rstrip ?c @ _)")
    by (simp add: render_checklist_def sample_cells_def cell_lines_def item_text_def when_truthy_def jget_or_def
        fmt_def text_items_def runner_text_def skip_line_def)
  moreover have "CR \<notin> set ?c" by (simp add: checklist_head_def SECTION_SIGN_def)
  then have "CR \<notin> set (rstrip ?c)" by (auto simp: rstrip_def dest: set_dropWhileD)
  ultimately show ?thesis by auto
qed

lemma sample_regenerated:
  "\<exists>d c. manifest_main False (JArr sample_cells) sample_files = (\<lparr>design_md = Some d, checklist_md = Some c\<rparr>, Inr 0)
     \<and> CR \<notin> set d \<and> CR \<notin> set c"
proof -
  obtain c where c: "render_checklist sample_cells = Inr c" "CR \<notin> set c" using sample_checklist by blast
  define doc where "doc = MARK_BEGIN @ ''old'' @ MARK_END"
  have nl: "newlines doc = doc"
    by (rule newlines_free) (simp add: doc_def MARK_BEGIN_def MARK_END_def)
  have sp: "splice doc gen = Inr (MARK_BEGIN @ gen @ MARK_END)" for gen
    using splice_framed [of "[]" "''old''" "[]" gen] by (simp add: doc_def MARK_BEGIN_def MARK_END_def)
  have files: "read_file (design_md sample_files) = doc"
    using nl by (simp add: sample_files_def read_file_def doc_def)
  have "contains doc MARK_BEGIN" unfolding contains_split doc_def by (metis append_Nil)
  then have "regenerate sample_cells sample_files =
      Inr (MARK_BEGIN @ ''`decode` gates speed (references: not yet filled) (expected skip: c (r)) '' @ MARK_END, whole_generated_file c)"
    by (simp add: regenerate_def c(1) sample_span files nl sp)
  then show ?thesis
    using c(2) sample_accepted(1)
    by (auto simp: manifest_main_def load_cells_def whole_generated_file_def MARK_BEGIN_def MARK_END_def)
qed

theorem regenerate_then_check_witness:
  "\<exists>files'. manifest_main False (JArr sample_cells) sample_files = (files', Inr 0)
     \<and> manifest_main True (JArr sample_cells) files' = (files', Inr 0)"
proof -
  obtain d c where dc: "manifest_main False (JArr sample_cells) sample_files =
      (\<lparr>design_md = Some d, checklist_md = Some c\<rparr>, Inr 0)" "CR \<notin> set d" "CR \<notin> set c"
    using sample_regenerated by blast
  have "\<not> contains (''`decode` gates speed (references: not yet filled) (expected skip: c (r))'' @ '' '') MARK_END"
    by (simp add: MARK_END_def)
  from regenerate_then_check [OF dc(1) sample_span this refl dc(2,3)] dc(1) show ?thesis by blast
qed

end
