(* ===== verification/Kld_Capture.thy ===== *)
theory Kld_Capture
  imports Py_Text "HOL-Library.Word"
begin

text \<open>
  The reference-logit capture, \<open>tools/kld_capture.py\<close>: which rows of a window a capture records, on which
  side of the boundary they lie, the search for the balanced window, the refusals, and the command
  with its manifest.

  The disk is a map from paths to bytes. Arguments stand for what the tool calls: the hash object
  (\<open>h_init\<close>, \<open>h_update\<close>, \<open>h_digest\<close>), \<open>git rev-parse\<close>, \<open>os.path.abspath\<close>, \<open>time.strftime\<close>, \<open>round\<close>, the reference
  program, and the JSON encoder. Printed progress is left out; the warning about a short corpus is kept as a
  flag.
\<close>

definition QSA_BOUNDARY_TOKENS :: int where "QSA_BOUNDARY_TOKENS = 2051"

definition MIN_CHUNKS :: int where "MIN_CHUNKS = 1"

definition LIKELY_BYTES_PER_TOKEN :: rat where "LIKELY_BYTES_PER_TOKEN = 4"

subsection \<open>Rows\<close>

definition rows_past_boundary :: "int \<Rightarrow> int \<Rightarrow> int" where
  "rows_past_boundary n_ctx boundary = max 0 (n_ctx - boundary)"

definition recorded_rows :: "int \<Rightarrow> int \<times> int \<times> int" where
  "recorded_rows n_ctx =
     (let first = n_ctx div 2; lst = n_ctx - 2
      in (first, lst, max 0 (lst - first + 1)))"

definition rows_by_side :: "int \<Rightarrow> int \<Rightarrow> int \<times> int" where
  "rows_by_side n_ctx boundary =
     (let (first, lst, cnt) = recorded_rows n_ctx in
      if cnt \<le> 0 then (0, 0)
      else (max 0 (min (lst + 1) boundary - first), max 0 (lst - max first boundary + 1)))"

text \<open>The body of the search loop; \<open>best_n\<close> is None before the first round.\<close>

definition balance_step :: "int \<Rightarrow> int \<Rightarrow> int \<times> int option \<Rightarrow> int \<times> int option" where
  "balance_step boundary n acc =
     (let (low, high) = rows_by_side n boundary; worst = min low high
      in if worst > fst acc then (worst, Some n) else acc)"

definition balanced_n_ctx :: "int \<Rightarrow> int option \<times> int" where
  "balanced_n_ctx boundary =
     (let (best, best_n) = fold (balance_step boundary) [boundary + 2..2 * boundary + 3] (-1, None)
      in (best_n, best))"

subsection \<open>Refusals\<close>

definition check_capture_serves_both_sides :: "int \<Rightarrow> int \<Rightarrow> int \<Rightarrow> (int \<times> int) res" where
  "check_capture_serves_both_sides n_ctx min_rows_each_side boundary =
     (let (below, at_or_above) = rows_by_side n_ctx boundary in
      if below \<ge> min_rows_each_side \<and> at_or_above \<ge> min_rows_each_side then Inr (below, at_or_above)
      else Inl CaptureRefusal)"

type_synonym bytes_on_disk = "string \<rightharpoonup> 8 word list"

text \<open>The size that was found, and whether the corpus is likely too short.\<close>

definition check_corpus_long_enough :: "bytes_on_disk \<Rightarrow> string \<Rightarrow> int \<Rightarrow> (int option \<times> bool) res" where
  "check_corpus_long_enough fs corpus n_ctx =
     (case fs corpus of
        None \<Rightarrow> Inr (None, False)
      | Some bs \<Rightarrow>
          let sz = int (length bs); needed = 2 * n_ctx in
          if sz < needed then Inl CaptureRefusal
          else Inr (Some sz, of_int sz < of_int needed * LIKELY_BYTES_PER_TOKEN))"

subsection \<open>The manifest\<close>

text \<open>The read loop stops at the first empty block.\<close>

function hash_blocks :: "('h \<Rightarrow> 8 word list \<Rightarrow> 'h) \<Rightarrow> nat \<Rightarrow> 8 word list \<Rightarrow> 'h \<Rightarrow> 'h" where
  "hash_blocks upd k bs h =
     (if take k bs = [] then h else hash_blocks upd k (drop k bs) (upd h (take k bs)))"
  by pat_completeness auto
termination by (relation "measure (\<lambda>(upd, k, bs, h). length bs)") (auto simp: neq_Nil_conv)

declare hash_blocks.simps [simp del]

record 'h hasher =
  h_init :: 'h
  h_update :: "'h \<Rightarrow> 8 word list \<Rightarrow> 'h"
  h_digest :: "'h \<Rightarrow> string"

definition sha256_file :: "'h hasher \<Rightarrow> nat \<Rightarrow> bytes_on_disk \<Rightarrow> string \<Rightarrow> string res" where
  "sha256_file hs chunk fs path =
     (case fs path of
        None \<Rightarrow> Inl OSErr
      | Some bs \<Rightarrow> Inr (h_digest hs (hash_blocks (h_update hs) chunk bs (h_init hs))))"

text \<open>What running \<open>git\<close> gives: None when it could not be run or timed out.\<close>

definition git_head :: "(string \<Rightarrow> (int \<times> string) option) \<Rightarrow> string \<Rightarrow> string option" where
  "git_head git path =
     (case git path of
        None \<Rightarrow> None
      | Some (rc, out) \<Rightarrow> if rc = 0 then (if strip out = [] then None else Some (strip out)) else None)"

record capture_args =
  reference_bin :: string
  reference_checkout :: "string option"
  model_path :: string
  corpus_path :: string
  out_path :: string
  n_ctx_arg :: int
  chunks_arg :: int
  batch_arg :: int
  threads_arg :: int
  min_rows_each_side_arg :: int
  hash_model :: bool
  dry_run :: bool

definition build_command :: "capture_args \<Rightarrow> string list" where
  "build_command args =
     [reference_bin args, ''-m'', model_path args, ''-f'', corpus_path args, ''-c'', py_str (n_ctx_arg args),
      ''-b'', py_str (batch_arg args), ''--chunks'', py_str (chunks_arg args), ''-t'', py_str (threads_arg args),
      ''--kl-divergence-base'', out_path args]"

record capture_manifest =
  captured_utc :: string
  elapsed_seconds :: rat
  m_returncode :: int
  qsa_boundary_tokens :: int
  m_n_ctx :: int
  m_chunks :: int
  m_batch :: int
  m_threads :: int
  recorded_rows_per_window :: int
  recorded_rows_below_boundary :: int
  recorded_rows_at_or_above_boundary :: int
  m_binary :: string
  m_binary_sha256 :: string
  checkout_head :: "string option"
  m_model :: string
  m_model_sha256 :: "string option"
  m_corpus :: string
  m_corpus_sha256 :: string
  m_corpus_bytes :: int
  m_capture :: string
  m_capture_bytes :: int
  m_capture_sha256 :: "string option"
  stderr_tail :: string

record 'h capture_env =
  env_hasher :: "'h hasher"
  env_git :: "string \<Rightarrow> (int \<times> string) option"
  env_abspath :: "string \<Rightarrow> string"
  env_utc :: "rat \<Rightarrow> string"
  env_round1 :: "rat \<Rightarrow> rat"

definition manifest :: "'h capture_env \<Rightarrow> bytes_on_disk \<Rightarrow> capture_args \<Rightarrow> int \<times> int \<Rightarrow> rat \<Rightarrow> rat \<Rightarrow> int \<Rightarrow> string \<Rightarrow> capture_manifest res" where
  "manifest env fs args sides started elapsed returncode tail =
     (let sha = sha256_file (env_hasher env) (2 ^ 20) fs; path = env_abspath env in
      rbind (sha (reference_bin args)) (\<lambda>bin_sha.
      rbind (if hash_model args then rbind (sha (model_path args)) (\<lambda>s. Inr (Some s)) else Inr None) (\<lambda>model_sha.
      rbind (sha (corpus_path args)) (\<lambda>corpus_sha.
      rbind (of_option OSErr (fs (corpus_path args))) (\<lambda>corpus.
      rbind (if fs (out_path args) = None then Inr None
             else rbind (sha (out_path args)) (\<lambda>s. Inr (Some s))) (\<lambda>capture_sha.
      Inr \<lparr>captured_utc = env_utc env started, elapsed_seconds = env_round1 env elapsed, m_returncode = returncode,
           qsa_boundary_tokens = QSA_BOUNDARY_TOKENS, m_n_ctx = n_ctx_arg args, m_chunks = chunks_arg args,
           m_batch = batch_arg args, m_threads = threads_arg args,
           recorded_rows_per_window = snd (snd (recorded_rows (n_ctx_arg args))),
           recorded_rows_below_boundary = fst sides, recorded_rows_at_or_above_boundary = snd sides,
           m_binary = path (reference_bin args), m_binary_sha256 = bin_sha,
           checkout_head = (case reference_checkout args of None \<Rightarrow> None
                            | Some c \<Rightarrow> if c = [] then None else git_head (env_git env) c),
           m_model = path (model_path args), m_model_sha256 = model_sha,
           m_corpus = path (corpus_path args), m_corpus_sha256 = corpus_sha, m_corpus_bytes = int (length corpus),
           m_capture = path (out_path args),
           m_capture_bytes = (case fs (out_path args) of None \<Rightarrow> 0 | Some bs \<Rightarrow> int (length bs)),
           m_capture_sha256 = capture_sha, stderr_tail = tail\<rparr>))))))"

subsection \<open>The command\<close>

text \<open>
  What the reference program leaves: its return code, its two outputs, the time it took, and the disk. None
  when it could not be started.
\<close>

record proc_result =
  returncode :: int
  proc_stdout :: string
  proc_stderr :: string
  proc_elapsed :: rat

type_synonym runner = "string list \<Rightarrow> bytes_on_disk \<Rightarrow> bytes_on_disk \<times> proc_result option"

definition output_tail :: "proc_result \<Rightarrow> string" where
  "output_tail p =
     (let ls = splitlines (if proc_stderr p \<noteq> [] then proc_stderr p else proc_stdout p)
      in join [LF] (drop (length ls - 12) ls))"

text \<open>The arguments when only the required ones are given: the defaults of the argument parser.\<close>

definition default_args :: "string \<Rightarrow> string \<Rightarrow> string \<Rightarrow> string \<Rightarrow> capture_args" where
  "default_args bin model corpus out =
     \<lparr>reference_bin = bin, reference_checkout = None, model_path = model, corpus_path = corpus, out_path = out,
      n_ctx_arg = 4096, chunks_arg = MIN_CHUNKS, batch_arg = 512, threads_arg = 8, min_rows_each_side_arg = 256,
      hash_model = False, dry_run = False\<rparr>"

definition capture_checks :: "bytes_on_disk \<Rightarrow> capture_args \<Rightarrow> (int \<times> int) res" where
  "capture_checks fs args =
     rbind (check_capture_serves_both_sides (n_ctx_arg args) (min_rows_each_side_arg args) QSA_BOUNDARY_TOKENS) (\<lambda>sides.
     if chunks_arg args < MIN_CHUNKS then Inl CaptureRefusal
     else rbind (check_corpus_long_enough fs (corpus_path args) (n_ctx_arg args)) (\<lambda>_. Inr sides))"

definition capture_main ::
    "'h capture_env \<Rightarrow> runner \<Rightarrow> (capture_manifest \<Rightarrow> 8 word list) \<Rightarrow> rat \<Rightarrow> capture_args \<Rightarrow> bytes_on_disk \<Rightarrow>
      bytes_on_disk \<times> int res" where
  "capture_main env run dump started args fs =
     (case capture_checks fs args of
        Inl e \<Rightarrow> (fs, Inl e)
      | Inr sides \<Rightarrow>
          if dry_run args then (fs, Inr 0)
          else
            (case run (build_command args) fs of
               (fs1, None) \<Rightarrow> (fs1, Inl OSErr)
             | (fs1, Some p) \<Rightarrow>
                 (case manifest env fs1 args sides started (proc_elapsed p) (returncode p) (output_tail p) of
                    Inl e \<Rightarrow> (fs1, Inl e)
                  | Inr man \<Rightarrow>
                      (fs1(out_path args @ ''.manifest.json'' \<mapsto> dump man @ [10]), Inr (returncode p)))))"

end
