(* ===== verification/Kld_Facts.thy ===== *)
theory Kld_Facts
  imports Kld_Capture
begin

text \<open>
  The row arithmetic of a capture as counts of row indices, the search for the balanced window as a
  maximum over all windows, and hashing a file block by block as hashing it whole.
\<close>

subsection \<open>Rows as counts\<close>

text \<open>The 0-based indices of the rows a capture of one window contains.\<close>

definition recorded_set :: "int \<Rightarrow> int set" where
  "recorded_set n = {n div 2..n - 2}"

lemma recorded_count: "snd (snd (recorded_rows n)) = int (card (recorded_set n))"
  by (simp add: recorded_rows_def recorded_set_def Let_def)

lemma rows_by_side_alt:
  "rows_by_side n b = (if n - 1 \<le> n div 2 then (0, 0)
     else (max 0 (min (n - 1) b - n div 2), max 0 (n - 1 - max (n div 2) b)))"
  by (auto simp: rows_by_side_def recorded_rows_def Let_def)

lemma rows_below: "fst (rows_by_side n b) = int (card {p \<in> recorded_set n. p < b})"
proof -
  define f where "f = n div 2"
  have "{p \<in> recorded_set n. p < b} = {f..min (n - 2) (b - 1)}" by (auto simp: recorded_set_def f_def)
  then have "int (card {p \<in> recorded_set n. p < b}) = max 0 (min (n - 2) (b - 1) + 1 - f)" by simp
  also have "\<dots> = fst (rows_by_side n b)"
    unfolding rows_by_side_alt f_def [symmetric] by (simp add: min_def max_def)
  finally show ?thesis by simp
qed

lemma rows_at_or_above: "snd (rows_by_side n b) = int (card {p \<in> recorded_set n. b \<le> p})"
proof -
  define f where "f = n div 2"
  have "{p \<in> recorded_set n. b \<le> p} = {max f b..n - 2}" by (auto simp: recorded_set_def f_def)
  then have "int (card {p \<in> recorded_set n. b \<le> p}) = max 0 (n - 2 + 1 - max f b)" by auto
  also have "\<dots> = snd (rows_by_side n b)"
    unfolding rows_by_side_alt f_def [symmetric] by (simp add: max_def)
  finally show ?thesis by simp
qed

lemma finite_recorded [simp]: "finite (recorded_set n)"
  by (simp add: recorded_set_def)

lemma sides_add_up: "fst (rows_by_side n b) + snd (rows_by_side n b) = snd (snd (recorded_rows n))"
proof -
  have "card (recorded_set n) = card ({p \<in> recorded_set n. p < b} \<union> {p \<in> recorded_set n. b \<le> p})"
    by (rule arg_cong [of _ _ card]) auto
  also have "\<dots> = card {p \<in> recorded_set n. p < b} + card {p \<in> recorded_set n. b \<le> p}"
    by (rule card_Un_disjoint) auto
  finally show ?thesis by (simp add: recorded_count rows_below rows_at_or_above)
qed

subsection \<open>The balanced window\<close>

definition scarcer_side :: "int \<Rightarrow> int \<Rightarrow> int" where
  "scarcer_side b n = min (fst (rows_by_side n b)) (snd (rows_by_side n b))"

lemma scarcer_nonneg: "0 \<le> scarcer_side b n"
  by (simp add: scarcer_side_def rows_below rows_at_or_above)

lemma balance_step_alt:
  "balance_step b n acc = (if scarcer_side b n > fst acc then (scarcer_side b n, Some n) else acc)"
  by (cases "rows_by_side n b") (simp add: balance_step_def scarcer_side_def Let_def)

lemma balance_fold:
  assumes "fold (balance_step b) ns (m, r) = (best, best_n)"
  shows "m \<le> best \<and> (\<forall>n \<in> set ns. scarcer_side b n \<le> best) \<and>
    ((best, best_n) = (m, r) \<or> (\<exists>n \<in> set ns. best_n = Some n \<and> best = scarcer_side b n))"
  using assms
proof (induction ns arbitrary: m r)
  case (Cons n ns)
  define m' where "m' = max m (scarcer_side b n)"
  define r' where "r' = (if scarcer_side b n > m then Some n else r)"
  have step: "balance_step b n (m, r) = (m', r')" by (auto simp: balance_step_alt m'_def r'_def)
  with Cons.prems have "fold (balance_step b) ns (m', r') = (best, best_n)" by simp
  from Cons.IH [OF this] show ?case by (auto simp: m'_def r'_def max_def split: if_splits)
qed simp

text \<open>Outside the searched range one side of the boundary gets no row at all.\<close>

lemma scarcer_outside:
  assumes "0 \<le> b" "n \<notin> {b + 2..2 * b + 3}"
  shows "scarcer_side b n = 0"
proof (cases "n < b + 2")
  case True
  then have "{p \<in> recorded_set n. b \<le> p} = {}" by (auto simp: recorded_set_def)
  then show ?thesis by (simp only: scarcer_side_def rows_at_or_above rows_below card.empty)
next
  case False
  with assms(2) have "b \<le> n div 2" by auto
  then have "{p \<in> recorded_set n. p < b} = {}" by (auto simp: recorded_set_def)
  then show ?thesis by (simp only: scarcer_side_def rows_at_or_above rows_below card.empty)
qed

lemma balanced_is_maximum:
  assumes "0 \<le> b"
  obtains n m where "balanced_n_ctx b = (Some n, m)" "scarcer_side b n = m" "\<And>n'. scarcer_side b n' \<le> m"
proof -
  obtain best best_n where f: "fold (balance_step b) [b + 2..2 * b + 3] (-1, None) = (best, best_n)"
    by (cases "fold (balance_step b) [b + 2..2 * b + 3] (-1, None)")
  note inv = balance_fold [OF f]
  have "b + 2 \<in> set [b + 2..2 * b + 3]" using assms by simp
  with inv scarcer_nonneg [of b "b + 2"] have best: "0 \<le> best" by fastforce
  with inv obtain n where n: "best_n = Some n" "best = scarcer_side b n" by auto
  have "scarcer_side b n' \<le> best" for n'
    using inv scarcer_outside [OF assms, of n'] best by (cases "n' \<in> {b + 2..2 * b + 3}") auto
  with n f that show thesis by (auto simp: balanced_n_ctx_def)
qed

lemma check_sides_iff:
  "is_ok (check_capture_serves_both_sides n r b) \<longleftrightarrow> r \<le> scarcer_side b n"
  by (cases "rows_by_side n b") (auto simp: check_capture_serves_both_sides_def scarcer_side_def is_ok_def)

lemma check_sides_Inr:
  "check_capture_serves_both_sides n r b = Inr s \<longleftrightarrow> s = rows_by_side n b \<and> r \<le> fst s \<and> r \<le> snd s"
  by (cases "rows_by_side n b") (auto simp: check_capture_serves_both_sides_def)

subsection \<open>Hashing block by block\<close>

text \<open>The documented law of a hash object: updating twice is updating with the concatenation.\<close>

definition streaming :: "'h hasher \<Rightarrow> bool" where
  "streaming hs \<longleftrightarrow> (\<forall>h. h_update hs h [] = h) \<and> (\<forall>h a b. h_update hs h (a @ b) = h_update hs (h_update hs h a) b)"

lemma hash_blocks_whole:
  "streaming hs \<Longrightarrow> 0 < k \<Longrightarrow> hash_blocks (h_update hs) k bs h = h_update hs h bs"
proof (induction "h_update hs" k bs h rule: hash_blocks.induct)
  case (1 k bs h)
  show ?case
  proof (cases "bs = []")
    case True
    with 1 show ?thesis by (simp add: hash_blocks.simps streaming_def)
  next
    case False
    with 1 have "hash_blocks (h_update hs) k bs h = h_update hs (h_update hs h (take k bs)) (drop k bs)"
      by (simp add: hash_blocks.simps [of _ k bs])
    also have "\<dots> = h_update hs h (take k bs @ drop k bs)"
      using 1(2) unfolding streaming_def by (simp only:)
    finally show ?thesis by simp
  qed
qed

definition digest_of :: "'h hasher \<Rightarrow> 8 word list \<Rightarrow> string" where
  "digest_of hs bs = h_digest hs (h_update hs (h_init hs) bs)"

lemma sha256_file_whole:
  "streaming hs \<Longrightarrow> 0 < k \<Longrightarrow> sha256_file hs k fs path = of_option OSErr (map_option (digest_of hs) (fs path))"
  by (auto simp: sha256_file_def hash_blocks_whole digest_of_def of_option_def split: option.splits)

lemma manifest_describes:
  assumes "streaming (env_hasher env)" "manifest env fs args sides t e rc tail = Inr man"
  shows "m_capture_sha256 man = map_option (digest_of (env_hasher env)) (fs (out_path args))
    \<and> m_capture_bytes man = (case fs (out_path args) of None \<Rightarrow> 0 | Some bs \<Rightarrow> int (length bs))
    \<and> fs (corpus_path args) \<noteq> None
    \<and> map_option (digest_of (env_hasher env)) (fs (corpus_path args)) = Some (m_corpus_sha256 man)
    \<and> map_option (digest_of (env_hasher env)) (fs (reference_bin args)) = Some (m_binary_sha256 man)
    \<and> (recorded_rows_below_boundary man, recorded_rows_at_or_above_boundary man) = sides
    \<and> recorded_rows_per_window man = snd (snd (recorded_rows (n_ctx_arg args))) \<and> m_returncode man = rc"
  using assms
  by (auto simp: manifest_def sha256_file_whole res_simps Let_def split: if_splits option.splits)

end
