(* ===== verification/Kld_Properties.thy ===== *)
theory Kld_Properties
  imports Kld_Facts
begin

text \<open>
  The properties of the reference-logit capture: the row counts are counts of recorded row indices, the
  balanced window is best among all windows, which arguments are refused, and a capture that was
  taken is described by its manifest.
\<close>

text \<open>
  The two numbers \<open>rows_by_side\<close> computes are the numbers of recorded row indices below and at or above
  the boundary, for every window and boundary, so they add up to the number of recorded rows.
\<close>

theorem rows_by_side_counts:
  "rows_by_side n b = (int (card {p \<in> {n div 2..n - 2}. p < b}), int (card {p \<in> {n div 2..n - 2}. b \<le> p}))
   \<and> fst (rows_by_side n b) + snd (rows_by_side n b) = snd (snd (recorded_rows n))"
proof -
  have "rows_by_side n b = (int (card {p \<in> recorded_set n. p < b}), int (card {p \<in> recorded_set n. b \<le> p}))"
    by (rule prod_eqI) (simp_all add: rows_below rows_at_or_above)
  with sides_add_up [of n b] show ?thesis by (simp add: recorded_set_def)
qed

text \<open>
  C26. The window the refusal recommends is the best one of all windows, not only of the range that is
  searched: for a non-negative boundary the search returns a window, that window passes the check
  exactly for the minimum row counts some window passes it for, and that is up to the count returned
  with it.
\<close>

theorem balanced_window_best:
  assumes "0 \<le> b"
  shows "\<exists>n m. balanced_n_ctx b = (Some n, m)
    \<and> (is_ok (check_capture_serves_both_sides n r b) \<longleftrightarrow> r \<le> m)
    \<and> ((\<exists>n'. is_ok (check_capture_serves_both_sides n' r b)) \<longleftrightarrow> r \<le> m)"
proof -
  obtain n m where "balanced_n_ctx b = (Some n, m)" "scarcer_side b n = m" "\<And>n'. scarcer_side b n' \<le> m"
    using balanced_is_maximum [OF assms] by metis
  then show ?thesis by (auto simp: check_sides_iff intro: order_trans)
qed

theorem balanced_window_best_witness:
  "\<exists>n m. balanced_n_ctx 2051 = (Some n, m) \<and> (is_ok (check_capture_serves_both_sides n 3 2051) \<longleftrightarrow> 3 \<le> m)"
  using balanced_window_best [of 2051 3] by auto

text \<open>
  C27. The command refuses, without running the reference and with the disk as it was, exactly when too few of
  the rows a capture records (the second half of the window) lie below the boundary or too few lie at or above
  it, when no chunk is asked for, or when the corpus has fewer bytes than two windows have tokens; otherwise a dry
  run returns 0, and any other run starts the reference, so that one that cannot be started is an OS error. In particular the defaults of the argument parser, whatever the paths are, are refused.
\<close>

theorem capture_refuses:
  "(let rows = recorded_set (n_ctx_arg args);
        refused = (int (card {p \<in> rows. p < QSA_BOUNDARY_TOKENS}) < min_rows_each_side_arg args \<or>
          int (card {p \<in> rows. QSA_BOUNDARY_TOKENS \<le> p}) < min_rows_each_side_arg args \<or> chunks_arg args < 1 \<or>
          (\<exists>bs. fs (corpus_path args) = Some bs \<and> int (length bs) < 2 * n_ctx_arg args))
    in (refused \<longrightarrow> capture_main env run dump started args fs = (fs, Inl CaptureRefusal)) \<and>
       (\<not> refused \<and> dry_run args \<longrightarrow> capture_main env run dump started args fs = (fs, Inr 0)) \<and>
       (\<not> refused \<and> \<not> dry_run args \<and> run (build_command args) fs = (fs1, None) \<longrightarrow>
          capture_main env run dump started args fs = (fs1, Inl OSErr))) \<and>
   capture_main env run dump started (default_args bin model corpus out) fs = (fs, Inl CaptureRefusal)"
proof -
  have "capture_checks fs args = (if int (card {p \<in> recorded_set (n_ctx_arg args). p < QSA_BOUNDARY_TOKENS}) < min_rows_each_side_arg args \<or>
      int (card {p \<in> recorded_set (n_ctx_arg args). QSA_BOUNDARY_TOKENS \<le> p}) < min_rows_each_side_arg args \<or> chunks_arg args < 1 \<or>
      (\<exists>bs. fs (corpus_path args) = Some bs \<and> int (length bs) < 2 * n_ctx_arg args) then Inl CaptureRefusal
    else Inr (rows_by_side (n_ctx_arg args) QSA_BOUNDARY_TOKENS))" for args
    unfolding rows_below [symmetric] rows_at_or_above [symmetric]
    by (cases "rows_by_side (n_ctx_arg args) QSA_BOUNDARY_TOKENS")
       (auto simp: capture_checks_def check_capture_serves_both_sides_def check_corpus_long_enough_def MIN_CHUNKS_def Let_def split: option.splits)
  note checks = this
  have "capture_checks fs (default_args bin model corpus out) = Inl CaptureRefusal"
    by (simp add: capture_checks_def check_capture_serves_both_sides_def rows_by_side_def recorded_rows_def default_args_def QSA_BOUNDARY_TOKENS_def)
  with checks [of args] show ?thesis by (simp add: capture_main_def Let_def)
qed

text \<open>
  C25. When the command returns, either it was a dry run and the disk is as it was, or the reference ran
  on a window with the requested number of recorded rows on each side of the boundary, and the only
  file written after it is the manifest, which holds the size and the digest of the capture that is on the
  disk, the digests of the corpus and of the reference, and the row counts. The hash object is only assumed to
  stream.
\<close>

theorem capture_described:
  assumes "streaming (env_hasher env)" and "capture_main env run dump started args fs = (fs', Inr rc)"
  shows "dry_run args \<and> fs' = fs \<and> rc = 0 \<or>
    (\<exists>fs1 p man. run (build_command args) fs = (fs1, Some p) \<and> rc = returncode p
      \<and> fs' = fs1(out_path args @ ''.manifest.json'' \<mapsto> dump man @ [10])
      \<and> m_capture_sha256 man = map_option (digest_of (env_hasher env)) (fs1 (out_path args))
      \<and> m_capture_bytes man = (case fs1 (out_path args) of None \<Rightarrow> 0 | Some bs \<Rightarrow> int (length bs))
      \<and> map_option (digest_of (env_hasher env)) (fs1 (corpus_path args)) = Some (m_corpus_sha256 man)
      \<and> map_option (digest_of (env_hasher env)) (fs1 (reference_bin args)) = Some (m_binary_sha256 man)
      \<and> min_rows_each_side_arg args \<le> recorded_rows_below_boundary man
      \<and> min_rows_each_side_arg args \<le> recorded_rows_at_or_above_boundary man
      \<and> recorded_rows_below_boundary man + recorded_rows_at_or_above_boundary man = recorded_rows_per_window man)"
proof (cases "dry_run args")
  case True
  with assms(2) show ?thesis by (auto simp: capture_main_def split: sum.splits)
next
  case False
  from assms(2) obtain s where s: "capture_checks fs args = Inr s"
    by (auto simp: capture_main_def split: sum.splits)
  then have sides: "s = rows_by_side (n_ctx_arg args) QSA_BOUNDARY_TOKENS"
    "min_rows_each_side_arg args \<le> fst s" "min_rows_each_side_arg args \<le> snd s"
    by (auto simp: capture_checks_def res_simps check_sides_Inr split: if_splits)
  obtain fs1 p man where run: "run (build_command args) fs = (fs1, Some p)" "rc = returncode p"
    and man: "manifest env fs1 args s started (proc_elapsed p) (returncode p) (output_tail p) = Inr man"
    and fs': "fs' = fs1(out_path args @ ''.manifest.json'' \<mapsto> dump man @ [10])"
    using assms(2) s False by (auto simp: capture_main_def split: sum.splits prod.splits option.splits)
  have "fst s + snd s = snd (snd (recorded_rows (n_ctx_arg args)))"
    unfolding sides(1) by (rule sides_add_up)
  with manifest_describes [OF assms(1) man] sides(2,3)
  have *: "min_rows_each_side_arg args \<le> recorded_rows_below_boundary man"
    "min_rows_each_side_arg args \<le> recorded_rows_at_or_above_boundary man"
    "recorded_rows_below_boundary man + recorded_rows_at_or_above_boundary man = recorded_rows_per_window man"
    by (cases s; simp)+
  show ?thesis
    using manifest_describes [OF assms(1) man] run fs' * by blast
qed

subsection \<open>Witnesses\<close>

definition sample_args :: capture_args where
  "sample_args = \<lparr>reference_bin = ''b'', reference_checkout = None, model_path = ''m'', corpus_path = ''c'', out_path = ''o'',
     n_ctx_arg = 4096, chunks_arg = 1, batch_arg = 512, threads_arg = 8, min_rows_each_side_arg = 256,
     hash_model = False, dry_run = False\<rparr>"

text \<open>A hash object that keeps what it was fed; its digest is the number of bytes in decimal.\<close>

definition sample_env :: "8 word list capture_env" where
  "sample_env = \<lparr>env_hasher = \<lparr>h_init = [], h_update = (@), h_digest = (\<lambda>bs. str_nat (length bs))\<rparr>,
     env_git = (\<lambda>_. None), env_abspath = id, env_utc = (\<lambda>_. []), env_round1 = id\<rparr>"

lemma sample_streaming: "streaming (env_hasher sample_env)"
  by (simp add: sample_env_def streaming_def)

theorem capture_refuses_witness:
  "capture_main sample_env (\<lambda>_ fs. (fs, None)) (\<lambda>_. []) 0 (sample_args\<lparr>n_ctx_arg := 2, min_rows_each_side_arg := 1\<rparr>) Map.empty
     = (Map.empty, Inl CaptureRefusal) \<and>
   capture_main sample_env (\<lambda>_ fs. (fs, None)) (\<lambda>_. []) 0 (sample_args\<lparr>n_ctx_arg := 2, min_rows_each_side_arg := 0, dry_run := True\<rparr>) Map.empty
     = (Map.empty, Inr 0)"
  using capture_refuses [of "sample_args\<lparr>n_ctx_arg := 2, min_rows_each_side_arg := 1\<rparr>" Map.empty sample_env "\<lambda>_ fs. (fs, None)" "\<lambda>_. []" 0]
    capture_refuses [of "sample_args\<lparr>n_ctx_arg := 2, min_rows_each_side_arg := 0, dry_run := True\<rparr>" Map.empty sample_env "\<lambda>_ fs. (fs, None)" "\<lambda>_. []" 0]
  by (simp add: sample_args_def recorded_set_def Let_def)

text \<open>A disk with the binary, a corpus of two windows of two tokens, and a reference that writes one byte.\<close>

definition sample_disk :: bytes_on_disk where
  "sample_disk = [''b'' \<mapsto> [1], ''c'' \<mapsto> [1, 2, 3, 4]]"

definition sample_run :: runner where
  "sample_run cmd fs = (fs(''o'' \<mapsto> [7]), Some \<lparr>returncode = 0, proc_stdout = [], proc_stderr = [], proc_elapsed = 1\<rparr>)"

definition tiny_args :: capture_args where
  "tiny_args = sample_args\<lparr>n_ctx_arg := 2, min_rows_each_side_arg := 0\<rparr>"

lemma tiny_dry: "\<not> dry_run tiny_args"
  by (simp add: tiny_args_def sample_args_def)

lemma sample_capture:
  "\<exists>fs'. capture_main sample_env sample_run (\<lambda>_. []) 0 tiny_args sample_disk = (fs', Inr 0)"
proof -
  have st: "streaming (env_hasher sample_env)" by (rule sample_streaming)
  have "capture_checks sample_disk tiny_args = Inr (rows_by_side 2 QSA_BOUNDARY_TOKENS)"
    by (simp add: capture_checks_def check_capture_serves_both_sides_def tiny_args_def sample_args_def rows_by_side_def
        recorded_rows_def QSA_BOUNDARY_TOKENS_def MIN_CHUNKS_def check_corpus_long_enough_def sample_disk_def)
  moreover have "\<exists>man. manifest sample_env (sample_disk(''o'' \<mapsto> [7])) tiny_args s 0 1 0 tail = Inr man" for s tail
    using st by (simp add: manifest_def sha256_file_whole Let_def tiny_args_def sample_args_def sample_disk_def)
  from this obtain man where "manifest sample_env (sample_disk(''o'' \<mapsto> [7])) tiny_args (rows_by_side 2 QSA_BOUNDARY_TOKENS) 0 1 0
      (output_tail \<lparr>returncode = 0, proc_stdout = [], proc_stderr = [], proc_elapsed = 1\<rparr>) = Inr man"
    by blast
  ultimately show ?thesis
    by (simp add: capture_main_def sample_run_def tiny_dry)
qed

theorem capture_described_witness:
  "\<exists>fs'. capture_main sample_env sample_run (\<lambda>_. []) 0 tiny_args sample_disk = (fs', Inr 0)
     \<and> fs' ''o.manifest.json'' = Some [10]"
proof -
  obtain fs' where m: "capture_main sample_env sample_run (\<lambda>_. []) 0 tiny_args sample_disk = (fs', Inr 0)"
    using sample_capture by blast
  from capture_described [OF sample_streaming m] have "fs' ''o.manifest.json'' = Some [10]"
    by (auto simp: tiny_args_def sample_args_def)
  with m show ?thesis by blast
qed

end
