(* ===== verification/Dflash_Oracle.thy ===== *)
theory Dflash_Oracle
  imports Py_Text Py_Float
begin

text \<open>
  The offline oracle for the selector's dump, \<open>tools/dflash_oracle.py\<close>: the on-path truth of a verify cycle,
  the chain oracle, the realizable top-b prefixes, the sanity gate, the chaining of the cycles of a
  request, the report, the self-test and the command.

  A cycle is a record of the fields the script reads; a field that may be missing is an option, and a
  missing list is the empty list the script takes for it. Scores are finite numbers or, in a transition
  matrix, lists of them. Reading and writing one line of JSON are arguments. Printed text is left out.
\<close>

definition TOP_B_VALUES :: "nat list" where "TOP_B_VALUES = [2, 3, 4]"

datatype jscore = Num rat | Vec "jscore list"

record lattice_row =
  row_tokens :: "int list"
  row_unary :: "jscore list"
  row_transition :: "jscore list"

record verify_cycle =
  cycle_no :: "int option"
  lane :: "int option"
  request_id :: "int option"
  past :: "int option"
  lattice_rows :: "lattice_row list"
  drafts_proposed :: "int list"
  accepted :: int
  realized :: "int list"

subsection \<open>The oracles of one cycle\<close>

definition true_tokens_for_cycle :: "verify_cycle \<Rightarrow> int list res" where
  "true_tokens_for_cycle rec =
     (let truth = take_py (accepted rec) (drafts_proposed rec) in
      if accepted rec < int (length (lattice_rows rec)) \<and> accepted rec < int (length (realized rec))
      then rbind (py_index (realized rec) (accepted rec)) (\<lambda>t. Inr (truth @ [t]))
      else Inr truth)"

fun oracle_walk :: "lattice_row list \<Rightarrow> int list \<Rightarrow> nat" where
  "oracle_walk (row # rows) (want # truth) =
     (if want \<in> set (row_tokens row) then Suc (oracle_walk rows truth) else 0)"
| "oracle_walk _ _ = 0"

definition oracle_prefix :: "verify_cycle \<Rightarrow> nat res" where
  "oracle_prefix rec = rbind (true_tokens_for_cycle rec) (\<lambda>truth. Inr (oracle_walk (lattice_rows rec) truth))"

text \<open>\<open>tokens.index(want)\<close> for a token that occurs.\<close>

fun first_index :: "'a \<Rightarrow> 'a list \<Rightarrow> nat" where
  "first_index x [] = 0"
| "first_index x (y # ys) = (if x = y then 0 else Suc (first_index x ys))"

text \<open>A position without a score sorts after every score.\<close>

definition rank_key_at :: "jscore list \<Rightarrow> nat \<Rightarrow> (nat \<times> rat \<times> nat) res" where
  "rank_key_at scores j =
     (if j < length scores
      then (case scores ! j of Num x \<Rightarrow> Inr (0, - x, j) | Vec _ \<Rightarrow> Inl TypeErr)
      else Inr (1, 0, j))"

definition rank_of :: "int list \<Rightarrow> jscore \<Rightarrow> int \<Rightarrow> nat option res" where
  "rank_of tokens scores want =
     (if want \<notin> set tokens then Inr None
      else
        let idx = first_index want tokens in
        case scores of
          Num _ \<Rightarrow> Inl TypeErr
        | Vec xs \<Rightarrow>
            if idx \<ge> length xs then Inr None
            else rbind (map_res (rank_key_at xs) [0..<length tokens]) (\<lambda>keys.
                 Inr (Some (first_index idx (map (snd \<circ> snd) (sort keys))))))"

datatype scoring = Unary | Transition

text \<open>The scores of a row: None where the true predecessor's transition row cannot be identified.\<close>

definition row_scores :: "scoring \<Rightarrow> nat option \<Rightarrow> lattice_row \<Rightarrow> jscore option" where
  "row_scores by prev row =
     (case by of
        Unary \<Rightarrow> Some (Vec (row_unary row))
      | Transition \<Rightarrow>
          (case prev of
             None \<Rightarrow> Some (Vec (row_transition row))
           | Some p \<Rightarrow> if p < length (row_transition row) then Some (row_transition row ! p) else None))"

fun topb_walk :: "nat \<Rightarrow> scoring \<Rightarrow> nat option \<Rightarrow> lattice_row list \<Rightarrow> int list \<Rightarrow> nat res" where
  "topb_walk b by prev (row # rows) (want # truth) =
     (case row_scores by prev row of
        None \<Rightarrow> Inr 0
      | Some scores \<Rightarrow>
          rbind (rank_of (row_tokens row) scores want) (\<lambda>r.
          case r of
            None \<Rightarrow> Inr 0
          | Some k \<Rightarrow>
              if b \<le> k then Inr 0
              else rbind (topb_walk b by (Some (first_index want (row_tokens row))) rows truth) (\<lambda>m. Inr (Suc m))))"
| "topb_walk b by prev _ _ = Inr 0"

definition topb_prefix :: "verify_cycle \<Rightarrow> nat \<Rightarrow> scoring \<Rightarrow> nat res" where
  "topb_prefix rec b by = rbind (true_tokens_for_cycle rec) (topb_walk b by None (lattice_rows rec))"

subsection \<open>Reading, the sanity gate, the chain\<close>

fun parse_cycles :: "(string \<Rightarrow> verify_cycle option) \<Rightarrow> string list \<Rightarrow> verify_cycle list" where
  "parse_cycles loads [] = []"
| "parse_cycles loads (line # rest) =
     (if strip line = [] then parse_cycles loads rest
      else case loads (strip line) of None \<Rightarrow> parse_cycles loads rest | Some c \<Rightarrow> c # parse_cycles loads rest)"

definition load_cycles :: "(string \<Rightarrow> verify_cycle option) \<Rightarrow> string \<Rightarrow> verify_cycle list" where
  "load_cycles loads text = parse_cycles loads (file_lines text)"

definition validate_cycle :: "verify_cycle \<Rightarrow> unit res" where
  "validate_cycle rec =
     (if accepted rec > int (length (drafts_proposed rec)) then Inl RefusedDump
      else if accepted rec > int (length (lattice_rows rec)) then Inl RefusedDump
      else rbind (oracle_prefix rec) (\<lambda>m. if int m < accepted rec then Inl RefusedDump else Inr ()))"

type_synonym chain_key = "(int \<times> int) option"

definition key_of :: "verify_cycle \<Rightarrow> chain_key" where
  "key_of rec = (case (lane rec, request_id rec) of (Some l, Some r) \<Rightarrow> Some (l, r) | _ \<Rightarrow> None)"

definition cycle_key :: "verify_cycle \<Rightarrow> int" where
  "cycle_key rec = (case cycle_no rec of None \<Rightarrow> 0 | Some c \<Rightarrow> c)"

record gap =
  gap_key :: "int \<times> int"
  gap_from :: "int option"
  gap_to :: "int option"
  gap_expected :: int
  gap_got :: int

definition pair_gap :: "int \<times> int \<Rightarrow> verify_cycle \<times> verify_cycle \<Rightarrow> gap list" where
  "pair_gap key ab =
     (case (past (fst ab), past (snd ab)) of
        (Some pa, Some pb) \<Rightarrow>
          let expected = pa + 1 + accepted (fst ab) in
          if pb \<noteq> expected
          then [\<lparr>gap_key = key, gap_from = cycle_no (fst ab), gap_to = cycle_no (snd ab), gap_expected = expected, gap_got = pb\<rparr>]
          else []
      | _ \<Rightarrow> [])"

definition sort_group :: "chain_key \<times> verify_cycle list \<Rightarrow> chain_key \<times> verify_cycle list" where
  "sort_group g = (case fst g of None \<Rightarrow> g | Some _ \<Rightarrow> (fst g, sort_key cycle_key (snd g)))"

definition group_gaps :: "chain_key \<times> verify_cycle list \<Rightarrow> gap list" where
  "group_gaps g =
     (case fst g of None \<Rightarrow> [] | Some k \<Rightarrow> concat (map (pair_gap k) (zip (snd g) (tl (snd g)))))"

definition chain_requests :: "verify_cycle list \<Rightarrow> (chain_key, verify_cycle list) dict \<times> gap list" where
  "chain_requests cycles =
     (let groups = map sort_group (group_values (map (\<lambda>rec. (key_of rec, rec)) cycles))
      in (groups, concat (map group_gaps groups)))"

subsection \<open>The report\<close>

record oracle_report =
  n_cycles :: nat
  n_requests :: nat
  n_lanes :: nat
  report_gaps :: "gap list"
  served :: "int list"
  chain_oracle :: "nat list"
  topb :: "((scoring \<times> nat) \<times> nat list) list"
  mean_served :: rat
  mean_oracle :: rat
  mean_topb :: "((scoring \<times> nat) \<times> rat) list"

datatype analysis = NoCycles | Refused | Report oracle_report

text \<open>\<open>statistics.fmean\<close>: the correctly rounded sum, divided by the length.\<close>

definition fmean :: "int list \<Rightarrow> rat" where
  "fmean xs = f64 (f64 (of_int (sum_list xs)) / of_nat (length xs))"

fun validate_all :: "verify_cycle list \<Rightarrow> unit res" where
  "validate_all [] = Inr ()"
| "validate_all (c # cs) = rbind (validate_cycle c) (\<lambda>_. validate_all cs)"

definition topb_grid :: "(scoring \<times> nat) list" where
  "topb_grid = concat (map (\<lambda>by. map (\<lambda>b. (by, b)) TOP_B_VALUES) [Unary, Transition])"

definition report_of :: "verify_cycle list \<Rightarrow> oracle_report res" where
  "report_of cycles =
     (let (groups, gaps) = chain_requests cycles;
          ln = remdups (map lane (filter (\<lambda>r. lane r \<noteq> None) cycles));
          rq = remdups (map (\<lambda>r. (lane r, request_id r)) (filter (\<lambda>r. lane r \<noteq> None \<and> request_id r \<noteq> None) cycles));
          sv = map accepted cycles
      in rbind (map_res oracle_prefix cycles) (\<lambda>orc.
         rbind (map_res (\<lambda>(by, b). rbind (map_res (\<lambda>c. topb_prefix c b by) cycles) (\<lambda>ms. Inr ((by, b), ms))) topb_grid) (\<lambda>tb.
         Inr \<lparr>n_cycles = length cycles, n_requests = length rq, n_lanes = length ln, report_gaps = gaps,
              served = sv, chain_oracle = orc, topb = tb,
              mean_served = fmean sv, mean_oracle = fmean (map int orc),
              mean_topb = map (\<lambda>(k, ms). (k, fmean (map int ms))) tb\<rparr>)))"

definition analyze :: "verify_cycle list \<Rightarrow> analysis res" where
  "analyze cycles =
     (if cycles = [] then Inr NoCycles
      else (case validate_all cycles of
              Inl RefusedDump \<Rightarrow> Inr Refused
            | Inl e \<Rightarrow> Inl e
            | Inr _ \<Rightarrow> rbind (report_of cycles) (\<lambda>r. Inr (Report r))))"

definition analyze_file :: "(string \<Rightarrow> verify_cycle option) \<Rightarrow> string option \<Rightarrow> analysis res" where
  "analyze_file loads f = (case f of None \<Rightarrow> Inl OSErr | Some text \<Rightarrow> analyze (load_cycles loads text))"

text \<open>The exit code of the command over a list of files; without files it is a usage error.\<close>

definition oracle_main :: "(string \<Rightarrow> verify_cycle option) \<Rightarrow> string option list \<Rightarrow> nat res" where
  "oracle_main loads files =
     (if files = [] then Inl UsageError
      else rbind (map_res (analyze_file loads) files) (\<lambda>rs. Inr (if Refused \<in> set rs then 1 else 0)))"

subsection \<open>The self-test\<close>

definition nums :: "rat list \<Rightarrow> jscore list" where "nums = map Num"

definition mk_cycle :: "int \<Rightarrow> int \<Rightarrow> lattice_row list \<Rightarrow> int list \<Rightarrow> int \<Rightarrow> int list \<Rightarrow> verify_cycle" where
  "mk_cycle n p rows drafts acc seen =
     \<lparr>cycle_no = Some n, lane = Some 0, request_id = Some 0, past = Some p, lattice_rows = rows,
      drafts_proposed = drafts, accepted = acc, realized = seen\<rparr>"

definition self_test_dump :: "verify_cycle list" where
  "self_test_dump =
     [mk_cycle 0 100
        [\<lparr>row_tokens = [1, 2, 3], row_unary = nums [5, 9, 7], row_transition = nums [10, 1, 5]\<rparr>,
         \<lparr>row_tokens = [10, 11, 12], row_unary = nums [1, 1, 9],
          row_transition = [Vec (nums [1, 1, 9]), Vec (nums [1, 1, 9]), Vec (nums [1, 1, 9])]\<rparr>,
         \<lparr>row_tokens = [20, 21, 22], row_unary = nums [3, 3, 3],
          row_transition = [Vec (nums [3, 3, 3]), Vec (nums [3, 3, 3]), Vec (nums [3, 3, 3])]\<rparr>]
        [2, 12, 20] 2 [2, 12, 21, 21],
      mk_cycle 1 103
        [\<lparr>row_tokens = [30, 31], row_unary = nums [4, 1], row_transition = nums [9, 1]\<rparr>,
         \<lparr>row_tokens = [40, 41], row_unary = nums [2, 2], row_transition = [Vec (nums [2, 2]), Vec (nums [2, 2])]\<rparr>]
        [30, 41] 1 [30, 40, 40],
      mk_cycle 2 999
        [\<lparr>row_tokens = [50, 51], row_unary = nums [1, 1], row_transition = nums [1, 1]\<rparr>]
        [52] 0 [52, 60]]"

definition bare_rows :: "int list list \<Rightarrow> lattice_row list" where
  "bare_rows tss = map (\<lambda>ts. \<lparr>row_tokens = ts, row_unary = [], row_transition = []\<rparr>) tss"

definition off_path_bait :: verify_cycle where
  "off_path_bait =
     \<lparr>cycle_no = None, lane = None, request_id = None, past = None, lattice_rows = bare_rows [[1, 2, 3], [4, 5, 6], [7, 8, 9]],
      drafts_proposed = [2, 99], accepted = 1, realized = [2, 5, 8]\<rparr>"

definition bad_cycle :: verify_cycle where
  "bad_cycle = (hd self_test_dump)\<lparr>accepted := 99\<rparr>"

definition bad2_cycle :: verify_cycle where
  "bad2_cycle = mk_cycle 0 0 (bare_rows [[1, 2, 3], [4, 5, 6]]) [999, 998] 2 [999, 998, 1]"

definition dump_text :: "(verify_cycle \<Rightarrow> string) \<Rightarrow> verify_cycle list \<Rightarrow> string" where
  "dump_text dumps cs = concat (map (\<lambda>c. dumps c @ [LF]) cs)"

definition report_checks :: "analysis res \<Rightarrow> bool" where
  "report_checks res =
     (case res of
        Inr (Report r) \<Rightarrow>
          n_cycles r = 3 \<and> n_requests r = 1 \<and> n_lanes r = 1 \<and> length (report_gaps r) = 1
          \<and> served r = [2, 1, 0] \<and> chain_oracle r = [3, 2, 0] \<and> mean_served r = 1 \<and> mean_oracle r = f64 (5 / 3)
      | _ \<Rightarrow> False)"

definition oracle_self_test :: "(string \<Rightarrow> verify_cycle option) \<Rightarrow> (verify_cycle \<Rightarrow> string) \<Rightarrow> bool" where
  "oracle_self_test loads dumps =
     (let cycles = self_test_dump; (groups, gaps) = chain_requests cycles in
      oracle_prefix off_path_bait = Inr 2
      \<and> oracle_prefix (cycles ! 0) = Inr 3 \<and> oracle_prefix (cycles ! 1) = Inr 2
      \<and> topb_prefix (cycles ! 0) 2 Unary = Inr 3
      \<and> topb_prefix (cycles ! 0) 2 Transition = Inr 0 \<and> topb_prefix (cycles ! 0) 3 Transition = Inr 3
      \<and> length groups = 1 \<and> length gaps = 1
      \<and> report_checks (analyze_file loads (Some (dump_text dumps cycles)))
      \<and> analyze_file loads (Some (dump_text dumps [bad_cycle])) = Inr Refused
      \<and> analyze_file loads (Some (dump_text dumps [bad2_cycle])) = Inr Refused)"

end
