(* ===== verification/Oracle_Facts.thy ===== *)
theory Oracle_Facts
  imports Dflash_Oracle
begin

text \<open>
  Facts on the selector oracle: what the sanity gate accepts, where the true token ranks, how the
  bounded prefixes relate to the chain oracle, and what an unbroken chain says about the positions.
\<close>

subsection \<open>The chain oracle\<close>

lemma oracle_walk_le: "oracle_walk rows truth \<le> length truth"
  by (induction rows truth rule: oracle_walk.induct) auto

lemma oracle_walk_ge_iff:
  "n \<le> oracle_walk rows truth \<longleftrightarrow>
     n \<le> length rows \<and> n \<le> length truth \<and> (\<forall>i < n. truth ! i \<in> set (row_tokens (rows ! i)))"
proof (induction rows truth arbitrary: n rule: oracle_walk.induct)
  case (1 row rows want truth)
  show ?case
  proof (cases n)
    case (Suc k)
    then show ?thesis using 1 by (auto simp: less_Suc_eq_0_disj)
  qed simp
qed auto

lemma true_tokens_shape:
  assumes "0 \<le> accepted rec"
  shows "\<exists>extra. true_tokens_for_cycle rec = Inr (take (nat (accepted rec)) (drafts_proposed rec) @ extra) \<and> length extra \<le> 1"
proof (cases "accepted rec < int (length (lattice_rows rec)) \<and> accepted rec < int (length (realized rec))")
  case True
  then show ?thesis
    using assms by (intro exI [of _ "[realized rec ! nat (accepted rec)]"])
      (simp add: true_tokens_for_cycle_def py_index_def take_py_nonneg)
next
  case False
  then show ?thesis
    using assms by (intro exI [of _ "[]"]) (auto simp: true_tokens_for_cycle_def take_py_nonneg)
qed

lemma validate_cycle_iff:
  assumes "0 \<le> accepted rec"
  shows "validate_cycle rec = Inr () \<longleftrightarrow>
    accepted rec \<le> int (length (drafts_proposed rec)) \<and> accepted rec \<le> int (length (lattice_rows rec)) \<and>
    (\<forall>i < nat (accepted rec). drafts_proposed rec ! i \<in> set (row_tokens (lattice_rows rec ! i)))"
proof (cases "accepted rec \<le> int (length (drafts_proposed rec)) \<and> accepted rec \<le> int (length (lattice_rows rec))")
  case True
  obtain extra where e: "true_tokens_for_cycle rec = Inr (take (nat (accepted rec)) (drafts_proposed rec) @ extra)" "length extra \<le> 1"
    using true_tokens_shape [OF assms] by blast
  have n: "nat (accepted rec) \<le> length (drafts_proposed rec)" "nat (accepted rec) \<le> length (lattice_rows rec)"
    using True by auto
  show ?thesis
    using True n oracle_walk_ge_iff [of "nat (accepted rec)" "lattice_rows rec" "take (nat (accepted rec)) (drafts_proposed rec) @ extra"]
    by (auto simp: validate_cycle_def oracle_prefix_def e(1) nth_append nat_le_iff not_less)
next
  case False
  then show ?thesis by (auto simp: validate_cycle_def)
qed

lemma validated_bounds:
  assumes "0 \<le> accepted rec" "validate_cycle rec = Inr ()"
  shows "\<exists>n. oracle_prefix rec = Inr n \<and> accepted rec \<le> int n \<and> int n \<le> accepted rec + 1"
proof -
  have d: "accepted rec \<le> int (length (drafts_proposed rec))"
    using assms by (simp add: validate_cycle_iff)
  obtain extra where e: "true_tokens_for_cycle rec = Inr (take (nat (accepted rec)) (drafts_proposed rec) @ extra)" "length extra \<le> 1"
    using true_tokens_shape [OF assms(1)] by blast
  let ?t = "take (nat (accepted rec)) (drafts_proposed rec) @ extra"
  have "oracle_walk (lattice_rows rec) ?t \<le> length ?t" by (rule oracle_walk_le)
  also have "\<dots> \<le> nat (accepted rec) + 1" using e(2) by simp
  finally have "int (oracle_walk (lattice_rows rec) ?t) \<le> accepted rec + 1" using assms(1) by linarith
  with assms(2) show ?thesis
    by (auto simp: validate_cycle_def oracle_prefix_def e(1) split: if_splits)
qed

subsection \<open>Ranks\<close>

lemma first_index_less: "x \<in> set xs \<Longrightarrow> first_index x xs < length xs"
  by (induction xs) auto

lemma nth_first_index: "x \<in> set xs \<Longrightarrow> xs ! first_index x xs = x"
  by (induction xs) auto

lemma rank_keys:
  assumes "map_res (rank_key_at xs) js = Inr keys"
  shows "map (snd \<circ> snd) keys = js"
  using assms
proof (induction js arbitrary: keys)
  case (Cons j js)
  then show ?case by (auto simp: res_simps rank_key_at_def split: if_splits jscore.splits)
qed simp

lemma rank_of_cases:
  assumes "rank_of tokens scores want = Inr (Some k)"
  shows "want \<in> set tokens" "k < length tokens"
proof -
  from assms obtain xs keys where w: "want \<in> set tokens"
    and k: "map_res (rank_key_at xs) [0..<length tokens] = Inr keys"
      "k = first_index (first_index want tokens) (map (snd \<circ> snd) (sort keys))"
    by (auto simp: rank_of_def res_simps Let_def split: if_splits jscore.splits)
  have ks: "map (snd \<circ> snd) keys = [0..<length tokens]" by (rule rank_keys [OF k(1)])
  then have "set (map (snd \<circ> snd) (sort keys)) = {0..<length tokens}" "length keys = length tokens"
    by (metis list.set_map set_sort set_upt, metis length_map length_upt diff_zero)
  moreover have "first_index want tokens < length tokens" by (rule first_index_less [OF w])
  ultimately have "k < length (map (snd \<circ> snd) (sort keys))"
    unfolding k(2) by (intro first_index_less) auto
  with \<open>length keys = length tokens\<close> show "k < length tokens" by simp
  show "want \<in> set tokens" by (rule w)
qed

subsection \<open>Bounded prefixes\<close>

lemma topb_walk_le_oracle: "topb_walk b by prev rows truth = Inr m \<Longrightarrow> m \<le> oracle_walk rows truth"
proof (induction b "by" prev rows truth arbitrary: m rule: topb_walk.induct)
  case (1 b by' prev row rows want truth)
  then show ?case
    by (auto simp: res_simps dest: rank_of_cases(1) split: option.splits if_splits)
qed auto

lemma topb_walk_mono:
  "topb_walk b by prev rows truth = Inr m \<Longrightarrow> b \<le> b' \<Longrightarrow> topb_walk b' by prev rows truth = Inr m' \<Longrightarrow> m \<le> m'"
proof (induction b "by" prev rows truth arbitrary: m m' rule: topb_walk.induct)
  case (1 b by' prev row rows want truth)
  show ?case
  proof (cases m)
    case (Suc n)
    from 1(2) obtain scores k where s: "row_scores by' prev row = Some scores"
      "rank_of (row_tokens row) scores want = Inr (Some k)" "k < b"
      "topb_walk b by' (Some (first_index want (row_tokens row))) rows truth = Inr n"
      by (auto simp: Suc res_simps split: option.splits if_splits)
    with 1(3,4) obtain n' where n': "topb_walk b' by' (Some (first_index want (row_tokens row))) rows truth = Inr n'" "m' = Suc n'"
      by (auto simp: res_simps split: option.splits if_splits)
    have "n \<le> n'" using 1(1) [OF s(1) _ s(4) 1(3) n'(1), of k] s(3) by simp
    then show ?thesis by (simp add: Suc n'(2))
  qed simp
qed auto

text \<open>Every row has one number for each of its tokens.\<close>

definition scored :: "lattice_row \<Rightarrow> bool" where
  "scored row \<longleftrightarrow> (\<exists>xs. row_unary row = map Num xs \<and> length xs = length (row_tokens row))"

lemma scored_rank:
  assumes "scored row" "want \<in> set (row_tokens row)"
  shows "\<exists>k. rank_of (row_tokens row) (Vec (row_unary row)) want = Inr (Some k)"
proof -
  from assms(1) obtain xs where xs: "row_unary row = map Num xs" "length xs = length (row_tokens row)"
    by (auto simp: scored_def)
  have "map_res (rank_key_at (row_unary row)) [0..<length (row_tokens row)]
      = Inr (map (\<lambda>j. (0, - (xs ! j), j)) [0..<length (row_tokens row)])"
    by (rule map_res_Inr_map) (auto simp: rank_key_at_def xs)
  with assms(2) xs first_index_less [OF assms(2)] show ?thesis by (auto simp: rank_of_def)
qed

lemma topb_walk_full:
  "list_all scored rows \<Longrightarrow> list_all (\<lambda>row. length (row_tokens row) \<le> b) rows \<Longrightarrow>
     topb_walk b Unary prev rows truth = Inr (oracle_walk rows truth)"
proof (induction rows truth arbitrary: prev rule: oracle_walk.induct)
  case (1 row rows want truth)
  show ?case
  proof (cases "want \<in> set (row_tokens row)")
    case True
    obtain k where k: "rank_of (row_tokens row) (Vec (row_unary row)) want = Inr (Some k)"
      using scored_rank [OF _ True] 1 by auto
    with rank_of_cases(2) [OF k] True 1 show ?thesis by (auto simp: row_scores_def)
  next
    case False
    then show ?thesis by (simp add: row_scores_def rank_of_def)
  qed
qed auto

subsection \<open>Chaining\<close>

lemma mset_group_values:
  fixes kvs :: "('a \<times> 'b) list"
  shows "mset (concat (map snd (group_values kvs))) = mset (map snd kvs)"
proof -
  have add: "mset (concat (map snd (add_to_group kv d))) = add_mset (snd kv) (mset (concat (map snd d)))"
    if "distinct (map fst d)" for kv :: "'a \<times> 'b" and d :: "('a, 'b list) dict"
    using that
  proof (induction d)
    case Nil
    then show ?case by (simp add: add_to_group_def dict_get_def)
  next
    case (Cons e d)
    show ?case
    proof (cases "fst e = fst kv")
      case True
      then show ?thesis by (cases e) (simp add: add_to_group_def dict_get_def)
    next
      case False
      then have "add_to_group kv (e # d) = e # add_to_group kv d"
        by (cases e) (simp add: add_to_group_def dict_get_def)
      with Cons show ?thesis by simp
    qed
  qed
  have dist: "distinct (map fst d) \<Longrightarrow> distinct (map fst (add_to_group kv d))" for kv :: "'a \<times> 'b" and d :: "('a, 'b list) dict"
    by (simp add: add_to_group_def distinct_update)
  have "distinct (map fst d) \<Longrightarrow>
      mset (concat (map snd (fold add_to_group kvs d))) = mset (concat (map snd d)) + mset (map snd kvs)" for kvs :: "('a \<times> 'b) list" and d :: "('a, 'b list) dict"
  proof (induction kvs arbitrary: d)
    case (Cons kv kvs)
    have "mset (concat (map snd (fold add_to_group kvs (add_to_group kv d))))
        = mset (concat (map snd (add_to_group kv d))) + mset (map snd kvs)"
      by (rule Cons.IH [OF dist [OF Cons.prems]])
    then show ?case by (simp add: add [OF Cons.prems])
  qed simp
  then show ?thesis by (simp add: group_values_def)
qed

lemma mset_sort_groups: "mset (concat (map snd (map sort_group gs))) = mset (concat (map snd gs))"
  by (induction gs) (auto simp: sort_group_def split: option.splits)

lemma chain_partition: "mset (concat (map snd (fst (chain_requests cycles)))) = mset cycles"
  using mset_sort_groups [of "group_values (map (\<lambda>rec. (key_of rec, rec)) cycles)"]
    mset_group_values [of "map (\<lambda>rec. (key_of rec, rec)) cycles"]
  by (simp add: chain_requests_def Let_def comp_def)

lemma pair_gaps_telescope:
  assumes "concat (map (pair_gap k) (zip cs (tl cs))) = []"
    and "list_all (\<lambda>c. past c \<noteq> None) cs" "i < length cs"
  shows "the (past (cs ! i)) = the (past (hd cs)) + (\<Sum>c \<leftarrow> take i cs. 1 + accepted c)"
  using assms
proof (induction cs arbitrary: i rule: induct_list012)
  case (3 c d cs)
  show ?case
  proof (cases i)
    case (Suc j)
    from 3(3,4) have "the (past d) = the (past c) + 1 + accepted c"
      by (auto simp: pair_gap_def Let_def split: if_splits)
    moreover have "the (past ((d # cs) ! j)) = the (past d) + (\<Sum>c \<leftarrow> take j (d # cs). 1 + accepted c)"
      using 3(2) [of j] 3(3-5) Suc by simp
    ultimately show ?thesis by (simp add: Suc)
  qed simp
qed auto

end
