(* ===== verification/Oracle_Properties.thy ===== *)
theory Oracle_Properties
  imports Oracle_Facts
begin

text \<open>
  The properties of the selector oracle: the sanity gate accepts exactly the consistent cycles and the
  oracle of an accepted cycle gains at most one token, the bounded prefixes lie below it and reach it, a
  report never shows an oracle below the served mean, positions add up along an unbroken chain, and the
  self-test passes.
\<close>

text \<open>
  C28. A cycle with a non-negative number of accepted drafts passes the sanity gate exactly when that number
  exceeds neither the drafts nor the rows and every accepted draft was offered in its row; and the chain
  oracle of a cycle that passes is the served number or one more.
\<close>

theorem gate_and_oracle:
  assumes "0 \<le> accepted c"
  shows "(validate_cycle c = Inr () \<longleftrightarrow>
      accepted c \<le> int (length (drafts_proposed c)) \<and> accepted c \<le> int (length (lattice_rows c)) \<and>
      (\<forall>i < nat (accepted c). drafts_proposed c ! i \<in> set (row_tokens (lattice_rows c ! i))))
    \<and> (validate_cycle c = Inr () \<longrightarrow>
        (\<exists>n. oracle_prefix c = Inr n \<and> accepted c \<le> int n \<and> int n \<le> accepted c + 1))"
  using validate_cycle_iff [OF assms] validated_bounds [OF assms] by blast

text \<open>
  C31. For one cycle the bounded prefixes grow with the bound and never exceed the chain oracle; by
  unary score, with a number for every token, they reach it as soon as the bound is the width of the rows.
\<close>

theorem topb_below_oracle:
  assumes "topb_prefix c b s = Inr m" "topb_prefix c b' s = Inr m'" "b \<le> b'" "oracle_prefix c = Inr n"
  shows "m \<le> m' \<and> m' \<le> n \<and>
    (s = Unary \<and> list_all scored (lattice_rows c) \<and> list_all (\<lambda>row. length (row_tokens row) \<le> b') (lattice_rows c)
       \<longrightarrow> m' = n)"
proof -
  from assms(4) obtain truth where t: "true_tokens_for_cycle c = Inr truth" "n = oracle_walk (lattice_rows c) truth"
    by (auto simp: oracle_prefix_def res_simps)
  with assms(1,2) have w: "topb_walk b s None (lattice_rows c) truth = Inr m" "topb_walk b' s None (lattice_rows c) truth = Inr m'"
    by (simp_all add: topb_prefix_def)
  have "m' = n" if "s = Unary" "list_all scored (lattice_rows c)" "list_all (\<lambda>row. length (row_tokens row) \<le> b') (lattice_rows c)"
    using topb_walk_full [OF that(2,3), of None truth] w(2) t(2) that(1) by simp
  then show ?thesis using topb_walk_mono [OF w(1) assms(3) w(2)] topb_walk_le_oracle [OF w(2)] t(2) by simp
qed

lemma validate_all_Inr: "validate_all cs = Inr () \<longleftrightarrow> (\<forall>c \<in> set cs. validate_cycle c = Inr ())"
  by (induction cs) (auto simp: res_simps)

lemma double_mono: "x \<le> y \<Longrightarrow> f64 x \<le> f64 y"
  unfolding f64_def by (rule fl_mono) simp_all

lemma fmean_mono:
  assumes "list_all2 (\<le>) xs ys"
  shows "fmean xs \<le> fmean ys"
proof -
  have "sum_list xs \<le> sum_list ys" using assms by (induction xs ys rule: list_all2_induct) auto
  then have "f64 (of_int (sum_list xs)) \<le> f64 (of_int (sum_list ys))"
    by (intro double_mono) simp
  then show ?thesis
    unfolding fmean_def list_all2_lengthD [OF assms] by (rule double_mono [OF divide_right_mono]) simp
qed

text \<open>
  C29. A report over cycles with non-negative accepted numbers never shows a mean oracle below the mean that
  was served: cycle by cycle the oracle is the served number or one more, the rounded means keep the
  order, and the request groups of the chain hold every cycle exactly once.
\<close>

theorem report_sound:
  assumes "analyze cycles = Inr (Report r)" "\<forall>c \<in> set cycles. 0 \<le> accepted c"
  shows "n_cycles r = length cycles
    \<and> list_all2 (\<lambda>s n. s \<le> int n \<and> int n \<le> s + 1) (served r) (chain_oracle r)
    \<and> mean_served r \<le> mean_oracle r
    \<and> mset (concat (map snd (fst (chain_requests cycles)))) = mset cycles"
proof -
  from assms(1) have v: "validate_all cycles = Inr ()" and r: "report_of cycles = Inr r"
    by (auto simp: analyze_def res_simps split: if_splits sum.splits err.splits)
  from r obtain orc where o: "map_res oracle_prefix cycles = Inr orc" "chain_oracle r = orc"
    and f: "n_cycles r = length cycles" "served r = map accepted cycles" "mean_served r = fmean (map accepted cycles)"
      "mean_oracle r = fmean (map int orc)"
    by (auto simp: report_of_def res_simps Let_def split: prod.splits)
  have l: "list_all2 (\<lambda>s n. s \<le> int n \<and> int n \<le> s + 1) (map accepted cycles) orc"
    using o(1) v assms(2)
  proof (induction cycles arbitrary: orc)
    case (Cons c cs)
    then show ?case using validated_bounds [of c] by (auto simp: res_simps validate_all_Inr)
  qed simp
  then have "list_all2 (\<le>) (map accepted cycles) (map int orc)"
    by (auto simp: list_all2_conv_all_nth)
  then have "fmean (map accepted cycles) \<le> fmean (map int orc)" by (rule fmean_mono)
  with l o f chain_partition show ?thesis by simp
qed


subsection \<open>The self-test and witnesses\<close>

text \<open>What the self-test relies on of the JSON encoder, for the cycles it writes.\<close>

definition reads_back :: "(string \<Rightarrow> verify_cycle option) \<Rightarrow> (verify_cycle \<Rightarrow> string) \<Rightarrow> verify_cycle \<Rightarrow> bool" where
  "reads_back loads dumps c \<longleftrightarrow>
     loads (dumps c) = Some c \<and> dumps c \<noteq> [] \<and> strip (dumps c) = dumps c \<and> one_line (dumps c)"

lemma dump_read_back:
  assumes "cs \<noteq> []" "list_all (reads_back loads dumps) cs"
  shows "load_cycles loads (dump_text dumps cs) = cs"
proof -
  have "dump_text dumps cs = join [LF] (map dumps cs) @ [LF]"
    using assms(1) by (induction cs rule: induct_list012) (auto simp: dump_text_def)
  moreover have "list_all one_line (map dumps cs)" using assms(2) by (auto simp: list_all_iff reads_back_def)
  ultimately have "file_lines (dump_text dumps cs) = map dumps cs"
    using assms(1) by (simp add: file_lines_join)
  moreover have "parse_cycles loads (map dumps cs) = cs"
    using assms(2) by (induction cs) (auto simp: reads_back_def)
  ultimately show ?thesis by (simp add: load_cycles_def)
qed

lemma self_test_oracles:
  "oracle_prefix off_path_bait = Inr 2" "oracle_prefix (self_test_dump ! 0) = Inr 3" "oracle_prefix (self_test_dump ! 1) = Inr 2"
  by code_simp+

lemma self_test_topb:
  "topb_prefix (self_test_dump ! 0) 2 Unary = Inr 3" "topb_prefix (self_test_dump ! 0) 2 Transition = Inr 0"
  "topb_prefix (self_test_dump ! 0) 3 Transition = Inr 3"
  by code_simp+

lemma self_test_refusals: "analyze [bad_cycle] = Inr Refused" "analyze [bad2_cycle] = Inr Refused"
  by code_simp+

lemma self_test_report: "report_checks (analyze self_test_dump)"
  by code_simp

lemma self_test_chain: "length (fst (chain_requests self_test_dump)) = 1" "length (snd (chain_requests self_test_dump)) = 1"
  by code_simp+

text \<open>The self-test passes with every encoder that reads back the cycles it writes.\<close>

lemma oracle_self_test_passes:
  assumes "list_all (reads_back loads dumps) (self_test_dump @ [bad_cycle, bad2_cycle])"
  shows "oracle_self_test loads dumps"
proof -
  have read: "analyze_file loads (Some (dump_text dumps cs)) = analyze cs"
    if "cs \<noteq> []" "set cs \<subseteq> set (self_test_dump @ [bad_cycle, bad2_cycle])" for cs
  proof -
    have "list_all (reads_back loads dumps) cs" using that(2) assms by (auto simp: list_all_iff)
    with that(1) show ?thesis by (simp add: analyze_file_def dump_read_back)
  qed
  have "self_test_dump \<noteq> []" by (simp add: self_test_dump_def)
  then have r: "analyze_file loads (Some (dump_text dumps self_test_dump)) = analyze self_test_dump"
    "analyze_file loads (Some (dump_text dumps [bad_cycle])) = analyze [bad_cycle]"
    "analyze_file loads (Some (dump_text dumps [bad2_cycle])) = analyze [bad2_cycle]"
    by (intro read; auto)+
  obtain groups gaps where g: "chain_requests self_test_dump = (groups, gaps)" by (cases "chain_requests self_test_dump")
  then have "length groups = 1" "length gaps = 1" using self_test_chain by simp_all
  with g r self_test_oracles self_test_topb self_test_refusals self_test_report show ?thesis
    by (simp only: oracle_self_test_def Let_def prod.case simp_thms)
qed

theorem gate_and_oracle_witness:
  "\<exists>n. oracle_prefix (self_test_dump ! 0) = Inr n \<and> 2 \<le> int n \<and> int n \<le> 3"
proof -
  have a: "accepted (self_test_dump ! 0) = 2" by (simp add: self_test_dump_def mk_cycle_def)
  have "validate_cycle (self_test_dump ! 0) = Inr ()" by code_simp
  with gate_and_oracle [of "self_test_dump ! 0"] a show ?thesis by simp
qed

theorem topb_below_oracle_witness:
  "\<exists>m m' n. topb_prefix (self_test_dump ! 0) 2 Transition = Inr m \<and> topb_prefix (self_test_dump ! 0) 3 Transition = Inr m'
     \<and> oracle_prefix (self_test_dump ! 0) = Inr n \<and> m \<le> m' \<and> m' \<le> n"
  using topb_below_oracle [OF self_test_topb(2,3) _ self_test_oracles(2)] self_test_topb(2,3) self_test_oracles(2) by blast

theorem report_sound_witness: "\<exists>r. analyze self_test_dump = Inr (Report r) \<and> mean_served r \<le> mean_oracle r"
proof -
  obtain r where r: "analyze self_test_dump = Inr (Report r)"
    using self_test_report by (auto simp: report_checks_def split: sum.splits analysis.splits)
  have "\<forall>c \<in> set self_test_dump. 0 \<le> accepted c" by (simp add: self_test_dump_def mk_cycle_def)
  from report_sound [OF r this] r show ?thesis by blast
qed



text \<open>
  The sanity gate does not look at the sign: a cycle with a negative number of accepted drafts passes, and its
  oracle is not bounded by that number.
\<close>

lemma negative_accepted_passes:
  "let c = (self_test_dump ! 0)\<lparr>accepted := -1, realized := [21]\<rparr>
   in validate_cycle c = Inr () \<and> oracle_prefix c = Inr 3"
  by code_simp

end
