(* ===== verification/Fetch_Safetensors.thy ===== *)
theory Fetch_Safetensors
  imports Py_Text "HOL-Library.List_Lexorder" "HOL-Library.Char_ord"
begin

text \<open>
  The range-sliced fetch of tensors, \<open>tools/fetch_safetensors_tensors.py\<close>: the retried HTTP request, the
  index and the header of a shard, the plan, the resumable fetch with its acquisition log, and the
  assembly of one file.

  Bytes are characters. The network is an argument that maps a request and its own state to a response and
  the next state; the disk is a map from paths to contents, without directories. The JSON codec, the digest and
  the clock are arguments. Printed text, the warning about a size that disagrees with the shape and
  the pauses between attempts are left out.
\<close>

definition HF :: string where "HF = ''https://huggingface.co''"

definition resolve_url :: "string \<Rightarrow> string \<Rightarrow> string \<Rightarrow> string" where
  "resolve_url repo revision shard = HF @ ''/'' @ repo @ ''/resolve/'' @ revision @ ''/'' @ shard"

definition FATAL_HTTP :: "int list" where "FATAL_HTTP = [400, 401, 403, 404, 405, 410, 416]"

subsection \<open>Requests\<close>

text \<open>A body with its status, an HTTP error status, or any other exception of the attempt.\<close>

datatype response = Body int string | HttpError int | NetError

type_synonym 'n net = "string \<Rightarrow> (int \<times> int) option \<Rightarrow> 'n \<Rightarrow> response \<times> 'n"

fun http_attempts :: "'n net \<Rightarrow> string \<Rightarrow> (int \<times> int) option \<Rightarrow> nat \<Rightarrow> 'n \<Rightarrow> 'n \<times> string res" where
  "http_attempts net url rng 0 s = (s, Inl RuntimeErr)"
| "http_attempts net url rng (Suc k) s =
     (case net url rng s of
        (Body code bs, s1) \<Rightarrow>
          if rng \<noteq> None \<and> code \<noteq> 206 then (s1, Inl RuntimeErr) else (s1, Inr bs)
      | (HttpError code, s1) \<Rightarrow>
          if code \<in> set FATAL_HTTP then (s1, Inl RuntimeErr) else http_attempts net url rng k s1
      | (NetError, s1) \<Rightarrow> http_attempts net url rng k s1)"

definition http_get :: "'n net \<Rightarrow> string \<Rightarrow> (int \<times> int) option \<Rightarrow> 'n \<Rightarrow> 'n \<times> string res" where
  "http_get net url rng s = http_attempts net url rng 4 s"

subsection \<open>Index and header\<close>

definition read_index :: "'n net \<Rightarrow> (string \<Rightarrow> (string, string) dict res) \<Rightarrow> string \<Rightarrow> string \<Rightarrow> 'n \<Rightarrow> 'n \<times> (string, string) dict res" where
  "read_index net loads_index repo revision s =
     (case http_get net (HF @ ''/'' @ repo @ ''/resolve/'' @ revision @ ''/model.safetensors.index.json'') None s of
        (s1, Inl e) \<Rightarrow> (s1, Inl e)
      | (s1, Inr data) \<Rightarrow> (s1, loads_index data))"

fun u64_of :: "string \<Rightarrow> nat" where
  "u64_of [] = 0"
| "u64_of (c # cs) = of_char c + 256 * u64_of cs"

definition unpack_u64 :: "string \<Rightarrow> nat res" where
  "unpack_u64 s = (if length s = 8 then Inr (u64_of s) else Inl StructErr)"

fun le_chars :: "nat \<Rightarrow> nat \<Rightarrow> string" where
  "le_chars 0 n = []"
| "le_chars (Suc k) n = char_of (n mod 256) # le_chars k (n div 256)"

definition pack_u64 :: "nat \<Rightarrow> string res" where
  "pack_u64 n = (if n < 2 ^ 64 then Inr (le_chars 8 n) else Inl StructErr)"

record tensor_info =
  ti_dtype :: string
  ti_shape :: "int list"
  ti_offsets :: "int \<times> int"

type_synonym header = "(string, tensor_info) dict"

definition read_header :: "'n net \<Rightarrow> (string \<Rightarrow> header res) \<Rightarrow> string \<Rightarrow> 'n \<Rightarrow> 'n \<times> (header \<times> int) res" where
  "read_header net loads_header url s =
     (case http_get net url (Some (0, 7)) s of
        (s1, Inl e) \<Rightarrow> (s1, Inl e)
      | (s1, Inr n_bytes) \<Rightarrow>
          (case unpack_u64 (take 8 n_bytes) of
             Inl e \<Rightarrow> (s1, Inl e)
           | Inr header_len \<Rightarrow>
               (case http_get net url (Some (8, 8 + int header_len - 1)) s1 of
                  (s2, Inl e) \<Rightarrow> (s2, Inl e)
                | (s2, Inr header_json) \<Rightarrow>
                    (s2, rbind (loads_header header_json) (\<lambda>h. Inr (h, 8 + int header_len))))))"

definition ST_DTYPE_BYTES :: "(string, int) dict" where
  "ST_DTYPE_BYTES = [(''BOOL'', 1), (''U8'', 1), (''I8'', 1), (''F8_E4M3'', 1), (''F8_E5M2'', 1),
     (''U16'', 2), (''I16'', 2), (''F16'', 2), (''BF16'', 2), (''U32'', 4), (''I32'', 4), (''F32'', 4),
     (''U64'', 8), (''I64'', 8), (''F64'', 8)]"

definition tensor_nbytes :: "int list \<Rightarrow> string \<Rightarrow> int" where
  "tensor_nbytes shape dtype = fold (\<lambda>d n. n * d) shape 1 * dict_get ST_DTYPE_BYTES dtype 0"

subsection \<open>The plan\<close>

record fetch_entry =
  fe_name :: string
  fe_dtype :: string
  fe_shape :: "int list"
  fe_nbytes :: int
  fe_begin :: int
  fe_end :: int
  fe_shard :: string
  fe_url :: string

definition plan_entry :: "header \<Rightarrow> int \<Rightarrow> string \<Rightarrow> string \<Rightarrow> string \<Rightarrow> fetch_entry res" where
  "plan_entry header data_start shard url n =
     rbind (of_option KeyError (map_of header n)) (\<lambda>h.
     Inr \<lparr>fe_name = n, fe_dtype = ti_dtype h, fe_shape = ti_shape h, fe_nbytes = snd (ti_offsets h) - fst (ti_offsets h),
          fe_begin = data_start + fst (ti_offsets h), fe_end = data_start + snd (ti_offsets h), fe_shard = shard, fe_url = url\<rparr>)"

fun plan_shards :: "'n net \<Rightarrow> (string \<Rightarrow> header res) \<Rightarrow> string \<Rightarrow> string \<Rightarrow> (string, string list) dict \<Rightarrow> string list \<Rightarrow> 'n \<Rightarrow>
    'n \<times> fetch_entry list res" where
  "plan_shards net loads_header repo revision by_shard [] s = (s, Inr [])"
| "plan_shards net loads_header repo revision by_shard (shard # shards) s =
     (let url = resolve_url repo revision shard in
      case read_header net loads_header url s of
        (s1, Inl e) \<Rightarrow> (s1, Inl e)
      | (s1, Inr (header, data_start)) \<Rightarrow>
          (case map_res (plan_entry header data_start shard url) (dict_get by_shard shard []) of
             Inl e \<Rightarrow> (s1, Inl e)
           | Inr es \<Rightarrow>
               (case plan_shards net loads_header repo revision by_shard shards s1 of
                  (s2, Inl e) \<Rightarrow> (s2, Inl e)
                | (s2, Inr rest) \<Rightarrow> (s2, Inr (es @ rest)))))"

subsection \<open>The resumable fetch\<close>

type_synonym files = "string \<rightharpoonup> string"

record log_record =
  lr_sha :: "string option"
  lr_bytes :: "int option"

definition os_join :: "string \<Rightarrow> string \<Rightarrow> string" where
  "os_join dir name =
     (if name \<noteq> [] \<and> hd name = CHR ''/'' then name
      else if dir = [] \<or> last dir = CHR ''/'' then dir @ name else dir @ ''/'' @ name)"

definition safe_name :: "string \<Rightarrow> string" where
  "safe_name n = concat (map (\<lambda>c. if c = CHR ''/'' then ''__'' else [c]) n)"

definition raw_path :: "string \<Rightarrow> string \<Rightarrow> string" where
  "raw_path out_dir n = os_join out_dir (safe_name n @ ''.raw'')"

definition log_path :: "string \<Rightarrow> string" where
  "log_path out_dir = os_join out_dir ''acquisition_log.jsonl''"

text \<open>A line of the log that does not decode to an object with a name is passed over.\<close>

definition read_log :: "(string \<Rightarrow> (string \<times> log_record) option) \<Rightarrow> string option \<Rightarrow> (string, log_record) dict" where
  "read_log loads_log f =
     (case f of
        None \<Rightarrow> []
      | Some text \<Rightarrow> dict_of (concat (map (\<lambda>line. case loads_log line of None \<Rightarrow> [] | Some r \<Rightarrow> [r]) (file_lines text))))"

definition already_done :: "(string \<Rightarrow> string) \<Rightarrow> string \<Rightarrow> (string, log_record) dict \<Rightarrow> files \<Rightarrow> fetch_entry \<Rightarrow> string option" where
  "already_done sha out_dir prior fs e =
     (case (map_of prior (fe_name e), fs (raw_path out_dir (fe_name e))) of
        (Some prev, Some data) \<Rightarrow>
          if int (length data) = fe_nbytes e \<and> lr_sha prev \<noteq> None \<and> lr_sha prev \<noteq> Some [] \<and> lr_bytes prev = Some (fe_nbytes e)
             \<and> lr_sha prev = Some (sha data)
          then Some data else None
      | _ \<Rightarrow> None)"

definition append_line :: "string \<Rightarrow> string \<Rightarrow> files \<Rightarrow> files" where
  "append_line path line fs = fs(path \<mapsto> (case fs path of None \<Rightarrow> [] | Some t \<Rightarrow> t) @ line @ [LF])"

record 'n fetch_env =
  env_net :: "'n net"
  env_sha :: "string \<Rightarrow> string"
  env_dump_log :: "fetch_entry \<Rightarrow> string \<Rightarrow> string"

definition fetch_one :: "'n fetch_env \<Rightarrow> string \<Rightarrow> (string, log_record) dict \<Rightarrow> fetch_entry \<Rightarrow> 'n \<times> files \<Rightarrow> ('n \<times> files) \<times> string res" where
  "fetch_one env out_dir prior e st =
     (let (s, fs) = st in
      case already_done (env_sha env) out_dir prior fs e of
        Some data \<Rightarrow> (st, Inr data)
      | None \<Rightarrow>
          (case http_get (env_net env) (fe_url e) (Some (fe_begin e, fe_end e - 1)) s of
             (s1, Inl err) \<Rightarrow> ((s1, fs), Inl err)
           | (s1, Inr data) \<Rightarrow>
               if int (length data) \<noteq> fe_nbytes e then ((s1, fs), Inl RuntimeErr)
               else ((s1, append_line (log_path out_dir) (env_dump_log env e (env_sha env data))
                            (fs(raw_path out_dir (fe_name e) \<mapsto> data))), Inr data)))"

fun fetch_all :: "'n fetch_env \<Rightarrow> string \<Rightarrow> (string, log_record) dict \<Rightarrow> fetch_entry list \<Rightarrow> 'n \<times> files \<Rightarrow>
    ('n \<times> files) \<times> (string, string) dict res" where
  "fetch_all env out_dir prior [] st = (st, Inr [])"
| "fetch_all env out_dir prior (e # es) st =
     (case fetch_one env out_dir prior e st of
        (st1, Inl err) \<Rightarrow> (st1, Inl err)
      | (st1, Inr data) \<Rightarrow>
          (case fetch_all env out_dir prior es st1 of
             (st2, Inl err) \<Rightarrow> (st2, Inl err)
           | (st2, Inr raw) \<Rightarrow> (st2, Inr ((fe_name e, data) # raw))))"

subsection \<open>The assembly\<close>

fun assembled_header :: "int \<Rightarrow> fetch_entry list \<Rightarrow> header" where
  "assembled_header offset [] = []"
| "assembled_header offset (e # es) =
     (fe_name e, \<lparr>ti_dtype = fe_dtype e, ti_shape = fe_shape e, ti_offsets = (offset, offset + fe_nbytes e)\<rparr>)
       # assembled_header (offset + fe_nbytes e) es"

definition padded :: "string \<Rightarrow> string" where
  "padded hjson = hjson @ replicate (nat ((- int (length hjson)) mod 8)) CHR '' ''"

definition assemble_file :: "(header \<Rightarrow> string) \<Rightarrow> fetch_entry list \<Rightarrow> (string, string) dict \<Rightarrow> string res" where
  "assemble_file dump_header entries raw =
     (let hjson = padded (dump_header (dict_of (assembled_header 0 entries))) in
      rbind (map_res (\<lambda>e. of_option KeyError (map_of raw (fe_name e))) entries) (\<lambda>blobs.
      rbind (pack_u64 (length hjson)) (\<lambda>prefix. Inr (prefix @ hjson @ concat blobs))))"

subsection \<open>The command\<close>

record json_env =
  je_index :: "string \<Rightarrow> (string, string) dict res"
  je_header :: "string \<Rightarrow> header res"
  je_log :: "string \<Rightarrow> (string \<times> log_record) option"
  je_dump_header :: "header \<Rightarrow> string"

definition gather_tensors ::
    "'n fetch_env \<Rightarrow> json_env \<Rightarrow> string \<Rightarrow> string \<Rightarrow> (string \<Rightarrow> bool) \<Rightarrow> string \<Rightarrow> string option \<Rightarrow> bool \<Rightarrow> 'n \<times> files \<Rightarrow>
      ('n \<times> files) \<times> nat res" where
  "gather_tensors env je repo revision name_match out_dir assemble manifest_only st =
     (let (s, fs) = st in
      case read_index (env_net env) (je_index je) repo revision s of
        (s1, Inl e) \<Rightarrow> ((s1, fs), Inl e)
      | (s1, Inr weight_map) \<Rightarrow>
          let names = sort (filter name_match (map fst weight_map)) in
          if names = [] then ((s1, fs), Inr 2)
          else
            let by_shard = group_values (map (\<lambda>n. (dict_get weight_map n [], n)) names) in
            (case plan_shards (env_net env) (je_header je) repo revision by_shard (sort (map fst by_shard)) s1 of
               (s2, Inl e) \<Rightarrow> ((s2, fs), Inl e)
             | (s2, Inr entries) \<Rightarrow>
                 if manifest_only then ((s2, fs), Inr 0)
                 else
                   let lp = log_path out_dir; prior = read_log (je_log je) (fs lp);
                       fs1 = (case fs lp of None \<Rightarrow> fs(lp \<mapsto> []) | Some _ \<Rightarrow> fs)
                   in (case fetch_all env out_dir prior entries (s2, fs1) of
                         (st3, Inl e) \<Rightarrow> (st3, Inl e)
                       | ((s3, fs3), Inr raw) \<Rightarrow>
                           (case assemble of
                              None \<Rightarrow> ((s3, fs3), Inr 0)
                            | Some asm \<Rightarrow>
                                if asm = [] then ((s3, fs3), Inr 0)
                                else (case assemble_file (je_dump_header je) entries raw of
                                        Inl e \<Rightarrow> ((s3, fs3), Inl e)
                                      | Inr f \<Rightarrow> ((s3, fs3(os_join out_dir asm \<mapsto> f)), Inr 0))))))"

text \<open>The name filter of the command line; a regular expression is the predicate it searches with.\<close>

datatype name_filter = Prefix string | Regex "string \<Rightarrow> bool"

fun filter_match :: "name_filter \<Rightarrow> string \<Rightarrow> bool" where
  "filter_match (Prefix p) n = startswith n p"
| "filter_match (Regex f) n = f n"

definition fetch_main ::
    "'n fetch_env \<Rightarrow> json_env \<Rightarrow> string \<Rightarrow> string \<Rightarrow> name_filter \<Rightarrow> string \<Rightarrow> string option \<Rightarrow> bool \<Rightarrow> 'n \<times> files \<Rightarrow>
      ('n \<times> files) \<times> nat res" where
  "fetch_main env je repo revision flt out_dir assemble manifest_only st =
     gather_tensors env je repo revision (filter_match flt) out_dir assemble manifest_only st"

end
