(* ===== verification/Fetch_Facts.thy ===== *)
theory Fetch_Facts
  imports Fetch_Safetensors
begin

text \<open>
  Facts on the fetch: what the retried request returns, how the log grows line by line, what a completed
  fetch leaves on the disk, and how an assembled file is addressed.
\<close>

subsection \<open>Retries\<close>

definition transient :: "response \<Rightarrow> bool" where
  "transient r = (case r of Body _ _ \<Rightarrow> False | HttpError c \<Rightarrow> c \<notin> set FATAL_HTTP | NetError \<Rightarrow> True)"

definition settle :: "(int \<times> int) option \<Rightarrow> response \<Rightarrow> string res" where
  "settle rng r = (case r of
     Body code bs \<Rightarrow> if rng \<noteq> None \<and> code \<noteq> 206 then Inl RuntimeErr else Inr bs
   | _ \<Rightarrow> Inl RuntimeErr)"

text \<open>A network that answers from a script, whatever is asked.\<close>

fun scripted :: "response list net" where
  "scripted url rng [] = (NetError, [])"
| "scripted url rng (r # rs) = (r, rs)"

lemma attempts_settle:
  "http_attempts scripted url rng (length rs) (rs @ rest) =
     (case dropWhile transient rs of
        [] \<Rightarrow> (rest, Inl RuntimeErr)
      | r # later \<Rightarrow> (later @ rest, settle rng r))"
proof (induction rs)
  case (Cons r rs)
  then show ?case by (cases r) (auto simp: transient_def settle_def)
qed simp

subsection \<open>The log\<close>

lemma newlines_append: "a = [] \<or> last a \<noteq> CR \<Longrightarrow> newlines (a @ b) = newlines a @ newlines b"
proof (induction a rule: newlines.induct)
  case (2 c)
  then show ?case by (cases b) auto
next
  case (3 c d s)
  then show ?case by (cases s) auto
qed simp

lemma newlines_snoc_LF: "\<exists>x. newlines (a @ [LF]) = x @ [LF]"
proof (induction a rule: newlines.induct)
  case (3 c d s)
  show ?case
  proof (cases "c = CR \<and> d = LF")
    case True
    with 3(1) show ?thesis by (metis append_Cons newlines.simps(3))
  next
    case False
    with 3(2,3) show ?thesis by (metis append_Cons newlines.simps(3))
  qed
qed auto

lemma split_on_append_sep: "split_on c (x @ c # y) = split_on c x @ split_on c y"
proof (induction x)
  case (Cons a x)
  then show ?case by (cases "split_on c x") auto
qed simp

definition whole_lines :: "string \<Rightarrow> bool" where
  "whole_lines t \<longleftrightarrow> t = [] \<or> last t = LF"

lemma file_lines_append:
  assumes "whole_lines t" "t \<noteq> []" "one_line line"
  shows "file_lines (t @ line @ [LF]) = file_lines t @ [line]"
proof -
  from assms obtain a where t: "t = a @ [LF]" by (metis append_butlast_last_id whole_lines_def)
  obtain x where x: "newlines t = x @ [LF]" using newlines_snoc_LF t by blast
  have n: "newlines (line @ [LF]) = line @ [LF]" using assms(3) by (intro newlines_free) (auto simp: one_line_def)
  have "newlines (t @ line @ [LF]) = x @ LF # (line @ [LF])" using newlines_append [of t "line @ [LF]"] t x n by simp
  moreover have "split_on LF (line @ [LF]) = [line, []]"
    using assms(3) split_on_append [of LF line "[]"] by (simp add: one_line_def)
  ultimately have "split_on LF (newlines (t @ line @ [LF])) = split_on LF x @ [line, []]" by (simp add: split_on_append_sep)
  moreover have "split_on LF (newlines t) = split_on LF x @ [[]]" using split_on_append_sep [of LF x "[]"] x by simp
  ultimately show ?thesis by (simp add: file_lines_def butlast_append)
qed

lemma map_of_dict_of_snoc: "map_of (dict_of (kvs @ [(k, v)])) = (map_of (dict_of kvs))(k \<mapsto> v)"
  by (simp add: dict_of_def update_conv')

text \<open>What the log says after one more line: the new record, and for every other name what it said before.\<close>

lemma read_log_append:
  assumes "loads_log line = Some (n, r)" "one_line line" "whole_lines t"
  shows "map_of (read_log loads_log (Some (t @ line @ [LF]))) k =
    (if k = n then Some r else map_of (read_log loads_log (if t = [] then None else Some t)) k)"
proof (cases "t = []")
  case True
  have "file_lines (line @ [LF]) = [line]" using file_lines_join [of "[line]"] assms(2) by simp
  then show ?thesis using assms(1) True by (simp add: read_log_def dict_of_def)
next
  case False
  then show ?thesis
    using assms by (simp add: read_log_def file_lines_append map_of_dict_of_snoc)
qed

lemma read_log_empty: "loads_log [] = None \<Longrightarrow> map_of (read_log loads_log (Some [])) = Map.empty"
  by (simp add: read_log_def file_lines_def dict_of_def)

subsection \<open>Completed entries\<close>

text \<open>
  The entry is on the disk with the size of the plan, and the record of the log carries its digest: what the
  resume test looks for.
\<close>

abbreviation stored :: "(string \<Rightarrow> string) \<Rightarrow> string \<Rightarrow> (string, log_record) dict \<Rightarrow> files \<Rightarrow> fetch_entry \<Rightarrow> string \<Rightarrow> bool" where
  "stored sha out_dir prior fs e data \<equiv> already_done sha out_dir prior fs e = Some data"

lemma stored_iff:
  "stored sha out_dir prior fs e data \<longleftrightarrow>
     fs (raw_path out_dir (fe_name e)) = Some data \<and> int (length data) = fe_nbytes e \<and> sha data \<noteq> [] \<and>
     (\<exists>prev. map_of prior (fe_name e) = Some prev \<and> lr_sha prev = Some (sha data) \<and> lr_bytes prev = Some (fe_nbytes e))"
  by (auto simp: already_done_def split: option.splits if_splits)

lemma raw_not_log: "raw_path out_dir n \<noteq> log_path out_dir"
proof
  assume "raw_path out_dir n = log_path out_dir"
  then have "last (raw_path out_dir n) = last (log_path out_dir)" by simp
  then show False by (auto simp: raw_path_def log_path_def os_join_def split: if_splits)
qed

text \<open>
  What the resume relies on of the codec of the log: a line reads back as its record and stays one
  line, and the digest is never empty.
\<close>

definition log_codec :: "(string \<Rightarrow> (string \<times> log_record) option) \<Rightarrow> 'n fetch_env \<Rightarrow> fetch_entry \<Rightarrow> bool" where
  "log_codec loads_log env e \<longleftrightarrow>
     (\<forall>data. let d = env_sha env data in
        d \<noteq> [] \<and> one_line (env_dump_log env e d) \<and>
        loads_log (env_dump_log env e d) = Some (fe_name e, \<lparr>lr_sha = Some d, lr_bytes = Some (fe_nbytes e)\<rparr>))
     \<and> loads_log [] = None"

definition logged :: "(string \<Rightarrow> (string \<times> log_record) option) \<Rightarrow> string \<Rightarrow> files \<Rightarrow> string \<Rightarrow> log_record option" where
  "logged loads_log out_dir fs = map_of (read_log loads_log (fs (log_path out_dir)))"

definition log_whole :: "string \<Rightarrow> files \<Rightarrow> bool" where
  "log_whole out_dir fs \<longleftrightarrow> (\<exists>t. fs (log_path out_dir) = Some t \<and> whole_lines t)"

lemma logged_append:
  assumes "log_codec loads_log env e" "log_whole out_dir fs"
  shows "logged loads_log out_dir (append_line (log_path out_dir) (env_dump_log env e (env_sha env data)) fs)
    = (logged loads_log out_dir fs)(fe_name e \<mapsto> \<lparr>lr_sha = Some (env_sha env data), lr_bytes = Some (fe_nbytes e)\<rparr>)"
    "log_whole out_dir (append_line (log_path out_dir) (env_dump_log env e (env_sha env data)) fs)"
proof -
  from assms(2) obtain t where t: "fs (log_path out_dir) = Some t" "whole_lines t" by (auto simp: log_whole_def)
  have c: "loads_log (env_dump_log env e (env_sha env data)) = Some (fe_name e, \<lparr>lr_sha = Some (env_sha env data), lr_bytes = Some (fe_nbytes e)\<rparr>)"
    "one_line (env_dump_log env e (env_sha env data))" "loads_log [] = None"
    using assms(1) by (auto simp: log_codec_def Let_def)
  have "map_of (read_log loads_log (if t = [] then None else Some t)) = map_of (read_log loads_log (Some t))"
    using read_log_empty [of loads_log] c(3) by (auto simp: read_log_def)
  then show "logged loads_log out_dir (append_line (log_path out_dir) (env_dump_log env e (env_sha env data)) fs)
    = (logged loads_log out_dir fs)(fe_name e \<mapsto> \<lparr>lr_sha = Some (env_sha env data), lr_bytes = Some (fe_nbytes e)\<rparr>)"
    using t read_log_append [of loads_log "env_dump_log env e (env_sha env data)", OF c(1,2) t(2)]
    by (auto simp: logged_def append_line_def fun_eq_iff)
  show "log_whole out_dir (append_line (log_path out_dir) (env_dump_log env e (env_sha env data)) fs)"
    by (auto simp: log_whole_def append_line_def whole_lines_def)
qed

text \<open>One entry: afterwards it is stored with its data, and nothing else on the disk or in the log has changed.\<close>

lemma fetch_one_effect:
  assumes codec: "log_codec loads_log env e" and whole: "log_whole out_dir fs"
    and step: "fetch_one env out_dir prior e (s, fs) = ((s1, fs1), Inr data)"
    and sync: "map_of prior (fe_name e) = logged loads_log out_dir fs (fe_name e)"
  shows "stored (env_sha env) out_dir (read_log loads_log (fs1 (log_path out_dir))) fs1 e data"
    and "\<And>p. p \<noteq> log_path out_dir \<Longrightarrow> p \<noteq> raw_path out_dir (fe_name e) \<Longrightarrow> fs1 p = fs p"
    and "\<And>n. n \<noteq> fe_name e \<Longrightarrow> logged loads_log out_dir fs1 n = logged loads_log out_dir fs n"
    and "log_whole out_dir fs1"
proof -
  let ?raw = "raw_path out_dir (fe_name e)" and ?log = "log_path out_dir"
  consider (old) "stored (env_sha env) out_dir prior fs e data" "fs1 = fs"
    | (new) "int (length data) = fe_nbytes e"
        "fs1 = append_line ?log (env_dump_log env e (env_sha env data)) (fs(?raw \<mapsto> data))"
    using step by (auto simp: fetch_one_def split: option.splits prod.splits sum.splits if_splits)
  then have "stored (env_sha env) out_dir (read_log loads_log (fs1 ?log)) fs1 e data
    \<and> (\<forall>p. p \<noteq> ?log \<longrightarrow> p \<noteq> ?raw \<longrightarrow> fs1 p = fs p)
    \<and> (\<forall>n. n \<noteq> fe_name e \<longrightarrow> logged loads_log out_dir fs1 n = logged loads_log out_dir fs n) \<and> log_whole out_dir fs1"
  proof cases
    case old
    then show ?thesis using whole sync by (auto simp: stored_iff logged_def)
  next
    case new
    let ?fs = "fs(?raw \<mapsto> data)"
    have w: "log_whole out_dir ?fs" "logged loads_log out_dir ?fs = logged loads_log out_dir fs"
      using whole raw_not_log [of out_dir "fe_name e"] by (auto simp: log_whole_def logged_def)
    note app = logged_append [OF codec w(1), of data, folded new(2)]
    have "map_of (read_log loads_log (fs1 ?log)) (fe_name e) = Some \<lparr>lr_sha = Some (env_sha env data), lr_bytes = Some (fe_nbytes e)\<rparr>"
      using app(1) by (simp add: logged_def)
    moreover have "fs1 ?raw = Some data"
      using raw_not_log [of out_dir "fe_name e"] by (simp add: new(2) append_line_def)
    ultimately have "stored (env_sha env) out_dir (read_log loads_log (fs1 ?log)) fs1 e data"
      using new(1) codec by (simp add: stored_iff log_codec_def Let_def)
    then show ?thesis using app w(2) by (auto simp: new(2) append_line_def)
  qed
  then show "stored (env_sha env) out_dir (read_log loads_log (fs1 (log_path out_dir))) fs1 e data"
    "\<And>p. p \<noteq> log_path out_dir \<Longrightarrow> p \<noteq> raw_path out_dir (fe_name e) \<Longrightarrow> fs1 p = fs p"
    "\<And>n. n \<noteq> fe_name e \<Longrightarrow> logged loads_log out_dir fs1 n = logged loads_log out_dir fs n"
    "log_whole out_dir fs1"
    by blast+
qed

lemma fetch_all_frame:
  assumes "list_all (log_codec loads_log env) es" "log_whole out_dir fs"
    and "fetch_all env out_dir prior es (s, fs) = ((s1, fs1), Inr raw)"
    and "\<And>e. e \<in> set es \<Longrightarrow> map_of prior (fe_name e) = logged loads_log out_dir fs (fe_name e)"
    and "distinct (map fe_name es)" "distinct (map (raw_path out_dir \<circ> fe_name) es)"
  shows "list_all2 (\<lambda>e nd. fst nd = fe_name e \<and>
        stored (env_sha env) out_dir (read_log loads_log (fs1 (log_path out_dir))) fs1 e (snd nd)) es raw
    \<and> (\<forall>p. p \<noteq> log_path out_dir \<longrightarrow> p \<notin> (raw_path out_dir \<circ> fe_name) ` set es \<longrightarrow> fs1 p = fs p)
    \<and> (\<forall>n. n \<notin> fe_name ` set es \<longrightarrow> logged loads_log out_dir fs1 n = logged loads_log out_dir fs n)
    \<and> log_whole out_dir fs1"
  using assms
proof (induction es arbitrary: s fs raw)
  case (Cons e es)
  from Cons.prems(3) obtain s2 fs2 data raw' where one: "fetch_one env out_dir prior e (s, fs) = ((s2, fs2), Inr data)"
    and rest: "fetch_all env out_dir prior es (s2, fs2) = ((s1, fs1), Inr raw')" and raw: "raw = (fe_name e, data) # raw'"
    by (auto split: prod.splits sum.splits)
  have c: "log_codec loads_log env e" "list_all (log_codec loads_log env) es" using Cons.prems(1) by simp_all
  note eff = fetch_one_effect [OF c(1) Cons.prems(2) one Cons.prems(4) [of e, simplified]]
  have IH: "list_all2 (\<lambda>e nd. fst nd = fe_name e \<and>
        stored (env_sha env) out_dir (read_log loads_log (fs1 (log_path out_dir))) fs1 e (snd nd)) es raw'
    \<and> (\<forall>p. p \<noteq> log_path out_dir \<longrightarrow> p \<notin> (raw_path out_dir \<circ> fe_name) ` set es \<longrightarrow> fs1 p = fs2 p)
    \<and> (\<forall>n. n \<notin> fe_name ` set es \<longrightarrow> logged loads_log out_dir fs1 n = logged loads_log out_dir fs2 n)
    \<and> log_whole out_dir fs1"
  proof (rule Cons.IH [OF c(2) eff(4) rest])
    show "map_of prior (fe_name x) = logged loads_log out_dir fs2 (fe_name x)" if "x \<in> set es" for x
    proof -
      have "fe_name x \<noteq> fe_name e" using imageI [OF that, of fe_name] Cons.prems(5) by auto
      with that Cons.prems(4) [of x] eff(3) [of "fe_name x"] show ?thesis by simp
    qed
  qed (use Cons.prems in auto)
  have r: "fs1 (raw_path out_dir (fe_name e)) = fs2 (raw_path out_dir (fe_name e))"
    using IH Cons.prems(6) raw_not_log [of out_dir "fe_name e"] by auto
  have l: "logged loads_log out_dir fs1 (fe_name e) = logged loads_log out_dir fs2 (fe_name e)"
    using IH Cons.prems(5) by auto
  have "stored (env_sha env) out_dir (read_log loads_log (fs1 (log_path out_dir))) fs1 e data"
    using eff(1) r l by (simp add: stored_iff logged_def)
  with IH eff(2,3) show ?case by (auto simp: raw)
qed auto

lemma fetch_all_stored:
  assumes "list_all2 (\<lambda>e nd. fst nd = fe_name e \<and> stored (env_sha env) out_dir prior fs e (snd nd)) es raw"
  shows "fetch_all env out_dir prior es (s, fs) = ((s, fs), Inr raw)"
  using assms by (induction es raw rule: list_all2_induct) (auto simp: fetch_one_def)

subsection \<open>The assembled file\<close>

lemma length_le_chars [simp]: "length (le_chars k n) = k"
  by (induction k arbitrary: n) auto

lemma u64_of_le_chars: "u64_of (le_chars k n) = n mod 256 ^ k"
proof (induction k arbitrary: n)
  case (Suc k)
  have "u64_of (le_chars (Suc k) n) = n mod 256 + 256 * (n div 256 mod 256 ^ k)"
    by (simp add: Suc)
  also have "\<dots> = n mod (256 * 256 ^ k)" by (simp add: mod_mult2_eq)
  finally show ?case by simp
qed simp

lemma unpack_pack_u64: "pack_u64 n = Inr s \<Longrightarrow> length s = 8 \<and> unpack_u64 s = Inr n"
  by (auto simp: pack_u64_def unpack_u64_def u64_of_le_chars split: if_splits)

text \<open>A server of fixed files that honours ranges and refuses an empty one.\<close>

definition serving :: "files \<Rightarrow> 's net" where
  "serving site url rng s =
     (case site url of
        None \<Rightarrow> (HttpError 404, s)
      | Some f \<Rightarrow>
          (case rng of
             None \<Rightarrow> (Body 200 f, s)
           | Some (a, b) \<Rightarrow>
               if 0 \<le> a \<and> a \<le> b then (Body 206 (take (nat (b + 1 - a)) (drop (nat a) f)), s) else (HttpError 416, s)))"

text \<open>What the reader relies on of a server that holds the file \<open>f\<close> under \<open>url\<close>.\<close>

locale range_server =
  fixes net :: "'s net" and url :: string and f :: string
  assumes partial_content:
    "0 \<le> a \<Longrightarrow> a \<le> b \<Longrightarrow> net url (Some (a, b)) s = (Body 206 (take (nat (b + 1 - a)) (drop (nat a) f)), s)"
begin

lemma get_slice:
  "0 \<le> a \<Longrightarrow> a \<le> b \<Longrightarrow> http_get net url (Some (a, b)) s = (s, Inr (take (nat (b + 1 - a)) (drop (nat a) f)))"
  by (simp add: http_get_def partial_content numeral_eq_Suc)

text \<open>A file that starts with the packed length of its header is read as that header.\<close>

lemma header_read:
  assumes "f = prefix @ hj @ body" "pack_u64 (length hj) = Inr prefix" "hj \<noteq> []" "loads_header hj = Inr h"
  shows "read_header net loads_header url s = (s, Inr (h, 8 + int (length hj)))"
proof -
  note up = unpack_pack_u64 [OF assms(2)]
  have "Suc 0 \<le> length hj" using assms(3) by (cases hj) auto
  then have "http_get net url (Some (0, 7)) s = (s, Inr prefix)"
    "http_get net url (Some (8, 8 + int (length hj) - 1)) s = (s, Inr hj)"
    using get_slice [of 0 7 s] get_slice [of 8 "8 + int (length hj) - 1" s] up by (simp_all add: assms(1))
  then show ?thesis using up assms(4) by (simp add: read_header_def)
qed

lemma body_slice:
  assumes "f = prefix @ hj @ body" "length prefix = 8" "0 < length d" "take (length d) (drop k body) = d"
  shows "http_get net url (Some (8 + int (length hj) + int k, 8 + int (length hj) + (int k + int (length d)) - 1)) s = (s, Inr d)"
  using get_slice [of "8 + int (length hj) + int k" "8 + int (length hj) + (int k + int (length d)) - 1" s] assms
  by (simp add: nat_add_distrib)

end

interpretation served: range_server "serving (site(url \<mapsto> f))" url f for site url f
  by unfold_locales (simp add: serving_def)

lemma dvd_padded: "8 dvd length (padded h)"
proof -
  define n where "n = int (length h)"
  have "int (length (padded h)) = n + (- n) mod 8" by (simp add: padded_def n_def)
  moreover have "8 dvd n + (- n) mod 8" by presburger
  ultimately have "int 8 dvd int (length (padded h))" by simp
  then show ?thesis by (simp only: int_dvd_int_iff)
qed

lemma names_assembled: "map fst (assembled_header off es) = map fe_name es"
  by (induction es arbitrary: off) auto

lemma assembled_lookup:
  assumes "distinct (map fe_name es)" "i < length es"
  shows "map_of (assembled_header off es) (fe_name (es ! i)) = Some (snd (assembled_header off es ! i))"
proof -
  let ?h = "assembled_header off es"
  have "length ?h = length es" "fst (?h ! i) = fe_name (es ! i)"
    using names_assembled [of off es] assms(2) by (metis length_map, metis length_map nth_map)
  then have "(fe_name (es ! i), snd (?h ! i)) \<in> set ?h" using assms(2) by (metis nth_mem prod.collapse)
  then show ?thesis using assms(1) by (simp add: names_assembled)
qed

text \<open>Where the header says a tensor is, its bytes are.\<close>

lemma assembled_slice:
  assumes "list_all2 (\<lambda>e d. int (length d) = fe_nbytes e) es blobs" "i < length es" "0 \<le> off"
  shows "\<exists>k. snd (assembled_header off es ! i) = \<lparr>ti_dtype = fe_dtype (es ! i), ti_shape = fe_shape (es ! i),
        ti_offsets = (off + int k, off + int k + fe_nbytes (es ! i))\<rparr>
      \<and> take (length (blobs ! i)) (drop k (concat blobs)) = blobs ! i"
  using assms
proof (induction es blobs arbitrary: off i rule: list_all2_induct)
  case (Cons e es d blobs)
  show ?case
  proof (cases i)
    case 0
    then show ?thesis by (intro exI [of _ 0]) simp
  next
    case (Suc j)
    obtain k where k: "snd (assembled_header (off + fe_nbytes e) es ! j) = \<lparr>ti_dtype = fe_dtype (es ! j), ti_shape = fe_shape (es ! j),
        ti_offsets = (off + fe_nbytes e + int k, off + fe_nbytes e + int k + fe_nbytes (es ! j))\<rparr>"
      "take (length (blobs ! j)) (drop k (concat blobs)) = blobs ! j"
      using Cons.IH [of j "off + fe_nbytes e"] Cons.prems Cons.hyps Suc by auto
    then show ?thesis using Cons.hyps by (intro exI [of _ "length d + k"]) (simp add: Suc)
  qed
qed simp

end
