(* ===== verification/Fetch_Properties.thy ===== *)
theory Fetch_Properties
  imports Fetch_Facts
begin

text \<open>
  The properties of the tensor fetch: which response a retried request returns, that a completed fetch is
  resumed without a request, and that an assembled file can be read like a shard.
\<close>

text \<open>
  A request makes at most four attempts: it returns what the first response that is not transient settles to,
  a body (of status 206 when a range was asked for) or a refusal, and refuses after four transient ones;
  no response after that one is consumed.
\<close>

theorem http_get_first_settled:
  assumes "length rs = 4"
  shows "http_get scripted url rng (rs @ rest) =
    (case dropWhile transient rs of
       [] \<Rightarrow> (rest, Inl RuntimeErr)
     | r # later \<Rightarrow> (later @ rest, settle rng r))"
  using attempts_settle [of url rng rs rest] by (simp add: http_get_def assms)

theorem http_get_first_settled_witness:
  "http_get scripted ''u'' (Some (0, 7)) ([NetError, HttpError 503, Body 206 ''x'', NetError] @ [NetError]) = ([NetError, NetError], Inr ''x'')"
  by (subst http_get_first_settled) (simp_all add: transient_def settle_def FATAL_HTTP_def)

text \<open>
  C35. A completed fetch is resumable for free: when the fetch of a plan with distinct names and distinct raw
  files has returned, fetching the same plan again from what is then on the disk returns the same data,
  makes no request and changes no file; and the first fetch changed only the log and the raw files of the
  plan. Of the codec it is assumed that a log line reads back, and that the log ended with a whole line.
\<close>

theorem fetch_resumes_free:
  assumes "list_all (log_codec loads_log env) es" "log_whole out_dir fs"
    and "fetch_all env out_dir (read_log loads_log (fs (log_path out_dir))) es (s, fs) = ((s1, fs1), Inr raw)"
    and "distinct (map fe_name es)" "distinct (map (raw_path out_dir \<circ> fe_name) es)"
  shows "fetch_all env out_dir (read_log loads_log (fs1 (log_path out_dir))) es (s2, fs1) = ((s2, fs1), Inr raw)
    \<and> (\<forall>p. p \<noteq> log_path out_dir \<longrightarrow> p \<notin> (raw_path out_dir \<circ> fe_name) ` set es \<longrightarrow> fs1 p = fs p)"
proof -
  have "map_of (read_log loads_log (fs (log_path out_dir))) n = logged loads_log out_dir fs n" for n
    by (simp add: logged_def)
  from fetch_all_frame [OF assms(1-3) this assms(4,5)] show ?thesis
    by (auto intro: fetch_all_stored)
qed

text \<open>
  C36. An assembled file is a shard: from a server of that file, \<open>read_header\<close> returns the header that was assembled and
  a data start that is a multiple of eight, and the range the header gives for a non-empty tensor returns the bytes
  that were fetched for it.
\<close>

theorem assembled_file_served:
  fixes entries :: "fetch_entry list"
  defines "h \<equiv> assembled_header 0 entries"
  assumes asm: "assemble_file dump_header entries raw = Inr f"
    and dist: "distinct (map fe_name entries)"
    and codec: "loads_header (padded (dump_header h)) = Inr h" "dump_header h \<noteq> []"
    and sizes: "\<forall>e \<in> set entries. \<forall>d. map_of raw (fe_name e) = Some d \<longrightarrow> int (length d) = fe_nbytes e"
  shows "\<exists>start. read_header (serving (site(url \<mapsto> f))) loads_header url s = (s, Inr (h, start)) \<and> 8 dvd start \<and>
    (\<forall>e \<in> set entries. 0 < fe_nbytes e \<longrightarrow>
       (\<exists>ti. map_of h (fe_name e) = Some ti \<and> ti_shape ti = fe_shape e \<and>
          http_get (serving (site(url \<mapsto> f))) url (Some (start + fst (ti_offsets ti), start + snd (ti_offsets ti) - 1)) s
            = (s, Inr (the (map_of raw (fe_name e))))))"
proof -
  define hj where "hj = padded (dump_header h)"
  define start where "start = 8 + int (length hj)"
  have dh: "dict_of h = h" using dist by (simp add: h_def dict_of_distinct names_assembled)
  from asm obtain blobs prefix where b: "map_res (\<lambda>e. of_option KeyError (map_of raw (fe_name e))) entries = Inr blobs"
    and p: "pack_u64 (length hj) = Inr prefix" and f: "f = prefix @ hj @ concat blobs"
    by (auto simp: assemble_file_def res_simps Let_def hj_def dh [unfolded h_def] h_def)
  have hj: "hj \<noteq> []" "loads_header hj = Inr h" using codec by (auto simp: hj_def padded_def)
  have rh: "read_header (serving (site(url \<mapsto> f))) loads_header url s = (s, Inr (h, start))"
    unfolding start_def using hj(2) by (rule served.header_read [OF f p hj(1)])
  have "int 8 dvd int (length hj)" using dvd_padded by (simp only: int_dvd_int_iff hj_def)
  then have st: "8 dvd start" by (simp add: start_def)
  have lb: "length blobs = length entries" and nb: "\<And>i. i < length entries \<Longrightarrow> map_of raw (fe_name (entries ! i)) = Some (blobs ! i)"
    using b by (auto simp: map_res_Inr_iff list_all2_conv_all_nth)
  have l2: "list_all2 (\<lambda>e d. int (length d) = fe_nbytes e) entries blobs"
    using sizes nb lb by (auto simp: list_all2_conv_all_nth)
  have "\<exists>ti. map_of h (fe_name e) = Some ti \<and> ti_shape ti = fe_shape e \<and>
      http_get (serving (site(url \<mapsto> f))) url (Some (start + fst (ti_offsets ti), start + snd (ti_offsets ti) - 1)) s
        = (s, Inr (the (map_of raw (fe_name e))))" if e: "e \<in> set entries" and pos: "0 < fe_nbytes e" for e
  proof -
    obtain i where i: "i < length entries" "e = entries ! i" using e by (metis in_set_conv_nth)
    obtain k where k: "snd (h ! i) = \<lparr>ti_dtype = fe_dtype e, ti_shape = fe_shape e, ti_offsets = (int k, int k + fe_nbytes e)\<rparr>"
      "take (length (blobs ! i)) (drop k (concat blobs)) = blobs ! i"
      using assembled_slice [OF l2 i(1), of 0] by (auto simp: h_def i(2))
    have m: "map_of h (fe_name e) = Some (snd (h ! i))"
      using assembled_lookup [OF dist i(1)] by (simp add: h_def i(2))
    have n: "fe_nbytes e = int (length (blobs ! i))" using l2 i by (auto simp: list_all2_conv_all_nth)
    have "http_get (serving (site(url \<mapsto> f))) url (Some (start + int k, start + (int k + fe_nbytes e) - 1)) s = (s, Inr (blobs ! i))"
      unfolding start_def n using pos n unpack_pack_u64 [OF p] by (intro served.body_slice [OF f _ _ k(2)]) auto
    with m k(1) nb [OF i(1)] show ?thesis by (simp add: i(2))
  qed
  with rh st show ?thesis by blast
qed

subsection \<open>Witnesses\<close>

definition one_entry :: fetch_entry where
  "one_entry = \<lparr>fe_name = ''t'', fe_dtype = ''U8'', fe_shape = [2], fe_nbytes = 2, fe_begin = 1, fe_end = 3, fe_shard = ''s'', fe_url = ''u''\<rparr>"

definition sample_fetch :: "unit fetch_env" where
  "sample_fetch = \<lparr>env_net = serving [''u'' \<mapsto> ''abcd''], env_sha = (\<lambda>_. ''h''), env_dump_log = (\<lambda>_ _. ''x'')\<rparr>"

definition sample_loads :: "string \<Rightarrow> (string \<times> log_record) option" where
  "sample_loads line = (if line = ''x'' then Some (''t'', \<lparr>lr_sha = Some ''h'', lr_bytes = Some 2\<rparr>) else None)"

lemma sample_http: "http_get (serving [''u'' \<mapsto> ''abcd'']) ''u'' (Some (1, 2)) s = (s, Inr ''bc'')"
  using served.get_slice [of 1 2 Map.empty "''u''" "''abcd''" s] by (simp add: numeral_eq_Suc)

lemma sample_fetched:
  "\<exists>fs1. fetch_all sample_fetch ''o'' (read_log sample_loads (Some [])) [one_entry] ((), [log_path ''o'' \<mapsto> []]) = (((), fs1), Inr [(''t'', ''bc'')])"
proof -
  have "map_of (read_log sample_loads (Some [])) = Map.empty" by (rule read_log_empty) (simp add: sample_loads_def)
  then show ?thesis
    by (simp add: fetch_one_def already_done_def sample_fetch_def one_entry_def sample_http)
qed

theorem fetch_resumes_free_witness:
  "\<exists>fs1. fetch_all sample_fetch ''o'' (read_log sample_loads (fs1 (log_path ''o''))) [one_entry] ((), fs1) = (((), fs1), Inr [(''t'', ''bc'')])"
proof -
  define fs where "fs = [log_path ''o'' \<mapsto> ([] :: string)]"
  have lp: "fs (log_path ''o'') = Some []" by (simp add: fs_def)
  obtain fs1 where f: "fetch_all sample_fetch ''o'' (read_log sample_loads (fs (log_path ''o''))) [one_entry] ((), fs)
      = (((), fs1), Inr [(''t'', ''bc'')])"
    using sample_fetched [folded fs_def] lp by auto
  have c: "list_all (log_codec sample_loads sample_fetch) [one_entry]"
    by (simp add: log_codec_def sample_loads_def sample_fetch_def one_entry_def one_line_def)
  have w: "log_whole ''o'' fs" by (simp add: log_whole_def lp whole_lines_def)
  from fetch_resumes_free [OF c w f] show ?thesis by auto
qed

theorem assembled_file_served_witness:
  "\<exists>f start. assemble_file (\<lambda>_. ''12345678'') [one_entry] [(''t'', ''bc'')] = Inr f \<and>
     read_header (serving [''u'' \<mapsto> f]) (\<lambda>_. Inr (assembled_header 0 [one_entry])) ''u'' () = ((), Inr (assembled_header 0 [one_entry], start))"
proof -
  obtain f where f: "assemble_file (\<lambda>_. ''12345678'') [one_entry] [(''t'', ''bc'')] = Inr f"
    by (simp add: assemble_file_def one_entry_def padded_def pack_u64_def)
  have "(\<exists>start. read_header (serving [''u'' \<mapsto> f]) (\<lambda>_. Inr (assembled_header 0 [one_entry])) ''u'' ()
      = ((), Inr (assembled_header 0 [one_entry], start)))"
    using assembled_file_served [OF f, of "\<lambda>_. Inr (assembled_header 0 [one_entry])" Map.empty "''u''" "()"]
    by (auto simp: one_entry_def)
  with f show ?thesis by blast
qed

end
