(* ===== verification/Dense_U8.thy ===== *)
theory Dense_U8
  imports Py_Text Py_Float
begin

text \<open>
  The dense projections in the u8 group form, \<open>tools/q4e/dense_u8.py\<close>: recovering codes and a scale for
  every group of sixteen weights, the decompression, and the plan that decides which
  projections of a graph are converted. Writing the chain of operators into the graph is left out.

  The vectorised search is written for one group: the source keeps a mask of the groups that are done, and a
  group takes the first step that fits. The weights are finite singles; the scales are then finite singles too, but
  converting one to float16 may overflow, so values of the decompression are finite, infinite or NaN.
\<close>

definition GROUP :: nat where "GROUP = 16"

definition ZP :: int where "ZP = 32"

definition QMIN :: int where "QMIN = -32"

definition QMAX :: int where "QMAX = 31"

subsection \<open>Recovering a group\<close>

definition step_candidates :: "(int \<times> rat) list" where
  "step_candidates = concat (map (\<lambda>kk. [(kk, 1), (kk, -1)]) (rev [1..32]))"

definition try_step :: "rat \<Rightarrow> rat list \<Rightarrow> rat \<Rightarrow> int \<times> rat \<Rightarrow> (int list \<times> rat) option" where
  "try_step tol ws m c =
     (let sk = f64 (snd c * m / of_int (fst c));
          qf = map (\<lambda>x. f64 (x / sk)) ws;
          qi = map round_half_even qf
      in if list_all (\<lambda>x. \<bar>f64 (x - of_int (round_half_even x))\<bar> \<le> tol) qf
            \<and> list_all (\<lambda>q. QMIN \<le> q) qi \<and> list_all (\<lambda>q. q \<le> QMAX) qi
         then Some (qi, sk) else None)"

fun first_fit :: "rat \<Rightarrow> rat list \<Rightarrow> rat \<Rightarrow> (int \<times> rat) list \<Rightarrow> (int list \<times> rat) option" where
  "first_fit tol ws m [] = None"
| "first_fit tol ws m (c # cs) =
     (case try_step tol ws m c of Some r \<Rightarrow> Some r | None \<Rightarrow> first_fit tol ws m cs)"

type_synonym u8_group = "int list \<times> rat \<times> bool"

definition coarsest :: "int list \<Rightarrow> rat \<Rightarrow> bool \<Rightarrow> u8_group" where
  "coarsest q s ok =
     (let g0 = fold gcd (map abs q) 0; g = (if g0 = 0 then 1 else g0)
      in (map (\<lambda>x. (x div g + ZP) mod 256) q, f32 (f64 (s * of_int g)), ok))"

definition recover_group :: "rat \<Rightarrow> rat list \<Rightarrow> u8_group" where
  "recover_group tol ws =
     (let m = Max (set (map abs ws)) in
      if m = 0 then coarsest (map (\<lambda>_. 0) ws) 0 True
      else (case first_fit tol ws m step_candidates of
              None \<Rightarrow> coarsest (map (\<lambda>_. 0) ws) 0 False
            | Some (q, s) \<Rightarrow> coarsest q s True))"

definition recover_groups :: "rat \<Rightarrow> nat \<Rightarrow> nat \<Rightarrow> rat list list \<Rightarrow> u8_group list list res" where
  "recover_groups tol rows_per_chunk k w =
     (if k mod GROUP \<noteq> 0 then Inl AssertionErr
      else if rows_per_chunk = 0 then Inl ValueErr
      else if k = 0 \<and> w \<noteq> [] then Inl ZeroDivision
      else Inr (concat (map (\<lambda>block. chunks (k div GROUP) (map (recover_group tol) (chunks GROUP (concat block))))
                         (chunks rows_per_chunk w))))"

subsection \<open>Decompression\<close>

text \<open>A float16 value; an infinity carries whether it is negative.\<close>

datatype half = Finite rat | Infinite bool | NotANumber

text \<open>\<open>astype(np.float16)\<close>: what rounds to \<open>2^16\<close> or above is beyond the largest half.\<close>

definition to_half :: "rat \<Rightarrow> half" where
  "to_half x = (let y = f16 x in if 65536 \<le> \<bar>y\<bar> then Infinite (y < 0) else Finite y)"

fun half_mult :: "rat \<Rightarrow> half \<Rightarrow> half" where
  "half_mult a (Finite b) = to_half (a * b)"
| "half_mult a (Infinite neg) = (if a = 0 then NotANumber else Infinite (neg \<noteq> (a < 0)))"
| "half_mult a NotANumber = NotANumber"

definition decode_u8 :: "(int list \<times> half) list \<Rightarrow> half list" where
  "decode_u8 groups =
     concat (map (\<lambda>(q, s16). map (\<lambda>x. half_mult (f16 (f16 (of_int x) - f16 (of_int ZP))) s16) q) groups)"

subsection \<open>The plan\<close>

definition REL_MAX :: rat where "REL_MAX = 1 / 2 ^ 9"

record target =
  tg_node :: nat
  tg_type :: string
  tg_index :: nat
  tg_transpose_a :: bool
  tg_transpose_b :: bool

record dense_node =
  nd_type :: string
  nd_f32 :: bool
  nd_shape :: "nat list"
  nd_targets :: "target list"
  nd_name :: string
  nd_data :: "rat list list"

datatype kept_reason =
    SharedExpert | AttentionKV | ShapeNotListed nat nat | NotAMultiple nat | NotRecovered nat nat | ScaleRounding half

record dense_report =
  converted :: "(string \<times> nat \<times> nat \<times> half) list"
  kept :: "(string \<times> kept_reason) list"
  f16_bytes :: nat
  u8_bytes :: nat

type_synonym u8_plan = "nat \<times> string \<times> (int list \<times> half) list list"

definition shapes_only :: "string \<Rightarrow> string list" where
  "shapes_only env = filter (\<lambda>x. x \<noteq> []) (map strip (split_on CHR '','' env))"

definition ends_with :: "string \<Rightarrow> string \<Rightarrow> bool" where
  "ends_with s p = startswith (rev s) (rev p)"

text \<open>The sole consumer of an eligible constant: the second input of a MatMul that transposes only it.\<close>

definition eligible :: "nat \<Rightarrow> dense_node \<Rightarrow> target option" where
  "eligible min_elems node =
     (if nd_type node \<noteq> ''Constant'' \<or> \<not> nd_f32 node then None
      else if length (nd_shape node) \<noteq> 2 \<or> nd_shape node ! 0 * nd_shape node ! 1 < min_elems then None
      else (case nd_targets node of
              [t] \<Rightarrow>
                if tg_type t \<noteq> ''MatMul'' \<or> tg_index t \<noteq> 1 then None
                else if \<not> tg_transpose_b t \<or> tg_transpose_a t then None else Some t
            | _ \<Rightarrow> None))"

text \<open>One element of \<open>np.abs(dec - w) / np.maximum(np.abs(w), 1e-30)\<close> in float32, the maximum that NaN passes through, and the
  comparison that is false of NaN.\<close>

fun deviation :: "half \<times> rat \<Rightarrow> half" where
  "deviation (Finite d, x) = Finite (f32 (\<bar>f32 (d - x)\<bar> / max \<bar>x\<bar> (f32 (1 / 10 ^ 30))))"
| "deviation (Infinite neg, x) = Infinite False"
| "deviation (NotANumber, x) = NotANumber"

fun half_max :: "half \<Rightarrow> half \<Rightarrow> half" where
  "half_max NotANumber y = NotANumber"
| "half_max x NotANumber = NotANumber"
| "half_max (Infinite False) y = Infinite False"
| "half_max x (Infinite False) = Infinite False"
| "half_max (Infinite True) y = y"
| "half_max x (Infinite True) = x"
| "half_max (Finite x) (Finite y) = Finite (max x y)"

definition relative_deviation :: "half list list \<Rightarrow> rat list list \<Rightarrow> half" where
  "relative_deviation dec w = fold half_max (map deviation (zip (concat dec) (concat w))) (Finite 0)"

fun half_above :: "half \<Rightarrow> rat \<Rightarrow> bool" where
  "half_above (Finite x) b = (b < x)"
| "half_above (Infinite neg) b = (\<not> neg)"
| "half_above NotANumber b = False"

definition keep_node :: "dense_node \<Rightarrow> kept_reason \<Rightarrow> u8_plan list \<times> dense_report \<Rightarrow> u8_plan list \<times> dense_report" where
  "keep_node node why st = (fst st, (snd st)\<lparr>kept := kept (snd st) @ [(nd_name node, why)]\<rparr>)"

definition plan_node :: "string list \<Rightarrow> nat \<Rightarrow> dense_node \<Rightarrow> u8_plan list \<times> dense_report \<Rightarrow> (u8_plan list \<times> dense_report) res" where
  "plan_node only min_elems node st =
     (case eligible min_elems node of
        None \<Rightarrow> Inr st
      | Some t \<Rightarrow>
          let name = nd_name node; n = nd_shape node ! 0; k = nd_shape node ! 1; w = nd_data node in
          if startswith name ''shared_expert'' then Inr (keep_node node SharedExpert st)
          else if ends_with name ''/k_proj'' \<or> ends_with name ''/v_proj'' then Inr (keep_node node AttentionKV st)
          else if only \<noteq> [] \<and> str_nat n @ ''x'' @ str_nat k \<notin> set only then Inr (keep_node node (ShapeNotListed n k) st)
          else if k mod GROUP \<noteq> 0 then Inr (keep_node node (NotAMultiple k) st)
          else
            rbind (recover_groups (f64 (1 / 1000)) 4096 k w) (\<lambda>gs.
            let bad = filter (\<lambda>g. \<not> snd (snd g)) (concat gs) in
            if bad \<noteq> [] then Inr (keep_node node (NotRecovered (length bad) (length (concat gs))) st)
            else
              let q16 = map (map (\<lambda>(q, s, ok). (q, to_half s))) gs;
                  rel = relative_deviation (map decode_u8 q16) w
              in if half_above rel REL_MAX then Inr (keep_node node (ScaleRounding rel) st)
                 else Inr (fst st @ [(tg_node t, name, q16)],
                           (snd st)\<lparr>converted := converted (snd st) @ [(name, n, k, rel)],
                                     f16_bytes := f16_bytes (snd st) + n * k * 2,
                                     u8_bytes := u8_bytes (snd st) + (n * k + n * (k div GROUP) * 2)\<rparr>)))"

fun plan_nodes :: "string list \<Rightarrow> nat \<Rightarrow> dense_node list \<Rightarrow> u8_plan list \<times> dense_report \<Rightarrow> (u8_plan list \<times> dense_report) res" where
  "plan_nodes only min_elems [] st = Inr st"
| "plan_nodes only min_elems (node # nodes) st =
     rbind (plan_node only min_elems node st) (plan_nodes only min_elems nodes)"

definition dense_plan :: "string \<Rightarrow> nat \<Rightarrow> dense_node list \<Rightarrow> (u8_plan list \<times> dense_report) res" where
  "dense_plan env min_elems nodes =
     plan_nodes (shapes_only env) min_elems nodes ([], \<lparr>converted = [], kept = [], f16_bytes = 0, u8_bytes = 0\<rparr>)"

end
