(* ===== verification/Dense_Facts.thy ===== *)
theory Dense_Facts
  imports Dense_U8
begin

text \<open>
  Facts on the group recovery: what a fitting step says about the
  weights, that dividing by the common divisor keeps the product, and why a group of integer
  multiples always fits.
\<close>

subsection \<open>The common divisor\<close>

lemma fold_gcd_dvd: "x \<in> set xs \<Longrightarrow> fold gcd xs a dvd x" "fold gcd xs a dvd (a :: int)"
proof (induction xs arbitrary: a)
  case (Cons y ys)
  { case 1
    then show ?case using Cons.IH by (auto intro: dvd_trans [OF Cons.IH(2)])
  next
    case 2
    show ?case using dvd_trans [OF Cons.IH(2) gcd_dvd2, of y a] by simp
  }
qed auto

definition divisor :: "int list \<Rightarrow> int" where
  "divisor q = (let g0 = fold gcd (map abs q) 0 in if g0 = 0 then 1 else g0)"

lemma fold_gcd_nonneg: "0 \<le> a \<Longrightarrow> 0 \<le> fold gcd xs (a :: int)"
  by (induction xs arbitrary: a) auto

lemma divisor_pos: "1 \<le> divisor q"
  using fold_gcd_nonneg [of 0 "map abs q"] by (auto simp: divisor_def Let_def)

lemma divisor_dvd: "x \<in> set q \<Longrightarrow> divisor q dvd x"
  using fold_gcd_dvd(1) [of "\<bar>x\<bar>" "map abs q" 0] by (auto simp: divisor_def Let_def)

lemma coarsest_alt:
  "coarsest q s ok = (map (\<lambda>x. (x div divisor q + ZP) mod 256) q, f32 (f64 (s * of_int (divisor q))), ok)"
  by (simp add: coarsest_def divisor_def Let_def)

lemma div_range:
  fixes x g :: int
  assumes "1 \<le> g" "g dvd x" "-32 \<le> x" "x \<le> 31"
  shows "-32 \<le> x div g \<and> x div g \<le> 31"
proof -
  obtain y where y: "x = g * y" using assms(2) by auto
  have "x div g = y" using assms(1) y by simp
  moreover have "y \<le> x" if "0 \<le> y" using mult_right_mono [OF assms(1) that] by (simp add: y)
  moreover have "x \<le> y" if "y < 0" using mult_right_mono_neg [OF assms(1), of y] that by (simp add: y)
  ultimately show ?thesis using assms(3,4) by linarith
qed

subsection \<open>A step that fits\<close>

lemma try_step_Some:
  "try_step tol ws m c = Some (q, sk) \<longleftrightarrow>
     sk = f64 (snd c * m / of_int (fst c)) \<and> q = map (\<lambda>x. round_half_even (f64 (x / sk))) ws \<and>
     (\<forall>x \<in> set ws. let y = f64 (x / sk) in
        \<bar>f64 (y - of_int (round_half_even y))\<bar> \<le> tol \<and> QMIN \<le> round_half_even y \<and> round_half_even y \<le> QMAX)"
  by (auto simp: try_step_def Let_def list_all_iff comp_def)

lemma first_fit_Some: "first_fit tol ws m cs = Some r \<Longrightarrow> \<exists>c \<in> set cs. try_step tol ws m c = Some r"
  by (induction cs) (auto split: option.splits)

lemma first_fit_exists: "c \<in> set cs \<Longrightarrow> try_step tol ws m c = Some r \<Longrightarrow> \<exists>r. first_fit tol ws m cs = Some r"
  by (induction cs) (auto split: option.splits)

lemma candidates: "c \<in> set step_candidates \<longleftrightarrow> 1 \<le> fst c \<and> fst c \<le> 32 \<and> (snd c = 1 \<or> snd c = -1)"
  by (cases c) (auto simp: step_candidates_def)

lemma step_size:
  assumes "1 / 2 ^ 100 \<le> m" "c \<in> set step_candidates"
  shows "\<bar>f64 (snd c * m / of_int (fst c)) - snd c * m / of_int (fst c)\<bar> \<le> m / of_int (fst c) / 2 ^ 53"
    and "m / of_int (fst c) * (1 - 1 / 2 ^ 53) \<le> \<bar>f64 (snd c * m / of_int (fst c))\<bar>"
    and "1 / 2 ^ 105 \<le> m / of_int (fst c)"
proof -
  have k: "1 \<le> fst c" "fst c \<le> 32" "\<bar>snd c\<bar> = 1" using assms(2) by (auto simp: candidates)
  have m: "0 < m" using assms(1) by (meson less_le_trans zero_less_divide_1_iff zero_less_numeral zero_less_power)
  let ?x = "snd c * m / of_int (fst c)"
  have kr: "(1::rat) \<le> of_int (fst c)" "of_int (fst c) \<le> (32::rat)" using k by simp_all
  have ax: "\<bar>?x\<bar> = m / of_int (fst c)" using k m by (simp add: abs_mult)
  have "m / 32 \<le> m / of_int (fst c)" using kr m by (intro divide_left_mono) auto
  moreover have "(1::rat) / 2 ^ 105 = 1 / 2 ^ 100 / 32" by simp
  ultimately show low: "1 / 2 ^ 105 \<le> m / of_int (fst c)"
    using divide_right_mono [OF assms(1), of 32] by linarith
  have "(1::rat) / 2 ^ 1000 \<le> 1 / 2 ^ 105" by simp
  then have "1 / 2 ^ 1000 \<le> \<bar>?x\<bar>" unfolding ax by (rule order_trans [OF _ low])
  from f64_rel [OF this] show e: "\<bar>f64 ?x - ?x\<bar> \<le> m / of_int (fst c) / 2 ^ 53" unfolding ax .
  have "\<bar>?x\<bar> \<le> \<bar>f64 ?x\<bar> + \<bar>f64 ?x - ?x\<bar>" by linarith
  with e have "m / of_int (fst c) - m / of_int (fst c) / 2 ^ 53 \<le> \<bar>f64 ?x\<bar>" unfolding ax by linarith
  then show "m / of_int (fst c) * (1 - 1 / 2 ^ 53) \<le> \<bar>f64 ?x\<bar>" by (simp add: right_diff_distrib)
qed

text \<open>A weight no larger than the maximum is less than 64 steps, and its code is close to the quotient.\<close>

lemma quotient_bound:
  assumes "1 / 2 ^ 100 \<le> m" "c \<in> set step_candidates" "\<bar>x\<bar> \<le> m" and sk: "sk = f64 (snd c * m / of_int (fst c))"
  shows "sk \<noteq> 0" "\<bar>x / sk\<bar> < 64"
proof -
  have k: "1 \<le> fst c" "fst c \<le> 32" using assms(2) by (auto simp: candidates)
  define u where "u = m / of_int (fst c)"
  have u: "1 / 2 ^ 105 \<le> u" "u * (1 - 1 / 2 ^ 53) \<le> \<bar>sk\<bar>"
    using step_size [OF assms(1,2)] by (simp_all add: u_def sk)
  have u0: "0 < u" using u(1) by (meson less_le_trans zero_less_divide_1_iff zero_less_numeral zero_less_power)
  have half: "u / 2 < \<bar>sk\<bar>" using u(2) u0 by simp
  with u0 show sk0: "sk \<noteq> 0" by auto
  have "m = u * of_int (fst c)" using k by (simp add: u_def)
  also have "\<dots> \<le> u * 32" using u0 k by (intro mult_left_mono) auto
  also have "\<dots> < 64 * \<bar>sk\<bar>" using half by simp
  finally have "\<bar>x\<bar> < 64 * \<bar>sk\<bar>" using assms(3) by simp
  with sk0 show "\<bar>x / sk\<bar> < 64" by (simp add: divide_less_eq)
qed

lemma fitting_weight:
  assumes "sk \<noteq> 0" "\<bar>x / sk\<bar> < 64" and fit: "\<bar>f64 (f64 (x / sk) - of_int (round_half_even (f64 (x / sk))))\<bar> \<le> tol"
  shows "\<bar>x - of_int (round_half_even (f64 (x / sk))) * sk\<bar> \<le> \<bar>sk\<bar> * (tol + 1 / 2 ^ 47)"
proof -
  let ?y = "f64 (x / sk)" and ?q = "of_int (round_half_even (f64 (x / sk))) :: rat"
  have e1: "\<bar>?y - x / sk\<bar> \<le> 1 / 2 ^ 48" by (rule f64_small [OF assms(2)])
  have "\<bar>?q - ?y\<bar> \<le> 1 / 2" by (rule round_half_even_error)
  then have "\<bar>?y - ?q\<bar> < 64" by linarith
  from f64_small [OF this] fit have e2: "\<bar>?y - ?q\<bar> \<le> tol + 1 / 2 ^ 48" by linarith
  have "\<bar>x / sk - ?q\<bar> \<le> \<bar>?y - ?q\<bar> + \<bar>?y - x / sk\<bar>" by linarith
  also have "\<dots> \<le> tol + 1 / 2 ^ 48 + 1 / 2 ^ 48" using e1 e2 by linarith
  also have "\<dots> = tol + 1 / 2 ^ 47" by simp
  finally have "\<bar>sk\<bar> * \<bar>x / sk - ?q\<bar> \<le> \<bar>sk\<bar> * (tol + 1 / 2 ^ 47)" by (intro mult_left_mono) auto
  moreover have "\<bar>sk\<bar> * \<bar>x / sk - ?q\<bar> = \<bar>x - ?q * sk\<bar>"
    using assms(1) by (simp add: abs_mult [symmetric] right_diff_distrib mult.commute)
  ultimately show ?thesis by simp
qed

subsection \<open>The stored scale\<close>

lemma stored_scale:
  assumes "1 / 2 ^ 106 \<le> \<bar>t\<bar>"
  shows "\<bar>f32 (f64 t) - t\<bar> \<le> \<bar>t\<bar> / 2 ^ 23" "\<bar>f32 (f64 t) - t\<bar> \<le> \<bar>t\<bar> * (1 / 2 ^ 24 + 1 / 2 ^ 52)"
proof -
  have "(1::rat) / 2 ^ 1000 \<le> 1 / 2 ^ 106" by simp
  then have "1 / 2 ^ 1000 \<le> \<bar>t\<bar>" by (rule order_trans [OF _ assms])
  from f64_rel [OF this] have e1: "\<bar>f64 t - t\<bar> \<le> \<bar>t\<bar> / 2 ^ 53" .
  then have b: "\<bar>f64 t\<bar> \<le> \<bar>t\<bar> + \<bar>t\<bar> / 2 ^ 53" "\<bar>t\<bar> - \<bar>t\<bar> / 2 ^ 53 \<le> \<bar>f64 t\<bar>" by linarith+
  then have a: "\<bar>f64 t\<bar> \<le> \<bar>t\<bar> * (1 + 1 / 2 ^ 53)" "\<bar>t\<bar> / 2 \<le> \<bar>f64 t\<bar>"
    using abs_ge_zero [of t] by (simp_all add: distrib_left)
  have "(1::rat) / 2 ^ 126 \<le> 1 / 2 ^ 106 / 2" by simp
  also have "\<dots> \<le> \<bar>t\<bar> / 2" using assms by (intro divide_right_mono) auto
  also have "\<dots> \<le> \<bar>f64 t\<bar>" by (rule a(2))
  finally have e2: "\<bar>f32 (f64 t) - f64 t\<bar> \<le> \<bar>f64 t\<bar> / 2 ^ 24" by (rule f32_rel)
  have "\<bar>f32 (f64 t) - t\<bar> \<le> \<bar>f64 t\<bar> / 2 ^ 24 + \<bar>t\<bar> / 2 ^ 53" using e1 e2 by linarith
  also have "\<dots> \<le> \<bar>t\<bar> * (1 + 1 / 2 ^ 53) / 2 ^ 24 + \<bar>t\<bar> / 2 ^ 53" using a(1) by (simp add: divide_right_mono)
  finally have f: "\<bar>f32 (f64 t) - t\<bar> \<le> \<bar>t\<bar> * (1 + 1 / 2 ^ 53) / 2 ^ 24 + \<bar>t\<bar> / 2 ^ 53" .
  then show "\<bar>f32 (f64 t) - t\<bar> \<le> \<bar>t\<bar> * (1 / 2 ^ 24 + 1 / 2 ^ 52)" "\<bar>f32 (f64 t) - t\<bar> \<le> \<bar>t\<bar> / 2 ^ 23"
    using abs_ge_zero [of t] by (simp_all add: algebra_simps)
qed

lemma decoded_weight:
  fixes x sk tol :: rat and z g :: int
  assumes sk: "1 / 2 ^ 106 \<le> \<bar>sk\<bar>" and g: "1 \<le> g" and z: "\<bar>z * g\<bar> \<le> 32" and tol: "0 \<le> tol" "tol \<le> 1"
    and fit: "\<bar>x - of_int (z * g) * sk\<bar> \<le> \<bar>sk\<bar> * (tol + 1 / 2 ^ 47)"
    and s: "s = f32 (f64 (sk * of_int g))"
  shows "\<bar>x - of_int z * s\<bar> \<le> (tol + 1 / 2 ^ 18) * \<bar>s\<bar>"
proof -
  define t where "t = sk * of_int g"
  have gr: "(1::rat) \<le> of_int g" using g by simp
  have skt: "\<bar>sk\<bar> \<le> \<bar>t\<bar>" using mult_left_mono [OF gr, of "\<bar>sk\<bar>"] g by (simp add: t_def abs_mult)
  then have "1 / 2 ^ 106 \<le> \<bar>t\<bar>" using sk by linarith
  note e = stored_scale [OF this, folded s [folded t_def]]
  have "\<bar>of_int z * s - of_int z * t\<bar> = \<bar>of_int z\<bar> * \<bar>s - t\<bar>" by (simp add: abs_mult right_diff_distrib [symmetric])
  also have "\<dots> \<le> \<bar>of_int z\<bar> * (\<bar>t\<bar> * (1 / 2 ^ 24 + 1 / 2 ^ 52))" using e(2) by (intro mult_left_mono) auto
  also have "\<dots> = of_int \<bar>z * g\<bar> * \<bar>sk\<bar> * (1 / 2 ^ 24 + 1 / 2 ^ 52)" by (simp add: t_def abs_mult)
  also have "\<dots> \<le> 32 * \<bar>sk\<bar> * (1 / 2 ^ 24 + 1 / 2 ^ 52)"
  proof -
    have "(of_int \<bar>z * g\<bar> :: rat) \<le> 32" using z by (metis of_int_le_iff of_int_numeral)
    then show ?thesis by (intro mult_right_mono) auto
  qed
  finally have d: "\<bar>of_int z * s - of_int z * t\<bar> \<le> 32 * \<bar>sk\<bar> * (1 / 2 ^ 24 + 1 / 2 ^ 52)" .
  have zt: "of_int (z * g) * sk = of_int z * t" by (simp add: t_def)
  have "\<bar>x - of_int z * s\<bar> \<le> \<bar>sk\<bar> * (tol + 1 / 2 ^ 47) + 32 * \<bar>sk\<bar> * (1 / 2 ^ 24 + 1 / 2 ^ 52)"
    using fit d unfolding zt by linarith
  also have "\<dots> = \<bar>sk\<bar> * (tol + (1 / 2 ^ 47 + 32 * (1 / 2 ^ 24 + 1 / 2 ^ 52)))" by (simp add: algebra_simps)
  also have "\<dots> \<le> \<bar>t\<bar> * (tol + (1 / 2 ^ 47 + 32 * (1 / 2 ^ 24 + 1 / 2 ^ 52)))"
    using skt tol(1) by (intro mult_right_mono) auto
  also have "\<dots> \<le> \<bar>t\<bar> * ((tol + 1 / 2 ^ 18) * (1 - 1 / 2 ^ 23))"
    using tol by (intro mult_left_mono) (auto simp: algebra_simps)
  also have "\<dots> = (tol + 1 / 2 ^ 18) * (\<bar>t\<bar> * (1 - 1 / 2 ^ 23))" by (simp only: mult.commute mult.left_commute)
  also have "\<dots> \<le> (tol + 1 / 2 ^ 18) * \<bar>s\<bar>"
  proof (rule mult_left_mono)
    have "\<bar>t\<bar> - \<bar>t\<bar> / 2 ^ 23 \<le> \<bar>s\<bar>" using e(1) by linarith
    then show "\<bar>t\<bar> * (1 - 1 / 2 ^ 23) \<le> \<bar>s\<bar>" by (simp add: right_diff_distrib)
  qed (use tol(1) in simp)
  finally show ?thesis .
qed

subsection \<open>A recovered group\<close>

definition largest :: "rat list \<Rightarrow> rat" where
  "largest ws = Max (set (map abs ws))"

lemma le_largest: "x \<in> set ws \<Longrightarrow> \<bar>x\<bar> \<le> largest ws"
  by (auto simp: largest_def)

lemma recover_group_fits:
  assumes "largest ws \<noteq> 0" "recover_group tol ws = (qs, s, True)"
  obtains c q sk where "c \<in> set step_candidates" "try_step tol ws (largest ws) c = Some (q, sk)"
    "qs = map (\<lambda>x. (x div divisor q + ZP) mod 256) q" "s = f32 (f64 (sk * of_int (divisor q)))"
proof -
  from assms obtain q sk where f: "first_fit tol ws (largest ws) step_candidates = Some (q, sk)"
    and r: "(qs, s, True) = coarsest q sk True"
    by (auto simp: recover_group_def Let_def largest_def coarsest_alt split: option.splits)
  from first_fit_Some [OF f] r that show thesis by (auto simp: coarsest_alt)
qed

lemma recover_group_fails:
  assumes "recover_group tol ws = (qs, s, False)"
  shows "qs = map (\<lambda>_. ZP) ws \<and> s = 0"
  using assms by (auto simp: recover_group_def Let_def coarsest_alt ZP_def f32_zero f64_zero split: if_splits option.splits)

lemma recovered_weight:
  assumes big: "1 / 2 ^ 100 \<le> largest ws" and tol: "0 \<le> tol" "tol \<le> 1"
    and rec: "recover_group tol ws = (qs, s, True)" and i: "i < length ws"
  shows "length qs = length ws \<and> 0 \<le> qs ! i \<and> qs ! i \<le> 63 \<and> \<bar>ws ! i - of_int (qs ! i - ZP) * s\<bar> \<le> (tol + 1 / 2 ^ 18) * \<bar>s\<bar>"
proof -
  have "0 < largest ws" using big by (meson less_le_trans zero_less_divide_1_iff zero_less_numeral zero_less_power)
  then have "largest ws \<noteq> 0" by simp
  then obtain c q sk where c: "c \<in> set step_candidates" "try_step tol ws (largest ws) c = Some (q, sk)"
    and qs: "qs = map (\<lambda>x. (x div divisor q + ZP) mod 256) q" and s: "s = f32 (f64 (sk * of_int (divisor q)))"
    by (rule recover_group_fits [OF _ rec])
  let ?x = "ws ! i" and ?g = "divisor q"
  have xin: "?x \<in> set ws" using i by simp
  from c(2) have sk: "sk = f64 (snd c * largest ws / of_int (fst c))" and q: "q = map (\<lambda>x. round_half_even (f64 (x / sk))) ws"
    and fit: "\<bar>f64 (f64 (?x / sk) - of_int (round_half_even (f64 (?x / sk))))\<bar> \<le> tol"
      "-32 \<le> round_half_even (f64 (?x / sk))" "round_half_even (f64 (?x / sk)) \<le> 31"
    using xin by (auto simp: try_step_Some Let_def QMIN_def QMAX_def)
  have qi: "q ! i = round_half_even (f64 (?x / sk))" "q ! i \<in> set q" "length q = length ws" using i by (auto simp: q)
  note b = quotient_bound [OF big c(1) le_largest [OF xin] sk]
  define z where "z = q ! i div ?g"
  have g: "1 \<le> ?g" "?g dvd q ! i" using divisor_pos divisor_dvd [OF qi(2)] by auto
  have zr: "-32 \<le> z" "z \<le> 31" using div_range [OF g] fit(2,3) by (auto simp: z_def qi(1))
  have zg: "z * ?g = q ! i" using g(2) by (simp add: z_def)
  have code: "qs ! i = z + 32" using zr i qi(3) by (simp add: qs z_def ZP_def)
  have u: "1 / 2 ^ 105 \<le> largest ws / of_int (fst c)" "largest ws / of_int (fst c) * (1 - 1 / 2 ^ 53) \<le> \<bar>sk\<bar>"
    using step_size(2,3) [OF big c(1)] by (simp_all add: sk)
  have "(1::rat) / 2 ^ 106 \<le> 1 / 2 ^ 105 * (1 - 1 / 2 ^ 53)" by simp
  also have "\<dots> \<le> largest ws / of_int (fst c) * (1 - 1 / 2 ^ 53)" using u(1) by (intro mult_right_mono) auto
  also have "\<dots> \<le> \<bar>sk\<bar>" by (rule u(2))
  finally have sk0: "1 / 2 ^ 106 \<le> \<bar>sk\<bar>" .
  have "\<bar>?x - of_int (z * ?g) * sk\<bar> \<le> \<bar>sk\<bar> * (tol + 1 / 2 ^ 47)"
    using fitting_weight [OF b fit(1)] by (simp add: zg qi(1))
  from decoded_weight [OF sk0 g(1) _ tol this s] have "\<bar>?x - of_int z * s\<bar> \<le> (tol + 1 / 2 ^ 18) * \<bar>s\<bar>"
    using fit(2,3) by (simp add: zg qi(1))
  then show ?thesis using zr code qi(3) by (simp add: qs ZP_def)
qed

subsection \<open>Groups of multiples fit\<close>

text \<open>
  The weights are integer multiples of a scale within the rounding of a single: what the Q6_K
  blocks of a checkpoint decode to.
\<close>

definition multiples :: "rat \<Rightarrow> int list \<Rightarrow> rat list \<Rightarrow> bool" where
  "multiples s q ws \<longleftrightarrow> list_all2 (\<lambda>k x. -32 \<le> k \<and> k \<le> 31 \<and> \<bar>x - s * of_int k\<bar> \<le> \<bar>s * of_int k\<bar> / 2 ^ 24) q ws"

lemma multiples_nth:
  "multiples s q ws \<Longrightarrow> i < length ws \<Longrightarrow>
     -32 \<le> q ! i \<and> q ! i \<le> 31 \<and> \<bar>ws ! i - s * of_int (q ! i)\<bar> \<le> \<bar>s * of_int (q ! i)\<bar> / 2 ^ 24"
  by (auto simp: multiples_def list_all2_conv_all_nth)

lemma multiples_length: "multiples s q ws \<Longrightarrow> length q = length ws"
  by (auto simp: multiples_def dest: list_all2_lengthD)

lemma half_room: "0 \<le> p \<Longrightarrow> p - p / 2 ^ 24 \<le> l \<Longrightarrow> p / 2 \<le> (l :: rat)"
  by simp

lemma largest_multiple:
  assumes mu: "multiples s q ws" and ne: "\<exists>k \<in> set q. k \<noteq> 0"
  obtains kk where "1 \<le> kk" "kk \<le> 32" "\<forall>k \<in> set q. \<bar>k\<bar> \<le> kk"
    "\<bar>largest ws - \<bar>s\<bar> * of_int kk\<bar> \<le> \<bar>s\<bar> * of_int kk / 2 ^ 24"
proof -
  define kk where "kk = Max (set (map abs q))"
  from ne have q0: "set q \<noteq> {}" by auto
  have le: "\<forall>k \<in> set q. \<bar>k\<bar> \<le> kk" by (auto simp: kk_def)
  have "kk \<in> set (map abs q)" unfolding kk_def using q0 by (intro Max_in) auto
  then obtain j where j: "j < length ws" "\<bar>q ! j\<bar> = kk"
    using multiples_length [OF mu] by (auto simp: in_set_conv_nth)
  have k1: "1 \<le> kk" using ne le by force
  have k2: "kk \<le> 32" using multiples_nth [OF mu j(1)] j(2) by linarith
  have ak: "\<bar>s * of_int (q ! j)\<bar> = \<bar>s\<bar> * of_int kk" using j(2) by (metis abs_mult of_int_abs)
  have lo: "\<bar>s\<bar> * of_int kk - \<bar>s\<bar> * of_int kk / 2 ^ 24 \<le> largest ws"
  proof -
    have "\<bar>ws ! j\<bar> \<le> largest ws" using j(1) by (intro le_largest) simp
    moreover have "\<bar>s\<bar> * of_int kk - \<bar>s\<bar> * of_int kk / 2 ^ 24 \<le> \<bar>ws ! j\<bar>"
      using near_abs [of "ws ! j" "s * of_int (q ! j)"] multiples_nth [OF mu j(1)] by (simp only: ak)
    ultimately show ?thesis by (rule order_trans [rotated])
  qed
  have "largest ws \<in> set (map abs ws)" unfolding largest_def using j(1) by (intro Max_in) auto
  then obtain i where i: "i < length ws" "largest ws = \<bar>ws ! i\<bar>" by (auto simp: in_set_conv_nth)
  have "\<bar>s * of_int (q ! i)\<bar> = \<bar>s\<bar> * of_int \<bar>q ! i\<bar>" by (simp add: abs_mult)
  also have "\<dots> \<le> \<bar>s\<bar> * of_int kk"
    using le i(1) multiples_length [OF mu] by (intro mult_left_mono) (simp_all only: of_int_le_iff abs_ge_zero nth_mem)
  finally have b: "\<bar>s * of_int (q ! i)\<bar> \<le> \<bar>s\<bar> * of_int kk" .
  have "largest ws \<le> \<bar>s * of_int (q ! i)\<bar> + \<bar>s * of_int (q ! i)\<bar> / 2 ^ 24"
    using multiples_nth [OF mu i(1)] i(2) by linarith
  also have "\<dots> \<le> \<bar>s\<bar> * of_int kk + \<bar>s\<bar> * of_int kk / 2 ^ 24" using b by (intro add_mono divide_right_mono) auto
  finally have "largest ws \<le> \<bar>s\<bar> * of_int kk + \<bar>s\<bar> * of_int kk / 2 ^ 24" .
  with lo have "\<bar>largest ws - \<bar>s\<bar> * of_int kk\<bar> \<le> \<bar>s\<bar> * of_int kk / 2 ^ 24" by linarith
  with that k1 k2 le show thesis by blast
qed

lemma rounds_to_multiple:
  fixes x s sk :: rat and k :: int
  assumes s0: "s \<noteq> 0" and k: "\<bar>k\<bar> \<le> 32" and x: "\<bar>x - s * of_int k\<bar> \<le> \<bar>s * of_int k\<bar> / 2 ^ 24"
    and sk: "\<bar>sk - s\<bar> \<le> \<bar>s\<bar> / 2 ^ 23" and small: "\<bar>x / sk\<bar> < 64"
  shows "round_half_even (f64 (x / sk)) = k" "\<bar>f64 (f64 (x / sk) - of_int k)\<bar> \<le> 1 / 2 ^ 14"
proof -
  have kr: "\<bar>of_int k :: rat\<bar> \<le> 32" using k by (metis of_int_abs of_int_le_iff of_int_numeral)
  have sp: "0 < \<bar>s\<bar>" using s0 by simp
  have a: "\<bar>s * of_int k\<bar> \<le> \<bar>s\<bar> * 32" using kr by (simp add: abs_mult mult_left_mono)
  have "\<bar>of_int k * (s - sk)\<bar> = \<bar>of_int k\<bar> * \<bar>s - sk\<bar>" by (rule abs_mult)
  also have "\<dots> \<le> 32 * (\<bar>s\<bar> / 2 ^ 23)" using kr sk by (intro mult_mono) (auto simp: abs_minus_commute)
  finally have b: "\<bar>of_int k * s - of_int k * sk\<bar> \<le> 32 * (\<bar>s\<bar> / 2 ^ 23)" by (simp add: right_diff_distrib)
  have "\<bar>x - of_int k * sk\<bar> \<le> \<bar>s * of_int k\<bar> / 2 ^ 24 + 32 * (\<bar>s\<bar> / 2 ^ 23)"
    using near_trans [of x "of_int k * s" _ "of_int k * sk"] x b by (simp only: mult.commute [of s])
  also have "\<dots> \<le> \<bar>s\<bar> * 32 / 2 ^ 24 + 32 * (\<bar>s\<bar> / 2 ^ 23)" using a by (intro add_right_mono divide_right_mono) auto
  also have "\<dots> \<le> \<bar>s\<bar> / 2 ^ 17" using sp by simp
  finally have e: "\<bar>x - of_int k * sk\<bar> \<le> \<bar>s\<bar> / 2 ^ 17" .
  have "\<bar>s\<bar> - \<bar>s\<bar> / 2 ^ 23 \<le> \<bar>sk\<bar>" using sk by linarith
  then have half: "\<bar>s\<bar> / 2 \<le> \<bar>sk\<bar>" using sp by simp
  then have sk0: "sk \<noteq> 0" using sp by auto
  have "\<bar>x / sk - of_int k\<bar> = \<bar>x - of_int k * sk\<bar> / \<bar>sk\<bar>"
    using sk0 by (simp add: abs_divide [symmetric] diff_divide_distrib)
  also have "\<dots> \<le> (\<bar>s\<bar> / 2 ^ 17) / (\<bar>s\<bar> / 2)" using e half sp by (intro frac_le) auto
  also have "\<dots> = 1 / 2 ^ 16" using s0 by simp
  finally have d: "\<bar>x / sk - of_int k\<bar> \<le> 1 / 2 ^ 16" .
  have "\<bar>f64 (x / sk) - of_int k\<bar> \<le> 1 / 2 ^ 48 + 1 / 2 ^ 16" by (rule near_trans [OF f64_small [OF small] d])
  also have "\<dots> \<le> (1::rat) / 2 ^ 15" by simp
  finally have y: "\<bar>f64 (x / sk) - of_int k\<bar> \<le> 1 / 2 ^ 15" .
  then show "round_half_even (f64 (x / sk)) = k" by (intro round_half_even_eqI) (simp add: abs_minus_commute)
  have "\<bar>f64 (x / sk) - of_int k\<bar> < 64" using y by simp
  from near_trans [of _ _ _ 0, simplified, OF f64_small [OF this] y]
  have "\<bar>f64 (f64 (x / sk) - of_int k)\<bar> \<le> 1 / 2 ^ 48 + 1 / 2 ^ 15" by simp
  also have "\<dots> \<le> (1::rat) / 2 ^ 14" by simp
  finally show "\<bar>f64 (f64 (x / sk) - of_int k)\<bar> \<le> 1 / 2 ^ 14" .
qed

lemma multiples_recover:
  assumes mu: "multiples s q ws" and ne: "\<exists>k \<in> set q. k \<noteq> 0" and big: "1 / 2 ^ 99 \<le> \<bar>s\<bar>" and tol: "1 / 2 ^ 14 \<le> tol"
  shows "\<exists>qs r. recover_group tol ws = (qs, r, True)" and "1 / 2 ^ 100 \<le> largest ws"
proof -
  have sp: "0 < \<bar>s\<bar>" using big by (meson less_le_trans zero_less_divide_1_iff zero_less_numeral zero_less_power)
  obtain kk where kk: "1 \<le> kk" "kk \<le> 32" "\<forall>k \<in> set q. \<bar>k\<bar> \<le> kk"
    and m: "\<bar>largest ws - \<bar>s\<bar> * of_int kk\<bar> \<le> \<bar>s\<bar> * of_int kk / 2 ^ 24"
    by (rule largest_multiple [OF mu ne])
  have kr: "(1::rat) \<le> of_int kk" using kk by simp
  have "\<bar>s\<bar> * 1 \<le> \<bar>s\<bar> * of_int kk" using kr by (intro mult_left_mono) auto
  moreover have "\<bar>s\<bar> * of_int kk / 2 \<le> largest ws"
    using near_low [OF m] kr by (intro half_room) auto
  moreover have "(1::rat) / 2 ^ 100 \<le> \<bar>s\<bar> / 2" using big by simp
  ultimately show low: "1 / 2 ^ 100 \<le> largest ws" by linarith
  define c where "c = (kk, sgn s)"
  have c: "c \<in> set step_candidates" using kk(1,2) sp by (auto simp: candidates c_def sgn_if)
  define u sk where "u = largest ws / of_int kk" and "sk = f64 (snd c * largest ws / of_int (fst c))"
  have "\<bar>u - \<bar>s\<bar>\<bar> = \<bar>largest ws - \<bar>s\<bar> * of_int kk\<bar> / of_int kk"
  proof -
    have "u - \<bar>s\<bar> = (largest ws - \<bar>s\<bar> * of_int kk) / of_int kk" using kk(1) by (simp add: u_def diff_divide_distrib)
    then show ?thesis using kk(1) by (simp add: abs_divide)
  qed
  also have "\<dots> \<le> \<bar>s\<bar> * of_int kk / 2 ^ 24 / of_int kk" using m kr by (intro divide_right_mono) auto
  also have "\<dots> = \<bar>s\<bar> / 2 ^ 24" using kr by simp
  finally have u: "\<bar>u - \<bar>s\<bar>\<bar> \<le> \<bar>s\<bar> / 2 ^ 24" .
  have "sgn s * u - s = sgn s * (u - \<bar>s\<bar>)" by (simp add: right_diff_distrib sgn_mult_abs)
  then have x0: "\<bar>sgn s * u - s\<bar> \<le> \<bar>s\<bar> / 2 ^ 24" using u sp by (simp add: abs_mult)
  have "\<bar>sk - sgn s * u\<bar> \<le> u / 2 ^ 53"
    using step_size(1) [OF low c] by (simp add: sk_def c_def u_def)
  moreover have "u / 2 ^ 53 \<le> \<bar>s\<bar> / 2 ^ 52"
  proof -
    have "u \<le> \<bar>s\<bar> + \<bar>s\<bar> / 2 ^ 24" using u by linarith
    then show ?thesis using sp by simp
  qed
  ultimately have "\<bar>sk - s\<bar> \<le> \<bar>s\<bar> / 2 ^ 52 + \<bar>s\<bar> / 2 ^ 24" using x0 by linarith
  also have "\<dots> \<le> \<bar>s\<bar> / 2 ^ 23" using sp by simp
  finally have sk: "\<bar>sk - s\<bar> \<le> \<bar>s\<bar> / 2 ^ 23" .
  have fit: "\<bar>f64 (y - of_int (round_half_even y))\<bar> \<le> tol \<and> QMIN \<le> round_half_even y \<and> round_half_even y \<le> QMAX"
    if xy: "x \<in> set ws" "y = f64 (x / sk)" for x y
  proof -
    obtain i where i: "i < length ws" "x = ws ! i" using xy(1) by (force simp: in_set_conv_nth)
    have mi: "-32 \<le> q ! i" "q ! i \<le> 31" "\<bar>x - s * of_int (q ! i)\<bar> \<le> \<bar>s * of_int (q ! i)\<bar> / 2 ^ 24"
      using multiples_nth [OF mu i(1)] i(2) by blast+
    have "s \<noteq> 0" "\<bar>q ! i\<bar> \<le> 32" using mi(1,2) sp by auto
    note r = rounds_to_multiple [OF this mi(3) sk quotient_bound(2) [OF low c le_largest [OF xy(1)] sk_def], folded xy(2)]
    then show ?thesis using mi(1,2) order_trans [OF r(2) tol] by (simp only: QMIN_def QMAX_def r(1))
  qed
  then have "try_step tol ws (largest ws) c = Some (map (\<lambda>x. round_half_even (f64 (x / sk))) ws, sk)"
    by (simp add: try_step_Some sk_def Let_def)
  from first_fit_exists [OF c this] obtain r where "first_fit tol ws (largest ws) step_candidates = Some r" by blast
  moreover have "largest ws \<noteq> 0" using low by auto
  ultimately show "\<exists>qs r. recover_group tol ws = (qs, r, True)"
    by (cases r) (simp add: recover_group_def Let_def coarsest_alt largest_def)
qed

end
