(* ===== verification/Dense_Exact.thy ===== *)
theory Dense_Exact
  imports Dense_Facts
begin

text \<open>
  Exact recovery: a group whose weights are integer multiples of a scale, without any rounding, is recovered
  with codes and a scale that reproduce it exactly, in the coarsest form. The search may find another step first;
  it is then a rational multiple of the right one, and dividing by the common divisor leads back.
\<close>

subsection \<open>Rounding back to a single\<close>

lemma powi2_shift: "2 powi (e + int n) = 2 ^ n * (2 powi e :: rat)"
  by (simp add: power_int_add)

lemma f32_back_pos:
  assumes y: "f32 y = y" "1 / 2 ^ 100 \<le> y" and x: "\<bar>x - y\<bar> \<le> y / 2 ^ 50"
  shows "f32 x = y"
proof -
  have y0: "0 < y" using y(2) by (rule less_le_trans [rotated]) simp
  define e where "e = ilog2 y"
  define b where "b = (2 powi (e - 24) :: rat)"
  have p: "(2::rat) powi e = 2 ^ 24 * b" "(2::rat) powi (e + 1) = 2 ^ 25 * b" "(2::rat) powi (e - 1) = 2 ^ 23 * b" "(2::rat) powi (e - 23) = 2 * b"
    using powi2_shift [of "e - 24" 24] powi2_shift [of "e - 24" 25] powi2_shift [of "e - 24" 23] powi2_shift [of "e - 24" 1]
    by (simp_all add: b_def add.commute)
  have yb: "2 ^ 24 * b \<le> y" "y < 2 ^ 25 * b" using ilog2_bounds [of y] y0 p by (simp_all add: e_def)
  have "(2::rat) powi (- 100) < 2 powi (e + 1)" using y(2) yb(2) p(2) by (simp add: power_int_def power_one_over)
  then have e: "- 100 \<le> e" by (simp only: powi2_less_iff)
  then have "last_place 24 (- 149) y = e - 23" by (simp add: last_place_def e_def)
  then have "of_int (round_half_even (y / (2 * b))) * (2 * b) = y" using y(1) y0 p(4) by (simp add: f32_def fl_def Let_def)
  then obtain n where n: "y = of_int n * (2 * b)" by metis
  have b0: "0 < b" by (simp add: b_def)
  have "of_int n * (2 * b) < 2 ^ 24 * (2 * b)" using yb(2) n by simp
  then have "of_int n < (2 ^ 24 :: rat)" using b0 by (simp only: mult_less_cancel_right)
  then have "n \<le> 16777215" by simp
  then have "(of_int n :: rat) \<le> 16777215" by simp
  then have "of_int n * (2 * b) \<le> 16777215 * (2 * b)" using b0 by (intro mult_right_mono) auto
  then have top: "y \<le> 2 ^ 25 * b - 2 * b" using n by simp
  have "y / 2 ^ 50 < b / 2 ^ 24" using yb(2) b0 by simp
  with x have d: "\<bar>x - y\<bar> < b / 2 ^ 24" by (rule le_less_trans)
  then have dx: "x < y + b / 2 ^ 24" "y - b / 2 ^ 24 < x" by linarith+
  show ?thesis
  proof (cases "2 ^ 24 * b \<le> x")
    case True
    have "f32 x = of_int n * 2 powi (e - 23)" unfolding f32_def
    proof (rule fl_eqI)
      show "2 powi (e - 23 + 24 - 1) \<le> \<bar>x\<bar>" using True b0 p(1) by simp
      show "\<bar>x\<bar> < 2 powi (e - 23 + 24)" using True dx top b0 p(2) by (simp add: add.commute [of 1])
      show "\<bar>of_int n * 2 powi (e - 23) - x\<bar> < 2 powi (e - 23) / 2" using d b0 p(4) n by (simp add: abs_minus_commute)
    qed (use e in simp)
    then show ?thesis using n p(4) by simp
  next
    case False
    have "f32 x = of_int (2 * n) * 2 powi (e - 24)" unfolding f32_def
    proof (rule fl_eqI)
      show "2 powi (e - 24 + 24 - 1) \<le> \<bar>x\<bar>" using dx yb(1) b0 p(3) by simp
      show "\<bar>x\<bar> < 2 powi (e - 24 + 24)" using False dx yb(1) b0 p(1) by simp
      show "\<bar>of_int (2 * n) * 2 powi (e - 24) - x\<bar> < 2 powi (e - 24) / 2" 
      proof -
        have "of_int (2 * n) * 2 powi (e - 24) = y" using n by (simp flip: b_def)
        moreover have "\<bar>y - x\<bar> < b / 2" using d b0 by (simp add: abs_minus_commute)
        ultimately show ?thesis by (simp only: b_def)
      qed
    qed (use e in simp)
    then show ?thesis using n by (simp flip: b_def)
  qed
qed

lemma f32_back:
  assumes "f32 y = y" "1 / 2 ^ 100 \<le> \<bar>y\<bar>" "\<bar>x - y\<bar> \<le> \<bar>y\<bar> / 2 ^ 50"
  shows "f32 x = y"
proof (cases "0 \<le> y")
  case False
  define x' y' where "x' = - x" and "y' = - y"
  have m: "f32 (- z) = - f32 z" for z unfolding f32_def by (rule fl_minus)
  have fy: "f32 y' = y'" unfolding y'_def m assms(1) ..
  have e: "\<bar>y\<bar> = y'" "\<bar>x - y\<bar> = \<bar>x' - y'\<bar>" using False by (simp_all add: x'_def y'_def)
  from fy assms(2,3) [unfolded e] have "f32 x' = y'" by (rule f32_back_pos)
  then show ?thesis unfolding x'_def y'_def m by simp
next
  case True
  with assms have "1 / 2 ^ 100 \<le> y" "\<bar>x - y\<bar> \<le> y / 2 ^ 50" by simp_all
  with assms(1) show ?thesis by (rule f32_back_pos)
qed

subsection \<open>Proportional codes\<close>

lemma divisor_Gcd: "divisor q = (if Gcd (set q) = 0 then 1 else Gcd (set q))"
proof -
  have "fold gcd (map abs q) 0 = Gcd (set (map abs q))" by (simp only: Gcd_set_eq_fold)
  also have "\<dots> = Gcd (set q)" using Gcd_abs_eq [of "set q"] by simp
  finally show ?thesis by (simp add: divisor_def Let_def)
qed

lemma divisor_scale:
  assumes "\<exists>x \<in> set q. x \<noteq> 0" "1 \<le> a" "1 \<le> b" "list_all2 (\<lambda>x y. a * \<bar>x\<bar> = b * \<bar>y\<bar>) q z"
  shows "a * divisor q = b * divisor z"
proof -
  have eq: "map (\<lambda>x. a * \<bar>x\<bar>) q = map (\<lambda>y. b * \<bar>y\<bar>) z"
    using assms(4) by (auto simp: list_all2_conv_all_nth intro: nth_equalityI)
  have g: "c * Gcd (set xs) = Gcd (set (map (\<lambda>x. c * \<bar>x\<bar>) xs))" if "1 \<le> c" for c :: int and xs
  proof -
    have "Gcd ((*) c ` abs ` set xs) = c * Gcd (abs ` set xs)" using that by (simp add: Gcd_mult)
    then show ?thesis using Gcd_abs_eq [of "set xs"] by (simp add: image_image)
  qed
  have "a * Gcd (set q) = b * Gcd (set z)" using g [OF assms(2), of q] g [OF assms(3), of z] eq by simp
  moreover have q: "Gcd (set q) \<noteq> 0" using assms(1) by auto
  moreover have "Gcd (set z) \<noteq> 0"
  proof
    assume "Gcd (set z) = 0"
    with calculation(1) q assms(2) show False by simp
  qed
  ultimately show ?thesis by (simp add: divisor_Gcd)
qed

text \<open>A quotient within the tolerance of an integer, for weights that are multiples of one scale, is that integer.\<close>

lemma exact_quotient:
  fixes s sk u :: rat and k kk k' z \<tau> :: int
  assumes u: "u = of_int \<tau> * s * of_int kk / of_int k'" and t: "\<tau> = 1 \<or> \<tau> = -1" and s0: "s \<noteq> 0"
    and r: "1 \<le> kk" "kk \<le> 32" "1 \<le> k'" and z: "\<bar>z\<bar> \<le> 32" and sk: "\<bar>sk - u\<bar> \<le> \<bar>u\<bar> / 2 ^ 53" and tol: "tol \<le> 1 / 64"
    and fit: "\<bar>s * of_int k - of_int z * sk\<bar> \<le> \<bar>sk\<bar> * (tol + 1 / 2 ^ 47)"
  shows "k * k' = \<tau> * z * kk"
proof -
  define n where "n = k * k' - \<tau> * z * kk"
  have kr: "(1::rat) \<le> of_int kk" "of_int kk \<le> (32::rat)" "(1::rat) \<le> of_int k'" using r by simp_all
  have au: "\<bar>u\<bar> = \<bar>s\<bar> * of_int kk / of_int k'" using t kr by (auto simp: u abs_mult)
  have u0: "0 < \<bar>u\<bar>" unfolding au using s0 kr by simp
  have "\<bar>sk\<bar> \<le> \<bar>u\<bar> + \<bar>u\<bar> / 2 ^ 53" using sk by linarith
  then have a: "\<bar>sk\<bar> \<le> \<bar>u\<bar> * (1 + 1 / 2 ^ 53)" by (simp add: distrib_left)
  have "\<bar>s * of_int k - of_int z * sk\<bar> \<le> \<bar>sk\<bar> * (1 / 64 + 1 / 2 ^ 47)"
    using fit by (rule order_trans) (use tol in \<open>intro mult_left_mono; simp\<close>)
  also have "\<dots> \<le> \<bar>u\<bar> * (1 + 1 / 2 ^ 53) * (1 / 64 + 1 / 2 ^ 47)" using a by (intro mult_right_mono) auto
  also have "\<dots> \<le> \<bar>u\<bar> * (1 / 63)" using u0 by simp
  finally have e1: "\<bar>s * of_int k - of_int z * sk\<bar> \<le> \<bar>u\<bar> * (1 / 63)" .
  have "\<bar>of_int z * sk - of_int z * u\<bar> = of_int \<bar>z\<bar> * \<bar>sk - u\<bar>" by (simp add: abs_mult flip: right_diff_distrib)
  also have "\<dots> \<le> 32 * (\<bar>u\<bar> / 2 ^ 53)" using z sk by (intro mult_mono) auto
  finally have "\<bar>of_int z * sk - of_int z * u\<bar> \<le> 32 * (\<bar>u\<bar> / 2 ^ 53)" .
  from near_trans [OF e1 this] have "\<bar>s * of_int k - of_int z * u\<bar> \<le> \<bar>u\<bar> * (1 / 63) + 32 * (\<bar>u\<bar> / 2 ^ 53)" .
  also have "\<dots> < \<bar>u\<bar> * (1 / 32)" using u0 by simp
  finally have e: "\<bar>s * of_int k - of_int z * u\<bar> < \<bar>u\<bar> * (1 / 32)" .
  have "s * of_int k - of_int z * u = s * of_int n / of_int k'"
    using kr by (simp add: u n_def field_simps)
  then have "\<bar>s * of_int k - of_int z * u\<bar> = \<bar>s\<bar> * of_int \<bar>n\<bar> / of_int k'" using kr by (simp add: abs_mult)
  with e have "\<bar>s\<bar> * of_int \<bar>n\<bar> / of_int k' < \<bar>s\<bar> * of_int kk / of_int k' * (1 / 32)" unfolding au by simp
  then have "\<bar>s\<bar> * of_int \<bar>n\<bar> < \<bar>s\<bar> * (of_int kk / 32)" using kr by (simp add: divide_less_eq)
  then have "(of_int \<bar>n\<bar> :: rat) < of_int kk / 32" using s0 by simp
  then have "(of_int \<bar>n\<bar> :: rat) < 1" using kr(2) by simp
  then have "n = 0" by simp
  then show ?thesis by (simp add: n_def)
qed

lemma largest_exact:
  assumes "q \<noteq> []"
  shows "largest (map (\<lambda>k. s * of_int k) q) = \<bar>s\<bar> * of_int (Max (abs ` set q))"
proof -
  have "mono (\<lambda>k. \<bar>s\<bar> * of_int k :: rat)" by (intro monoI mult_left_mono) auto
  from mono_Max_commute [OF this, of "abs ` set q"] assms show ?thesis
    by (simp add: largest_def image_image abs_mult)
qed

lemma codes_divide:
  fixes a b g h k' kk \<tau> :: int
  assumes "b * k' = \<tau> * a * kk" "k' * g = kk * h" "g dvd b" "h dvd a" "1 \<le> g" "1 \<le> k'" "\<tau> = 1 \<or> \<tau> = -1"
  shows "a div h = \<tau> * (b div g)"
proof -
  obtain x y where xy: "b = g * x" "a = h * y" using assms(3,4) by (auto elim!: dvdE)
  have "g * x * k' = \<tau> * y * (kk * h)" using assms(1) by (simp add: xy mult_ac)
  also have "\<dots> = \<tau> * y * (k' * g)" by (simp only: assms(2))
  finally have "(k' * g) * x = (k' * g) * (\<tau> * y)" by (simp add: mult_ac)
  then have "x = \<tau> * y" using assms(5,6) by simp
  moreover have "h \<noteq> 0" using assms(2,5,6) by auto
  ultimately show ?thesis using xy assms(5,7) by auto
qed

lemma exact_scale:
  fixes s sk u :: rat and g h kk k' \<tau> :: int
  assumes u: "u = of_int \<tau> * s * of_int kk / of_int k'" and t: "\<tau> = 1 \<or> \<tau> = -1" and s: "1 / 2 ^ 99 \<le> \<bar>s\<bar>"
    and k: "1 \<le> k'" "k' * g = kk * h" "1 \<le> g" "1 \<le> h" and sk: "\<bar>sk - u\<bar> \<le> \<bar>u\<bar> / 2 ^ 53"
    and single: "f32 (s * of_int g) = s * of_int g"
  shows "f32 (f64 (sk * of_int h)) = of_int \<tau> * s * of_int g"
proof -
  define y where "y = of_int \<tau> * s * of_int g"
  have gr: "(1::rat) \<le> of_int g" "(1::rat) \<le> of_int h" "(1::rat) \<le> of_int k'" using k by simp_all
  have "of_int k' * of_int g = (of_int kk * of_int h :: rat)" using k(2) by (metis of_int_mult)
  then have uh: "u * of_int h = y" using gr(3) by (simp add: u y_def field_simps)
  have "\<bar>s\<bar> * 1 \<le> \<bar>s\<bar> * of_int g" using gr by (intro mult_left_mono) auto
  also have "\<dots> = \<bar>y\<bar>" using t gr by (auto simp: y_def abs_mult)
  finally have y1: "1 / 2 ^ 99 \<le> \<bar>y\<bar>" using s by simp
  then have y0: "0 < \<bar>y\<bar>" by (rule less_le_trans [rotated]) simp
  have "sk * of_int h - y = (sk - u) * of_int h" by (simp add: left_diff_distrib flip: uh)
  then have "\<bar>sk * of_int h - y\<bar> = \<bar>sk - u\<bar> * of_int h" using gr by (simp add: abs_mult)
  also have "\<dots> \<le> \<bar>u\<bar> / 2 ^ 53 * of_int h" using sk gr by (intro mult_right_mono) auto
  also have "\<dots> = \<bar>y\<bar> / 2 ^ 53" using gr by (simp add: abs_mult flip: uh)
  finally have e1: "\<bar>sk * of_int h - y\<bar> \<le> \<bar>y\<bar> / 2 ^ 53" .
  then have b: "\<bar>y\<bar> / 2 \<le> \<bar>sk * of_int h\<bar>" "\<bar>sk * of_int h\<bar> \<le> 2 * \<bar>y\<bar>"
    using near_abs [OF e1] near_bound [OF e1, of "2 * \<bar>y\<bar>"] y0 by simp_all
  have "(1::rat) / 2 ^ 1000 \<le> 1 / 2 ^ 99 / 2" by simp
  also have "\<dots> \<le> \<bar>y\<bar> / 2" using y1 by (rule divide_right_mono) simp
  also have "\<dots> \<le> \<bar>sk * of_int h\<bar>" by (rule b(1))
  finally have "\<bar>f64 (sk * of_int h) - sk * of_int h\<bar> \<le> \<bar>sk * of_int h\<bar> / 2 ^ 53" by (rule f64_rel)
  from near_trans [OF this e1] have "\<bar>f64 (sk * of_int h) - y\<bar> \<le> \<bar>sk * of_int h\<bar> / 2 ^ 53 + \<bar>y\<bar> / 2 ^ 53" .
  also have "\<dots> \<le> 2 * \<bar>y\<bar> / 2 ^ 53 + \<bar>y\<bar> / 2 ^ 53" using b(2) by (intro add_right_mono divide_right_mono) auto
  also have "\<dots> \<le> \<bar>y\<bar> / 2 ^ 50" using y0 by simp
  finally have e: "\<bar>f64 (sk * of_int h) - y\<bar> \<le> \<bar>y\<bar> / 2 ^ 50" .
  have "f32 y = y" using t single fl_minus [of 24 "- 149" "s * of_int g"] by (auto simp: y_def f32_def)
  moreover have "1 / 2 ^ 100 \<le> \<bar>y\<bar>" using y1 by (rule order_trans [rotated]) simp
  ultimately show ?thesis using e unfolding y_def [symmetric] by (rule f32_back)
qed

lemma exact_group:
  assumes q: "\<forall>k \<in> set q. -32 \<le> k \<and> k \<le> 31" and ne: "\<exists>k \<in> set q. k \<noteq> 0" and big: "1 / 2 ^ 99 \<le> \<bar>s\<bar>"
    and single: "f32 (s * of_int (divisor q)) = s * of_int (divisor q)" and tol: "1 / 2 ^ 14 \<le> tol" "tol \<le> 1 / 64"
  obtains \<tau> :: int where "\<tau> = 1 \<or> \<tau> = -1" "\<forall>k \<in> set q. -32 \<le> \<tau> * (k div divisor q) \<and> \<tau> * (k div divisor q) \<le> 31"
    "recover_group tol (map (\<lambda>k. s * of_int k) q) = (map (\<lambda>k. \<tau> * (k div divisor q) + ZP) q, of_int \<tau> * s * of_int (divisor q), True)"
proof -
  define ws where "ws = map (\<lambda>k. s * of_int k) q"
  have mu: "multiples s q ws" using q by (auto simp: multiples_def ws_def list_all2_conv_all_nth)
  note low = multiples_recover(2) [OF mu ne big tol(1)]
  have s0: "s \<noteq> 0" using big by auto
  have qne: "q \<noteq> []" using ne by auto
  obtain qs r where rec: "recover_group tol ws = (qs, r, True)" using multiples_recover(1) [OF mu ne big tol(1)] by blast
  have "largest ws \<noteq> 0" using low by auto
  then obtain c z sk where c: "c \<in> set step_candidates" "try_step tol ws (largest ws) c = Some (z, sk)"
    and qs: "qs = map (\<lambda>x. (x div divisor z + ZP) mod 256) z" and rr: "r = f32 (f64 (sk * of_int (divisor z)))"
    by (rule recover_group_fits [OF _ rec])
  define kk k' where "kk = Max (abs ` set q)" and "k' = fst c"
  have k': "1 \<le> k'" "snd c = 1 \<or> snd c = -1" using c(1) by (auto simp: candidates k'_def)
  have "kk \<in> abs ` set q" unfolding kk_def using qne by (intro Max_in) auto
  moreover have le: "\<bar>k\<bar> \<le> kk" if "k \<in> set q" for k unfolding kk_def using that by auto
  ultimately have kk: "1 \<le> kk" "kk \<le> 32" using q ne by force+
  have lg: "largest ws = \<bar>s\<bar> * of_int kk" unfolding ws_def kk_def by (rule largest_exact [OF qne])
  define \<tau> :: int where "\<tau> = (if snd c * \<bar>s\<bar> = s then 1 else -1)"
  have t: "\<tau> = 1 \<or> \<tau> = -1" "of_int \<tau> * s = snd c * \<bar>s\<bar>" using k'(2) s0 by (auto simp: \<tau>_def abs_if split: if_splits)
  define u where "u = of_int \<tau> * s * of_int kk / of_int k'"
  have u: "u = snd c * largest ws / of_int (fst c)" by (simp add: u_def t(2) lg k'_def)
  have sk: "sk = f64 u" and zd: "z = map (\<lambda>x. round_half_even (f64 (x / sk))) ws"
    using c(2) by (simp_all add: try_step_Some u)
  have "\<bar>u\<bar> = largest ws / of_int (fst c)" using k' kk by (auto simp: u lg k'_def abs_mult)
  then have dsk: "\<bar>sk - u\<bar> \<le> \<bar>u\<bar> / 2 ^ 53" using step_size(1) [OF low c(1)] by (simp add: sk flip: u)
  have len: "length z = length q" by (simp add: zd ws_def)
  have rel: "q ! i * k' = \<tau> * z ! i * kk \<and> -32 \<le> z ! i \<and> z ! i \<le> 31" if i: "i < length q" for i
  proof -
    have x: "ws ! i = s * of_int (q ! i)" "ws ! i \<in> set ws" "z ! i = round_half_even (f64 (ws ! i / sk))" 
      using i nth_mem [of i ws] by (simp_all add: ws_def zd)
    have f: "\<bar>f64 (f64 (ws ! i / sk) - of_int (z ! i))\<bar> \<le> tol" "-32 \<le> z ! i" "z ! i \<le> 31"
      using c(2) x(2) unfolding x(3) by (auto simp: try_step_Some Let_def QMIN_def QMAX_def)
    note b = quotient_bound [OF low c(1) le_largest [OF x(2)] sk [unfolded u]]
    have "\<bar>s * of_int (q ! i) - of_int (z ! i) * sk\<bar> \<le> \<bar>sk\<bar> * (tol + 1 / 2 ^ 47)"
      using fitting_weight [OF b f(1) [unfolded x(3)]] by (simp only: x(1,3))
    from exact_quotient [OF u_def t(1) s0 kk k'(1) _ dsk tol(2) this] f(2,3) show ?thesis by auto
  qed
  have "k' * \<bar>q ! i\<bar> = kk * \<bar>z ! i\<bar>" if i: "i < length q" for i
  proof -
    have "\<bar>q ! i * k'\<bar> = \<bar>\<tau> * z ! i * kk\<bar>" using rel [OF i] by simp
    then show ?thesis using t(1) k'(1) kk(1) by (auto simp: abs_mult mult.commute)
  qed
  then have "list_all2 (\<lambda>x y. k' * \<bar>x\<bar> = kk * \<bar>y\<bar>) q z" using len by (simp add: list_all2_conv_all_nth)
  then have dv: "k' * divisor q = kk * divisor z" by (rule divisor_scale [OF ne k'(1) kk(1)])
  have cd: "z ! i div divisor z = \<tau> * (q ! i div divisor q) \<and> -32 \<le> z ! i div divisor z \<and> z ! i div divisor z \<le> 31"
    if i: "i < length q" for i
  proof -
    have m: "z ! i \<in> set z" "q ! i \<in> set q" using i len by simp_all
    have "-32 \<le> z ! i div divisor z \<and> z ! i div divisor z \<le> 31"
      using rel [OF i] by (intro div_range divisor_pos divisor_dvd m) auto
    moreover have "z ! i div divisor z = \<tau> * (q ! i div divisor q)"
      using rel [OF i] dv divisor_dvd [OF m(2)] divisor_dvd [OF m(1)] divisor_pos k'(1) t(1) by (intro codes_divide) auto
    ultimately show ?thesis by blast
  qed
  have "(z ! i div divisor z + ZP) mod 256 = \<tau> * (q ! i div divisor q) + ZP" if i: "i < length q" for i
    using cd [OF i] by (subst mod_pos_pos_trivial) (auto simp: ZP_def)
  then have "qs = map (\<lambda>k. \<tau> * (k div divisor q) + ZP) q" unfolding qs using len by (intro nth_equalityI) auto
  moreover have "r = of_int \<tau> * s * of_int (divisor q)"
    unfolding rr by (rule exact_scale [OF u_def t(1) big k'(1) dv divisor_pos divisor_pos dsk single])
  moreover have "\<forall>k \<in> set q. -32 \<le> \<tau> * (k div divisor q) \<and> \<tau> * (k div divisor q) \<le> 31"
    using cd by (metis in_set_conv_nth)
  ultimately show thesis using that t(1) rec by (simp add: ws_def)
qed

lemma exact_code:
  assumes "g dvd k" "\<tau> = 1 \<or> \<tau> = (-1 :: int)"
  shows "of_int (\<tau> * (k div g)) * (of_int \<tau> * s * of_int g) = s * (of_int k :: rat)"
proof -
  have "of_int (k div g) * of_int g = (of_int k :: rat)" using assms(1) by (simp flip: of_int_mult)
  then show ?thesis using assms(2) by (auto simp: mult_ac)
qed

lemma coarse_codes:
  assumes "\<exists>k \<in> set q. k \<noteq> 0" "\<tau> = 1 \<or> \<tau> = (-1 :: int)"
  shows "Gcd ((\<lambda>k. \<tau> * (k div Gcd (set q))) ` set q) = 1"
proof -
  let ?g = "Gcd (set q)" and ?f = "\<lambda>k. \<tau> * (k div Gcd (set q))"
  have g0: "?g \<noteq> 0" using assms(1) by auto
  have e: "(*) (\<tau> * ?g) ` ?f ` set q = set q"
    using assms(2) by (auto simp: image_image mult.assoc [symmetric] intro!: image_eqI)
  have "Gcd ((*) (\<tau> * ?g) ` ?f ` set q) = normalize (\<tau> * ?g * Gcd (?f ` set q))" by (rule Gcd_mult)
  then have "?g = \<bar>\<tau> * ?g * Gcd (?f ` set q)\<bar>" unfolding e by simp
  then have "?g * 1 = ?g * Gcd (?f ` set q)" using assms(2) by (auto simp: abs_mult)
  then show ?thesis using g0 by (metis mult_cancel_left)
qed

end
