(* ===== verification/Dense_Properties.thy ===== *)
theory Dense_Properties
  imports Dense_Exact
begin

text \<open>
  Properties of the dense projections in u8: the groups a Q6_K checkpoint decodes to are recovered, exactly where the
  products are exact; the batches of rows do not matter; what the plan converts; and an input whose scale
  overflows float16 and passes the guard.
\<close>

subsection \<open>Batches of rows\<close>

lemma chunks_of_rows:
  assumes "0 < k" "\<forall>r \<in> set w. k dvd length r"
  shows "chunks k (concat w) = concat (map (chunks k) w)"
  using assms by (induction w) (simp_all add: chunks_append)

lemma batch_rows:
  assumes "0 < k" "k mod GROUP = 0" "\<forall>r \<in> set block. length r = k"
  shows "chunks (k div GROUP) (map f (chunks GROUP (concat block))) = map (\<lambda>r. map f (chunks GROUP r)) block"
proof -
  have d: "\<forall>r \<in> set block. GROUP dvd length r" using assms(2,3) by auto
  have p: "0 < GROUP" by (simp add: GROUP_def)
  have "chunks GROUP (concat block) = concat (map (chunks GROUP) block)" by (rule chunks_of_rows [OF p d])
  then have e: "map f (chunks GROUP (concat block)) = concat (map (\<lambda>r. map f (chunks GROUP r)) block)"
    by (simp add: map_concat comp_def)
  have "0 < k div GROUP" using assms(1,2) p by (metis div_greater_zero_iff dvd_imp_le mod_eq_0_iff_dvd)
  moreover have "\<forall>r \<in> set (map (\<lambda>r. map f (chunks GROUP r)) block). length r = k div GROUP"
    using assms(3) d p by (auto simp: length_chunks)
  ultimately show ?thesis unfolding e by (intro chunks_concat) auto
qed

text \<open>
  The batches of rows the search runs over do not change its answer: for rows of equal length, a
  positive multiple of sixteen, the result is every row cut in groups of sixteen, each recovered by itself.
\<close>

lemma recover_groups_rows:
  assumes "0 < rows_per_chunk" "0 < k" "k mod GROUP = 0" "\<forall>r \<in> set w. length r = k"
  shows "recover_groups tol rows_per_chunk k w = Inr (map (\<lambda>row. map (recover_group tol) (chunks GROUP row)) w)"
proof -
  have "\<forall>r \<in> set block. length r = k" if "block \<in> set (chunks rows_per_chunk w)" for block
    using that assms(4) concat_chunks [OF assms(1), of w] by (metis UN_I set_concat)
  then have "concat (map (\<lambda>block. chunks (k div GROUP) (map (recover_group tol) (chunks GROUP (concat block)))) (chunks rows_per_chunk w))
      = concat (map (map (\<lambda>row. map (recover_group tol) (chunks GROUP row))) (chunks rows_per_chunk w))"
    by (intro arg_cong [where f = concat] map_cong refl batch_rows [OF assms(2,3)]) auto
  also have "\<dots> = map (\<lambda>row. map (recover_group tol) (chunks GROUP row)) w"
    by (simp add: concat_chunks [OF assms(1)] flip: map_concat)
  finally show ?thesis using assms(1-3) by (simp add: recover_groups_def)
qed

subsection \<open>Values that are not finite\<close>

lemma f16_code: "0 \<le> x \<Longrightarrow> x < 256 \<Longrightarrow> f16 (f16 (of_int x) - f16 (of_int ZP)) = of_int (x - ZP)"
proof -
  assume x: "0 \<le> x" "x < 256"
  have e: "f16 (of_int n) = of_int n" if "\<bar>n\<bar> < 2048" for n
    unfolding f16_def using that by (intro fl_exact_int) simp_all
  show ?thesis using x e [of x] e [of ZP] e [of "x - ZP"] by (simp add: ZP_def)
qed

lemma to_half_number [simp]: "to_half x \<noteq> NotANumber" "NotANumber \<noteq> to_half x"
  by (auto simp: to_half_def Let_def)

lemma half_max_NaN: "half_max x y = NotANumber \<Longrightarrow> x = NotANumber \<or> y = NotANumber"
  by (induction x y rule: half_max.induct) auto

lemma half_max_below:
  "half_max x y \<noteq> NotANumber \<Longrightarrow> \<not> half_above (half_max x y) b \<Longrightarrow>
     x \<noteq> NotANumber \<and> y \<noteq> NotANumber \<and> \<not> half_above x b \<and> \<not> half_above y b"
  by (induction x y rule: half_max.induct) auto

lemma fold_max_NaN: "fold half_max ds a = NotANumber \<Longrightarrow> a = NotANumber \<or> NotANumber \<in> set ds"
  by (induction ds arbitrary: a) (auto dest: half_max_NaN)

lemma fold_max_below:
  "fold half_max ds a \<noteq> NotANumber \<Longrightarrow> \<not> half_above (fold half_max ds a) b \<Longrightarrow>
     a \<noteq> NotANumber \<and> \<not> half_above a b \<and> (\<forall>d \<in> set ds. d \<noteq> NotANumber \<and> \<not> half_above d b)"
proof (induction ds arbitrary: a)
  case (Cons d ds)
  have "half_max d a \<noteq> NotANumber \<and> \<not> half_above (half_max d a) b \<and> (\<forall>d \<in> set ds. d \<noteq> NotANumber \<and> \<not> half_above d b)"
    using Cons.prems by (intro Cons.IH) simp_all
  then show ?case using half_max_below [of d a b] by simp
qed simp

lemma deviation_below:
  "deviation (d, x) \<noteq> NotANumber \<Longrightarrow> \<not> half_above (deviation (d, x)) b \<Longrightarrow>
     \<exists>y. d = Finite y \<and> f32 (\<bar>f32 (y - x)\<bar> / max \<bar>x\<bar> (f32 (1 / 10 ^ 30))) \<le> b"
  by (cases d) auto

text \<open>A group whose scale overflows float16 and that has a zero weight: its zero decodes to NaN.\<close>

definition overflowed :: "int list \<times> half \<Rightarrow> bool" where
  "overflowed g \<longleftrightarrow> (\<exists>neg. snd g = Infinite neg) \<and> ZP \<in> set (fst g)"

lemma decode_NaN:
  assumes "NotANumber \<in> set (decode_u8 gs)" "\<forall>g \<in> set gs. snd g \<noteq> NotANumber \<and> (\<forall>x \<in> set (fst g). 0 \<le> x \<and> x < 256)"
  shows "\<exists>g \<in> set gs. overflowed g"
proof -
  obtain g x where g: "g \<in> set gs" "x \<in> set (fst g)" "half_mult (f16 (f16 (of_int x) - f16 (of_int ZP))) (snd g) = NotANumber"
    using assms(1) by (fastforce simp: decode_u8_def)
  with assms(2) have "half_mult (of_int (x - ZP)) (snd g) = NotANumber" "snd g \<noteq> NotANumber" using f16_code [of x] by auto
  then have "(\<exists>neg. snd g = Infinite neg) \<and> x = ZP" by (cases "snd g") (auto split: if_splits)
  with g show ?thesis by (auto simp: overflowed_def)
qed

lemma recovered_codes: "recover_group tol ws = (qs, s, ok) \<Longrightarrow> x \<in> set qs \<Longrightarrow> 0 \<le> x \<and> x < 256"
  by (auto simp: recover_group_def Let_def coarsest_alt split: if_splits option.splits)

lemma recovered_groups_codes:
  assumes "recover_groups tol r k w = Inr gs" "(qs, s, ok) \<in> set (concat gs)" "x \<in> set qs"
  shows "0 \<le> x \<and> x < 256"
proof -
  have c: "set c \<subseteq> range (recover_group tol)" if "c \<in> set (chunks n (map (recover_group tol) xs))" for n c xs
  proof (cases "n = 0")
    case False
    then have "set c \<subseteq> set (map (recover_group tol) xs)" using that by (intro set_chunk) simp
    then show ?thesis by auto
  qed (use that in \<open>simp add: chunks.simps [of 0]\<close>)
  then have "set (concat gs) \<subseteq> range (recover_group tol)"
    using assms(1) by (fastforce simp: recover_groups_def split: if_splits)
  with assms(2) obtain ws where "(qs, s, ok) = recover_group tol ws" by auto
  then show ?thesis using recovered_codes [of tol ws qs s ok x] assms(3) by simp
qed

subsection \<open>The plan\<close>

definition allowed :: "string list \<Rightarrow> nat \<Rightarrow> dense_node \<Rightarrow> bool" where
  "allowed only min_elems node \<longleftrightarrow>
     eligible min_elems node \<noteq> None \<and> \<not> startswith (nd_name node) ''shared_expert'' \<and>
     \<not> ends_with (nd_name node) ''/k_proj'' \<and> \<not> ends_with (nd_name node) ''/v_proj'' \<and>
     (only = [] \<or> str_nat (nd_shape node ! 0) @ ''x'' @ str_nat (nd_shape node ! 1) \<in> set only) \<and>
     nd_shape node ! 1 mod GROUP = 0"

text \<open>Every decoded weight is finite and within the bound of its original.\<close>

definition decodes_close :: "(int list \<times> half) list list \<Rightarrow> rat list list \<Rightarrow> bool" where
  "decodes_close q16 w \<longleftrightarrow>
     (\<forall>(d, x) \<in> set (zip (concat (map decode_u8 q16)) (concat w)).
        \<exists>y. d = Finite y \<and> f32 (\<bar>f32 (y - x)\<bar> / max \<bar>x\<bar> (f32 (1 / 10 ^ 30))) \<le> REL_MAX)"

definition planned :: "string list \<Rightarrow> nat \<Rightarrow> dense_node list \<Rightarrow> u8_plan \<Rightarrow> string \<times> nat \<times> nat \<times> half \<Rightarrow> bool" where
  "planned only min_elems nodes p c \<longleftrightarrow>
     (\<exists>node \<in> set nodes. allowed only min_elems node \<and>
        p = (tg_node (the (eligible min_elems node)), nd_name node, snd (snd p)) \<and>
        c = (nd_name node, nd_shape node ! 0, nd_shape node ! 1, snd (snd (snd c))) \<and>
        (decodes_close (snd (snd p)) (nd_data node) \<or>
         snd (snd (snd c)) = NotANumber \<and> (\<exists>g \<in> set (concat (snd (snd p))). overflowed g)))"

definition plan_inv :: "string list \<Rightarrow> nat \<Rightarrow> dense_node list \<Rightarrow> nat \<Rightarrow> u8_plan list \<times> dense_report \<Rightarrow> bool" where
  "plan_inv only min_elems nodes seen st \<longleftrightarrow>
     list_all2 (planned only min_elems nodes) (fst st) (converted (snd st)) \<and>
     length (converted (snd st)) + length (kept (snd st)) = seen \<and>
     16 * u8_bytes (snd st) = 9 * f16_bytes (snd st)"

lemma group_bytes: "k mod GROUP = 0 \<Longrightarrow> 16 * (n * k + n * (k div GROUP) * 2) = 9 * (n * k * 2)"
  by (auto simp: GROUP_def mod_eq_0_iff_dvd elim!: dvdE)

lemma guard_passed:
  assumes "recover_groups tol r k w' = Inr gs" "q16 = map (map (\<lambda>(q, s, ok). (q, to_half s))) gs"
    and rel: "rel = relative_deviation (map decode_u8 q16) w" "\<not> half_above rel REL_MAX"
  shows "decodes_close q16 w \<or> rel = NotANumber \<and> (\<exists>g \<in> set (concat q16). overflowed g)"
proof (cases "rel = NotANumber")
  case False
  from fold_max_below [of "map deviation (zip (concat (map decode_u8 q16)) (concat w))" "Finite 0" REL_MAX] False rel
  have "\<forall>p \<in> set (zip (concat (map decode_u8 q16)) (concat w)). deviation p \<noteq> NotANumber \<and> \<not> half_above (deviation p) REL_MAX"
    by (simp add: relative_deviation_def)
  then show ?thesis using deviation_below by (fastforce simp: decodes_close_def)
next
  case True
  with rel(1) fold_max_NaN have "NotANumber \<in> deviation ` set (zip (concat (map decode_u8 q16)) (concat w))"
    by (fastforce simp: relative_deviation_def)
  then obtain d x where d: "(d, x) \<in> set (zip (concat (map decode_u8 q16)) (concat w))" "deviation (d, x) = NotANumber" by auto
  then have "d = NotANumber" by (cases d) auto
  with d(1) obtain row where row: "row \<in> set q16" "NotANumber \<in> set (decode_u8 row)" by (auto dest!: set_zip_leftD)
  have "snd g \<noteq> NotANumber \<and> (\<forall>x \<in> set (fst g). 0 \<le> x \<and> x < 256)" if g: "g \<in> set row" for g
  proof -
    obtain q s ok where "g = (q, to_half s)" "(q, s, ok) \<in> set (concat gs)" using row(1) g assms(2) by fastforce
    with recovered_groups_codes [OF assms(1)] show ?thesis by auto
  qed
  with decode_NaN [OF row(2)] row(1) True show ?thesis by auto
qed

lemma keep_node_inv:
  "plan_inv only min_elems nodes seen st \<Longrightarrow> plan_inv only min_elems nodes (Suc seen) (keep_node node why st)"
  by (simp add: plan_inv_def keep_node_def)

lemma convert_inv:
  assumes inv: "plan_inv only min_elems nodes seen st" and node: "node \<in> set nodes" "allowed only min_elems node"
    and t: "eligible min_elems node = Some t"
    and rel: "decodes_close q16 (nd_data node) \<or> rel = NotANumber \<and> (\<exists>g \<in> set (concat q16). overflowed g)"
    and nk: "n = nd_shape node ! 0" "k = nd_shape node ! 1"
  shows "plan_inv only min_elems nodes (Suc seen)
     (fst st @ [(tg_node t, nd_name node, q16)],
      (snd st)\<lparr>converted := converted (snd st) @ [(nd_name node, n, k, rel)],
               f16_bytes := f16_bytes (snd st) + n * k * 2,
               u8_bytes := u8_bytes (snd st) + (n * k + n * (k div GROUP) * 2)\<rparr>)"
proof -
  have "planned only min_elems nodes (tg_node t, nd_name node, q16) (nd_name node, n, k, rel)"
    unfolding planned_def using node t rel nk by (intro bexI [of _ node]) auto
  moreover have "16 * (n * k + n * (k div GROUP) * 2) = 9 * (n * k * 2)"
    using node(2) nk by (intro group_bytes) (simp add: allowed_def)
  ultimately show ?thesis using inv by (simp add: plan_inv_def list_all2_appendI)
qed

lemma plan_node_inv:
  assumes inv: "plan_inv only min_elems nodes seen st" and node: "node \<in> set nodes"
    and run: "plan_node only min_elems node st = Inr st'"
  shows "plan_inv only min_elems nodes (seen + (if eligible min_elems node = None then 0 else 1)) st'"
proof (cases "eligible min_elems node")
  case None
  with inv run show ?thesis by (simp add: plan_node_def)
next
  case (Some t)
  show ?thesis
  proof (cases "\<exists>why. st' = keep_node node why st")
    case True
    with Some keep_node_inv [OF inv] show ?thesis by auto
  next
    case False
    with run Some have "allowed only min_elems node"
      by (auto simp: plan_node_def allowed_def Let_def split: if_splits)
    moreover from run Some False obtain gs q16 rel where
      "recover_groups (f64 (1 / 1000)) 4096 (nd_shape node ! 1) (nd_data node) = Inr gs"
      "q16 = map (map (\<lambda>(q, s, ok). (q, to_half s))) gs"
      "rel = relative_deviation (map decode_u8 q16) (nd_data node)" "\<not> half_above rel REL_MAX"
      and st': "st' = (fst st @ [(tg_node t, nd_name node, q16)],
        (snd st)\<lparr>converted := converted (snd st) @ [(nd_name node, nd_shape node ! 0, nd_shape node ! 1, rel)],
                 f16_bytes := f16_bytes (snd st) + nd_shape node ! 0 * nd_shape node ! 1 * 2,
                 u8_bytes := u8_bytes (snd st) + (nd_shape node ! 0 * nd_shape node ! 1 + nd_shape node ! 0 * (nd_shape node ! 1 div GROUP) * 2)\<rparr>)"
      by (auto simp: plan_node_def Let_def rbind_Inr_iff split: if_splits)
    from guard_passed [OF this(1-4)] have "decodes_close q16 (nd_data node) \<or> rel = NotANumber \<and> (\<exists>g \<in> set (concat q16). overflowed g)" .
    ultimately show ?thesis using convert_inv [OF inv node _ Some] Some st' by simp
  qed
qed

lemma plan_nodes_inv:
  assumes "plan_inv only min_elems nodes seen st" "set todo \<subseteq> set nodes" "plan_nodes only min_elems todo st = Inr st'"
  shows "plan_inv only min_elems nodes (seen + length (filter (\<lambda>x. eligible min_elems x \<noteq> None) todo)) st'"
  using assms
proof (induction todo arbitrary: seen st)
  case (Cons node todo)
  from Cons.prems(3) obtain st1 where a: "plan_node only min_elems node st = Inr st1" "plan_nodes only min_elems todo st1 = Inr st'"
    by (auto simp: rbind_Inr_iff)
  have "plan_inv only min_elems nodes (seen + (if eligible min_elems node = None then 0 else 1)) st1"
    using plan_node_inv [OF Cons.prems(1) _ a(1)] Cons.prems(2) by simp
  from Cons.IH [OF this _ a(2)] Cons.prems(2) show ?case by (cases "eligible min_elems node") simp_all
qed simp

subsection \<open>Properties\<close>

text \<open>
  C33. A group of integer multiples of a scale, the integers in -32..31 and not all zero, is recovered exactly: the codes are in 0..63,
  code minus zero point times the stored scale is the weight with no error at all, and the codes have no common
  divisor, so the scale is the coarsest one. The scale times the common divisor of the integers has to be a single of at least
  \<open>2^-99\<close>, as the product of a half and a small integer in a Q6_K block is; the tolerance may be anything from \<open>2^-14\<close> to \<open>1/64\<close>.
\<close>

theorem exact_group_roundtrip:
  assumes "\<forall>k \<in> set q. -32 \<le> k \<and> k \<le> 31" "\<exists>k \<in> set q. k \<noteq> 0" "1 / 2 ^ 99 \<le> \<bar>s\<bar>"
    and "f32 (s * of_int (Gcd (set q))) = s * of_int (Gcd (set q))" "1 / 2 ^ 14 \<le> tol" "tol \<le> 1 / 64"
  shows "\<exists>qs r. recover_group tol (map (\<lambda>k. s * of_int k) q) = (qs, r, True) \<and> (\<forall>x \<in> set qs. 0 \<le> x \<and> x \<le> 63) \<and>
    map (\<lambda>x. of_int (x - ZP) * r) qs = map (\<lambda>k. s * of_int k) q \<and> Gcd (set (map (\<lambda>x. x - ZP) qs)) = 1"
proof -
  have "Gcd (set q) \<noteq> 0" using assms(2) by auto
  then have d: "divisor q = Gcd (set q)" by (simp add: divisor_Gcd)
  obtain \<tau> :: int where t: "\<tau> = 1 \<or> \<tau> = -1" "\<forall>k \<in> set q. -32 \<le> \<tau> * (k div divisor q) \<and> \<tau> * (k div divisor q) \<le> 31"
    and rec: "recover_group tol (map (\<lambda>k. s * of_int k) q) = (map (\<lambda>k. \<tau> * (k div divisor q) + ZP) q, of_int \<tau> * s * of_int (divisor q), True)"
    using exact_group [OF assms(1-3) _ assms(5,6), unfolded d, OF assms(4)] d by metis
  have code: "of_int (\<tau> * (k div divisor q)) * (of_int \<tau> * s * of_int (divisor q)) = s * of_int k" if "k \<in> set q" for k
    using exact_code [OF divisor_dvd [OF that] t(1)] .
  have "Gcd (set (map (\<lambda>x. x - ZP) (map (\<lambda>k. \<tau> * (k div divisor q) + ZP) q))) = 1"
    using coarse_codes [OF assms(2) t(1)] by (simp add: o_def d image_image)
  moreover have "map (\<lambda>x. of_int (x - ZP) * (of_int \<tau> * s * of_int (divisor q))) (map (\<lambda>k. \<tau> * (k div divisor q) + ZP) q) = map (\<lambda>k. s * of_int k) q"
    using code by simp
  moreover have "\<forall>x \<in> set (map (\<lambda>k. \<tau> * (k div divisor q) + ZP) q). 0 \<le> x \<and> x \<le> 63" using t(2) by (auto simp: ZP_def)
  ultimately show ?thesis using rec by blast
qed

text \<open>
  C32. A group a Q6_K block decodes to is always recovered: sixteen integer multiples of a scale of either
  sign, the integers in -32..31 and each product rounded to single precision, fit some step of the
  search, so the pass returns codes and a scale that reproduce every weight to within the
  tolerance.
\<close>

theorem q6k_group_recovers:
  assumes "multiples s q ws" "\<exists>k \<in> set q. k \<noteq> 0" "1 / 2 ^ 99 \<le> \<bar>s\<bar>" "1 / 2 ^ 14 \<le> tol" "tol \<le> 1"
  shows "\<exists>qs r. recover_group tol ws = (qs, r, True) \<and> length qs = length q \<and>
    list_all2 (\<lambda>x w. 0 \<le> x \<and> x \<le> 63 \<and> \<bar>w - of_int (x - ZP) * r\<bar> \<le> (tol + 1 / 2 ^ 18) * \<bar>r\<bar>) qs ws"
proof -
  from multiples_recover(1) [OF assms(1-4)] obtain qs r where rec: "recover_group tol ws = (qs, r, True)" by blast
  have tol: "0 \<le> tol" using assms(4) by (meson order_trans zero_le_divide_1_iff zero_le_numeral zero_le_power)
  note w = recovered_weight [OF multiples_recover(2) [OF assms(1-4)] tol assms(5) rec]
  have "ws \<noteq> []" using assms(1,2) by (auto simp: multiples_def)
  then have "length qs = length ws" using w [of 0] by simp
  with w rec multiples_length [OF assms(1)] show ?thesis by (auto simp: list_all2_conv_all_nth)
qed

text \<open>
  C34. The plan converts only what the pass may convert. Every planned projection comes from an eligible
  constant of the graph that is neither a shared expert nor an attention key or value, has a listed
  shape and rows that are a multiple of sixteen; every weight it decodes to is finite and within \<open>2^-9\<close> of the original,
  unless the scale of some group with a zero weight overflows float16: the deviation is then NaN, and the guard
  lets it pass. Every eligible constant is either converted or named among the kept, and the planned codes and scales
  take nine sixteenths of the bytes of the f16 form.
\<close>

theorem dense_plan_invariant:
  assumes "dense_plan env min_elems nodes = Inr (plans, rep)"
  shows "list_all2 (planned (shapes_only env) min_elems nodes) plans (converted rep) \<and>
    length (converted rep) + length (kept rep) = length (filter (\<lambda>x. eligible min_elems x \<noteq> None) nodes) \<and>
    16 * u8_bytes rep = 9 * f16_bytes rep"
proof -
  have "plan_inv (shapes_only env) min_elems nodes 0 ([], \<lparr>converted = [], kept = [], f16_bytes = 0, u8_bytes = 0\<rparr>)"
    by (simp add: plan_inv_def)
  from plan_nodes_inv [OF this order_refl assms [unfolded dense_plan_def]] show ?thesis by (simp add: plan_inv_def)
qed

subsection \<open>Witnesses\<close>

lemma sample_multiples: "multiples (-1 / 2) [31, -32, 5] [-31 / 2, 16, -5 / 2]"
  by (simp add: multiples_def)

theorem q6k_group_recovers_witness:
  "\<exists>qs r. recover_group (1 / 1000) [-31 / 2, 16, -5 / 2] = (qs, r, True) \<and> length qs = 3"
  using q6k_group_recovers [OF sample_multiples, of "1 / 1000"] by auto

theorem exact_group_roundtrip_witness:
  "\<exists>qs r. recover_group (1 / 1000) (map (\<lambda>k. -3 * of_int k) [1, -32, 4]) = (qs, r, True) \<and>
     map (\<lambda>x. of_int (x - ZP) * r) qs = [-3, 96, -12]"
proof -
  have "Gcd (set [1, -32, 4 :: int]) = 1" by simp
  then have "f32 (-3 * of_int (Gcd (set [1, -32, 4 :: int]))) = -3 * of_int (Gcd (set [1, -32, 4 :: int]))"
    using f32_of_int [of "-3"] by simp
  from exact_group_roundtrip [OF _ _ _ this, of "1 / 1000"] show ?thesis by auto
qed

definition zero_projection :: dense_node where
  "zero_projection = \<lparr>nd_type = ''Constant'', nd_f32 = True, nd_shape = [1, 16],
     nd_targets = [\<lparr>tg_node = 7, tg_type = ''MatMul'', tg_index = 1, tg_transpose_a = False, tg_transpose_b = True\<rparr>],
     nd_name = ''o_proj'', nd_data = [replicate 16 0]\<rparr>"

lemma zero_group: "recover_group tol (replicate 16 0) = (replicate 16 ZP, 0, True)"
  by (simp add: recover_group_def Let_def coarsest_alt ZP_def map_replicate_const)

lemma half_zero: "to_half 0 = Finite 0"
  by (simp add: to_half_def)

lemma decode_zero: "decode_u8 [(replicate 16 ZP, Finite 0)] = replicate 16 (Finite 0)"
  by (simp add: decode_u8_def half_zero)

lemma fold_max_zero: "(half_max (Finite 0) ^^ n) (Finite 0) = Finite 0"
  by (induction n) auto

lemma zero_deviation: "relative_deviation [replicate 16 (Finite 0)] [replicate 16 0] = Finite 0"
  by (simp add: relative_deviation_def zip_replicate map_replicate fold_max_zero)

lemma no_shapes: "shapes_only [] = []"
  by code_simp

lemma plain_name: "\<not> startswith ''o_proj'' ''shared_expert''" "\<not> ends_with ''o_proj'' ''/k_proj''" "\<not> ends_with ''o_proj'' ''/v_proj''"
  by code_simp+

lemma zero_planned:
  "dense_plan [] 16 [zero_projection] = Inr ([(7, ''o_proj'', [[(replicate 16 ZP, Finite 0)]])],
     \<lparr>converted = [(''o_proj'', 1, 16, Finite 0)], kept = [], f16_bytes = 32, u8_bytes = 18\<rparr>)"
proof -
  have "recover_groups (f64 (1 / 1000)) 4096 16 [replicate 16 0] = Inr [[(replicate 16 ZP, 0, True)]]"
    using recover_groups_rows [of 4096 16 "[replicate 16 0]" "f64 (1 / 1000)"] by (simp add: GROUP_def chunks_exact zero_group)
  then show ?thesis
    by (simp add: dense_plan_def plan_node_def eligible_def zero_projection_def GROUP_def no_shapes plain_name
        decode_zero zero_deviation half_zero REL_MAX_def Let_def)
qed

theorem dense_plan_invariant_witness:
  "planned [] 16 [zero_projection] (7, ''o_proj'', [[(replicate 16 ZP, Finite 0)]]) (''o_proj'', 1, 16, Finite 0)"
  using dense_plan_invariant [OF zero_planned] by (simp only: no_shapes list_all2_Cons dense_report.simps)

subsection \<open>A scale that overflows\<close>

text \<open>One weight of 65536 beside zeros: the group is recovered, its scale is an infinity in float16, the zeros decode to NaN, and the
  projection is converted although nothing it decodes to is close.\<close>

definition huge_codes :: "int list" where "huge_codes = 1 # replicate 15 0"

definition huge_projection :: dense_node where
  "huge_projection = zero_projection\<lparr>nd_data := [map (\<lambda>k. 65536 * of_int k) huge_codes]\<rparr>"

lemma fold_max_has_NaN: "NotANumber \<in> set ds \<or> a = NotANumber \<Longrightarrow> fold half_max ds a = NotANumber"
proof (induction ds arbitrary: a)
  case (Cons d ds)
  have "half_max x NotANumber = NotANumber" for x by (cases x) auto
  with Cons show ?case by auto
qed simp

lemma huge_scale: "to_half 65536 = Infinite False" "to_half (- 65536) = Infinite True"
proof -
  have "f16 65536 = 65536" unfolding f16_def by (rule fl_exact [of _ 1 16]) simp_all
  moreover from this have "f16 (- 65536) = - 65536" using fl_minus [of 11 "- 24" 65536] by (simp add: f16_def)
  ultimately show "to_half 65536 = Infinite False" "to_half (- 65536) = Infinite True" by (simp_all add: to_half_def)
qed

lemma huge_group:
  obtains \<tau> :: int where "\<tau> = 1 \<or> \<tau> = -1"
    "recover_group (f64 (1 / 1000)) (map (\<lambda>k. 65536 * of_int k) huge_codes) = ((\<tau> + ZP) # replicate 15 ZP, of_int \<tau> * 65536, True)"
proof -
  have g: "divisor huge_codes = 1" by (simp add: huge_codes_def divisor_Gcd)
  have "\<bar>f64 (1 / 1000) - 1 / 1000\<bar> \<le> 1 / 2 ^ 48" by (rule f64_small) simp
  then have "1 / 1000 - 1 / 2 ^ 48 \<le> f64 (1 / 1000)" "f64 (1 / 1000) \<le> 1 / 1000 + 1 / 2 ^ 48" by linarith+
  then have tol: "1 / 2 ^ 14 \<le> f64 (1 / 1000)" "f64 (1 / 1000) \<le> 1 / 64" by simp_all
  have f: "f32 (65536 * of_int (divisor huge_codes)) = 65536 * of_int (divisor huge_codes)" using f32_of_int [of 65536] by (simp add: g)
  have q: "\<forall>k \<in> set huge_codes. -32 \<le> k \<and> k \<le> 31" "\<exists>k \<in> set huge_codes. k \<noteq> 0" "1 / 2 ^ 99 \<le> \<bar>65536 :: rat\<bar>"
    by (auto simp: huge_codes_def)
  obtain \<tau> :: int where t: "\<tau> = 1 \<or> \<tau> = -1" and r: "recover_group (f64 (1 / 1000)) (map (\<lambda>k. 65536 * of_int k) huge_codes)
      = (map (\<lambda>k. \<tau> * (k div divisor huge_codes) + ZP) huge_codes, of_int \<tau> * 65536 * of_int (divisor huge_codes), True)"
    by (rule exact_group [OF q f tol])
  have "map (\<lambda>k. \<tau> * (k div divisor huge_codes) + ZP) huge_codes = (\<tau> + ZP) # replicate 15 ZP"
    by (simp add: g) (simp add: huge_codes_def)
  with t r that show thesis by (simp add: g)
qed

lemma overflow_converted:
  "\<exists>plans rep. dense_plan [] 16 [huge_projection] = Inr (plans, rep) \<and> converted rep = [(''o_proj'', 1, 16, NotANumber)]"
proof -
  let ?w = "map (\<lambda>k. 65536 * of_int k) huge_codes"
  obtain \<tau> :: int where t: "\<tau> = 1 \<or> \<tau> = -1"
    and g: "recover_group (f64 (1 / 1000)) ?w = ((\<tau> + ZP) # replicate 15 ZP, of_int \<tau> * 65536, True)" by (rule huge_group)
  have l: "length ?w = 16" by (simp add: huge_codes_def)
  have r: "recover_groups (f64 (1 / 1000)) 4096 16 [?w] = Inr [[((\<tau> + ZP) # replicate 15 ZP, of_int \<tau> * 65536, True)]]"
    using recover_groups_rows [of 4096 16 "[?w]" "f64 (1 / 1000)"] l by (simp add: GROUP_def chunks_exact g)
  obtain neg where n: "to_half (of_int \<tau> * 65536) = Infinite neg" using t huge_scale by (metis mult_1 mult_minus1 of_int_1 of_int_minus)
  have "decode_u8 [((\<tau> + ZP) # replicate 15 ZP, Infinite neg)] ! 1 = NotANumber" by (simp add: decode_u8_def)
  moreover have "length (decode_u8 [((\<tau> + ZP) # replicate 15 ZP, Infinite neg)]) = 16" by (simp add: decode_u8_def)
  ultimately have "NotANumber \<in> set (map deviation (zip (decode_u8 [((\<tau> + ZP) # replicate 15 ZP, Infinite neg)]) ?w))"
    using l by (force simp: in_set_conv_nth intro!: exI [of _ 1])
  then have d: "relative_deviation [decode_u8 [((\<tau> + ZP) # replicate 15 ZP, Infinite neg)]] [?w] = NotANumber"
    by (simp add: relative_deviation_def fold_max_has_NaN del: set_map)
  show ?thesis
    using r d n by (simp add: dense_plan_def plan_node_def eligible_def huge_projection_def zero_projection_def GROUP_def no_shapes plain_name Let_def)
qed

end
