(* ===== verification/Spec2Isabelle.thy ===== *)
theory Spec2Isabelle
  imports Census_Properties Policy_Properties Convergence_Properties Fill_Properties Native_Properties Store_Properties Ngram_Properties Table_Properties Cache_Properties Acceptance_Properties Kld_Properties Oracle_Properties Fetch_Properties Dense_Properties
begin

text \<open>
  A verification of the offline Python tools of arcint, an inference server for mixture-of-experts
  language models on Intel GPUs. The tools decide which experts a card keeps resident, write the files
  the server loads, and check what was measured; the server itself is C++ and not covered here.

  \<^bold>\<open>The parts and how they work together\<close>

  A served model leaves a routing trace. The census (\<open>tools/hot_set_census.py\<close>) counts the experts
  of a trace, converts call traces to the row format, and selects a hot set per layer as a seed file. The
  LRU replay (\<open>tools/expert_lru_replay.py\<close>), the policy comparison (\<open>tools/expert_policy_compare.py\<close>) and the
  convergence measurement (\<open>tools/expert_convergence.py\<close>) score residency policies on the same traces. The expert
  fill (\<open>tools/q4e/expert_fill.py\<close>, with the block formats of \<open>tools/q4e/native_blocks.py\<close>) turns checkpoint rows into
  the bytes the graph serves, the dense pass (\<open>tools/q4e/dense_u8.py\<close>) recovers codes and scales for the dense
  projections, and the expert store (\<open>tools/q4e/expert_store.py\<close>) writes one file for each expert
  that a seed file pins. The n-gram tools (\<open>tools/q4e/ngram_ids.py\<close>, \<open>tools/gen_ngram_vectors.py\<close>,
  \<open>tools/synthetic_ngram_table.py\<close>) compute table rows, the test vectors for them, and a table. The prefix-cache
  replay (\<open>tools/cachesim.py\<close>) simulates the cache of the server on recorded sessions. The acceptance
  enumeration (\<open>tools/acceptance_manifest.py\<close>) checks and renders the list of release checks; the reference-logit
  capture (\<open>tools/kld_capture.py\<close>), the selector oracle (\<open>tools/dflash_oracle.py\<close>) and the tensor fetch
  (\<open>tools/fetch_safetensors_tensors.py\<close>) guard what goes into a measurement.

  \<^bold>\<open>Conventions\<close>

  \<^item> A Python exception is an \<open>Inl\<close> of type \<open>err\<close>, and \<open>rbind\<close> and \<open>map_res\<close> sequence fallible code
    (\<open>Prelude\<close>). Dictionaries are association lists in insertion order.
  \<^item> Python integers are \<open>int\<close>; 64-bit mixing is written with \<open>mod 2 ^ 64\<close> or with words. Floats are
    rationals, and every rounding of the source is an application of \<open>f64\<close>, \<open>f32\<close> or \<open>f16\<close> (\<open>Py_Float\<close>: round to nearest,
    ties to even, with the exponent range below; overflow to infinity, NaN and signed zeros are outside the model unless a theory says
    otherwise, as \<open>Native_Blocks\<close>, \<open>Expert_Store\<close> and \<open>Dense_U8\<close> do).
  \<^item> Text is a list of characters (\<open>Py_Text\<close>); a disk is a map from paths to contents, and an operation that
    writes returns the new disk also when it fails.
  \<^item> Code that is not in the repository is an argument: digests, JSON codecs, the gguf reader, the reference package of the
    n-gram ids, \<open>git\<close>, the network and the reference program. What a theorem needs of it is a named premise
    (\<open>streaming\<close>, \<open>log_codec\<close>, \<open>reads_back\<close>, \<open>hash_ok\<close>), and the theorem has an instance in which it holds.

  \<^bold>\<open>Theories\<close>

  \<^item> \<open>Prelude\<close>, \<open>Py_Text\<close>, \<open>Py_Float\<close>: results, dictionaries, chunks, ranked selection; strip, split, join, int and str;
    the locale \<open>rounding\<close>, interpreted for the three float widths.
  \<^item> \<open>Hot_Set_Census\<close>, \<open>Census_Formats\<close>, \<open>Census_Facts\<close>, \<open>Census_Calls\<close>, \<open>Census_Commands\<close>, \<open>Census_Plateau\<close>, \<open>Census_Properties\<close>: the
    census. The locale \<open>row_format\<close> is a line format whose rows read back; \<open>frequency_selection\<close> is a choice by
    frequency and why it is best. Shown: files written by one subcommand are read back by the next, both routes
    from a call trace give one seed, the hot set covers most, counts are complete, the plateau search.
  \<^item> \<open>Lru_Replay\<close>, \<open>Policy_Compare\<close>, \<open>Policy_Facts\<close>, \<open>Policy_Properties\<close>, \<open>Convergence\<close>, \<open>Convergence_Facts\<close>, \<open>Convergence_Properties\<close>: the
    three replay tools. The locales \<open>lru_cache\<close> and \<open>layered_lru\<close> state one access to an LRU table and are interpreted for each of the
    tools' tables, so that the closed form of the hits, monotonicity in the capacity and the decomposition by layer are proved once.
  \<^item> \<open>Expert_Quant\<close>, \<open>Expert_Fill\<close>, \<open>Fill_Properties\<close>, \<open>Native_Tables\<close>, \<open>Native_Blocks\<close>, \<open>Native_Facts\<close>, \<open>Native_Grid\<close>, \<open>Native_Fill\<close>,
    \<open>Native_Properties\<close>: the fill. The locale \<open>logged_filler\<close> is interpreted for the u4 and the native filler. Shown: the error bound of the
    quantiser with all float roundings, packing reads back, chunking does not matter, the native decoders are exact.
  \<^item> \<open>Expert_Store\<close>, \<open>Store_Facts\<close>, \<open>Store_Properties\<close>: the store. Shown: a manifest describes the bytes that are on the disk, the
    writer succeeds on well-shaped input, only files of the store change, a seed of the census pins its hot set.
  \<^item> \<open>Ngram_Ids\<close>, \<open>Ngram_Facts\<close>, \<open>Ngram_Vectors\<close>, \<open>Ngram_Vector_Facts\<close>, \<open>Ngram_Properties\<close>: row ids. Shown: the incremental computation refines
    the whole one, ids stay in the part of the table of their head, both transcriptions agree.
  \<^item> \<open>Synthetic_Table\<close>, \<open>Table_Facts\<close>, \<open>Table_Properties\<close>: the table; the locale \<open>block_format\<close> is interpreted for three block formats.
    Shown: the emitted file is a header that parses and a payload of the announced size; the half-float conversion rounds to nearest.
  \<^item> \<open>Cache_Sim\<close>, \<open>Cache_Facts\<close>, \<open>Cache_Properties\<close>: the cache replay as a step relation \<open>reached\<close>, with its invariants (accounting, budget,
    pool) by rule induction.
  \<^item> \<open>Acceptance_Manifest\<close>, \<open>Acceptance_Facts\<close>, \<open>Acceptance_Properties\<close>: the enumeration. Shown: the schema check accepts exactly the cells of a
    declarative predicate, accepted cells render, the drift check passes after a regeneration.
  \<^item> \<open>Kld_Capture\<close>, \<open>Kld_Facts\<close>, \<open>Kld_Properties\<close>: the capture. Shown: the recommended window is best among all, which arguments are refused, the defaults among them, a manifest
    describes the capture on the disk.
  \<^item> \<open>Dflash_Oracle\<close>, \<open>Oracle_Facts\<close>, \<open>Oracle_Properties\<close>: the selector oracle. Shown: what the sanity gate accepts, that a report never shows an oracle
    below what was served, that positions add up along an unbroken chain, and that the self-test passes.
  \<^item> \<open>Fetch_Safetensors\<close>, \<open>Fetch_Facts\<close>, \<open>Fetch_Properties\<close>: the fetch. The locale \<open>range_server\<close> is what the reader relies on of a server. Shown: which response
    a request returns, that a finished fetch resumes without a request, that an assembled file is read like a shard.
  \<^item> \<open>Dense_U8\<close>, \<open>Dense_Facts\<close>, \<open>Dense_Exact\<close>, \<open>Dense_Properties\<close>: the dense projections in u8. The vectorised search is one search per group, and float16
    values are finite, infinite or NaN. Shown: a group that a Q6_K block decodes to is always recovered, and exactly where the products are exact; the batches of
    rows do not matter; which projections a plan converts, and that a scale which overflows float16 passes its guard.

  \<^bold>\<open>Loops, bounds and fuel\<close>

  No definition takes fuel. The loops of the sources are structural recursions or functions with a measure (the doubling of the
  plateau prefixes, the two eviction loops, the chunked read of a digest). The walk to the root of a session tree may run for ever; it
  is a \<open>partial_function (option)\<close>, and \<open>chain_walk_ends\<close> says when it returns and when it does not. The four attempts of a request are the default
  of the source.

  \<^bold>\<open>Not modelled\<close>

  Printed reports, argument parsing and directories. In the census, the two subcommands that only print; in the cache replay, reading the transcripts and
  the least-squares estimate; in the dense pass, splicing the planned chain into the graph. The emitters of OpenVINO graphs, the exporters, the boot and the probes, whose behaviour is that of OpenVINO, torch and
  transformers; the KL divergences, which are logarithms and exponentials in floating point; the C++ server, the patches and the vendored
  code.
\<close>

end
